(* ===== verification/Prelude.thy ===== *)
theory Prelude
  imports Main "HOL-Library.Word" "HOL-Library.Multiset" "HOL-Library.Monad_Syntax"
begin

text \<open>
  Vocabulary shared by every component: the machine types of the Go sources, Go's two ways to
  fail (an \<open>error\<close> value, modelled by \<open>option\<close>, and a panic, modelled by the left summand of
  \<open>'a go\<close>), the collections the component proofs add to the simplifier, and the generic lemmas
  on lists and words that more than one component uses.
\<close>

type_synonym byte = "8 word"
type_synonym u16 = "16 word"
type_synonym u32 = "32 word"
type_synonym bytes = "byte list"

section \<open>Panics\<close>

text \<open>
  What stops a goroutine of the program: the run-time panics of Go (index or slice bounds, nil
  dereference, a failed type assertion), an explicit \<open>panic\<close>, and \<open>log.Fatalf\<close>, which ends
  the process.
\<close>

datatype panic = Bounds | NilDeref | TypeAssertion | Explicit string | Fatal string

type_synonym 'a go = "panic + 'a"

fun go_bind :: "'a go \<Rightarrow> ('a \<Rightarrow> 'b go) \<Rightarrow> 'b go" where
  "go_bind (Inl e) f = Inl e"
| "go_bind (Inr x) f = f x"

text \<open>Go's \<open>for _, x := range xs\<close> over a body that may panic.\<close>

fun go_fold :: "('a \<Rightarrow> 's \<Rightarrow> 's go) \<Rightarrow> 'a list \<Rightarrow> 's \<Rightarrow> 's go" where
  "go_fold f [] s = Inr s"
| "go_fold f (x # xs) s = go_bind (f x s) (go_fold f xs)"

text \<open>Filling a slice element by element with a call that may panic.\<close>

fun go_map :: "('a \<Rightarrow> 'b go) \<Rightarrow> 'a list \<Rightarrow> 'b list go" where
  "go_map f [] = Inr []"
| "go_map f (x # xs) = go_bind (f x) (\<lambda>y. go_bind (go_map f xs) (\<lambda>ys. Inr (y # ys)))"

text \<open>Indexing a slice: \<open>xs[i]\<close> panics out of range.\<close>

definition go_index :: "'a list \<Rightarrow> nat \<Rightarrow> 'a go" where
  "go_index xs i = (if i < length xs then Inr (xs ! i) else Inl Bounds)"

named_theorems codec \<open>encoders and decoders: reading back what was just written\<close>
named_theorems seg \<open>facts on segments and blocks\<close>
named_theorems go \<open>evaluation of computations that may panic\<close>

lemma go_bind_Inr_iff [simp]: "go_bind m f = Inr y \<longleftrightarrow> (\<exists>x. m = Inr x \<and> f x = Inr y)"
  by (cases m) auto

lemma go_bind_Inl_iff: "go_bind m f = Inl e \<longleftrightarrow> m = Inl e \<or> (\<exists>x. m = Inr x \<and> f x = Inl e)"
  by (cases m) auto

lemma go_index_in [simp, go]: "i < length xs \<Longrightarrow> go_index xs i = Inr (xs ! i)"
  by (simp add: go_index_def)

lemma go_index_out [simp, go]: "\<not> i < length xs \<Longrightarrow> go_index xs i = Inl Bounds"
  by (simp add: go_index_def)

lemma go_index_Inr_iff: "go_index xs i = Inr x \<longleftrightarrow> i < length xs \<and> x = xs ! i"
  by (auto simp: go_index_def)

lemma go_fold_append:
  "go_fold f (xs @ ys) s = go_bind (go_fold f xs s) (go_fold f ys)"
proof (induction xs arbitrary: s)
  case Nil
  then show ?case by simp
next
  case (Cons x xs)
  then show ?case by (cases "f x s") auto
qed

text \<open>An invariant that every iteration keeps holds after the loop.\<close>

lemma go_fold_invariant:
  assumes "go_fold f xs s = Inr t" and "P s"
    and "\<And>x s t. x \<in> set xs \<Longrightarrow> P s \<Longrightarrow> f x s = Inr t \<Longrightarrow> P t"
  shows "P t"
  using assms
proof (induction xs arbitrary: s)
  case Nil
  then show ?case by simp
next
  case (Cons x xs)
  from Cons.prems(1) obtain u where "f x s = Inr u" and "go_fold f xs u = Inr t" by auto
  with Cons show ?case by (metis list.set_intros)
qed

text \<open>A loop whose body never panics is a plain fold.\<close>

lemma go_fold_total:
  "(\<And>x s. x \<in> set xs \<Longrightarrow> f x s = Inr (g x s)) \<Longrightarrow> go_fold f xs s = Inr (fold g xs s)"
  by (induction xs arbitrary: s) auto

lemma go_map_total: "(\<And>x. x \<in> set xs \<Longrightarrow> f x = Inr (g x)) \<Longrightarrow> go_map f xs = Inr (map g xs)"
  by (induction xs) auto

lemma go_map_length: "go_map f xs = Inr ys \<Longrightarrow> length ys = length xs"
  by (induction xs arbitrary: ys) auto

section \<open>Lists and words\<close>

lemma map_update_upt: "i < length xs \<Longrightarrow> xs[i := v] = take i xs @ v # drop (Suc i) xs"
  by (rule upd_conv_take_nth_drop)

lemma unat_of_nat_lt: "n < 2 ^ LENGTH('a) \<Longrightarrow> unat (of_nat n :: 'a::len word) = n"
  by (simp add: unat_of_nat take_bit_nat_eq_self)

lemma unat_u32_lt: "unat (w :: u32) < 4294967296"
  using unsigned_less [of w] by simp

lemma word_of_unat: "unat w = n \<Longrightarrow> w = of_nat n"
  by auto

text \<open>The order in which \<open>range\<close> visits a map is open: \<open>in_order ord m\<close> is \<open>m\<close> in the order \<open>ord\<close> picks.\<close>

definition in_order :: "('a list \<Rightarrow> 'a list) \<Rightarrow> 'a list \<Rightarrow> 'a list" where
  "in_order ord xs = (if mset (ord xs) = mset xs then ord xs else xs)"

lemma mset_in_order [simp]: "mset (in_order ord xs) = mset xs"
  by (simp add: in_order_def)

lemma set_in_order [simp]: "set (in_order ord xs) = set xs"
  using mset_in_order by (rule mset_eq_setD)

lemma map_in_order_distinct [simp]: "distinct (map f (in_order ord xs)) \<longleftrightarrow> distinct (map f xs)"
  by (rule mset_eq_imp_distinct_iff) simp

lemma distinct_map_filterI: "distinct (map f xs) \<Longrightarrow> distinct (map f (filter P xs))"
  by (induction xs) auto

end
