(* ===== verification/Interfaces.thy ===== *)
theory Interfaces
  imports Prelude
begin

text \<open>
  The contracts between components, as locales. \<open>codec\<close>: a writer and a parser that agree,
  which the framing layer needs of every packet type. \<open>kv_store\<close>: the map interface that the
  block map and the session map offer the controller. \<open>machine\<close>: a step relation with an
  invariant, as the scheduler, the controller, the membership service, the topics and the ledger are.
  \<open>refinement\<close>: a machine that implements an abstract one, as the download of a block does.
\<close>

section \<open>Writers and parsers\<close>

text \<open>
  \<open>enc\<close> appends an encoding, \<open>dec\<close> consumes one from the front of its input and returns
  the rest; \<open>ok\<close> is the set of values the wire format can carry.
\<close>

locale codec =
  fixes enc :: "'a \<Rightarrow> bytes"
    and dec :: "bytes \<Rightarrow> ('a \<times> bytes) option"
    and ok :: "'a \<Rightarrow> bool"
  assumes dec_enc: "ok x \<Longrightarrow> dec (enc x @ r) = Some (x, r)"
begin

lemma dec_enc_exact: "ok x \<Longrightarrow> dec (enc x) = Some (x, [])"
  using dec_enc [of x "[]"] by simp

text \<open>Two encodings that start the same byte stream are the same value: the code is prefix free.\<close>

lemma enc_prefix_free:
  assumes "ok x" and "ok y" and "enc x @ r = enc y @ s"
  shows "x = y \<and> r = s"
proof -
  from dec_enc [OF assms(1), of r] dec_enc [OF assms(2), of s] have "Some (x, r) = Some (y, s)"
    unfolding assms(3) by (rule trans [OF sym])
  then show ?thesis by simp
qed

lemma enc_inj: "ok x \<Longrightarrow> ok y \<Longrightarrow> enc x = enc y \<Longrightarrow> x = y"
  using enc_prefix_free [of x y "[]" "[]"] by simp

end

section \<open>Key-value stores\<close>

locale kv_store =
  fixes get :: "'m \<Rightarrow> 'k \<Rightarrow> 'v option"
    and put :: "'m \<Rightarrow> 'k \<Rightarrow> 'v \<Rightarrow> 'm"
    and del :: "'m \<Rightarrow> 'k \<Rightarrow> 'm"
    and inv :: "'m \<Rightarrow> bool"
  assumes get_put: "inv m \<Longrightarrow> get (put m k v) k' = (if k' = k then Some v else get m k')"
    and get_del: "inv m \<Longrightarrow> get (del m k) k' = (if k' = k then None else get m k')"
    and inv_put: "inv m \<Longrightarrow> inv (put m k v)"
    and inv_del: "inv m \<Longrightarrow> inv (del m k)"
begin

lemma put_put_get: "inv m \<Longrightarrow> get (put (put m k v) k w) k' = get (put m k w) k'"
  by (simp add: get_put inv_put)

lemma put_commute_get:
  "inv m \<Longrightarrow> k \<noteq> l \<Longrightarrow> get (put (put m k v) l w) k' = get (put (put m l w) k v) k'"
  by (simp add: get_put inv_put)

lemma del_put_get: "inv m \<Longrightarrow> get (del (put m k v) k) k' = get (del m k) k'"
  by (simp add: get_put get_del inv_put inv_del)

end

section \<open>State machines with an invariant\<close>

locale machine =
  fixes step :: "'s \<Rightarrow> 's \<Rightarrow> bool"
    and inv :: "'s \<Rightarrow> bool"
  assumes inv_step: "inv s \<Longrightarrow> step s t \<Longrightarrow> inv t"
begin

lemma inv_steps: "step\<^sup>*\<^sup>* s t \<Longrightarrow> inv s \<Longrightarrow> inv t"
  by (induction rule: rtranclp_induct) (auto intro: inv_step)

end

text \<open>A machine whose every step lowers a measure, so that it stops.\<close>

locale terminating_machine = machine step inv
  for step :: "'s \<Rightarrow> 's \<Rightarrow> bool" and inv :: "'s \<Rightarrow> bool" +
  fixes size_of :: "'s \<Rightarrow> nat"
  assumes step_decreases: "inv s \<Longrightarrow> step s t \<Longrightarrow> size_of t < size_of s"
begin

lemma steps_bounded: "(step ^^ n) s t \<Longrightarrow> inv s \<Longrightarrow> n + size_of t \<le> size_of s"
proof (induction n arbitrary: t)
  case 0
  then show ?case by simp
next
  case (Suc n)
  from Suc.prems(1) obtain u where u: "(step ^^ n) s u" "step u t" by auto
  then have "inv u" using Suc.prems(2) by (meson inv_steps rtranclp_power)
  with Suc.IH [OF u(1) Suc.prems(2)] step_decreases [of u t] u(2) show ?case by simp
qed

text \<open>If every state that is not final can step, a final state is reached.\<close>

lemma reaches_final:
  assumes "inv s" and progress: "\<And>s. inv s \<Longrightarrow> \<not> final s \<Longrightarrow> \<exists>t. step s t"
  shows "\<exists>t. step\<^sup>*\<^sup>* s t \<and> final t"
  using assms(1)
proof (induction "size_of s" arbitrary: s rule: less_induct)
  case less
  show ?case
  proof (cases "final s")
    case True
    then show ?thesis by blast
  next
    case False
    then obtain t where t: "step s t" using progress less.prems by blast
    then have "inv t" and "size_of t < size_of s"
      using less.prems inv_step step_decreases by blast+
    then obtain w where "step\<^sup>*\<^sup>* t w" and "final w" using less.hyps by blast
    with t show ?thesis by (meson converse_rtranclp_into_rtranclp)
  qed
qed

end

section \<open>Refinement\<close>

text \<open>A machine whose steps are simulated by runs of an abstract one, related by \<open>R\<close>.\<close>

locale refinement =
  fixes cstep :: "'c \<Rightarrow> 'c \<Rightarrow> bool"
    and astep :: "'a \<Rightarrow> 'a \<Rightarrow> bool"
    and R :: "'c \<Rightarrow> 'a \<Rightarrow> bool"
  assumes simulates: "R c a \<Longrightarrow> cstep c c' \<Longrightarrow> \<exists>a'. astep\<^sup>*\<^sup>* a a' \<and> R c' a'"
begin

lemma simulates_run: "cstep\<^sup>*\<^sup>* c c' \<Longrightarrow> R c a \<Longrightarrow> \<exists>a'. astep\<^sup>*\<^sup>* a a' \<and> R c' a'"
proof (induction rule: rtranclp_induct)
  case (step c' c'')
  then obtain a' where "astep\<^sup>*\<^sup>* a a'" "R c' a'" by blast
  then show ?case using simulates [OF _ step.hyps(2)] by (meson rtranclp_trans)
qed blast

text \<open>What holds of every abstract state that is reached holds of the concrete ones.\<close>

lemma abstract_invariant:
  assumes "cstep\<^sup>*\<^sup>* c c'" and "R c a" and "P a" and "\<And>x y. P x \<Longrightarrow> astep x y \<Longrightarrow> P y"
  shows "\<exists>a'. P a' \<and> R c' a'"
proof -
  obtain a' where a': "astep\<^sup>*\<^sup>* a a'" "R c' a'" using simulates_run [OF assms(1,2)] by blast
  from a'(1) have "P a'" by (induction rule: rtranclp_induct) (use assms(3,4) in blast)+
  then show ?thesis using a'(2) by blast
qed

end

end
