(* ===== verification/Byte_Codec.thy ===== *)
theory Byte_Codec
  imports Interfaces
begin

unbundle bit_operations_syntax

text \<open>
  The byte reader and writer of \<open>mp2btp-mainnew/puctrl/util/util_bytes.go\<close>. A
  \<open>bytes.Reader\<close> is the list of bytes not read yet; a read that meets the end of the input
  returns the error \<open>io.EOF\<close>, here \<open>None\<close>. A \<open>bytes.Buffer\<close> is the list written so far.
\<close>

section \<open>The standard library's reader and buffer\<close>

fun ReadByte :: "bytes \<Rightarrow> (byte \<times> bytes) option" where
  "ReadByte [] = None"
| "ReadByte (b # r) = Some (b, r)"

definition WriteByte :: "bytes \<Rightarrow> byte \<Rightarrow> bytes" where
  "WriteByte w b = w @ [b]"

text \<open>
  \<open>r.Read(buf)\<close> into a fresh zeroed buffer of \<open>n\<close> bytes copies what is left, at most \<open>n\<close>
  bytes; its callers in the packet parsers drop the count and the error, so a short input leaves
  zeros. \<open>io.ReadFull\<close> fails instead (and, for \<open>n = 0\<close>, succeeds on any input).
\<close>

definition ReadInto :: "nat \<Rightarrow> bytes \<Rightarrow> bytes \<times> bytes" where
  "ReadInto n r = (take n r @ replicate (n - length r) 0, drop n r)"

definition ReadFull :: "nat \<Rightarrow> bytes \<Rightarrow> (bytes \<times> bytes) option" where
  "ReadFull n r = (if n \<le> length r then Some (take n r, drop n r) else None)"

section \<open>Big-endian integers\<close>

definition ReadUint16 :: "bytes \<Rightarrow> (u16 \<times> bytes) option" where
  "ReadUint16 r = do {
     (b1, r) \<leftarrow> ReadByte r;
     (b2, r) \<leftarrow> ReadByte r;
     Some (ucast b2 + push_bit 8 (ucast b1), r) }"

definition ReadUint32 :: "bytes \<Rightarrow> (u32 \<times> bytes) option" where
  "ReadUint32 r = do {
     (b1, r) \<leftarrow> ReadByte r;
     (b2, r) \<leftarrow> ReadByte r;
     (b3, r) \<leftarrow> ReadByte r;
     (b4, r) \<leftarrow> ReadByte r;
     Some (ucast b4 + push_bit 8 (ucast b3) + push_bit 16 (ucast b2) + push_bit 24 (ucast b1), r) }"

definition WriteUint32 :: "bytes \<Rightarrow> u32 \<Rightarrow> bytes" where
  "WriteUint32 w i = w @ [ucast (drop_bit 24 i), ucast (drop_bit 16 i), ucast (drop_bit 8 i), ucast i]"

definition WriteUint16 :: "bytes \<Rightarrow> u16 \<Rightarrow> bytes" where
  "WriteUint16 w i = w @ [ucast (drop_bit 8 i), ucast i]"

section \<open>Little-endian integers of encoding/binary\<close>

text \<open>\<open>binary.LittleEndian.PutUint32\<close> and \<open>Uint32\<close>, which the frame header uses.\<close>

definition PutUint32LE :: "u32 \<Rightarrow> bytes" where
  "PutUint32LE i = [ucast i, ucast (drop_bit 8 i), ucast (drop_bit 16 i), ucast (drop_bit 24 i)]"

definition Uint32LE :: "byte \<Rightarrow> byte \<Rightarrow> byte \<Rightarrow> byte \<Rightarrow> u32" where
  "Uint32LE b0 b1 b2 b3 =
     ucast b0 OR push_bit 8 (ucast b1) OR push_bit 16 (ucast b2) OR push_bit 24 (ucast b3)"

section \<open>Round trips\<close>

text \<open>The encodings alone, which the simplifier keeps folded.\<close>

definition be32 :: "u32 \<Rightarrow> bytes" where "be32 i = WriteUint32 [] i"
definition be16 :: "u16 \<Rightarrow> bytes" where "be16 i = WriteUint16 [] i"

lemma WriteUint32_be32 [codec]: "WriteUint32 w i = w @ be32 i"
  by (simp add: WriteUint32_def be32_def)

lemma WriteUint16_be16 [codec]: "WriteUint16 w i = w @ be16 i"
  by (simp add: WriteUint16_def be16_def)

lemma length_be32 [simp]: "length (be32 i) = 4"
  by (simp add: be32_def WriteUint32_def)

lemma length_be16 [simp]: "length (be16 i) = 2"
  by (simp add: be16_def WriteUint16_def)

text \<open>The bytes of a word occupy disjoint bits, so Go's sum of shifts is their union.\<close>

lemma bytes_join16:
  "ucast (ucast i :: byte) + push_bit 8 (ucast (ucast (drop_bit 8 i) :: byte)) = (i :: u16)"
proof -
  have "ucast (ucast i :: byte) + push_bit 8 (ucast (ucast (drop_bit 8 i) :: byte)) =
        (ucast (ucast i :: byte) OR push_bit 8 (ucast (ucast (drop_bit 8 i) :: byte)) :: u16)"
    by (rule disjunctive_add) (auto simp: bit_simps)
  also have "\<dots> = i"
    by (rule bit_word_eqI) (auto simp: bit_simps)
  finally show ?thesis .
qed

lemma bytes_join32_or:
  "ucast (ucast i :: byte) OR push_bit 8 (ucast (ucast (drop_bit 8 i) :: byte))
     OR push_bit 16 (ucast (ucast (drop_bit 16 i) :: byte))
     OR push_bit 24 (ucast (ucast (drop_bit 24 i) :: byte)) = (i :: u32)" (is "?l = i")
proof (rule bit_word_eqI)
  fix n
  assume "n < LENGTH(32)"
  then consider "n < 8" | "8 \<le> n" "n < 16" | "16 \<le> n" "n < 24" | "24 \<le> n" "n < 32" by fastforce
  then show "bit ?l n = bit i n" by cases (auto simp: bit_simps)
qed

lemma bytes_join32:
  "ucast (ucast i :: byte) + push_bit 8 (ucast (ucast (drop_bit 8 i) :: byte))
     + push_bit 16 (ucast (ucast (drop_bit 16 i) :: byte))
     + push_bit 24 (ucast (ucast (drop_bit 24 i) :: byte)) = (i :: u32)"
proof -
  let ?a = "ucast (ucast i :: byte) :: u32"
  let ?b = "push_bit 8 (ucast (ucast (drop_bit 8 i) :: byte)) :: u32"
  let ?c = "push_bit 16 (ucast (ucast (drop_bit 16 i) :: byte)) :: u32"
  let ?d = "push_bit 24 (ucast (ucast (drop_bit 24 i) :: byte)) :: u32"
  have "?a + ?b = ?a OR ?b"
    by (rule disjunctive_add) (auto simp: bit_simps)
  moreover have "(?a OR ?b) + ?c = ?a OR ?b OR ?c"
    by (subst disjunctive_add) (auto simp: bit_simps or.assoc)
  moreover have "(?a OR ?b OR ?c) + ?d = ?a OR ?b OR ?c OR ?d"
    by (subst disjunctive_add) (auto simp: bit_simps or.assoc)
  ultimately show ?thesis using bytes_join32_or [of i] by simp
qed

lemma ReadUint16_be16 [codec]: "ReadUint16 (be16 i @ r) = Some (i, r)"
  by (simp add: ReadUint16_def be16_def WriteUint16_def bytes_join16)

lemma ReadUint32_be32 [codec]: "ReadUint32 (be32 i @ r) = Some (i, r)"
  by (simp add: ReadUint32_def be32_def WriteUint32_def bytes_join32)

lemma Uint32LE_PutUint32LE [codec]:
  "PutUint32LE i = [b0, b1, b2, b3] \<Longrightarrow> Uint32LE b0 b1 b2 b3 = i"
  using bytes_join32_or [of i] by (auto simp: PutUint32LE_def Uint32LE_def)

lemma length_PutUint32LE [simp]: "length (PutUint32LE i) = 4"
  by (simp add: PutUint32LE_def)

lemma ReadInto_exact [codec]: "length d = n \<Longrightarrow> ReadInto n (d @ r) = (d, r)"
  by (simp add: ReadInto_def)

lemma ReadFull_exact [codec]: "length d = n \<Longrightarrow> ReadFull n (d @ r) = Some (d, r)"
  by (simp add: ReadFull_def)

lemma length_ReadInto [simp]: "length (fst (ReadInto n r)) = n"
  by (simp add: ReadInto_def)

lemma ReadByte_append [codec]: "ReadByte ([b] @ r) = Some (b, r)"
  by simp

interpretation u16_be: codec be16 ReadUint16 "\<lambda>_. True"
  by unfold_locales (simp add: codec)

interpretation u32_be: codec be32 ReadUint32 "\<lambda>_. True"
  by unfold_locales (simp add: codec)

text \<open>Reading an integer fails exactly when the input is too short.\<close>

lemma ReadUint16_None_iff: "ReadUint16 r = None \<longleftrightarrow> length r < 2"
proof (cases "length r < 2")
  case True
  then show ?thesis by (cases r rule: ReadByte.cases; cases "tl r") (auto simp: ReadUint16_def)
next
  case False
  then obtain a b s where "r = a # b # s" by (cases r; cases "tl r") auto
  then show ?thesis by (simp add: ReadUint16_def)
qed

lemma ReadUint32_None_iff: "ReadUint32 r = None \<longleftrightarrow> length r < 4"
proof (cases "length r < 4")
  case True
  then have "length r = 0 \<or> length r = 1 \<or> length r = 2 \<or> length r = 3" by linarith
  then show ?thesis
    by (auto simp: ReadUint32_def length_Suc_conv numeral_2_eq_2 numeral_3_eq_3)
next
  case False
  then have "4 \<le> length r" by simp
  then obtain a b c d s where "r = a # b # c # d # s"
    by (auto simp: numeral_eq_Suc Suc_le_length_iff)
  then show ?thesis by (simp add: ReadUint32_def)
qed

end
