(* ===== verification/Packets.thy ===== *)
theory Packets
  imports Byte_Codec
begin

text \<open>
  The packets of fixed size of \<open>mp2btp-mainnew/puctrl/packet/\<close>: for each file its struct (a
  record whose fields carry the packet's prefix), its \<open>Create\<close> function, its \<open>Parse\<close> function
  and its \<open>Write\<close> method. A parser takes what is left of the reader and returns the packet with
  the bytes it did not read, or \<open>None\<close> for the error \<open>io.EOF\<close>; a \<open>Write\<close> method returns the
  grown buffer (its error result is always nil).
\<close>

section \<open>packet_type.go\<close>

definition BLOCK_FIND_PACKET :: byte where "BLOCK_FIND_PACKET = 11"
definition BLOCK_INFO_PACKET :: byte where "BLOCK_INFO_PACKET = 12"
definition BLOCK_REQUEST_PACKET :: byte where "BLOCK_REQUEST_PACKET = 13"
definition BLOCK_DATA_PACKET :: byte where "BLOCK_DATA_PACKET = 14"
definition BLOCK_DATA_ACK_PACKET :: byte where "BLOCK_DATA_ACK_PACKET = 15"
definition BLOCK_FIN_PACKET :: byte where "BLOCK_FIN_PACKET = 16"
definition CONTROL_PACKET :: byte where "CONTROL_PACKET = 17"
definition NODE_INFO_PACKET :: byte where "NODE_INFO_PACKET = 18"
definition PATH_INFO_PACKET :: byte where "PATH_INFO_PACKET = 19"
definition PATH_INFO_ACK_PACKET :: byte where "PATH_INFO_ACK_PACKET = 20"
definition FIN_PACKET :: byte where "FIN_PACKET = 21"
definition FIN_ACK_PACKET :: byte where "FIN_ACK_PACKET = 22"
definition AUDIT_MSG_PACKET :: byte where "AUDIT_MSG_PACKET = 23"
definition AUDIT_MSG_ACK_PACKET :: byte where "AUDIT_MSG_ACK_PACKET = 24"
definition PACKET_SIZE :: nat where "PACKET_SIZE = 1460000000"
definition PAYLOAD_SIZE :: nat where "PAYLOAD_SIZE = 1024"

lemmas packet_type_defs =
  BLOCK_FIND_PACKET_def BLOCK_INFO_PACKET_def BLOCK_REQUEST_PACKET_def BLOCK_DATA_PACKET_def BLOCK_DATA_ACK_PACKET_def BLOCK_FIN_PACKET_def
  CONTROL_PACKET_def NODE_INFO_PACKET_def PATH_INFO_PACKET_def PATH_INFO_ACK_PACKET_def FIN_PACKET_def
  FIN_ACK_PACKET_def AUDIT_MSG_PACKET_def AUDIT_MSG_ACK_PACKET_def

section \<open>BlockFindPacket\<close>

definition BLOCK_FIND_PACKET_HEADER_LEN :: u16 where "BLOCK_FIND_PACKET_HEADER_LEN = 7"

record BlockFindPacket =
  bfind_Type :: byte
  bfind_Length :: u16
  bfind_BlockNumber :: u32

definition CreateBlockFindPacket :: "u32 \<Rightarrow> BlockFindPacket" where
  "CreateBlockFindPacket blockNumber =
     \<lparr>bfind_Type = BLOCK_FIND_PACKET, bfind_Length = BLOCK_FIND_PACKET_HEADER_LEN,
      bfind_BlockNumber = blockNumber\<rparr>"

definition ParseBlockFindPacket :: "bytes \<Rightarrow> (BlockFindPacket \<times> bytes) option" where
  "ParseBlockFindPacket r = do {
     (packetType, r) \<leftarrow> ReadByte r;
     (packetLength, r) \<leftarrow> ReadUint16 r;
     (blockNumber, r) \<leftarrow> ReadUint32 r;
     Some (\<lparr>bfind_Type = packetType, bfind_Length = packetLength,
       bfind_BlockNumber = blockNumber\<rparr>, r) }"

definition BlockFindPacket_Write :: "BlockFindPacket \<Rightarrow> bytes \<Rightarrow> bytes" where
  "BlockFindPacket_Write p b =
     (let b = WriteByte b (bfind_Type p);
          b = WriteUint16 b (bfind_Length p);
          b = WriteUint32 b (bfind_BlockNumber p)
      in b)"

lemma BlockFindPacket_Write_append: "BlockFindPacket_Write p w = w @ BlockFindPacket_Write p []"
  by (simp add: BlockFindPacket_Write_def WriteByte_def codec)

interpretation bfind: codec "\<lambda>p. BlockFindPacket_Write p []" ParseBlockFindPacket "\<lambda>_. True"
  by unfold_locales (simp add: BlockFindPacket_Write_def ParseBlockFindPacket_def WriteByte_def codec)

section \<open>BlockInfoPacket\<close>

definition BLOCK_INFO_PACKET_HEADER_LEN :: u16 where "BLOCK_INFO_PACKET_HEADER_LEN = 15"

record BlockInfoPacket =
  binfo_Type :: byte
  binfo_Length :: u16
  binfo_BlockNumber :: u32
  binfo_Status :: u32
  binfo_BlockSize :: u32

definition CreateBlockInfoPacket :: "u32 \<Rightarrow> u32 \<Rightarrow> u32 \<Rightarrow> BlockInfoPacket" where
  "CreateBlockInfoPacket blockNumber status blockSize =
     \<lparr>binfo_Type = BLOCK_INFO_PACKET, binfo_Length = BLOCK_INFO_PACKET_HEADER_LEN,
      binfo_BlockNumber = blockNumber,
      binfo_Status = status,
      binfo_BlockSize = blockSize\<rparr>"

definition ParseBlockInfoPacket :: "bytes \<Rightarrow> (BlockInfoPacket \<times> bytes) option" where
  "ParseBlockInfoPacket r = do {
     (packetType, r) \<leftarrow> ReadByte r;
     (packetLength, r) \<leftarrow> ReadUint16 r;
     (blockNumber, r) \<leftarrow> ReadUint32 r;
     (status, r) \<leftarrow> ReadUint32 r;
     (blockSize, r) \<leftarrow> ReadUint32 r;
     Some (\<lparr>binfo_Type = packetType, binfo_Length = packetLength,
       binfo_BlockNumber = blockNumber,
       binfo_Status = status,
       binfo_BlockSize = blockSize\<rparr>, r) }"

definition BlockInfoPacket_Write :: "BlockInfoPacket \<Rightarrow> bytes \<Rightarrow> bytes" where
  "BlockInfoPacket_Write p b =
     (let b = WriteByte b (binfo_Type p);
          b = WriteUint16 b (binfo_Length p);
          b = WriteUint32 b (binfo_BlockNumber p);
          b = WriteUint32 b (binfo_Status p);
          b = WriteUint32 b (binfo_BlockSize p)
      in b)"

lemma BlockInfoPacket_Write_append: "BlockInfoPacket_Write p w = w @ BlockInfoPacket_Write p []"
  by (simp add: BlockInfoPacket_Write_def WriteByte_def codec)

interpretation binfo: codec "\<lambda>p. BlockInfoPacket_Write p []" ParseBlockInfoPacket "\<lambda>_. True"
  by unfold_locales (simp add: BlockInfoPacket_Write_def ParseBlockInfoPacket_def WriteByte_def codec)

section \<open>BlockRequestPacket\<close>

definition BLOCK_REQUEST_PACKET_HEADER_LEN :: u16 where "BLOCK_REQUEST_PACKET_HEADER_LEN = 20"

record BlockRequestPacket =
  breq_Type :: byte
  breq_Length :: u16
  breq_BlockNumber :: u32
  breq_StartDataNumber :: u32
  breq_EndDataNumber :: u32
  breq_MpInfo :: byte
  breq_FecSeedNumber :: u32

definition CreateBlockRequestPacket :: "u32 \<Rightarrow> u32 \<Rightarrow> u32 \<Rightarrow> byte \<Rightarrow> u32 \<Rightarrow> BlockRequestPacket" where
  "CreateBlockRequestPacket blockNumber startDataNumber endDataNumber mpInfo fecSeedNumber =
     \<lparr>breq_Type = BLOCK_REQUEST_PACKET, breq_Length = BLOCK_REQUEST_PACKET_HEADER_LEN,
      breq_BlockNumber = blockNumber,
      breq_StartDataNumber = startDataNumber,
      breq_EndDataNumber = endDataNumber,
      breq_MpInfo = mpInfo,
      breq_FecSeedNumber = fecSeedNumber\<rparr>"

definition ParseBlockRequestPacket :: "bytes \<Rightarrow> (BlockRequestPacket \<times> bytes) option" where
  "ParseBlockRequestPacket r = do {
     (packetType, r) \<leftarrow> ReadByte r;
     (packetLength, r) \<leftarrow> ReadUint16 r;
     (blockNumber, r) \<leftarrow> ReadUint32 r;
     (startDataNumber, r) \<leftarrow> ReadUint32 r;
     (endDataNumber, r) \<leftarrow> ReadUint32 r;
     (mpInfo, r) \<leftarrow> ReadByte r;
     (fecSeedNumber, r) \<leftarrow> ReadUint32 r;
     Some (\<lparr>breq_Type = packetType, breq_Length = packetLength,
       breq_BlockNumber = blockNumber,
       breq_StartDataNumber = startDataNumber,
       breq_EndDataNumber = endDataNumber,
       breq_MpInfo = mpInfo,
       breq_FecSeedNumber = fecSeedNumber\<rparr>, r) }"

definition BlockRequestPacket_Write :: "BlockRequestPacket \<Rightarrow> bytes \<Rightarrow> bytes" where
  "BlockRequestPacket_Write p b =
     (let b = WriteByte b (breq_Type p);
          b = WriteUint16 b (breq_Length p);
          b = WriteUint32 b (breq_BlockNumber p);
          b = WriteUint32 b (breq_StartDataNumber p);
          b = WriteUint32 b (breq_EndDataNumber p);
          b = WriteByte b (breq_MpInfo p);
          b = WriteUint32 b (breq_FecSeedNumber p)
      in b)"

lemma BlockRequestPacket_Write_append: "BlockRequestPacket_Write p w = w @ BlockRequestPacket_Write p []"
  by (simp add: BlockRequestPacket_Write_def WriteByte_def codec)

interpretation breq: codec "\<lambda>p. BlockRequestPacket_Write p []" ParseBlockRequestPacket "\<lambda>_. True"
  by unfold_locales (simp add: BlockRequestPacket_Write_def ParseBlockRequestPacket_def WriteByte_def codec)

section \<open>BlockDataAckPacket\<close>

definition BLOCK_DATA_ACK_PACKET_HEADER_LEN :: u16 where "BLOCK_DATA_ACK_PACKET_HEADER_LEN = 11"

record BlockDataAckPacket =
  bdack_Type :: byte
  bdack_Length :: u16
  bdack_BlockNumber :: u32
  bdack_LastDataNumber :: u32

definition CreateBlockDataAckPacket :: "u32 \<Rightarrow> u32 \<Rightarrow> BlockDataAckPacket" where
  "CreateBlockDataAckPacket blockNumber lastDataNumber =
     \<lparr>bdack_Type = BLOCK_DATA_ACK_PACKET, bdack_Length = BLOCK_DATA_ACK_PACKET_HEADER_LEN,
      bdack_BlockNumber = blockNumber,
      bdack_LastDataNumber = lastDataNumber\<rparr>"

definition ParseBlockDataAckPacket :: "bytes \<Rightarrow> (BlockDataAckPacket \<times> bytes) option" where
  "ParseBlockDataAckPacket r = do {
     (packetType, r) \<leftarrow> ReadByte r;
     (packetLength, r) \<leftarrow> ReadUint16 r;
     (blockNumber, r) \<leftarrow> ReadUint32 r;
     (lastDataNumber, r) \<leftarrow> ReadUint32 r;
     Some (\<lparr>bdack_Type = packetType, bdack_Length = packetLength,
       bdack_BlockNumber = blockNumber,
       bdack_LastDataNumber = lastDataNumber\<rparr>, r) }"

definition BlockDataAckPacket_Write :: "BlockDataAckPacket \<Rightarrow> bytes \<Rightarrow> bytes" where
  "BlockDataAckPacket_Write p b =
     (let b = WriteByte b (bdack_Type p);
          b = WriteUint16 b (bdack_Length p);
          b = WriteUint32 b (bdack_BlockNumber p);
          b = WriteUint32 b (bdack_LastDataNumber p)
      in b)"

lemma BlockDataAckPacket_Write_append: "BlockDataAckPacket_Write p w = w @ BlockDataAckPacket_Write p []"
  by (simp add: BlockDataAckPacket_Write_def WriteByte_def codec)

interpretation bdack: codec "\<lambda>p. BlockDataAckPacket_Write p []" ParseBlockDataAckPacket "\<lambda>_. True"
  by unfold_locales (simp add: BlockDataAckPacket_Write_def ParseBlockDataAckPacket_def WriteByte_def codec)

section \<open>BlockFinPacket\<close>

definition BLOCK_FIN_PACKET_HEADER_LEN :: u16 where "BLOCK_FIN_PACKET_HEADER_LEN = 11"

record BlockFinPacket =
  bfin_Type :: byte
  bfin_Length :: u16
  bfin_SessionID :: u32
  bfin_BlockNumber :: u32

definition CreateBlockFinPacket :: "u32 \<Rightarrow> u32 \<Rightarrow> BlockFinPacket" where
  "CreateBlockFinPacket sessionID blockNumber =
     \<lparr>bfin_Type = BLOCK_FIN_PACKET, bfin_Length = BLOCK_FIN_PACKET_HEADER_LEN,
      bfin_SessionID = sessionID,
      bfin_BlockNumber = blockNumber\<rparr>"

definition ParseBlockFinPacket :: "bytes \<Rightarrow> (BlockFinPacket \<times> bytes) option" where
  "ParseBlockFinPacket r = do {
     (packetType, r) \<leftarrow> ReadByte r;
     (packetLength, r) \<leftarrow> ReadUint16 r;
     (sessionID, r) \<leftarrow> ReadUint32 r;
     (blockNumber, r) \<leftarrow> ReadUint32 r;
     Some (\<lparr>bfin_Type = packetType, bfin_Length = packetLength,
       bfin_SessionID = sessionID,
       bfin_BlockNumber = blockNumber\<rparr>, r) }"

definition BlockFinPacket_Write :: "BlockFinPacket \<Rightarrow> bytes \<Rightarrow> bytes" where
  "BlockFinPacket_Write p b =
     (let b = WriteByte b (bfin_Type p);
          b = WriteUint16 b (bfin_Length p);
          b = WriteUint32 b (bfin_SessionID p);
          b = WriteUint32 b (bfin_BlockNumber p)
      in b)"

lemma BlockFinPacket_Write_append: "BlockFinPacket_Write p w = w @ BlockFinPacket_Write p []"
  by (simp add: BlockFinPacket_Write_def WriteByte_def codec)

interpretation bfin: codec "\<lambda>p. BlockFinPacket_Write p []" ParseBlockFinPacket "\<lambda>_. True"
  by unfold_locales (simp add: BlockFinPacket_Write_def ParseBlockFinPacket_def WriteByte_def codec)

section \<open>FinPacket\<close>

definition FIN_PACKET_HEADER_LEN :: u16 where "FIN_PACKET_HEADER_LEN = 11"

record FinPacket =
  fin_Type :: byte
  fin_Length :: u16
  fin_SessionID :: u32
  fin_BlockNumber :: u32

definition CreateFinPacket :: "u32 \<Rightarrow> u32 \<Rightarrow> FinPacket" where
  "CreateFinPacket sessionID blockNumber =
     \<lparr>fin_Type = FIN_PACKET, fin_Length = FIN_PACKET_HEADER_LEN,
      fin_SessionID = sessionID,
      fin_BlockNumber = blockNumber\<rparr>"

definition ParseFinPacket :: "bytes \<Rightarrow> (FinPacket \<times> bytes) option" where
  "ParseFinPacket r = do {
     (packetType, r) \<leftarrow> ReadByte r;
     (packetLength, r) \<leftarrow> ReadUint16 r;
     (sessionID, r) \<leftarrow> ReadUint32 r;
     (blockNumber, r) \<leftarrow> ReadUint32 r;
     Some (\<lparr>fin_Type = packetType, fin_Length = packetLength,
       fin_SessionID = sessionID,
       fin_BlockNumber = blockNumber\<rparr>, r) }"

definition FinPacket_Write :: "FinPacket \<Rightarrow> bytes \<Rightarrow> bytes" where
  "FinPacket_Write p b =
     (let b = WriteByte b (fin_Type p);
          b = WriteUint16 b (fin_Length p);
          b = WriteUint32 b (fin_SessionID p);
          b = WriteUint32 b (fin_BlockNumber p)
      in b)"

lemma FinPacket_Write_append: "FinPacket_Write p w = w @ FinPacket_Write p []"
  by (simp add: FinPacket_Write_def WriteByte_def codec)

interpretation fin: codec "\<lambda>p. FinPacket_Write p []" ParseFinPacket "\<lambda>_. True"
  by unfold_locales (simp add: FinPacket_Write_def ParseFinPacket_def WriteByte_def codec)

section \<open>FinAckPacket\<close>

definition FIN_ACK_PACKET_HEADER_LEN :: u16 where "FIN_ACK_PACKET_HEADER_LEN = 11"

record FinAckPacket =
  finack_Type :: byte
  finack_Length :: u16
  finack_SessionID :: u32
  finack_BlockNumber :: u32

definition CreateFinAckPacket :: "u32 \<Rightarrow> u32 \<Rightarrow> FinAckPacket" where
  "CreateFinAckPacket sessionID blockNumber =
     \<lparr>finack_Type = FIN_ACK_PACKET, finack_Length = FIN_ACK_PACKET_HEADER_LEN,
      finack_SessionID = sessionID,
      finack_BlockNumber = blockNumber\<rparr>"

definition ParseFinAckPacket :: "bytes \<Rightarrow> (FinAckPacket \<times> bytes) option" where
  "ParseFinAckPacket r = do {
     (packetType, r) \<leftarrow> ReadByte r;
     (packetLength, r) \<leftarrow> ReadUint16 r;
     (sessionID, r) \<leftarrow> ReadUint32 r;
     (blockNumber, r) \<leftarrow> ReadUint32 r;
     Some (\<lparr>finack_Type = packetType, finack_Length = packetLength,
       finack_SessionID = sessionID,
       finack_BlockNumber = blockNumber\<rparr>, r) }"

definition FinAckPacket_Write :: "FinAckPacket \<Rightarrow> bytes \<Rightarrow> bytes" where
  "FinAckPacket_Write p b =
     (let b = WriteByte b (finack_Type p);
          b = WriteUint16 b (finack_Length p);
          b = WriteUint32 b (finack_SessionID p);
          b = WriteUint32 b (finack_BlockNumber p)
      in b)"

lemma FinAckPacket_Write_append: "FinAckPacket_Write p w = w @ FinAckPacket_Write p []"
  by (simp add: FinAckPacket_Write_def WriteByte_def codec)

interpretation finack: codec "\<lambda>p. FinAckPacket_Write p []" ParseFinAckPacket "\<lambda>_. True"
  by unfold_locales (simp add: FinAckPacket_Write_def ParseFinAckPacket_def WriteByte_def codec)

end
