(* ===== verification/Go_Strings.thy ===== *)
theory Go_Strings
  imports Prelude
begin

text \<open>
  The functions of Go's \<open>strconv\<close> and \<open>strings\<close> that the program calls, on byte strings:
  \<open>Itoa\<close> (also the \<open>%d\<close> of \<open>Sprintf\<close>), \<open>Atoi\<close> with its range check, \<open>TrimPrefix\<close> and \<open>Contains\<close>.
\<close>

section \<open>Decimal numerals\<close>

definition digit_char :: "nat \<Rightarrow> char" where
  "digit_char d = char_of (48 + d)"

definition is_digit :: "char \<Rightarrow> bool" where
  "is_digit c \<longleftrightarrow> 48 \<le> (of_char c :: nat) \<and> (of_char c :: nat) \<le> 57"

definition digit_val :: "char \<Rightarrow> nat" where
  "digit_val c = of_char c - 48"

fun itoa_nat :: "nat \<Rightarrow> string" where
  "itoa_nat n = (if n < 10 then [digit_char n] else itoa_nat (n div 10) @ [digit_char (n mod 10)])"

declare itoa_nat.simps [simp del]

definition Itoa :: "int \<Rightarrow> string" where
  "Itoa i = (if i < 0 then CHR ''-'' # itoa_nat (nat (- i)) else itoa_nat (nat i))"

fun digits_val :: "nat \<Rightarrow> string \<Rightarrow> nat option" where
  "digits_val acc [] = Some acc"
| "digits_val acc (c # cs) = (if is_digit c then digits_val (acc * 10 + digit_val c) cs else None)"

text \<open>\<open>strconv.Atoi\<close>: an optional sign, at least one digit, a value that an \<open>int\<close> (64 bits) holds.\<close>

definition Atoi :: "string \<Rightarrow> int option" where
  "Atoi s =
     (let neg = (case s of c # _ \<Rightarrow> c = CHR ''-'' | [] \<Rightarrow> False);
          ds = (case s of c # cs \<Rightarrow> if c = CHR ''-'' \<or> c = CHR ''+'' then cs else s | [] \<Rightarrow> [])
      in if ds = [] then None
         else case digits_val 0 ds of
           None \<Rightarrow> None
         | Some n \<Rightarrow> let i = (if neg then - int n else int n)
                     in if - (2 ^ 63) \<le> i \<and> i < 2 ^ 63 then Some i else None)"

definition TrimPrefix :: "string \<Rightarrow> string \<Rightarrow> string" where
  "TrimPrefix s p = (if take (length p) s = p then drop (length p) s else s)"

text \<open>\<open>strings.Contains\<close>: every string contains the empty one.\<close>

fun strings_Contains :: "string \<Rightarrow> string \<Rightarrow> bool" where
  "strings_Contains [] sub = (sub = [])"
| "strings_Contains (c # cs) sub = (take (length sub) (c # cs) = sub \<or> strings_Contains cs sub)"

section \<open>Reading back a printed number\<close>

lemma is_digit_digit_char [simp]: "d < 10 \<Longrightarrow> is_digit (digit_char d)"
  by (simp add: is_digit_def digit_char_def)

lemma digit_val_digit_char [simp]: "d < 10 \<Longrightarrow> digit_val (digit_char d) = d"
  by (simp add: digit_val_def digit_char_def)

lemma itoa_nat_nonempty [simp]: "itoa_nat n \<noteq> []"
  by (subst itoa_nat.simps) simp

lemma itoa_nat_digits: "\<forall>c \<in> set (itoa_nat n). is_digit c"
proof (induction n rule: itoa_nat.induct)
  case (1 n)
  then show ?case by (subst itoa_nat.simps) auto
qed

lemma digits_val_append:
  "digits_val acc (xs @ ys) = Option.bind (digits_val acc xs) (\<lambda>n. digits_val n ys)"
  by (induction xs arbitrary: acc) auto

lemma digits_val_itoa_nat: "digits_val 0 (itoa_nat n) = Some n"
proof (induction n rule: itoa_nat.induct)
  case (1 n)
  show ?case
  proof (cases "n < 10")
    case True
    then show ?thesis by (subst itoa_nat.simps) simp
  next
    case False
    with 1 show ?thesis by (subst itoa_nat.simps) (simp add: digits_val_append)
  qed
qed

lemma not_digit_sign [simp]: "\<not> is_digit CHR ''-''" "\<not> is_digit CHR ''+''" "\<not> is_digit CHR ''.''"
  "\<not> is_digit CHR '':''"
  by (simp_all add: is_digit_def)

lemma itoa_nat_head: "itoa_nat n = c # cs \<Longrightarrow> c \<noteq> CHR ''-'' \<and> c \<noteq> CHR ''+''"
  using itoa_nat_digits [of n] by auto

lemma Atoi_itoa_nat: "n < 2 ^ 63 \<Longrightarrow> Atoi (itoa_nat n) = Some (int n)"
proof -
  assume n: "n < 2 ^ 63"
  obtain c cs where eq: "itoa_nat n = c # cs" by (cases "itoa_nat n") auto
  have "int n < 2 ^ 63" using n by simp
  with itoa_nat_head [OF eq] digits_val_itoa_nat [of n] show ?thesis
    by (simp add: Atoi_def eq del: digits_val.simps)
qed

lemma TrimPrefix_append [simp]: "TrimPrefix (p @ s) p = s"
  by (simp add: TrimPrefix_def)

text \<open>The three shapes of an octet's numeral.\<close>

lemma itoa_octet:
  "n < 10 \<Longrightarrow> itoa_nat n = [digit_char n]"
  "10 \<le> n \<Longrightarrow> n < 100 \<Longrightarrow> itoa_nat n = [digit_char (n div 10), digit_char (n mod 10)]"
  "100 \<le> n \<Longrightarrow> n < 1000 \<Longrightarrow>
     itoa_nat n = [digit_char (n div 100), digit_char (n div 10 mod 10), digit_char (n mod 10)]"
proof -
  assume "n < 10"
  then show "itoa_nat n = [digit_char n]" by (simp add: itoa_nat.simps)
next
  assume "10 \<le> n" and "n < 100"
  then show "itoa_nat n = [digit_char (n div 10), digit_char (n mod 10)]"
    by (simp add: itoa_nat.simps [of n] itoa_nat.simps [of "n div 10"])
next
  assume n: "100 \<le> n" "n < 1000"
  then have "\<not> n div 10 < 10" and "n div 100 < 10" and "\<not> n < 10" by linarith+
  moreover have "n div 10 div 10 = n div 100" by (simp flip: div_mult2_eq)
  ultimately show "itoa_nat n =
      [digit_char (n div 100), digit_char (n div 10 mod 10), digit_char (n mod 10)]"
    by (simp add: itoa_nat.simps [of n] itoa_nat.simps [of "n div 10"]
        itoa_nat.simps [of "n div 100"])
qed

end
