(* ===== verification/Net_Addr.thy ===== *)
theory Net_Addr
  imports Go_Strings Byte_Codec
begin

unbundle bit_operations_syntax

text \<open>
  \<open>mp2btp-mainnew/puctrl/util/util_net.go\<close>: the conversions between textual and numeric IPv4
  addresses that node and path information packets carry. \<open>net.ParseIP\<close> is translated for
  dotted addresses; its IPv6 branch is the argument \<open>v6\<close> of the definitions, which the theorems
  leave arbitrary.
\<close>

text \<open>A \<open>net.IP\<close> as \<open>To4\<close> sees it: four bytes, or an address with no IPv4 form.\<close>

datatype ip = IP4 byte byte byte byte | IP6

section \<open>net.ParseIP\<close>

text \<open>
  The loop of \<open>netip.parseIPv4\<close>: \<open>sep\<close> says that the position is the first or follows a dot,
  \<open>v\<close> and \<open>dl\<close> are the value and the length of the current octet, \<open>fs\<close> the finished ones.
\<close>

fun parseIPv4 :: "bool \<Rightarrow> nat \<Rightarrow> nat \<Rightarrow> nat list \<Rightarrow> string \<Rightarrow> nat list option" where
  "parseIPv4 sep v dl fs [] = (if length fs < 3 then None else Some (fs @ [v]))"
| "parseIPv4 sep v dl fs (c # cs) =
     (if is_digit c then
        if dl = 1 \<and> v = 0 then None
        else let v' = v * 10 + digit_val c
             in if v' > 255 then None else parseIPv4 False v' (Suc dl) fs cs
      else if c = CHR ''.'' then
        if sep \<or> cs = [] then None
        else if length fs = 3 then None
        else parseIPv4 True 0 0 (fs @ [v]) cs
      else None)"

definition ip_of_fields :: "nat list \<Rightarrow> ip option" where
  "ip_of_fields fs = (case fs of
     [a, b, c, d] \<Rightarrow> Some (IP4 (of_nat a) (of_nat b) (of_nat c) (of_nat d)) | _ \<Rightarrow> None)"

text \<open>The first dot or colon decides which parser runs.\<close>

fun ParseIP_at :: "(string \<Rightarrow> ip option) \<Rightarrow> string \<Rightarrow> string \<Rightarrow> ip option" where
  "ParseIP_at v6 s [] = None"
| "ParseIP_at v6 s (c # cs) =
     (if c = CHR ''.'' then Option.bind (parseIPv4 True 0 0 [] s) ip_of_fields
      else if c = CHR '':'' then v6 s
      else if c = CHR ''%'' then None
      else ParseIP_at v6 s cs)"

definition ParseIP :: "(string \<Rightarrow> ip option) \<Rightarrow> string \<Rightarrow> ip option" where
  "ParseIP v6 s = ParseIP_at v6 s s"

section \<open>Ip2int, Int2ip and their kin\<close>

text \<open>\<open>To4\<close> of an IPv6 address is nil, and \<open>BigEndian.Uint32(nil)\<close> panics.\<close>

definition Ip2int :: "(string \<Rightarrow> ip option) \<Rightarrow> string \<Rightarrow> u32 go" where
  "Ip2int v6 addr = (case ParseIP v6 addr of
     None \<Rightarrow> Inr 0
   | Some IP6 \<Rightarrow> Inl Bounds
   | Some (IP4 a b c d) \<Rightarrow>
       Inr (ucast d OR push_bit 8 (ucast c) OR push_bit 16 (ucast b) OR push_bit 24 (ucast a)))"

definition ip_String :: "byte \<Rightarrow> byte \<Rightarrow> byte \<Rightarrow> byte \<Rightarrow> string" where
  "ip_String a b c d = itoa_nat (unat a) @ ''.'' @ itoa_nat (unat b) @ ''.'' @ itoa_nat (unat c)
     @ ''.'' @ itoa_nat (unat d)"

definition Int2ip :: "u32 \<Rightarrow> string" where
  "Int2ip ipInt = ip_String (ucast (drop_bit 24 ipInt)) (ucast (drop_bit 16 ipInt))
     (ucast (drop_bit 8 ipInt)) (ucast ipInt)"

definition Int2IpArray :: "u32 list \<Rightarrow> string list" where
  "Int2IpArray ipArray = map (\<lambda>ip. ip_String (ucast (drop_bit 24 ip)) (ucast (drop_bit 16 ip))
     (ucast (drop_bit 8 ip)) (ucast ip)) ipArray"

text \<open>\<open>addr[:strings.LastIndex(addr, ":")]\<close> when there is a colon, else all of \<open>addr\<close>.\<close>

definition GetIP :: "string \<Rightarrow> string" where
  "GetIP addr = (if CHR '':'' \<in> set addr
     then rev (tl (dropWhile (\<lambda>c. c \<noteq> CHR '':'') (rev addr))) else addr)"

section \<open>Round trip\<close>

lemma parseIPv4_octet:
  assumes "n < 256"
  shows "\<exists>dl. parseIPv4 sep 0 0 fs (itoa_nat n @ cs) = parseIPv4 False n dl fs cs"
proof -
  have "n div 10 div 10 = n div 100" by (simp flip: div_mult2_eq)
  then have digits: "n div 100 * 10 + n div 10 mod 10 = n div 10" "n div 10 * 10 + n mod 10 = n"
    using div_mult_mod_eq [of "n div 10" 10] by simp_all
  consider "n < 10" | "10 \<le> n" "n < 100" | "100 \<le> n" by linarith
  then show ?thesis
  proof cases
    case 3
    then have "0 < n div 100" and "n div 10 \<le> 255" using assms by linarith+
    with 3 assms digits show ?thesis by (auto simp: itoa_octet(3))
  qed (auto simp: itoa_octet digits Let_def)
qed

lemma parseIPv4_dot:
  "cs \<noteq> [] \<Longrightarrow> length fs < 3 \<Longrightarrow>
   parseIPv4 False v dl fs (CHR ''.'' # cs) = parseIPv4 True 0 0 (fs @ [v]) cs"
  by simp

lemma unat_byte: "unat (b :: byte) < 256"
proof -
  have "unat b < 2 ^ LENGTH(8)" by (rule unsigned_less)
  then show ?thesis by simp
qed

lemma parseIPv4_String:
  "parseIPv4 True 0 0 [] (ip_String a b c d) = Some [unat a, unat b, unat c, unat d]"
proof -
  have step: "cs \<noteq> [] \<Longrightarrow> length fs < 3 \<Longrightarrow>
      parseIPv4 sep 0 0 fs (itoa_nat (unat x) @ CHR ''.'' # cs) =
      parseIPv4 True 0 0 (fs @ [unat x]) cs"
    for sep fs cs and x :: byte
    using parseIPv4_octet [OF unat_byte [of x], of sep fs "CHR ''.'' # cs"]
    by (metis parseIPv4_dot)
  obtain dl where last: "parseIPv4 True 0 0 [unat a, unat b, unat c] (itoa_nat (unat d) @ []) =
      parseIPv4 False (unat d) dl [unat a, unat b, unat c] []"
    using parseIPv4_octet [OF unat_byte] by blast
  show ?thesis using last by (simp add: ip_String_def step)
qed

lemma ParseIP_at_digits:
  "\<forall>x \<in> set xs. is_digit x \<Longrightarrow> ParseIP_at v6 s (xs @ CHR ''.'' # ys) =
     Option.bind (parseIPv4 True 0 0 [] s) ip_of_fields"
  by (induction xs) (auto simp: is_digit_def)

lemma ParseIP_String: "ParseIP v6 (ip_String a b c d) = Some (IP4 a b c d)"
proof -
  obtain ys where "ip_String a b c d = itoa_nat (unat a) @ CHR ''.'' # ys"
    by (simp add: ip_String_def)
  then show ?thesis
    using ParseIP_at_digits [OF itoa_nat_digits [of "unat a"], of v6 "ip_String a b c d" ys]
      parseIPv4_String [of a b c d] by (simp add: ParseIP_def ip_of_fields_def)
qed

lemma Ip2int_Int2ip: "Ip2int v6 (Int2ip x) = Inr x"
  using bytes_join32_or [of x] by (simp add: Ip2int_def Int2ip_def ParseIP_String)

lemma Int2IpArray_eq: "Int2IpArray xs = map Int2ip xs"
  by (simp add: Int2IpArray_def Int2ip_def)

lemma GetIP_port: "CHR '':'' \<notin> set port \<Longrightarrow> GetIP (ip @ '':'' @ port) = ip"
  by (simp add: GetIP_def dropWhile_append)

end
