(* ===== verification/Packets_Var.thy ===== *)
theory Packets_Var
  imports Packets Net_Addr
begin

text \<open>
  The packets of variable size of \<open>mp2btp-mainnew/puctrl/packet/\<close>: block data, control, node
  information, path information and the two audit packets that carry consensus messages. The
  length fields are computed with the width Go gives them, so a payload that does not fit wraps;
  the \<open>ok\<close> predicate of each codec says which packets survive the trip.
\<close>

section \<open>BlockDataPacket\<close>

definition BLOCK_DATA_PACKET_HEADER_LEN :: u16 where "BLOCK_DATA_PACKET_HEADER_LEN = 16"

record BlockDataPacket =
  bdata_Type :: byte
  bdata_Length :: u16
  bdata_BlockNumber :: u32
  bdata_DataNumber :: u32
  bdata_SessionID :: u32
  bdata_DataType :: byte
  bdata_Data :: bytes

definition CreateBlockDataPacket :: "u32 \<Rightarrow> u32 \<Rightarrow> u32 \<Rightarrow> byte \<Rightarrow> bytes \<Rightarrow> BlockDataPacket go" where
  "CreateBlockDataPacket blockNumber dataNumber sessionID dataType data =
     (let len = BLOCK_DATA_PACKET_HEADER_LEN + of_nat (length data)
      in if len > BLOCK_DATA_PACKET_HEADER_LEN + of_nat PAYLOAD_SIZE
         then Inl (Explicit ''packet length is larger than maximum size!'')
         else Inr \<lparr>bdata_Type = BLOCK_DATA_PACKET, bdata_Length = len,
           bdata_BlockNumber = blockNumber,
           bdata_DataNumber = dataNumber,
           bdata_SessionID = sessionID,
           bdata_DataType = dataType,
           bdata_Data = data\<rparr>)"

text \<open>The payload is read with \<open>r.Read\<close>, whose short count is dropped.\<close>

definition ParseBlockDataPacket :: "bytes \<Rightarrow> (BlockDataPacket \<times> bytes) option" where
  "ParseBlockDataPacket r = do {
     (packetType, r) \<leftarrow> ReadByte r;
     (packetLength, r) \<leftarrow> ReadUint16 r;
     (blockNumber, r) \<leftarrow> ReadUint32 r;
     (dataNumber, r) \<leftarrow> ReadUint32 r;
     (sessionID, r) \<leftarrow> ReadUint32 r;
     (dataType, r) \<leftarrow> ReadByte r;
     let (data, r) = ReadInto (unat (packetLength - BLOCK_DATA_PACKET_HEADER_LEN)) r;
     Some (\<lparr>bdata_Type = packetType, bdata_Length = packetLength,
       bdata_BlockNumber = blockNumber,
       bdata_DataNumber = dataNumber,
       bdata_SessionID = sessionID,
       bdata_DataType = dataType,
       bdata_Data = data\<rparr>, r) }"

definition BlockDataPacket_Write :: "BlockDataPacket \<Rightarrow> bytes \<Rightarrow> bytes" where
  "BlockDataPacket_Write p b =
     (let b = WriteByte b (bdata_Type p);
          b = WriteUint16 b (bdata_Length p);
          b = WriteUint32 b (bdata_BlockNumber p);
          b = WriteUint32 b (bdata_DataNumber p);
          b = WriteUint32 b (bdata_SessionID p);
          b = WriteByte b (bdata_DataType p)
      in b @ bdata_Data p)"

definition bdata_ok :: "BlockDataPacket \<Rightarrow> bool" where
  "bdata_ok p \<longleftrightarrow> length (bdata_Data p) = unat (bdata_Length p - BLOCK_DATA_PACKET_HEADER_LEN)"

interpretation bdata: codec "\<lambda>p. BlockDataPacket_Write p []" ParseBlockDataPacket bdata_ok
  by unfold_locales
    (simp add: BlockDataPacket_Write_def ParseBlockDataPacket_def WriteByte_def bdata_ok_def codec)

section \<open>ControlPacket\<close>

definition CONTROL_PACKET_HEADER_LEN :: u32 where "CONTROL_PACKET_HEADER_LEN = 5"

record ControlPacket =
  ctrl_Type :: byte
  ctrl_Length :: u32
  ctrl_Data :: bytes

definition CreateControlPacket :: "bytes \<Rightarrow> ControlPacket go" where
  "CreateControlPacket data =
     (let len = CONTROL_PACKET_HEADER_LEN + of_nat (length data)
      in if len > CONTROL_PACKET_HEADER_LEN + of_nat PAYLOAD_SIZE
         then Inl (Explicit ''packet length is larger than maximum size!'')
         else Inr \<lparr>ctrl_Type = CONTROL_PACKET, ctrl_Length = len, ctrl_Data = data\<rparr>)"

definition ParseControlPacket :: "bytes \<Rightarrow> (ControlPacket \<times> bytes) option" where
  "ParseControlPacket r = do {
     (packetType, r) \<leftarrow> ReadByte r;
     (packetLength, r) \<leftarrow> ReadUint32 r;
     let (data, r) = ReadInto (unat (packetLength - CONTROL_PACKET_HEADER_LEN)) r;
     Some (\<lparr>ctrl_Type = packetType, ctrl_Length = packetLength, ctrl_Data = data\<rparr>, r) }"

definition ControlPacket_Write :: "ControlPacket \<Rightarrow> bytes \<Rightarrow> bytes" where
  "ControlPacket_Write p b =
     (let b = WriteByte b (ctrl_Type p);
          b = WriteUint32 b (ctrl_Length p)
      in b @ ctrl_Data p)"

definition ctrl_ok :: "ControlPacket \<Rightarrow> bool" where
  "ctrl_ok p \<longleftrightarrow> length (ctrl_Data p) = unat (ctrl_Length p - CONTROL_PACKET_HEADER_LEN)"

interpretation ctrl: codec "\<lambda>p. ControlPacket_Write p []" ParseControlPacket ctrl_ok
  by unfold_locales
    (simp add: ControlPacket_Write_def ParseControlPacket_def WriteByte_def ctrl_ok_def codec)

section \<open>NodeInfoPacket\<close>

definition NODE_INFO_PACKET_HEADER_LEN :: u16 where "NODE_INFO_PACKET_HEADER_LEN = 5"

record NodeInfo =
  node_IP :: u32
  node_Port :: u16
  node_NumOfChilds :: byte
  node_OffsetOfChild :: byte

record NodeInfoPacket =
  ninfo_Type :: byte
  ninfo_Length :: u16
  ninfo_SessionType :: u16
  ninfo_NodeInfos :: "NodeInfo list"

definition CreateNodeInfoPacket :: "u16 \<Rightarrow> NodeInfo list \<Rightarrow> NodeInfoPacket" where
  "CreateNodeInfoPacket sessionType nodeInfos =
     \<lparr>ninfo_Type = NODE_INFO_PACKET,
      ninfo_Length = of_nat (unat NODE_INFO_PACKET_HEADER_LEN + length nodeInfos * 8),
      ninfo_SessionType = sessionType,
      ninfo_NodeInfos = nodeInfos\<rparr>"

text \<open>The loop over the entries, and the body of one iteration.\<close>

definition ParseNodeInfo :: "bytes \<Rightarrow> (NodeInfo \<times> bytes) option" where
  "ParseNodeInfo r = do {
     (ip, r) \<leftarrow> ReadUint32 r;
     (port, r) \<leftarrow> ReadUint16 r;
     (numOfChilds, r) \<leftarrow> ReadByte r;
     (offsetOfChild, r) \<leftarrow> ReadByte r;
     Some (\<lparr>node_IP = ip, node_Port = port, node_NumOfChilds = numOfChilds,
       node_OffsetOfChild = offsetOfChild\<rparr>, r) }"

fun ParseMany :: "(bytes \<Rightarrow> ('a \<times> bytes) option) \<Rightarrow> nat \<Rightarrow> bytes \<Rightarrow> ('a list \<times> bytes) option" where
  "ParseMany f 0 r = Some ([], r)"
| "ParseMany f (Suc n) r = do {
     (x, r) \<leftarrow> f r;
     (xs, r) \<leftarrow> ParseMany f n r;
     Some (x # xs, r) }"

definition ParseNodeInfoPacket :: "bytes \<Rightarrow> (NodeInfoPacket \<times> bytes) option" where
  "ParseNodeInfoPacket r = do {
     (packetType, r) \<leftarrow> ReadByte r;
     (packetLength, r) \<leftarrow> ReadUint16 r;
     (packetSessionType, r) \<leftarrow> ReadUint16 r;
     let nodeInfosLen = (packetLength - NODE_INFO_PACKET_HEADER_LEN) div 8;
     (nodeInfos, r) \<leftarrow> ParseMany ParseNodeInfo (unat nodeInfosLen) r;
     Some (\<lparr>ninfo_Type = packetType, ninfo_Length = packetLength,
       ninfo_SessionType = packetSessionType,
       ninfo_NodeInfos = nodeInfos\<rparr>, r) }"

definition NodeInfo_Write :: "NodeInfo \<Rightarrow> bytes \<Rightarrow> bytes" where
  "NodeInfo_Write n b =
     (let b = WriteUint32 b (node_IP n);
          b = WriteUint16 b (node_Port n);
          b = WriteByte b (node_NumOfChilds n);
          b = WriteByte b (node_OffsetOfChild n)
      in b)"

definition NodeInfoPacket_Write :: "NodeInfoPacket \<Rightarrow> bytes \<Rightarrow> bytes" where
  "NodeInfoPacket_Write p b =
     (let b = WriteByte b (ninfo_Type p);
          b = WriteUint16 b (ninfo_Length p);
          b = WriteUint16 b (ninfo_SessionType p)
      in fold NodeInfo_Write (ninfo_NodeInfos p) b)"

text \<open>
  Repetition of a codec: \<open>n\<close> encodings in a row are read back by the counted loop. Proved once
  for any codec and used for node entries here and for addresses below.
\<close>

context codec
begin

lemma ParseMany_concat:
  "list_all ok xs \<Longrightarrow> ParseMany dec (length xs) (concat (map enc xs) @ r) = Some (xs, r)"
  by (induction xs) (auto simp: dec_enc)

end

interpretation node: codec "\<lambda>n. NodeInfo_Write n []" ParseNodeInfo "\<lambda>_. True"
  by unfold_locales (simp add: NodeInfo_Write_def ParseNodeInfo_def WriteByte_def codec)

lemma fold_NodeInfo_Write:
  "fold NodeInfo_Write ns w = w @ concat (map (\<lambda>n. NodeInfo_Write n []) ns)"
proof (induction ns arbitrary: w)
  case (Cons n ns)
  have "NodeInfo_Write n w = w @ NodeInfo_Write n []"
    by (simp add: NodeInfo_Write_def WriteByte_def codec)
  with Cons show ?case by simp
qed simp

definition ninfo_ok :: "NodeInfoPacket \<Rightarrow> bool" where
  "ninfo_ok p \<longleftrightarrow>
     length (ninfo_NodeInfos p) = unat ((ninfo_Length p - NODE_INFO_PACKET_HEADER_LEN) div 8)"

interpretation ninfo: codec "\<lambda>p. NodeInfoPacket_Write p []" ParseNodeInfoPacket ninfo_ok
proof
  fix p r
  assume "ninfo_ok p"
  moreover have "list_all (\<lambda>_. True) (ninfo_NodeInfos p)" by (simp add: list_all_iff)
  ultimately show "ParseNodeInfoPacket (NodeInfoPacket_Write p [] @ r) = Some (p, r)"
    using node.ParseMany_concat [of "ninfo_NodeInfos p" r]
    by (simp add: NodeInfoPacket_Write_def ParseNodeInfoPacket_def WriteByte_def ninfo_ok_def
        fold_NodeInfo_Write codec)
qed

text \<open>A created packet is well formed when its length fits 16 bits: at most 8191 nodes.\<close>

lemma CreateNodeInfoPacket_ok: "length ns \<le> 8191 \<Longrightarrow> ninfo_ok (CreateNodeInfoPacket t ns)"
proof -
  assume "length ns \<le> 8191"
  then have "unat (of_nat (length ns * 8) :: u16) = length ns * 8"
    by (intro unat_of_nat_lt) simp
  then show ?thesis
    by (simp add: ninfo_ok_def CreateNodeInfoPacket_def NODE_INFO_PACKET_HEADER_LEN_def unat_div)
qed

section \<open>PathInfoPacket\<close>

definition PATH_INFO_PACKET_HEADER_LEN :: u16 where "PATH_INFO_PACKET_HEADER_LEN = 6"

record PathInfoPacket =
  pinfo_Type :: byte
  pinfo_Length :: u16
  pinfo_SessionType :: u16
  pinfo_NumPath :: byte
  pinfo_IP :: "u32 list"

text \<open>\<open>v6\<close> is the IPv6 branch of \<open>net.ParseIP\<close>, see \<open>Net_Addr\<close>.\<close>

definition CreatePathInfoPacket ::
  "(string \<Rightarrow> ip option) \<Rightarrow> u16 \<Rightarrow> string list \<Rightarrow> PathInfoPacket go" where
  "CreatePathInfoPacket v6 sessionType ipAddrs =
     go_bind (go_map (Ip2int v6) ipAddrs) (\<lambda>ips.
       Inr \<lparr>pinfo_Type = PATH_INFO_PACKET,
         pinfo_Length = of_nat (unat PATH_INFO_PACKET_HEADER_LEN + length ipAddrs * 4),
         pinfo_SessionType = sessionType,
         pinfo_NumPath = of_nat (length ipAddrs),
         pinfo_IP = ips\<rparr>)"

definition CreatePathInfoAckPacket ::
  "(string \<Rightarrow> ip option) \<Rightarrow> u16 \<Rightarrow> string list \<Rightarrow> PathInfoPacket go" where
  "CreatePathInfoAckPacket v6 sessionType ipAddrs =
     go_bind (go_map (Ip2int v6) ipAddrs) (\<lambda>ips.
       Inr \<lparr>pinfo_Type = PATH_INFO_ACK_PACKET,
         pinfo_Length = of_nat (unat PATH_INFO_PACKET_HEADER_LEN + length ipAddrs * 4),
         pinfo_SessionType = sessionType,
         pinfo_NumPath = of_nat (length ipAddrs),
         pinfo_IP = ips\<rparr>)"

definition ParsePathInfoPacket :: "bytes \<Rightarrow> (PathInfoPacket \<times> bytes) option" where
  "ParsePathInfoPacket r = do {
     (packetType, r) \<leftarrow> ReadByte r;
     (packetLength, r) \<leftarrow> ReadUint16 r;
     (packetSessionType, r) \<leftarrow> ReadUint16 r;
     (numPath, r) \<leftarrow> ReadByte r;
     (ipAddrs, r) \<leftarrow> ParseMany ReadUint32 (unat numPath) r;
     Some (\<lparr>pinfo_Type = packetType, pinfo_Length = packetLength,
       pinfo_SessionType = packetSessionType,
       pinfo_NumPath = numPath,
       pinfo_IP = ipAddrs\<rparr>, r) }"

text \<open>The loop runs to \<open>NumPath\<close> and indexes \<open>IP\<close>, which panics when \<open>IP\<close> is shorter.\<close>

definition PathInfoPacket_Write :: "PathInfoPacket \<Rightarrow> bytes \<Rightarrow> bytes go" where
  "PathInfoPacket_Write p b =
     (let b = WriteByte b (pinfo_Type p);
          b = WriteUint16 b (pinfo_Length p);
          b = WriteUint16 b (pinfo_SessionType p);
          b = WriteByte b (pinfo_NumPath p)
      in go_fold (\<lambda>i b. go_bind (go_index (pinfo_IP p) i) (\<lambda>ip. Inr (WriteUint32 b ip)))
           [0..<unat (pinfo_NumPath p)] b)"

definition pinfo_ok :: "PathInfoPacket \<Rightarrow> bool" where
  "pinfo_ok p \<longleftrightarrow> length (pinfo_IP p) = unat (pinfo_NumPath p)"

text \<open>What the loop writes: the indexed copy of a list is the list.\<close>

lemma go_fold_write_index:
  "k \<le> length ips \<Longrightarrow>
   go_fold (\<lambda>i b. go_bind (go_index ips i) (\<lambda>ip. Inr (b @ be32 ip))) [0..<k] w =
   Inr (w @ concat (map be32 (take k ips)))"
  by (induction k) (auto simp: go_fold_append take_Suc_conv_app_nth codec)

lemma PathInfoPacket_Write_ok:
  "pinfo_ok p \<Longrightarrow> PathInfoPacket_Write p w = Inr (w @ [pinfo_Type p] @ be16 (pinfo_Length p)
     @ be16 (pinfo_SessionType p) @ [pinfo_NumPath p] @ concat (map be32 (pinfo_IP p)))"
  by (simp add: PathInfoPacket_Write_def WriteByte_def pinfo_ok_def go_fold_write_index codec)

lemma PathInfoPacket_Write_short:
  "length (pinfo_IP p) < unat (pinfo_NumPath p) \<Longrightarrow> PathInfoPacket_Write p w = Inl Bounds"
proof -
  let ?k = "length (pinfo_IP p)"
  assume k: "?k < unat (pinfo_NumPath p)"
  then have "[0..<unat (pinfo_NumPath p)] = [0..<?k] @ ?k # [Suc ?k..<unat (pinfo_NumPath p)]"
    by (metis le_add_same_cancel1 less_imp_le_nat upt_add_eq_append upt_conv_Cons zero_le
        le_add_diff_inverse plus_nat.add_0)
  then show ?thesis
    by (simp add: PathInfoPacket_Write_def go_fold_append go_fold_write_index codec)
qed

interpretation pinfo: codec
  "\<lambda>p. case PathInfoPacket_Write p [] of Inr b \<Rightarrow> b | Inl _ \<Rightarrow> []" ParsePathInfoPacket pinfo_ok
proof
  fix p r
  assume ok: "pinfo_ok p"
  have "list_all (\<lambda>_. True) (pinfo_IP p)" by (simp add: list_all_iff)
  with ok show "ParsePathInfoPacket
      ((case PathInfoPacket_Write p [] of Inr b \<Rightarrow> b | Inl _ \<Rightarrow> []) @ r) = Some (p, r)"
    using u32_be.ParseMany_concat [of "pinfo_IP p" r]
    by (simp add: PathInfoPacket_Write_ok ParsePathInfoPacket_def codec)
      (simp add: pinfo_ok_def)
qed

section \<open>AuditDataPacket and AuditDataAckPacket\<close>

text \<open>Here \<open>Length\<close> counts the payload alone. The two types differ in their type byte and in how
  the parser treats a short payload.\<close>

record AuditDataPacket =
  aud_Type :: byte
  aud_Length :: u32
  aud_SessionID :: u32
  aud_Data :: bytes

definition CreateAuditDataPacket :: "u32 \<Rightarrow> bytes \<Rightarrow> AuditDataPacket" where
  "CreateAuditDataPacket sessionID data =
     \<lparr>aud_Type = AUDIT_MSG_PACKET, aud_Length = of_nat (length data),
      aud_SessionID = sessionID, aud_Data = data\<rparr>"

definition ParseAuditDataPacket :: "bytes \<Rightarrow> (AuditDataPacket \<times> bytes) option" where
  "ParseAuditDataPacket r = do {
     (packetType, r) \<leftarrow> ReadByte r;
     (packetLength, r) \<leftarrow> ReadUint32 r;
     (sessionID, r) \<leftarrow> ReadUint32 r;
     (data, r) \<leftarrow> ReadFull (unat packetLength) r;
     Some (\<lparr>aud_Type = packetType, aud_Length = packetLength, aud_SessionID = sessionID,
       aud_Data = data\<rparr>, r) }"

definition AuditDataPacket_Write :: "AuditDataPacket \<Rightarrow> bytes \<Rightarrow> bytes" where
  "AuditDataPacket_Write p b =
     (let b = WriteByte b (aud_Type p);
          b = WriteUint32 b (aud_Length p);
          b = WriteUint32 b (aud_SessionID p)
      in b @ aud_Data p)"

text \<open>\<open>WriteFrame\<close> puts the type and the little-endian body length in front of the body.\<close>

definition AuditDataPacket_WriteFrame :: "AuditDataPacket \<Rightarrow> bytes \<Rightarrow> bytes \<Rightarrow> bytes" where
  "AuditDataPacket_WriteFrame p w body =
     (let hdr = aud_Type p # PutUint32LE (of_nat (length body)) in (w @ hdr) @ body)"

definition aud_ok :: "AuditDataPacket \<Rightarrow> bool" where
  "aud_ok p \<longleftrightarrow> length (aud_Data p) = unat (aud_Length p)"

interpretation aud: codec "\<lambda>p. AuditDataPacket_Write p []" ParseAuditDataPacket aud_ok
  by unfold_locales
    (simp add: AuditDataPacket_Write_def ParseAuditDataPacket_def WriteByte_def aud_ok_def codec)

record AuditDataAckPacket =
  audack_Type :: byte
  audack_Length :: u32
  audack_SessionID :: u32
  audack_Data :: bytes

definition CreateAuditDataAckPacket :: "u32 \<Rightarrow> bytes \<Rightarrow> AuditDataAckPacket" where
  "CreateAuditDataAckPacket sessionID data =
     \<lparr>audack_Type = AUDIT_MSG_ACK_PACKET, audack_Length = of_nat (length data),
      audack_SessionID = sessionID, audack_Data = data\<rparr>"

definition ParseAuditDataAckPacket :: "bytes \<Rightarrow> (AuditDataAckPacket \<times> bytes) option" where
  "ParseAuditDataAckPacket r = do {
     (packetType, r) \<leftarrow> ReadByte r;
     (packetLength, r) \<leftarrow> ReadUint32 r;
     (sessionID, r) \<leftarrow> ReadUint32 r;
     let (data, r) = ReadInto (unat packetLength) r;
     Some (\<lparr>audack_Type = packetType, audack_Length = packetLength, audack_SessionID = sessionID,
       audack_Data = data\<rparr>, r) }"

definition AuditDataAckPacket_Write :: "AuditDataAckPacket \<Rightarrow> bytes \<Rightarrow> bytes" where
  "AuditDataAckPacket_Write p b =
     (let b = WriteByte b (audack_Type p);
          b = WriteUint32 b (audack_Length p);
          b = WriteUint32 b (audack_SessionID p)
      in b @ audack_Data p)"

definition AuditDataAckPacket_WriteFrame :: "AuditDataAckPacket \<Rightarrow> bytes \<Rightarrow> bytes \<Rightarrow> bytes" where
  "AuditDataAckPacket_WriteFrame p w body =
     (let hdr = audack_Type p # PutUint32LE (of_nat (length body)) in (w @ hdr) @ body)"

definition audack_ok :: "AuditDataAckPacket \<Rightarrow> bool" where
  "audack_ok p \<longleftrightarrow> length (audack_Data p) = unat (audack_Length p)"

interpretation audack: codec "\<lambda>p. AuditDataAckPacket_Write p []" ParseAuditDataAckPacket audack_ok
  by unfold_locales
    (simp add: AuditDataAckPacket_Write_def ParseAuditDataAckPacket_def WriteByte_def audack_ok_def
      codec)

end
