(* ===== verification/LT_Code.thy ===== *)
theory LT_Code
  imports Prelude
begin

text \<open>
  \<open>mp2btp-mainnew/fec/lt/lt.go\<close>: the parameters of an LT code. The symbol counts are computed in
  32-bit floating point, which is modelled exactly for non-negative values: a result is
  rounded to 24 significant bits, ties to even. Sizes stay far below the overflow threshold and
  above the subnormal range, which are not modelled; a configuration has positive segment sizes,
  so no division by zero arises. \<open>Encode\<close> and \<open>Decode\<close> call C through cgo and are the fields of
  \<open>fec_lib\<close>, which every definition that uses them takes as an argument; \<open>None\<close> is a nil result.
\<close>

section \<open>float32\<close>

text \<open>A \<open>float32\<close> is a pair of a significand and an exponent, \<open>(m, e)\<close> for \<open>m * 2 ^ e\<close>.\<close>

type_synonym f32 = "int \<times> int"

text \<open>The number of binary digits of a positive number.\<close>

function bits :: "int \<Rightarrow> int" where
  "bits n = (if n \<le> 0 then 0 else 1 + bits (n div 2))"
  by pat_completeness auto
termination
  by (relation "measure nat") auto

declare bits.simps [simp del]

definition div_half_even :: "int \<Rightarrow> int \<Rightarrow> int" where
  "div_half_even a b =
     (let q = a div b; r = a mod b
      in if 2 * r < b then q else if b < 2 * r then q + 1 else if even q then q else q + 1)"

text \<open>The quotient \<open>p / q\<close> rounded: its binary exponent \<open>k\<close>, then 24 digits from there.\<close>

definition f32_quot :: "int \<Rightarrow> int \<Rightarrow> f32" where
  "f32_quot p q =
     (if p \<le> 0 then (0, 0)
      else
        let d = bits p - bits q;
            ge = (if 0 \<le> d then 2 ^ nat d * q \<le> p else q \<le> p * 2 ^ nat (- d));
            e = (if ge then d else d - 1) - 23;
            m = (if 0 \<le> e then div_half_even p (q * 2 ^ nat e)
                 else div_half_even (p * 2 ^ nat (- e)) q)
        in (m, e))"

definition f32_of_u32 :: "u32 \<Rightarrow> f32" where
  "f32_of_u32 w = f32_quot (uint w) 1"

definition f32_div :: "f32 \<Rightarrow> f32 \<Rightarrow> f32" where
  "f32_div x y =
     (let d = snd x - snd y
      in if 0 \<le> d then f32_quot (fst x * 2 ^ nat d) (fst y)
         else f32_quot (fst x) (fst y * 2 ^ nat (- d)))"

definition f32_mul :: "f32 \<Rightarrow> f32 \<Rightarrow> f32" where
  "f32_mul x y =
     (let e = snd x + snd y
      in if 0 \<le> e then f32_quot (fst x * fst y * 2 ^ nat e) 1
         else f32_quot (fst x * fst y) (2 ^ nat (- e)))"

text \<open>The conversion \<open>uint32(x)\<close> truncates.\<close>

definition u32_of_f32 :: "f32 \<Rightarrow> u32" where
  "u32_of_f32 x =
     of_int (if 0 \<le> snd x then fst x * 2 ^ nat (snd x) else fst x div 2 ^ nat (- snd x))"

text \<open>The constants \<open>0.95\<close> and \<open>0.1\<close> of the sources, rounded to \<open>float32\<close>.\<close>

definition f32_0_95 :: f32 where "f32_0_95 = f32_quot 95 100"
definition f32_0_1 :: f32 where "f32_0_1 = f32_quot 1 10"

section \<open>LT\<close>

record LT =
  lt_symSize :: u32
  lt_numSrcSyms :: u32
  lt_numEncSyms :: u32
  lt_numSymsForDec :: u32
  lt_srcBlockSize :: u32
  lt_encBlockSize :: u32
  lt_codeRate :: f32
  lt_codeRateForDec :: f32

definition CreateLTCode :: "u32 \<Rightarrow> u32 \<Rightarrow> f32 \<Rightarrow> f32 \<Rightarrow> LT" where
  "CreateLTCode symSize numSrcSyms codeRate codeRateForDec =
     (let numEncSyms = u32_of_f32 (f32_div (f32_of_u32 numSrcSyms) codeRate);
          numSymsForDec = u32_of_f32 (f32_div (f32_of_u32 numSrcSyms) codeRateForDec)
      in \<lparr>lt_symSize = symSize,
          lt_numSrcSyms = numSrcSyms,
          lt_numEncSyms = numEncSyms,
          lt_numSymsForDec = numSymsForDec,
          lt_srcBlockSize = symSize * numSrcSyms,
          lt_encBlockSize = symSize * numEncSyms,
          lt_codeRate = codeRate,
          lt_codeRateForDec = codeRateForDec\<rparr>)"

definition GetNumEncSyms :: "LT \<Rightarrow> u32" where "GetNumEncSyms lt = lt_numEncSyms lt"
definition GetNumSymsForDec :: "LT \<Rightarrow> u32" where "GetNumSymsForDec lt = lt_numSymsForDec lt"

record fec_lib =
  lt_encode :: "LT \<Rightarrow> bytes \<Rightarrow> u32 \<Rightarrow> bytes option"
  lt_decode :: "LT \<Rightarrow> bytes \<Rightarrow> bytes \<Rightarrow> u32 \<Rightarrow> bytes option"

text \<open>\<open>&data[0]\<close> panics on an empty slice.\<close>

definition LT_Encode :: "fec_lib \<Rightarrow> LT \<Rightarrow> bytes \<Rightarrow> u32 \<Rightarrow> bytes option go" where
  "LT_Encode F lt data seedNumber =
     (if data = [] then Inl Bounds else Inr (lt_encode F lt data seedNumber))"

definition LT_Decode :: "fec_lib \<Rightarrow> LT \<Rightarrow> bytes \<Rightarrow> bytes \<Rightarrow> u32 \<Rightarrow> bytes option go" where
  "LT_Decode F lt data symbolMap seedNumber =
     (if data = [] \<or> symbolMap = [] then Inl Bounds
      else Inr (lt_decode F lt data symbolMap seedNumber))"

text \<open>
  With the deployed configuration (segments of 2 MiB, \<open>FEC_SEGMENT_SIZE = 2466816\<close>) rounding does
  not lose a symbol: the code has \<open>2466816 / 1024 = 2409\<close> encoded symbols.
\<close>

lemma f32_0_95_value: "f32_0_95 = (15938355, -24)"
  by code_simp

lemma f32_0_1_value: "f32_0_1 = (13421773, -27)"
  by code_simp

lemma deployed_lt_code:
  "lt_numEncSyms (CreateLTCode 1024 2048 (f32_div (f32_of_u32 2097152) (f32_of_u32 2466816)) f32_0_95)
     = 2409"
  by code_simp

lemma deployed_lt_dec:
  "lt_numSymsForDec (CreateLTCode 1024 2048 (f32_div (f32_of_u32 2097152) (f32_of_u32 2466816)) f32_0_95)
     = 2155"
  by code_simp

end
