(* ===== verification/Segment.thy ===== *)
theory Segment
  imports Packets LT_Code
begin

text \<open>
  \<open>puctrl_segment.go\<close>, \<open>puctrl_stats.go\<close> and the parts of \<open>Config\<close> they read: one segment of a
  block, into which received data is pushed at the place its data number gives, in any order and
  possibly more than once, with its counters per session. Clock readings are not modelled; that a
  response time was recorded is the flag \<open>st_responded\<close>. A slice has the capacity of its length,
  and what a method panics with is the left summand.
\<close>

section \<open>Config\<close>

definition PUSH_SESSION :: byte where "PUSH_SESSION = 0"
definition PULL_SESSION :: byte where "PULL_SESSION = 1"
definition PEER_NOT_KNOWN :: u32 where "PEER_NOT_KNOWN = 0"
definition PEER_HAS_BLOCK :: u32 where "PEER_HAS_BLOCK = 1"
definition PEER_HAS_NO_BLOCK :: u32 where "PEER_HAS_NO_BLOCK = 2"
definition PEER_DOWNLOADING :: u32 where "PEER_DOWNLOADING = 3"
definition DATA_TYPE_SOURCE :: byte where "DATA_TYPE_SOURCE = 0"
definition DATA_TYPE_FEC :: byte where "DATA_TYPE_FEC = 1"
definition PULL_MODE_SP :: byte where "PULL_MODE_SP = 0"
definition PULL_MODE_MP :: byte where "PULL_MODE_MP = 1"
definition PULL_MODE_MP_FEC :: byte where "PULL_MODE_MP_FEC = 2"

record PeerAddr =
  pa_Addr :: string
  pa_NumChild :: byte
  pa_ChildOffset :: byte

record Config =
  NUM_MULTIPATH :: u32
  MY_IP_ADDRS :: "string list"
  LISTEN_PORT :: u16
  BIND_PORT :: u16
  EQUIC_ENABLE :: bool
  EQUIC_PATH :: string
  EQUIC_APP_SRC_PORT :: u16
  EQUIC_APP_DST_PORT :: u16
  EQUIC_TUN_SRC_PORT :: u16
  EQUIC_TUN_DST_PORT :: u16
  EQUIC_FEC_MODE :: bool
  PULL_MODE :: byte
  NUM_PEERS :: u16
  SEGMENT_SIZE :: u32
  FEC_SEGMENT_SIZE :: u32
  PUSH_PULL_TRANSITION_TIMEOUT :: u16
  MAX_CONNECTION_RETRY :: u16

section \<open>Stats\<close>

record Stats =
  st_blockNumber :: u32
  st_segmentIndex :: u32
  st_responded :: bool
  st_segmentSize :: u32
  st_pullMode :: byte
  st_receivedBytes :: "u32 \<rightharpoonup> u32"
  st_receivedNumData :: "u32 \<rightharpoonup> u32"
  st_duplicatedNumData :: "u32 \<rightharpoonup> u32"

definition CreateStats :: "u32 \<Rightarrow> u32 \<Rightarrow> Stats" where
  "CreateStats blockNo segmentIdx =
     \<lparr>st_blockNumber = blockNo, st_segmentIndex = segmentIdx, st_responded = False,
      st_segmentSize = 0, st_pullMode = 0, st_receivedBytes = Map.empty,
      st_receivedNumData = Map.empty, st_duplicatedNumData = Map.empty\<rparr>"

definition SetSegmentResponseTime :: "bool \<Rightarrow> Stats \<Rightarrow> Stats" where
  "SetSegmentResponseTime finish s = (if \<not> finish then s else s\<lparr>st_responded := True\<rparr>)"

definition SetSegmentSize :: "u32 \<Rightarrow> Stats \<Rightarrow> Stats" where
  "SetSegmentSize sz s = s\<lparr>st_segmentSize := sz\<rparr>"

definition SetPullMode :: "byte \<Rightarrow> Stats \<Rightarrow> Stats" where
  "SetPullMode mode s = s\<lparr>st_pullMode := mode\<rparr>"

text \<open>\<open>m[k] += n\<close>: a missing key counts from zero.\<close>

definition map_add_at :: "(u32 \<rightharpoonup> u32) \<Rightarrow> u32 \<Rightarrow> u32 \<Rightarrow> (u32 \<rightharpoonup> u32)" where
  "map_add_at m k n = m(k \<mapsto> (case m k of None \<Rightarrow> 0 | Some v \<Rightarrow> v) + n)"

definition IncreaseReceivedBytes :: "u32 \<Rightarrow> u32 \<Rightarrow> Stats \<Rightarrow> Stats" where
  "IncreaseReceivedBytes sessionID n s =
     s\<lparr>st_receivedBytes := map_add_at (st_receivedBytes s) sessionID n\<rparr>"

definition IncreaseReceivedNumData :: "u32 \<Rightarrow> Stats \<Rightarrow> Stats" where
  "IncreaseReceivedNumData sessionID s =
     s\<lparr>st_receivedNumData := map_add_at (st_receivedNumData s) sessionID 1\<rparr>"

definition IncreaseDuplicatedNumData :: "u32 \<Rightarrow> Stats \<Rightarrow> Stats" where
  "IncreaseDuplicatedNumData sessionID s =
     s\<lparr>st_duplicatedNumData := map_add_at (st_duplicatedNumData s) sessionID 1\<rparr>"

section \<open>Segment\<close>

text \<open>A nil \<open>buffer\<close> and an empty one behave alike here, except that only nil reports a failed
  decoding; \<open>FecDecodeData\<close> reads that off the decoder's result.\<close>

record Segment =
  sg_blockNumber :: u32
  sg_index :: u32
  sg_numData :: u32
  sg_startDataNumber :: u32
  sg_endDataNumber :: u32
  sg_expectedDataNumber :: u32
  sg_segmentSize :: u32
  sg_dataSize :: "u32 list"
  sg_buffer :: bytes
  sg_fec :: LT
  sg_numFecData :: u32
  sg_numFecDecFail :: u32
  sg_startFecDataNumber :: u32
  sg_endFecDataNumber :: u32
  sg_fecSegmentSize :: u32
  sg_fecSeedNumber :: u32
  sg_fecDataSize :: bytes
  sg_fecBuffer :: bytes
  sg_stats :: Stats

definition PAYLOAD :: u32 where "PAYLOAD = 1024"

definition CreateSegment ::
    "Config \<Rightarrow> u32 \<Rightarrow> u32 \<Rightarrow> u32 \<Rightarrow> u32 \<Rightarrow> u32 \<Rightarrow> u32 \<Rightarrow> bool \<Rightarrow> Segment" where
  "CreateSegment C block idx startNo endNo segSize seed lastSeg =
     (let fec = CreateLTCode PAYLOAD (SEGMENT_SIZE C div PAYLOAD)
                  (f32_div (f32_of_u32 (SEGMENT_SIZE C)) (f32_of_u32 (FEC_SEGMENT_SIZE C)))
                  f32_0_95;
          fecSegmentSize = GetNumEncSyms fec * PAYLOAD;
          startFec = (idx * fecSegmentSize) div PAYLOAD;
          endFec = startFec + GetNumEncSyms fec - 1
      in \<lparr>sg_blockNumber = block,
          sg_index = idx,
          sg_numData = 0,
          sg_startDataNumber = startNo,
          sg_endDataNumber = endNo,
          sg_expectedDataNumber = startNo,
          sg_segmentSize = segSize,
          sg_dataSize = replicate (unat (endNo - startNo + 1)) 0,
          sg_buffer = replicate (unat segSize) 0,
          sg_fec = fec,
          sg_numFecData = 0,
          sg_numFecDecFail = 0,
          sg_startFecDataNumber = startFec,
          sg_endFecDataNumber = endFec,
          sg_fecSegmentSize = fecSegmentSize,
          sg_fecSeedNumber = seed,
          sg_fecDataSize = replicate (unat (endFec - startFec + 1)) 0,
          sg_fecBuffer = replicate (unat fecSegmentSize) 0,
          sg_stats = SetPullMode (PULL_MODE C) (SetSegmentSize segSize
                       (SetSegmentResponseTime False (CreateStats block idx)))\<rparr>)"

text \<open>\<open>copy(buf[a:b], data)\<close>, where \<open>buf[a:b]\<close> panics unless \<open>a <= b <= cap(buf)\<close>.\<close>

definition copy_at :: "bytes \<Rightarrow> nat \<Rightarrow> nat \<Rightarrow> bytes \<Rightarrow> bytes go" where
  "copy_at buf a b data =
     (if a \<le> b \<and> b \<le> length buf
      then Inr (take a buf @ take (b - a) data @ drop (a + min (b - a) (length data)) buf)
      else Inl Bounds)"

text \<open>The loop that moves \<open>expectedDataNumber\<close> over the data already there: its argument is what
  \<open>dataSize\<close> holds from \<open>expectedDataNumber\<close> on.\<close>

fun advance :: "u32 list \<Rightarrow> u32 \<Rightarrow> u32" where
  "advance [] e = e"
| "advance (d # ds) e = (if 0 < d then advance ds (e + 1) else e)"

text \<open>The length to push: what is left of the segment, or the whole packet.\<close>

definition push_len :: "u32 \<Rightarrow> bytes \<Rightarrow> u32" where
  "push_len unreadDataLen data =
     (if of_nat (length data) \<le> unreadDataLen then of_nat (length data) else unreadDataLen)"

definition PushData :: "u32 \<Rightarrow> u32 \<Rightarrow> bytes \<Rightarrow> Segment \<Rightarrow> (int \<times> bool \<times> Segment) go" where
  "PushData sessionID dataNumber data g =
     (if sg_startDataNumber g \<le> dataNumber \<and> dataNumber \<le> sg_endDataNumber g then
        let dataIdx = dataNumber - sg_startDataNumber g;
            startOffset = dataIdx * PAYLOAD;
            pushLen = push_len (sg_segmentSize g - startOffset) data;
            endOffset = startOffset + pushLen
        in go_bind (go_index (sg_dataSize g) (unat dataIdx)) (\<lambda>old.
             if old = pushLen then
               Inr (-1, False, g\<lparr>sg_stats := IncreaseDuplicatedNumData sessionID (sg_stats g)\<rparr>)
             else go_bind (copy_at (sg_buffer g) (unat startOffset) (unat endOffset) data) (\<lambda>buf.
               let dataSize = (sg_dataSize g)[unat dataIdx := pushLen];
                   expected = (if dataNumber = sg_expectedDataNumber g
                     then advance (drop (unat dataIdx) dataSize) (sg_expectedDataNumber g)
                     else sg_expectedDataNumber g);
                   stats = IncreaseReceivedNumData sessionID
                             (IncreaseReceivedBytes sessionID pushLen (sg_stats g));
                   eos = (endOffset = sg_segmentSize g)
               in Inr (uint (endOffset - startOffset), eos,
                    g\<lparr>sg_buffer := buf, sg_dataSize := dataSize, sg_numData := sg_numData g + 1,
                      sg_expectedDataNumber := expected,
                      sg_stats := if eos then SetSegmentResponseTime True stats else stats\<rparr>)))
      else Inr (0, False, g))"

definition PopData :: "bytes \<Rightarrow> u32 \<Rightarrow> u32 \<Rightarrow> Segment \<Rightarrow> (int \<times> bool \<times> bytes) go" where
  "PopData buf startOffsetInBlock endOffsetInBlock g =
     (let startOffset = startOffsetInBlock - sg_startDataNumber g * PAYLOAD;
          endOffset = endOffsetInBlock - sg_startDataNumber g * PAYLOAD;
          endOffset = (if sg_segmentSize g < endOffset then sg_segmentSize g else endOffset)
      in if unat startOffset \<le> unat endOffset \<and> unat endOffset \<le> length (sg_buffer g)
         then let src = take (unat endOffset - unat startOffset)
                          (drop (unat startOffset) (sg_buffer g));
                  got = take (length buf) src @ drop (length src) buf
              in Inr (uint (endOffset - startOffset), endOffset = sg_segmentSize g, got)
         else Inl Bounds)"

definition PopFecData :: "bytes \<Rightarrow> u32 \<Rightarrow> u32 \<Rightarrow> Segment \<Rightarrow> (int \<times> bool \<times> bytes) go" where
  "PopFecData buf startOffsetInBlock endOffsetInBlock g =
     (let startOffset = startOffsetInBlock - sg_startFecDataNumber g * PAYLOAD;
          endOffset = endOffsetInBlock - sg_startFecDataNumber g * PAYLOAD;
          endOffset = (if sg_fecSegmentSize g < endOffset then sg_fecSegmentSize g else endOffset)
      in if unat startOffset \<le> unat endOffset \<and> unat endOffset \<le> length (sg_fecBuffer g)
         then let src = take (unat endOffset - unat startOffset)
                          (drop (unat startOffset) (sg_fecBuffer g));
                  got = take (length buf) src @ drop (length src) buf
              in Inr (uint (endOffset - startOffset), endOffset = sg_fecSegmentSize g, got)
         else Inl Bounds)"

definition FecEncodeData :: "fec_lib \<Rightarrow> u32 \<Rightarrow> Segment \<Rightarrow> (u32 \<times> u32 \<times> Segment) go" where
  "FecEncodeData F fecSeedNumber g =
     go_bind (LT_Encode F (sg_fec g) (sg_buffer g) fecSeedNumber) (\<lambda>enc.
       case enc of
         None \<Rightarrow> Inl (Explicit ''Segment.FecEncodeData(): FEC Encoding fail!'')
       | Some b \<Rightarrow> Inr (sg_startFecDataNumber g, sg_endFecDataNumber g, g\<lparr>sg_fecBuffer := b\<rparr>))"

definition FecDecodeData :: "fec_lib \<Rightarrow> u32 \<Rightarrow> Segment \<Rightarrow> (bool \<times> Segment) go" where
  "FecDecodeData F fecSeedNumber g =
     (let forDec = GetNumSymsForDec (sg_fec g);
          decStep = sg_numFecDecFail g * u32_of_f32 (f32_mul (f32_of_u32 forDec) f32_0_1)
      in if forDec < sg_numFecData g + decStep then
           go_bind (LT_Decode F (sg_fec g) (sg_fecBuffer g) (sg_fecDataSize g) fecSeedNumber)
             (\<lambda>dec. case dec of
                Some b \<Rightarrow> Inr (True, g\<lparr>sg_buffer := b, sg_numFecData := GetNumEncSyms (sg_fec g),
                                  sg_numFecDecFail := 0\<rparr>)
              | None \<Rightarrow> Inr (False, g\<lparr>sg_buffer := [],
                                  sg_numFecDecFail := sg_numFecDecFail g + 1\<rparr>))
         else if GetNumEncSyms (sg_fec g) \<le> sg_numFecData g then
           Inl (Explicit ''Segment.FecDecodeData(): FEC Decoding Fail!!! (Last chance)'')
         else Inr (False, g))"

definition PushFecData ::
    "fec_lib \<Rightarrow> u32 \<Rightarrow> u32 \<Rightarrow> bytes \<Rightarrow> Segment \<Rightarrow> (int \<times> bool \<times> Segment) go" where
  "PushFecData F sessionID dataNumber data g =
     (if (sg_startFecDataNumber g \<le> dataNumber \<and> dataNumber \<le> sg_endFecDataNumber g) \<and>
         \<not> (sg_numFecData g = GetNumEncSyms (sg_fec g) \<and> sg_numFecDecFail g = 0) then
        let dataIdx = dataNumber - sg_startFecDataNumber g;
            startOffset = dataIdx * PAYLOAD;
            pushLen = push_len (sg_fecSegmentSize g - startOffset) data;
            endOffset = startOffset + pushLen
        in go_bind (go_index (sg_fecDataSize g) (unat dataIdx)) (\<lambda>old.
             if old = 1 then
               Inr (-1, False, g\<lparr>sg_stats := IncreaseDuplicatedNumData sessionID (sg_stats g)\<rparr>)
             else go_bind (copy_at (sg_fecBuffer g) (unat startOffset) (unat endOffset) data) (\<lambda>buf.
               go_bind (FecDecodeData F (sg_fecSeedNumber g)
                   (g\<lparr>sg_fecBuffer := buf, sg_fecDataSize := (sg_fecDataSize g)[unat dataIdx := 1],
                      sg_numFecData := sg_numFecData g + 1\<rparr>)) (\<lambda>(ok, g).
                 let stats = IncreaseReceivedNumData sessionID
                               (IncreaseReceivedBytes sessionID pushLen (sg_stats g))
                 in Inr (uint (endOffset - startOffset), ok,
                      g\<lparr>sg_stats := if ok then SetSegmentResponseTime True stats else stats\<rparr>))))
      else Inr (0, False, g))"

end
