(* ===== verification/Segment_Props.thy ===== *)
theory Segment_Props
  imports Segment
begin

text \<open>
  Reassembly of a segment. \<open>received g src S\<close> says that \<open>g\<close> holds the chunks \<open>S\<close> of the source
  \<open>src\<close>, and nothing else; pushing a packet keeps it, whatever the order and however often a
  packet comes, so that a segment that has every chunk holds the source.
\<close>

section \<open>Chunks of a byte sequence\<close>

definition chunk :: "bytes \<Rightarrow> nat \<Rightarrow> bytes" where
  "chunk src k = take 1024 (drop (k * 1024) src)"

lemma length_chunk: "length (chunk src k) = min 1024 (length src - k * 1024)"
  by (simp add: chunk_def)

lemma chunk_nth: "i < 1024 \<Longrightarrow> k * 1024 + i < length src \<Longrightarrow> chunk src k ! i = src ! (k * 1024 + i)"
  by (simp add: chunk_def)

lemma chunks_eqI:
  assumes "length xs = length ys" and "length xs \<le> n * 1024"
    and "\<And>k. k < n \<Longrightarrow> chunk xs k = chunk ys k"
  shows "xs = ys"
proof (rule nth_equalityI [OF assms(1)])
  fix i assume i: "i < length xs"
  define k where "k = i div 1024"
  have ik: "i = k * 1024 + i mod 1024" and km: "i mod 1024 < 1024" by (simp_all add: k_def)
  have "k < n" using i assms(2) by (simp add: k_def less_mult_imp_div_less)
  then have "chunk xs k ! (i mod 1024) = chunk ys k ! (i mod 1024)" using assms(3) by simp
  moreover have "chunk xs k ! (i mod 1024) = xs ! i"
    using chunk_nth [OF km, of k xs] i ik by simp
  moreover have "chunk ys k ! (i mod 1024) = ys ! i"
    using chunk_nth [OF km, of k ys] i ik assms(1) by simp
  ultimately show "xs ! i = ys ! i" by simp
qed

lemma chunk_splice:
  assumes "k * 1024 + length d = min (length buf) (k * 1024 + 1024)" and "k * 1024 \<le> length buf"
  shows "chunk (take (k * 1024) buf @ d @ drop (k * 1024 + length d) buf) j
           = (if j = k then d else chunk buf j)"
proof -
  let ?b = "take (k * 1024) buf @ d @ drop (k * 1024 + length d) buf"
  have len: "length ?b = length buf" using assms by auto
  show ?thesis
  proof (cases "j = k")
    case True
    have "drop (k * 1024) ?b = d @ drop (k * 1024 + length d) buf" using assms(2) by simp
    moreover have "length d \<le> 1024" using assms(1) by simp
    moreover have "length d = 1024 \<or> drop (k * 1024 + length d) buf = []" using assms by auto
    ultimately show ?thesis using True unfolding chunk_def by auto
  next
    case False
    have "chunk ?b j = chunk buf j"
    proof (rule nth_equalityI)
      show "length (chunk ?b j) = length (chunk buf j)" by (simp only: length_chunk len)
      fix i assume "i < length (chunk ?b j)"
      then have i: "i < 1024" "j * 1024 + i < length buf" by (simp_all only: length_chunk len)
      have out: "j * 1024 + i < k * 1024 \<or> k * 1024 + length d \<le> j * 1024 + i"
        using False i assms by auto
      have "?b ! (j * 1024 + i) = buf ! (j * 1024 + i)"
        using out i assms(2) by (auto simp: nth_append)
      then show "chunk ?b j ! i = chunk buf j ! i" using i by (simp add: chunk_nth len)
    qed
    then show ?thesis using False by simp
  qed
qed

section \<open>The first gap\<close>

definition gap :: "u32 list \<Rightarrow> nat" where
  "gap ds = length (takeWhile (\<lambda>d. 0 < d) ds)"

lemma advance_gap: "advance ds e = e + of_nat (gap ds)"
  by (induction ds arbitrary: e) (auto simp: gap_def)

lemma gap_le: "gap ds \<le> length ds"
  by (simp add: gap_def length_takeWhile_le)

lemma gap_lt_nth: "j < gap ds \<Longrightarrow> 0 < ds ! j"
  unfolding gap_def by (metis nth_mem set_takeWhileD takeWhile_nth)

lemma gap_fill_other:
  assumes "gap ds < k"
  shows "gap (ds[k := v]) = gap ds"
  using assms
proof (induction ds arbitrary: k)
  case Nil
  then show ?case by simp
next
  case (Cons d ds)
  then show ?case by (cases k) (auto simp: gap_def split: if_splits)
qed

lemma gap_fill_first:
  assumes "k = gap ds" "k < length ds" "0 < v"
  shows "gap (ds[k := v]) = k + gap (drop k (ds[k := v]))"
proof -
  have "\<And>d. d \<in> set (take k ds) \<Longrightarrow> 0 < d"
    using assms(1) by (auto simp: in_set_conv_nth gap_lt_nth)
  then have "takeWhile (\<lambda>d. 0 < d) (take k ds @ drop k (ds[k := v]))
               = take k ds @ takeWhile (\<lambda>d. 0 < d) (drop k (ds[k := v]))"
    by (rule takeWhile_append2)
  moreover have "take k ds @ drop k (ds[k := v]) = ds[k := v]"
    by (metis append_take_drop_id order_refl take_update_cancel)
  ultimately show ?thesis using assms(2) by (simp add: gap_def)
qed

lemma gap_all: "gap ds = length ds \<longleftrightarrow> (\<forall>j < length ds. 0 < ds ! j)"
proof
  assume "gap ds = length ds"
  then show "\<forall>j < length ds. 0 < ds ! j" using gap_lt_nth [of _ ds] by simp
next
  assume "\<forall>j < length ds. 0 < ds ! j"
  then have "takeWhile (\<lambda>d. 0 < d) ds = ds" by (auto simp: in_set_conv_nth)
  then show "gap ds = length ds" by (metis gap_def)
qed

section \<open>Segments that can receive\<close>

text \<open>
  The geometry \<open>CreateSegment\<close> is called with: the data numbers \<open>start .. end\<close> cut the segment's
  \<open>segmentSize\<close> bytes into chunks of 1024, the last one shorter perhaps.
\<close>

definition seg_geom :: "Segment \<Rightarrow> bool" where
  "seg_geom g \<longleftrightarrow>
     (let n = length (sg_dataSize g)
      in 0 < n \<and> unat (sg_startDataNumber g) + n = unat (sg_endDataNumber g) + 1 \<and>
         (n - 1) * 1024 < unat (sg_segmentSize g) \<and> unat (sg_segmentSize g) \<le> n * 1024 \<and>
         length (sg_buffer g) = unat (sg_segmentSize g))"

definition received :: "Segment \<Rightarrow> bytes \<Rightarrow> nat set \<Rightarrow> bool" where
  "received g src S \<longleftrightarrow>
     seg_geom g \<and> length src = unat (sg_segmentSize g) \<and> S \<subseteq> {..<length (sg_dataSize g)} \<and>
     (\<forall>k < length (sg_dataSize g). sg_dataSize g ! k
        = (if k \<in> S then of_nat (length (chunk src k)) else 0)) \<and>
     (\<forall>k \<in> S. chunk (sg_buffer g) k = chunk src k) \<and>
     sg_numData g = of_nat (card S) \<and>
     sg_expectedDataNumber g = sg_startDataNumber g + of_nat (gap (sg_dataSize g))"

text \<open>What a sender puts into the packet of chunk \<open>k\<close>: 1024 bytes that start with the chunk.\<close>

definition packet_for :: "bytes \<Rightarrow> nat \<Rightarrow> bytes \<Rightarrow> bool" where
  "packet_for src k data \<longleftrightarrow> length data = 1024 \<and> take (length (chunk src k)) data = chunk src k"

text \<open>The arithmetic of one push, in \<open>nat\<close>.\<close>

definition pushable :: "Segment \<Rightarrow> bytes \<Rightarrow> nat \<Rightarrow> bool" where
  "pushable g src k \<longleftrightarrow>
     seg_geom g \<and> length src = unat (sg_segmentSize g) \<and> k < length (sg_dataSize g)"

lemma pushable_bounds:
  assumes "pushable g src k"
  shows "length (sg_dataSize g) \<le> 2 ^ 22" and "k * 1024 < unat (sg_segmentSize g)"
    and "k < length (sg_dataSize g)" and "length src = unat (sg_segmentSize g)"
proof -
  have "(length (sg_dataSize g) - 1) * 1024 < 2 ^ 32"
    using assms unat_u32_lt [of "sg_segmentSize g"] by (auto simp: pushable_def seg_geom_def Let_def)
  then show "length (sg_dataSize g) \<le> 2 ^ 22" by simp
  have "k \<le> length (sg_dataSize g) - 1" using assms by (auto simp: pushable_def)
  then have "k * 1024 \<le> (length (sg_dataSize g) - 1) * 1024" by (rule mult_le_mono1)
  then show "k * 1024 < unat (sg_segmentSize g)"
    using assms unfolding pushable_def seg_geom_def Let_def by linarith
qed (use assms in \<open>simp_all add: pushable_def\<close>)

lemma push_unat_k [seg]: "pushable g src k \<Longrightarrow> unat (of_nat k :: u32) = k"
  using pushable_bounds(1,3) [of g src k] by (intro unat_of_nat_lt) simp

lemma push_number_in_range:
  assumes "pushable g src k"
  shows "sg_startDataNumber g \<le> sg_startDataNumber g + of_nat k"
    and "sg_startDataNumber g + of_nat k \<le> sg_endDataNumber g"
proof -
  have le: "unat (sg_startDataNumber g) + k \<le> unat (sg_endDataNumber g)"
    using assms by (auto simp: pushable_def seg_geom_def Let_def)
  then have "unat (sg_startDataNumber g + of_nat k) = unat (sg_startDataNumber g) + k"
    using unat_u32_lt [of "sg_endDataNumber g"] by (simp add: unat_word_ariths push_unat_k [OF assms])
  with le show "sg_startDataNumber g \<le> sg_startDataNumber g + of_nat k"
    and "sg_startDataNumber g + of_nat k \<le> sg_endDataNumber g"
    by (simp_all add: word_le_nat_alt)
qed

lemma push_start_offset [seg]:
  assumes "pushable g src k"
  shows "unat (of_nat k * PAYLOAD) = k * 1024"
  using pushable_bounds(2) [OF assms] unat_u32_lt [of "sg_segmentSize g"]
  by (simp add: unat_word_ariths push_unat_k [OF assms] PAYLOAD_def)

lemma push_unread [seg]:
  assumes "pushable g src k"
  shows "unat (sg_segmentSize g - of_nat k * PAYLOAD) = unat (sg_segmentSize g) - k * 1024"
  using pushable_bounds(2) [OF assms]
  by (subst unat_sub) (simp_all add: word_le_nat_alt push_start_offset [OF assms])

lemma push_chunk:
  assumes "pushable g src k"
  shows "0 < length (chunk src k)" and "k * 1024 + length (chunk src k) \<le> unat (sg_segmentSize g)"
    and "unat (of_nat (length (chunk src k)) :: u32) = length (chunk src k)"
  using pushable_bounds [OF assms] by (auto simp: length_chunk unat_of_nat_lt)

lemma push_len_eq [seg]:
  assumes "pushable g src k" and "length data = 1024"
  shows "push_len (sg_segmentSize g - of_nat k * PAYLOAD) data = of_nat (length (chunk src k))"
proof -
  have "unat (push_len (sg_segmentSize g - of_nat k * PAYLOAD) data)
          = min 1024 (unat (sg_segmentSize g) - k * 1024)"
    by (simp add: push_len_def assms(2) word_le_nat_alt push_unread [OF assms(1)])
  then show ?thesis
    using push_chunk(3) [OF assms(1)] pushable_bounds(4) [OF assms(1)]
    by (simp add: word_unat_eq_iff length_chunk)
qed

lemma push_end_offset [seg]:
  assumes "pushable g src k"
  shows "unat (of_nat k * PAYLOAD + of_nat (length (chunk src k))) = k * 1024 + length (chunk src k)"
proof -
  have "unat (of_nat k * PAYLOAD + of_nat (length (chunk src k)) :: u32)
          = (unat (of_nat k * PAYLOAD) + unat (of_nat (length (chunk src k)) :: u32)) mod 2 ^ 32"
    by (subst unat_word_ariths(1)) simp
  then show ?thesis
    using push_chunk(2) [OF assms] unat_u32_lt [of "sg_segmentSize g"]
    by (simp only: push_chunk(3) [OF assms] push_start_offset [OF assms]) simp
qed

lemma push_end_iff [seg]:
  assumes "pushable g src k"
  shows "of_nat k * PAYLOAD + of_nat (length (chunk src k)) = sg_segmentSize g
           \<longleftrightarrow> k = length (sg_dataSize g) - 1"
proof -
  note b = pushable_bounds [OF assms]
  have "of_nat k * PAYLOAD + of_nat (length (chunk src k)) = sg_segmentSize g
          \<longleftrightarrow> k * 1024 + length (chunk src k) = unat (sg_segmentSize g)"
    unfolding word_unat_eq_iff push_end_offset [OF assms] by simp
  also have "\<dots> \<longleftrightarrow> unat (sg_segmentSize g) \<le> (k + 1) * 1024"
    using b by (auto simp: length_chunk min_def)
  also have "\<dots> \<longleftrightarrow> k = length (sg_dataSize g) - 1"
  proof
    assume "unat (sg_segmentSize g) \<le> (k + 1) * 1024"
    then have "(length (sg_dataSize g) - 1) * 1024 < (k + 1) * 1024"
      using assms unfolding pushable_def seg_geom_def Let_def by linarith
    then show "k = length (sg_dataSize g) - 1" using b(3) by simp
  next
    assume "k = length (sg_dataSize g) - 1"
    then have "k + 1 = length (sg_dataSize g)" using b(3) by simp
    then show "unat (sg_segmentSize g) \<le> (k + 1) * 1024"
      using assms by (simp add: pushable_def seg_geom_def Let_def)
  qed
  finally show ?thesis .
qed

section \<open>One push\<close>

lemma received_pushable: "received g src S \<Longrightarrow> k < length (sg_dataSize g) \<Longrightarrow> pushable g src k"
  by (simp add: received_def pushable_def)

lemma PushData_duplicate:
  assumes "received g src S" and "k \<in> S" and "length data = 1024"
  shows "PushData i (sg_startDataNumber g + of_nat k) data g
           = Inr (-1, False, g\<lparr>sg_stats := IncreaseDuplicatedNumData i (sg_stats g)\<rparr>)"
proof -
  have k: "k < length (sg_dataSize g)" using assms(1,2) by (auto simp: received_def)
  note p = received_pushable [OF assms(1) k]
  have "sg_dataSize g ! k = of_nat (length (chunk src k))" using assms(1,2) k by (simp add: received_def)
  then show ?thesis
    using push_number_in_range [OF p] k assms(3)
    by (simp add: PushData_def Let_def push_unat_k [OF p] push_len_eq [OF p])
qed

lemma card_insert_u32: "finite S \<Longrightarrow> k \<notin> S \<Longrightarrow> of_nat (card (insert k S)) = of_nat (card S) + (1 :: u32)"
  by simp

lemma of_nat_start_eq:
  assumes "pushable g src k" and "j \<le> length (sg_dataSize g)"
  shows "sg_startDataNumber g + of_nat k = sg_startDataNumber g + (of_nat j :: u32) \<longleftrightarrow> k = j"
proof -
  have "unat (of_nat j :: u32) = j"
    using assms(2) pushable_bounds(1) [OF assms(1)] by (intro unat_of_nat_lt) simp
  then show ?thesis using push_unat_k [OF assms(1)] by (metis add_left_cancel)
qed

lemma PushData_fresh:
  assumes r: "received g src S" and k: "k < length (sg_dataSize g)" "k \<notin> S"
    and data: "packet_for src k data"
  shows "\<exists>g'. PushData i (sg_startDataNumber g + of_nat k) data g
                = Inr (int (length (chunk src k)), k = length (sg_dataSize g) - 1, g') \<and>
              received g' src (insert k S) \<and> sg_startDataNumber g' = sg_startDataNumber g \<and>
              length (sg_dataSize g') = length (sg_dataSize g) \<and> sg_segmentSize g' = sg_segmentSize g \<and>
              sg_buffer g' = take (k * 1024) (sg_buffer g) @ chunk src k
                @ drop (k * 1024 + length (chunk src k)) (sg_buffer g)"
proof -
  note p = received_pushable [OF r k(1)]
  let ?d = "length (chunk src k)" and ?ds = "(sg_dataSize g)[k := of_nat (length (chunk src k))]"
  have len: "length data = 1024" and pre: "take ?d data = chunk src k"
    using data by (simp_all add: packet_for_def)
  have buf: "length (sg_buffer g) = unat (sg_segmentSize g)"
    using r by (simp add: received_def seg_geom_def Let_def)
  have old: "sg_dataSize g ! k = 0" using r k by (simp add: received_def)
  have new: "(0 :: u32) < of_nat ?d" "of_nat ?d \<noteq> (0 :: u32)"
    using push_chunk(1,3) [OF p] by (auto simp: word_less_nat_alt simp flip: word_unat_eq_iff)
  define buf' where "buf' = take (k * 1024) (sg_buffer g) @ chunk src k @ drop (k * 1024 + ?d) (sg_buffer g)"
  have copied: "copy_at (sg_buffer g) (k * 1024) (k * 1024 + ?d) data = Inr buf'"
  proof -
    have "min ?d (length data) = ?d" by (simp add: len length_chunk)
    then show ?thesis using push_chunk(2) [OF p] by (simp add: copy_at_def buf buf'_def pre)
  qed
  have gap_ds: "(if sg_startDataNumber g + of_nat k = sg_expectedDataNumber g
                 then advance (drop k ?ds) (sg_expectedDataNumber g) else sg_expectedDataNumber g)
               = sg_startDataNumber g + of_nat (gap ?ds)"
  proof -
    have e: "sg_expectedDataNumber g = sg_startDataNumber g + of_nat (gap (sg_dataSize g))"
      using r by (simp add: received_def)
    have le: "gap (sg_dataSize g) \<le> k"
      using gap_lt_nth [of k "sg_dataSize g"] old by (metis leI less_irrefl)
    show ?thesis
    proof (cases "k = gap (sg_dataSize g)")
      case True
      then show ?thesis using gap_fill_first [OF True k(1) new(1)] e by (simp add: advance_gap)
    next
      case False
      then show ?thesis using le gap_fill_other [of "sg_dataSize g" k] e
          of_nat_start_eq [OF p gap_le] by simp
    qed
  qed
  let ?st = "IncreaseReceivedNumData i (IncreaseReceivedBytes i (of_nat ?d) (sg_stats g))"
  define g' where "g' = g\<lparr>sg_buffer := buf', sg_dataSize := ?ds, sg_numData := sg_numData g + 1,
      sg_expectedDataNumber := sg_startDataNumber g + of_nat (gap ?ds),
      sg_stats := if k = length (sg_dataSize g) - 1 then SetSegmentResponseTime True ?st else ?st\<rparr>"
  have "PushData i (sg_startDataNumber g + of_nat k) data g
          = Inr (int ?d, k = length (sg_dataSize g) - 1,
              g\<lparr>sg_buffer := buf', sg_dataSize := ?ds, sg_numData := sg_numData g + 1,
                sg_expectedDataNumber :=
                  (if sg_startDataNumber g + of_nat k = sg_expectedDataNumber g
                   then advance (drop k ?ds) (sg_expectedDataNumber g) else sg_expectedDataNumber g),
                sg_stats := if k = length (sg_dataSize g) - 1 then SetSegmentResponseTime True ?st else ?st\<rparr>)"
    using push_number_in_range [OF p] k(1) old new copied
    by (simp add: PushData_def Let_def push_unat_k [OF p] push_len_eq [OF p len] push_start_offset [OF p]
        push_end_offset [OF p] push_end_iff [OF p] push_chunk(3) [OF p] uint_nat del: of_nat_unat)
  then have "PushData i (sg_startDataNumber g + of_nat k) data g
          = Inr (int ?d, k = length (sg_dataSize g) - 1, g')"
    unfolding gap_ds g'_def .
  moreover have "received g' src (insert k S)"
  proof -
    have finS: "finite S" using r finite_subset by (auto simp: received_def)
    have bl: "length buf' = length (sg_buffer g)"
      using push_chunk(2) [OF p] by (simp add: buf'_def buf)
    have "\<forall>j \<in> insert k S. chunk buf' j = chunk src j"
    proof
      fix j assume j: "j \<in> insert k S"
      have "chunk buf' j = (if j = k then chunk src k else chunk (sg_buffer g) j)"
        unfolding buf'_def using pushable_bounds(2,4) [OF p]
        by (intro chunk_splice) (auto simp: buf length_chunk min_def)
      then show "chunk buf' j = chunk src j" using j r by (auto simp: received_def)
    qed
    then show ?thesis using r k bl finS
      by (auto simp: received_def seg_geom_def Let_def g'_def nth_list_update)
  qed
  ultimately show ?thesis by (auto simp: g'_def buf'_def)
qed

section \<open>A whole segment\<close>

text \<open>Packets as they arrive: the session, the index of the chunk and the payload.\<close>

definition push_packets :: "(u32 \<times> nat \<times> bytes) list \<Rightarrow> Segment \<Rightarrow> Segment go" where
  "push_packets =
     go_fold (\<lambda>(i, k, data) g.
       go_bind (PushData i (sg_startDataNumber g + of_nat k) data g) (\<lambda>(_, _, g'). Inr g'))"

lemma received_stats: "received (g\<lparr>sg_stats := s\<rparr>) src S \<longleftrightarrow> received g src S"
  by (simp add: received_def seg_geom_def)

lemma push_packets_received:
  assumes "received g src S"
    and "\<And>i k data. (i, k, data) \<in> set ps \<Longrightarrow> k < length (sg_dataSize g) \<and> packet_for src k data"
  shows "\<exists>g'. push_packets ps g = Inr g' \<and> received g' src (S \<union> (fst \<circ> snd) ` set ps) \<and>
           sg_startDataNumber g' = sg_startDataNumber g \<and>
           length (sg_dataSize g') = length (sg_dataSize g) \<and> sg_segmentSize g' = sg_segmentSize g"
  using assms
proof (induction ps arbitrary: g S)
  case Nil
  then show ?case by (simp add: push_packets_def)
next
  case (Cons p ps)
  obtain i k data where p: "p = (i, k, data)" by (cases p)
  have k: "k < length (sg_dataSize g)" and d: "packet_for src k data" using Cons.prems(2) p by auto
  have "\<exists>r eos g1. PushData i (sg_startDataNumber g + of_nat k) data g = Inr (r, eos, g1) \<and>
          received g1 src (insert k S) \<and> sg_startDataNumber g1 = sg_startDataNumber g \<and>
          length (sg_dataSize g1) = length (sg_dataSize g) \<and> sg_segmentSize g1 = sg_segmentSize g"
  proof (cases "k \<in> S")
    case True
    then show ?thesis
      using PushData_duplicate [OF Cons.prems(1) True, of data i] d Cons.prems(1)
      by (auto simp: packet_for_def received_stats insert_absorb)
  next
    case False
    then show ?thesis using PushData_fresh [OF Cons.prems(1) k False d, of i] by blast
  qed
  then obtain r eos g1 where step: "PushData i (sg_startDataNumber g + of_nat k) data g = Inr (r, eos, g1)"
    and r1: "received g1 src (insert k S)" and same: "sg_startDataNumber g1 = sg_startDataNumber g"
      "length (sg_dataSize g1) = length (sg_dataSize g)" "sg_segmentSize g1 = sg_segmentSize g" by blast
  have "\<And>i k data. (i, k, data) \<in> set ps \<Longrightarrow> k < length (sg_dataSize g1) \<and> packet_for src k data"
    using Cons.prems(2) same(2) by auto
  from Cons.IH [OF r1 this] same step show ?case
    by (auto simp: push_packets_def p insert_commute)
qed

text \<open>A segment that has every chunk holds the source, and expects nothing more.\<close>

lemma received_all:
  assumes r: "received g src {..<length (sg_dataSize g)}"
  shows "sg_buffer g = src" and "sg_numData g = of_nat (length (sg_dataSize g))"
    and "sg_expectedDataNumber g = sg_endDataNumber g + 1"
proof -
  let ?n = "length (sg_dataSize g)"
  have g: "length (sg_buffer g) = unat (sg_segmentSize g)" "unat (sg_segmentSize g) \<le> ?n * 1024"
    and s: "length src = unat (sg_segmentSize g)"
    and c: "\<And>k. k < ?n \<Longrightarrow> chunk (sg_buffer g) k = chunk src k"
    using r unfolding received_def seg_geom_def Let_def by blast+
  show "sg_buffer g = src"
    by (rule chunks_eqI [where n = ?n]) (simp_all only: g s c)
  show "sg_numData g = of_nat ?n" using r by (simp add: received_def)
  have "\<forall>j < ?n. 0 < sg_dataSize g ! j"
  proof (intro allI impI)
    fix j assume j: "j < ?n"
    note p = received_pushable [OF r j]
    have "sg_dataSize g ! j = of_nat (length (chunk src j))" using r j by (simp add: received_def)
    then show "0 < sg_dataSize g ! j"
      using push_chunk(1,3) [OF p] by (simp add: word_less_nat_alt)
  qed
  then have "gap (sg_dataSize g) = ?n" by (simp add: gap_all)
  moreover have "unat (sg_startDataNumber g) + ?n = unat (sg_endDataNumber g) + 1"
    using r by (simp add: received_def seg_geom_def Let_def)
  then have "(of_nat (unat (sg_startDataNumber g) + ?n) :: u32) = of_nat (unat (sg_endDataNumber g) + 1)"
    by (rule arg_cong)
  then have "sg_startDataNumber g + of_nat ?n = sg_endDataNumber g + 1" by simp
  ultimately show "sg_expectedDataNumber g = sg_endDataNumber g + 1"
    using r by (simp add: received_def)
qed

text \<open>The arguments \<open>CreateSegment\<close> is called with for \<open>n\<close> chunks.\<close>

definition seg_args :: "u32 \<Rightarrow> u32 \<Rightarrow> u32 \<Rightarrow> nat \<Rightarrow> bool" where
  "seg_args startNo endNo segSize n \<longleftrightarrow>
     0 < n \<and> unat startNo + n = unat endNo + 1 \<and> (n - 1) * 1024 < unat segSize \<and>
     unat segSize \<le> n * 1024"

lemma seg_args_count:
  assumes "seg_args startNo endNo segSize n"
  shows "unat (endNo - startNo + 1) = n"
proof -
  have "(n - 1) * 1024 < 2 ^ 32" using assms unat_u32_lt [of segSize] by (auto simp: seg_args_def)
  then have n: "n < 2 ^ 32" by simp
  have "endNo + 1 = of_nat (unat endNo + 1)" by simp
  also have "\<dots> = of_nat (unat startNo + n)" using assms by (simp add: seg_args_def)
  finally have "endNo - startNo + 1 = of_nat n" by (simp add: algebra_simps)
  then show ?thesis using n by (simp add: unat_of_nat_lt)
qed

lemma CreateSegment_sel [simp]:
  fixes C block idx startNo endNo segSize seed lastSeg
  defines "g \<equiv> CreateSegment C block idx startNo endNo segSize seed lastSeg"
  shows "sg_startDataNumber g = startNo" and "sg_endDataNumber g = endNo"
    and "sg_segmentSize g = segSize" and "sg_expectedDataNumber g = startNo" and "sg_numData g = 0"
    and "sg_dataSize g = replicate (unat (endNo - startNo + 1)) 0"
    and "sg_buffer g = replicate (unat segSize) 0"
  by (simp_all add: g_def CreateSegment_def Let_def)

lemma gap_zeros: "gap (replicate n 0) = 0"
  by (cases n) (simp_all add: gap_def)

lemma received_CreateSegment:
  assumes "seg_args startNo endNo segSize n" and "length src = unat segSize"
  shows "received (CreateSegment C block idx startNo endNo segSize seed lastSeg) src {}"
    and "length (sg_dataSize (CreateSegment C block idx startNo endNo segSize seed lastSeg)) = n"
proof -
  let ?g = "CreateSegment C block idx startNo endNo segSize seed lastSeg"
  have n: "length (sg_dataSize ?g) = n" by (simp only: CreateSegment_sel length_replicate seg_args_count [OF assms(1)])
  have "seg_geom ?g"
    using assms(1) unfolding seg_geom_def Let_def n unfolding CreateSegment_sel length_replicate seg_args_def
    by blast
  then show "received ?g src {}"
    by (simp add: received_def assms(2) gap_zeros)
  show "length (sg_dataSize ?g) = n" by (rule n)
qed

section \<open>Properties of segments\<close>

text \<open>
  C1: Whatever the order in which the packets of a segment arrive, from whichever sessions, and
  however many of them are duplicates: when every data number of the segment has arrived, the
  buffer is exactly the source, each data size is that of its chunk, the count of data is the
  number of chunks and \<open>expectedDataNumber\<close> is one past the end; no push panics.
\<close>

theorem segment_any_order:
  assumes "seg_args startNo endNo segSize n" and "length src = unat segSize"
    and "\<And>i k data. (i, k, data) \<in> set ps \<Longrightarrow> k < n \<and> packet_for src k data"
    and "{..<n} \<subseteq> (fst \<circ> snd) ` set ps"
  shows "\<exists>g. push_packets ps (CreateSegment C block idx startNo endNo segSize seed lastSeg) = Inr g \<and>
           sg_buffer g = src \<and> sg_numData g = of_nat n \<and>
           sg_expectedDataNumber g = sg_endDataNumber g + 1 \<and>
           (\<forall>k < n. sg_dataSize g ! k = of_nat (length (chunk src k)))"
proof -
  let ?g = "CreateSegment C block idx startNo endNo segSize seed lastSeg"
  note r = received_CreateSegment [OF assms(1,2), of C block idx seed lastSeg]
  obtain g where g: "push_packets ps ?g = Inr g"
    and rg: "received g src ({} \<union> (fst \<circ> snd) ` set ps)" and n: "length (sg_dataSize g) = n"
    using push_packets_received [OF r(1), of ps] assms(3) r(2) by auto
  have "(fst \<circ> snd) ` set ps \<subseteq> {..<n}" using rg n by (simp add: received_def)
  then have all: "received g src {..<length (sg_dataSize g)}" using rg n assms(4) by auto
  have "\<forall>k < n. sg_dataSize g ! k = of_nat (length (chunk src k))"
    using all n by (simp add: received_def)
  then show ?thesis using g received_all [OF all] n by simp
qed

lemma packet_for_zeros: "k * 1024 + 1024 \<le> n \<Longrightarrow> packet_for (replicate n v) k (replicate 1024 v)"
  by (simp add: packet_for_def chunk_def)

lemma packet_for_tail:
  "n < k * 1024 + 1024 \<Longrightarrow> packet_for (replicate n v) k (replicate 1024 v)"
  by (simp add: packet_for_def chunk_def min_def)

text \<open>Segments of two data numbers, for the concrete inputs below.\<close>

definition tiny_config :: Config where
  "tiny_config = \<lparr>NUM_MULTIPATH = 1, MY_IP_ADDRS = [''10.0.0.1''], LISTEN_PORT = 5000,
     BIND_PORT = 6000, EQUIC_ENABLE = False, EQUIC_PATH = [], EQUIC_APP_SRC_PORT = 0,
     EQUIC_APP_DST_PORT = 0, EQUIC_TUN_SRC_PORT = 0, EQUIC_TUN_DST_PORT = 0,
     EQUIC_FEC_MODE = False, PULL_MODE = PULL_MODE_MP_FEC, NUM_PEERS = 0,
     SEGMENT_SIZE = 2048, FEC_SEGMENT_SIZE = 4096,
     PUSH_PULL_TRANSITION_TIMEOUT = 0, MAX_CONNECTION_RETRY = 0\<rparr>"

theorem segment_any_order_witness:
  "\<exists>g. push_packets [(5, 1, replicate 1024 7), (6, 0, replicate 1024 7), (6, 1, replicate 1024 7)]
          (CreateSegment tiny_config 1 0 0 1 1030 0 True) = Inr g \<and>
       sg_buffer g = replicate 1030 7 \<and> sg_numData g = of_nat 2 \<and>
       sg_expectedDataNumber g = sg_endDataNumber g + 1 \<and>
       (\<forall>k < 2. sg_dataSize g ! k = of_nat (length (chunk (replicate 1030 7) k)))"
proof (rule segment_any_order)
  show "seg_args 0 1 1030 2" by (simp add: seg_args_def)
  show "length (replicate 1030 (7 :: byte)) = unat (1030 :: u32)" by simp
  show "k < 2 \<and> packet_for (replicate 1030 7) k data"
    if "(i, k, data) \<in> set [(5, 1, replicate 1024 7), (6, 0, replicate 1024 7), (6, 1, replicate 1024 7)]"
    for i :: u32 and k data
    using that packet_for_zeros [of 0 1030 7] packet_for_tail [of 1030 1 7] by auto
  show "{..<2 :: nat} \<subseteq> (fst \<circ> snd) `
          set [(5 :: u32, 1 :: nat, replicate 1024 (7 :: byte)), (6, 0, replicate 1024 7), (6, 1, replicate 1024 7)]"
    by auto
qed

text \<open>
  Pushing a packet of a chunk the segment already has returns \<open>-1\<close>, does not signal the end and
  changes nothing but the session's count of duplicates; pushing a new one returns the length of
  its chunk, stores it beside the others, and signals the end of the segment exactly when it is
  the last chunk.
\<close>

theorem segment_push_contract:
  assumes "received g src S" and "k < length (sg_dataSize g)" and "packet_for src k data"
  shows "if k \<in> S
         then PushData i (sg_startDataNumber g + of_nat k) data g
           = Inr (-1, False, g\<lparr>sg_stats := IncreaseDuplicatedNumData i (sg_stats g)\<rparr>)
         else \<exists>g'. PushData i (sg_startDataNumber g + of_nat k) data g
           = Inr (int (length (chunk src k)), k = length (sg_dataSize g) - 1, g') \<and>
         received g' src (insert k S)"
  using PushData_duplicate [OF assms(1)] PushData_fresh [OF assms(1,2) _ assms(3), of i] assms(3)
  by (auto simp: packet_for_def)

theorem segment_push_contract_witness:
  "\<exists>g'. PushData 5 (sg_startDataNumber (CreateSegment tiny_config 1 0 0 1 1030 0 True) + of_nat 0)
          (replicate 1024 7) (CreateSegment tiny_config 1 0 0 1 1030 0 True)
        = Inr (int (length (chunk (replicate 1030 7) 0)), False, g') \<and>
      received g' (replicate 1030 7) (insert 0 {})"
proof -
  have a: "seg_args 0 1 1030 2" and l: "length (replicate 1030 (7 :: byte)) = unat (1030 :: u32)"
    by (simp_all add: seg_args_def)
  note r = received_CreateSegment [OF a l, of tiny_config 1 0 0 True]
  show ?thesis
    using segment_push_contract [OF r(1), of 0 "replicate 1024 7" 5] packet_for_zeros [of 0 1030 7]
    by (simp del: of_nat_0)
qed

text \<open>
  The end of a segment is signalled by its last packet, also when it arrives first and all the
  others are missing: the caller that then requests the next segment does so with one datum of
  \<open>n\<close> received and \<open>expectedDataNumber\<close> still at the start.
\<close>

theorem segment_end_signalled_early:
  assumes "seg_args startNo endNo segSize n" and "1 < n" and "length src = unat segSize"
    and "packet_for src (n - 1) data"
  shows "\<exists>r g. PushData i (startNo + of_nat (n - 1)) data
             (CreateSegment C block idx startNo endNo segSize seed lastSeg) = Inr (r, True, g) \<and>
           sg_numData g = 1 \<and> sg_expectedDataNumber g = startNo"
proof -
  let ?g = "CreateSegment C block idx startNo endNo segSize seed lastSeg"
  note r = received_CreateSegment [OF assms(1,3), of C block idx seed lastSeg]
  obtain g where push: "PushData i (startNo + of_nat (n - 1)) data ?g
      = Inr (int (length (chunk src (n - 1))), True, g)"
    and rg: "received g src (insert (n - 1) {})" and n: "length (sg_dataSize g) = n"
    and st: "sg_startDataNumber g = startNo"
    using PushData_fresh [OF r(1), of "n - 1" data i] assms(2,4) r(2) by (auto simp del: CreateSegment_sel(6))
  have "sg_dataSize g ! 0 = 0" using rg n assms(2) by (simp add: received_def)
  then have "gap (sg_dataSize g) = 0" using gap_lt_nth [of 0 "sg_dataSize g"] by auto
  then show ?thesis using push rg st by (auto simp: received_def)
qed

theorem segment_end_signalled_early_witness:
  "\<exists>r g. PushData 5 (0 + of_nat (2 - 1)) (replicate 1024 7) (CreateSegment tiny_config 1 0 0 1 1030 0 True)
           = Inr (r, True, g) \<and> sg_numData g = 1 \<and> sg_expectedDataNumber g = 0"
  by (rule segment_end_signalled_early [where src = "replicate 1030 7"])
    (simp_all add: seg_args_def packet_for_tail)

section \<open>FEC symbols\<close>

text \<open>The FEC half of a segment has the geometry of a segment whose chunks are all full.\<close>

definition fec_view :: "Segment \<Rightarrow> Segment" where
  "fec_view g = g\<lparr>sg_dataSize := map ucast (sg_fecDataSize g), sg_buffer := sg_fecBuffer g,
     sg_startDataNumber := sg_startFecDataNumber g, sg_endDataNumber := sg_endFecDataNumber g,
     sg_segmentSize := sg_fecSegmentSize g\<rparr>"

lemma fec_view_sel [simp]:
  "length (sg_dataSize (fec_view g)) = length (sg_fecDataSize g)"
  "sg_startDataNumber (fec_view g) = sg_startFecDataNumber g"
  "sg_endDataNumber (fec_view g) = sg_endFecDataNumber g"
  "sg_segmentSize (fec_view g) = sg_fecSegmentSize g" "sg_buffer (fec_view g) = sg_fecBuffer g"
  by (simp_all add: fec_view_def)

text \<open>\<open>g\<close> has collected the symbols \<open>S\<close> of the encoded block \<open>enc\<close>, and no decoding was tried.\<close>

definition collected :: "Segment \<Rightarrow> bytes \<Rightarrow> nat set \<Rightarrow> bool" where
  "collected g enc S \<longleftrightarrow>
     seg_geom (fec_view g) \<and> length enc = unat (sg_fecSegmentSize g) \<and>
     length enc = length (sg_fecDataSize g) * 1024 \<and>
     length (sg_fecDataSize g) = unat (GetNumEncSyms (sg_fec g)) \<and>
     S \<subseteq> {..<length (sg_fecDataSize g)} \<and>
     (\<forall>k < length (sg_fecDataSize g). sg_fecDataSize g ! k = (if k \<in> S then 1 else 0)) \<and>
     (\<forall>k \<in> S. chunk (sg_fecBuffer g) k = chunk enc k) \<and>
     sg_numFecData g = of_nat (card S) \<and> sg_numFecDecFail g = 0"

lemma collected_stats: "collected (g\<lparr>sg_stats := st\<rparr>) enc S = collected g enc S"
proof -
  have "seg_geom (fec_view (g\<lparr>sg_stats := st\<rparr>)) = seg_geom (fec_view g)"
    by (simp add: seg_geom_def Let_def)
  then show ?thesis by (simp add: collected_def)
qed

lemma collected_pushable:
  "collected g enc S \<Longrightarrow> k < length (sg_fecDataSize g) \<Longrightarrow> pushable (fec_view g) enc k"
  by (simp add: collected_def pushable_def)

lemma collected_card:
  assumes "collected g enc S" and "k < length (sg_fecDataSize g)" "k \<notin> S"
  shows "finite S" and "card S < unat (GetNumEncSyms (sg_fec g))" and "card S + 1 < 2 ^ 32"
proof -
  have sub: "S \<subseteq> {..<length (sg_fecDataSize g)} - {k}" using assms by (auto simp: collected_def)
  then show "finite S" by (rule finite_subset) simp
  have "card S \<le> card ({..<length (sg_fecDataSize g)} - {k})" using sub by (intro card_mono) auto
  then have "card S < length (sg_fecDataSize g)" using assms(2) by simp
  then show "card S < unat (GetNumEncSyms (sg_fec g))" using assms(1) by (simp add: collected_def)
  have "length (sg_fecDataSize g) * 1024 < 2 ^ 32"
    using assms(1) unat_u32_lt [of "sg_fecSegmentSize g"] by (simp add: collected_def)
  then show "card S + 1 < 2 ^ 32" using \<open>card S < length _\<close> by simp
qed

text \<open>What the segment holds when \<open>PushFecData\<close> turns to the decoder.\<close>

definition with_symbol :: "Segment \<Rightarrow> nat \<Rightarrow> bytes \<Rightarrow> Segment" where
  "with_symbol g k data =
     g\<lparr>sg_fecBuffer := take (k * 1024) (sg_fecBuffer g) @ data @ drop (k * 1024 + 1024) (sg_fecBuffer g),
       sg_fecDataSize := (sg_fecDataSize g)[k := 1], sg_numFecData := sg_numFecData g + 1\<rparr>"

lemma collected_full:
  assumes "collected g enc S" and "k < length (sg_fecDataSize g)"
  shows "length (chunk enc k) = 1024" and "(k + 1) * 1024 \<le> length (sg_fecBuffer g)"
proof -
  have "(k + 1) * 1024 \<le> length enc" using assms by (simp add: collected_def)
  then show "length (chunk enc k) = 1024" and "(k + 1) * 1024 \<le> length (sg_fecBuffer g)"
    using assms by (simp_all add: length_chunk collected_def seg_geom_def Let_def)
qed

lemma collected_with_symbol:
  assumes c: "collected g enc S" and k: "k < length (sg_fecDataSize g)" "k \<notin> S"
  shows "collected (with_symbol g k (chunk enc k)) enc (insert k S)"
proof -
  note full = collected_full [OF c k(1)]
  let ?b = "take (k * 1024) (sg_fecBuffer g) @ chunk enc k @ drop (k * 1024 + 1024) (sg_fecBuffer g)"
  have ch: "chunk ?b j = (if j = k then chunk enc k else chunk (sg_fecBuffer g) j)" for j
    using chunk_splice [of k "chunk enc k" "sg_fecBuffer g" j] full by (simp add: min_def)
  have len: "length ?b = length (sg_fecBuffer g)" using full by simp
  have "\<forall>j \<in> insert k S. chunk ?b j = chunk enc j" using c unfolding ch by (auto simp: collected_def)
  moreover have "seg_geom (fec_view (with_symbol g k (chunk enc k)))"
  proof -
    have "seg_geom (fec_view g)" using c by (simp add: collected_def)
    then show ?thesis using len by (simp add: seg_geom_def Let_def with_symbol_def)
  qed
  moreover have "finite S" using collected_card [OF c k] by simp
  ultimately show ?thesis
    using c k by (auto simp: collected_def with_symbol_def nth_list_update)
qed

lemma PushFecData_fresh:
  assumes c: "collected g enc S" and k: "k < length (sg_fecDataSize g)" "k \<notin> S"
  shows "PushFecData F i (sg_startFecDataNumber g + of_nat k) (chunk enc k) g
    = go_bind (FecDecodeData F (sg_fecSeedNumber g) (with_symbol g k (chunk enc k))) (\<lambda>(ok, g').
        Inr (1024, ok, g'\<lparr>sg_stats :=
          (let st = IncreaseReceivedNumData i (IncreaseReceivedBytes i 1024 (sg_stats g'))
           in if ok then SetSegmentResponseTime True st else st)\<rparr>))"
proof -
  note p = collected_pushable [OF c k(1)]
  note full = collected_full [OF c k(1)]
  have guard: "\<not> (sg_numFecData g = GetNumEncSyms (sg_fec g) \<and> sg_numFecDecFail g = 0)"
  proof -
    have "unat (sg_numFecData g) = card S"
      using c collected_card [OF c k] by (simp add: collected_def unat_of_nat_lt)
    then show ?thesis using collected_card(2) [OF c k] by auto
  qed
  have "copy_at (sg_fecBuffer g) (k * 1024) (k * 1024 + 1024) (chunk enc k)
          = Inr (take (k * 1024) (sg_fecBuffer g) @ chunk enc k @ drop (k * 1024 + 1024) (sg_fecBuffer g))"
    using full by (simp add: copy_at_def)
  moreover have "sg_fecDataSize g ! k \<noteq> 1" using c k by (simp add: collected_def)
  moreover note push_number_in_range [OF p] push_unat_k [OF p] push_len_eq [OF p full(1)]
    push_start_offset [OF p] push_end_offset [OF p]
  ultimately show ?thesis
    using k(1) guard full
    by (simp add: PushFecData_def Let_def with_symbol_def case_prod_beta)
qed

text \<open>
  The decoder is not called while at most \<open>numSymsForDec\<close> distinct symbols have arrived; the symbol
  after that has it called, on a buffer that agrees with the encoded block wherever the
  symbol map is 1 and a map that is 1 exactly at the symbols received. A result that is not nil becomes the segment's
  buffer and ends the segment, after which no FEC packet changes it any more.
\<close>

theorem fec_decode_threshold:
  assumes c: "collected g enc S" and k: "k < length (sg_fecDataSize g)" "k \<notin> S"
    and few: "GetNumSymsForDec (sg_fec g) < GetNumEncSyms (sg_fec g)"
  shows "\<exists>g1 g' ok. collected g1 enc (insert k S) \<and>
    PushFecData F i (sg_startFecDataNumber g + of_nat k) (chunk enc k) g = Inr (1024, ok, g') \<and>
    (if card S + 1 \<le> unat (GetNumSymsForDec (sg_fec g))
     then \<not> ok \<and> collected g' enc (insert k S)
     else case lt_decode F (sg_fec g) (sg_fecBuffer g1) (sg_fecDataSize g1) (sg_fecSeedNumber g) of
       Some src \<Rightarrow> ok \<and> sg_buffer g' = src \<and> (\<forall>j m d. PushFecData F j m d g' = Inr (0, False, g'))
     | None \<Rightarrow> \<not> ok \<and> sg_numFecDecFail g' = 1 \<and> sg_numFecData g' = sg_numFecData g1)"
proof -
  let ?g = "with_symbol g k (chunk enc k)"
  note c1 = collected_with_symbol [OF c k] and card = collected_card [OF c k]
  note push = PushFecData_fresh [OF c k, of F i]
  have num: "unat (sg_numFecData ?g) = card S + 1"
    using c1 card k(2) unat_of_nat_lt [of "card S + 1", where 'a = 32]
    by (simp add: collected_def del: of_nat_add of_nat_Suc)
  have fail: "sg_numFecDecFail ?g = 0" and fec: "sg_fec ?g = sg_fec g"
    using c1 by (simp_all add: collected_def with_symbol_def)
  have gt: "GetNumSymsForDec (sg_fec g) < sg_numFecData ?g
              \<longleftrightarrow> \<not> card S + 1 \<le> unat (GetNumSymsForDec (sg_fec g))"
    by (auto simp add: word_less_nat_alt num)
  have last: "\<not> GetNumEncSyms (sg_fec g) \<le> sg_numFecData ?g"
    if "card S + 1 \<le> unat (GetNumSymsForDec (sg_fec g))"
    using that few by (simp add: word_le_nat_alt word_less_nat_alt num)
  have ne: "sg_fecBuffer ?g \<noteq> []" "sg_fecDataSize ?g \<noteq> []"
    using collected_full [OF c k(1)] k(1) by (auto simp: with_symbol_def)
  have upd: "collected (?g\<lparr>sg_stats := st\<rparr>) enc (insert k S)" for st
    using c1 by (simp only: collected_stats)
  show ?thesis
  proof (cases "card S + 1 \<le> unat (GetNumSymsForDec (sg_fec g))")
    case True
    then show ?thesis
      using c1 upd last by (auto simp: push FecDecodeData_def Let_def fail fec gt)
  next
    case False
    have dec: "FecDecodeData F (sg_fecSeedNumber g) ?g
      = (case lt_decode F (sg_fec g) (sg_fecBuffer ?g) (sg_fecDataSize ?g) (sg_fecSeedNumber g) of
           Some b \<Rightarrow> Inr (True, ?g\<lparr>sg_buffer := b, sg_numFecData := GetNumEncSyms (sg_fec g),
                               sg_numFecDecFail := 0\<rparr>)
         | None \<Rightarrow> Inr (False, ?g\<lparr>sg_buffer := [], sg_numFecDecFail := 1\<rparr>))"
      using ne False by (simp add: FecDecodeData_def Let_def fail fec gt LT_Decode_def)
    let ?res = "lt_decode F (sg_fec g) (sg_fecBuffer ?g) (sg_fecDataSize ?g) (sg_fecSeedNumber g)"
    show ?thesis
    proof (cases ?res)
      case None
      then show ?thesis using c1 False
        by - (rule exI [of _ ?g], auto simp: push dec)
    next
      case (Some b)
      have "PushFecData F j m d (?g\<lparr>sg_buffer := b, sg_numFecData := GetNumEncSyms (sg_fec g),
              sg_numFecDecFail := 0, sg_stats := st\<rparr>)
            = Inr (0, False, ?g\<lparr>sg_buffer := b, sg_numFecData := GetNumEncSyms (sg_fec g),
              sg_numFecDecFail := 0, sg_stats := st\<rparr>)" for j m d st
        by (simp add: PushFecData_def fec)
      with Some show ?thesis using c1 False
        by - (rule exI [of _ ?g], auto simp: push dec)
    qed
  qed
qed

lemma collected_CreateSegment:
  fixes C block idx startNo endNo segSize seed lastSeg
  defines "g \<equiv> CreateSegment C block idx startNo endNo segSize seed lastSeg"
  assumes m: "0 < unat (GetNumEncSyms (sg_fec g))"
    and small: "(unat idx + 1) * (unat (GetNumEncSyms (sg_fec g)) * 1024) < 2 ^ 32"
    and enc: "length enc = unat (GetNumEncSyms (sg_fec g)) * 1024"
  shows "collected g enc {}"
proof -
  let ?n = "GetNumEncSyms (sg_fec g)"
  have size: "unat (?n * 1024) = unat ?n * 1024"
    using small by (simp add: unat_word_ariths)
  have "unat idx * (unat ?n * 1024) < 2 ^ 32" using small by simp
  then have "unat (idx * (?n * 1024)) = unat idx * unat ?n * 1024"
    by (simp add: unat_word_ariths(2) [of idx] size)
  then have st: "unat (idx * (?n * 1024) div 1024) = unat idx * unat ?n"
    by (simp add: unat_div)
  have "unat (idx * (?n * 1024) div 1024 + ?n) = unat idx * unat ?n + unat ?n"
    using small by (simp add: unat_word_ariths(1) st)
  then have en: "unat (idx * (?n * 1024) div 1024 + ?n - 1) + 1 = unat idx * unat ?n + unat ?n"
    using m by (subst unat_sub) (simp_all add: word_le_nat_alt)
  have sel: "sg_startFecDataNumber g = idx * (?n * 1024) div 1024"
    "sg_endFecDataNumber g = idx * (?n * 1024) div 1024 + ?n - 1"
    "sg_fecSegmentSize g = ?n * 1024" "sg_fecBuffer g = replicate (unat (?n * 1024)) 0"
    "sg_fecDataSize g = replicate (unat ?n) 0" "sg_numFecData g = 0" "sg_numFecDecFail g = 0"
    by (simp_all add: g_def CreateSegment_def Let_def PAYLOAD_def)
  have "seg_geom (fec_view g)"
    unfolding seg_geom_def Let_def fec_view_sel sel
    using m en size st by simp
  then show ?thesis
    using enc by (simp add: collected_def sel size)
qed

text \<open>A code of two source symbols, encoded into four, for which decoding is tried after the third.\<close>

definition tiny_segment :: Segment where
  "tiny_segment = CreateSegment tiny_config 1 0 0 1 2048 9 True"

lemma tiny_code:
  "GetNumEncSyms (sg_fec tiny_segment) = 4" "GetNumSymsForDec (sg_fec tiny_segment) = 2"
proof -
  have "GetNumEncSyms (CreateLTCode 1024 2 (f32_div (f32_of_u32 2048) (f32_of_u32 4096)) f32_0_95) = 4"
    "GetNumSymsForDec (CreateLTCode 1024 2 (f32_div (f32_of_u32 2048) (f32_of_u32 4096)) f32_0_95) = 2"
    by code_simp+
  then show "GetNumEncSyms (sg_fec tiny_segment) = 4" "GetNumSymsForDec (sg_fec tiny_segment) = 2"
    by (simp_all add: tiny_segment_def CreateSegment_def Let_def tiny_config_def PAYLOAD_def)
qed

text \<open>An encoder and a decoder that never succeed.\<close>

definition no_fec :: fec_lib where
  "no_fec = \<lparr>lt_encode = (\<lambda>_ _ _. None), lt_decode = (\<lambda>_ _ _ _. None)\<rparr>"

theorem fec_decode_threshold_witness:
  "\<exists>g1 g' ok. collected g1 (replicate 4096 7) (insert 1 {}) \<and>
    PushFecData no_fec 5 (sg_startFecDataNumber tiny_segment + of_nat 1) (chunk (replicate 4096 7) 1) tiny_segment
      = Inr (1024, ok, g') \<and> \<not> ok \<and> collected g' (replicate 4096 7) (insert 1 {})"
proof -
  have c: "collected tiny_segment (replicate 4096 7) {}"
    using tiny_code(1) unfolding tiny_segment_def by (intro collected_CreateSegment) simp_all
  then have "length (sg_fecDataSize tiny_segment) = 4"
    using tiny_code(1) by (simp add: collected_def)
  then show ?thesis
    using fec_decode_threshold [OF c, of 1 no_fec 5] tiny_code by simp
qed

text \<open>
  With the deployed code (2409 symbols, decoding from 2155 on) the panic of the last chance is
  unreachable: as long as no more symbols or failures are counted than there are symbols, whatever
  is in the buffers, \<open>FecDecodeData\<close> tries the decoder or waits.
\<close>

theorem fec_last_chance_unreachable:
  assumes "sg_fec g = CreateLTCode 1024 2048 (f32_div (f32_of_u32 2097152) (f32_of_u32 2466816)) f32_0_95"
    and "sg_numFecData g \<le> 2409" and "sg_numFecDecFail g \<le> 2409"
  shows "FecDecodeData F s g
           \<noteq> Inl (Explicit ''Segment.FecDecodeData(): FEC Decoding Fail!!! (Last chance)'')"
proof -
  have enc: "GetNumEncSyms (sg_fec g) = 2409" and dec: "GetNumSymsForDec (sg_fec g) = 2155"
    using deployed_lt_code deployed_lt_dec by (simp_all add: assms(1) GetNumEncSyms_def GetNumSymsForDec_def)
  have step: "u32_of_f32 (f32_mul (f32_of_u32 2155) f32_0_1) = 215" by code_simp
  have f: "unat (sg_numFecDecFail g) \<le> 2409" and n: "unat (sg_numFecData g) \<le> 2409"
    using assms(2,3) by (simp_all add: word_le_nat_alt)
  have "unat (sg_numFecDecFail g * 215) = unat (sg_numFecDecFail g) * 215"
    using f by (simp add: unat_word_ariths)
  then have sum: "unat (sg_numFecData g + sg_numFecDecFail g * 215)
                    = unat (sg_numFecData g) + unat (sg_numFecDecFail g) * 215"
    using f n by (simp add: unat_word_ariths(1) [of "sg_numFecData g"])
  show ?thesis
  proof (cases "2155 < sg_numFecData g + sg_numFecDecFail g * 215")
    case True
    then show ?thesis
      by (simp add: FecDecodeData_def Let_def dec step LT_Decode_def split: option.split)
  next
    case False
    then have "unat (sg_numFecData g) \<le> 2155" using sum by (simp add: word_less_nat_alt)
    then have "\<not> 2409 \<le> sg_numFecData g" by (simp add: word_le_nat_alt)
    then show ?thesis using False by (simp add: FecDecodeData_def Let_def enc dec step)
  qed
qed

theorem fec_last_chance_unreachable_witness:
  "FecDecodeData no_fec 9 (tiny_segment\<lparr>sg_fec := CreateLTCode 1024 2048
       (f32_div (f32_of_u32 2097152) (f32_of_u32 2466816)) f32_0_95, sg_numFecData := 2409,
       sg_numFecDecFail := 1\<rparr>)
     \<noteq> Inl (Explicit ''Segment.FecDecodeData(): FEC Decoding Fail!!! (Last chance)'')"
  by (rule fec_last_chance_unreachable) simp_all

end
