(* ===== verification/Block.thy ===== *)
theory Block
  imports Segment_Props
begin

text \<open>
  \<open>puctrl_block.go\<close>: a block is a list of segments, filled from a file at the root or by received
  data elsewhere, and read by the application in order or by data number for forwarding. Every
  method holds the block's lock, so that it is one atomic operation here; a method that would wait
  on a condition variable returns \<open>None\<close>. \<open>math.Floor\<close> and \<open>math.Ceil\<close> of \<open>float64\<close> quotients of 32-bit
  numbers are exact, and written as integer division; the segment sizes of \<open>Config\<close> are positive.
\<close>

record Block =
  b_blockNumber :: u32
  b_blockSize :: u32
  b_readSegmentNumber :: nat
  b_receivedBytes :: u32
  b_readBytes :: u32
  b_segmentList :: "Segment list"

definition CreateBlockBuffer :: "u32 \<Rightarrow> u32 \<Rightarrow> Block" where
  "CreateBlockBuffer number sz =
     \<lparr>b_blockNumber = number, b_blockSize = sz, b_readSegmentNumber = 0, b_receivedBytes = 0,
      b_readBytes = 0, b_segmentList = []\<rparr>"

definition PushSegment :: "Segment \<Rightarrow> Block \<Rightarrow> Block" where
  "PushSegment g b = b\<lparr>b_segmentList := b_segmentList b @ [g]\<rparr>"

definition IsEmpty :: "Block \<Rightarrow> bool" where
  "IsEmpty b \<longleftrightarrow> length (b_segmentList b) = 0"

definition GetLength :: "Block \<Rightarrow> nat" where
  "GetLength b = length (b_segmentList b)"

text \<open>\<open>uint32(math.Ceil(float64(a) / float64(b)))\<close>.\<close>

definition ceil_div :: "u32 \<Rightarrow> u32 \<Rightarrow> u32" where
  "ceil_div a b = of_nat ((unat a + (unat b - 1)) div unat b)"

text \<open>
  The inner loop of \<open>FillBlockFromFile\<close> over the data numbers of a segment: \<open>fi.Read(buf)\<close> overwrites
  the front of \<open>buf\<close> with what is left of the file, and panics at its end.
\<close>

fun fill_segment :: "u32 list \<Rightarrow> bytes \<Rightarrow> bytes \<Rightarrow> u32 \<Rightarrow> Segment \<Rightarrow> (Segment \<times> bytes \<times> u32) go" where
  "fill_segment [] file buf readBytes g = Inr (g, file, readBytes)"
| "fill_segment (dataNumber # dns) file buf readBytes g =
     (if file = [] then Inl (Explicit ''EOF'')
      else
        let buf = take (length buf) file @ drop (length file) buf;
            file = drop (length buf) file
        in go_bind (PushData 0 dataNumber buf g) (\<lambda>(pushLen, endOfSegment, g).
             let readBytes = readBytes + of_int pushLen
             in if endOfSegment then Inr (g, file, readBytes)
                else fill_segment dns file buf readBytes g))"

text \<open>The data numbers \<open>start, ..., end\<close> of a segment.\<close>

definition data_numbers :: "u32 \<Rightarrow> u32 \<Rightarrow> u32 list" where
  "data_numbers startNo endNo = map of_nat [unat startNo ..< unat endNo + 1]"

text \<open>One round of the outer loop: create the segment, append it, fill it in place.\<close>

definition fill_one :: "Config \<Rightarrow> nat \<Rightarrow> bytes \<times> Block \<Rightarrow> (bytes \<times> Block) go" where
  "fill_one C idx = (\<lambda>(file, b).
     let segmentSize = (if SEGMENT_SIZE C \<le> b_blockSize b - b_receivedBytes b then SEGMENT_SIZE C
                        else b_blockSize b - b_receivedBytes b);
         startDataNumber = b_receivedBytes b div PAYLOAD;
         numData = ceil_div segmentSize PAYLOAD;
         endDataNumber = startDataNumber + numData - 1;
         lastSegment = (b_receivedBytes b + segmentSize = b_blockSize b);
         segment = CreateSegment C (b_blockNumber b) (of_nat idx) startDataNumber endDataNumber
                     segmentSize 0 lastSegment
     in go_bind (fill_segment (data_numbers startDataNumber endDataNumber) file
                   (replicate PAYLOAD_SIZE 0) 0 segment)
          (\<lambda>(segment, file, readBytes).
             Inr (file, (PushSegment segment b)\<lparr>b_receivedBytes := b_receivedBytes b + readBytes\<rparr>)))"

definition FillBlockFromFile :: "Config \<Rightarrow> bytes \<Rightarrow> Block \<Rightarrow> Block go" where
  "FillBlockFromFile C file b =
     (let b = b\<lparr>b_blockSize := of_nat (length file)\<rparr>;
          numSegment = unat (ceil_div (b_blockSize b) (SEGMENT_SIZE C))
      in go_bind (go_fold (fill_one C) [0..<numSegment] (file, b)) (\<lambda>(_, b).
           if b_receivedBytes b \<noteq> b_blockSize b
           then Inl (Explicit ''Block.FillBlockFromFile(): blockSize is not equal to filled size!'')
           else Inr b))"

definition WriteBlockData :: "Config \<Rightarrow> u32 \<Rightarrow> u32 \<Rightarrow> bytes \<Rightarrow> Block \<Rightarrow> (bool \<times> Block) go" where
  "WriteBlockData C sessionID dataNumber data b =
     (let startOffset = dataNumber * PAYLOAD;
          segmentNumber = unat (startOffset div SEGMENT_SIZE C)
      in if segmentNumber + 1 \<le> GetLength b then
           go_bind (PushData sessionID dataNumber data (b_segmentList b ! segmentNumber))
             (\<lambda>(pushLen, endOfSegment, g).
                let b = b\<lparr>b_segmentList := (b_segmentList b)[segmentNumber := g]\<rparr>;
                    b = (if 0 < pushLen
                         then b\<lparr>b_receivedBytes := b_receivedBytes b + of_int pushLen\<rparr> else b)
                in Inr (endOfSegment, b))
         else Inr (False, b))"

definition WriteBlockFecData ::
    "fec_lib \<Rightarrow> Config \<Rightarrow> u32 \<Rightarrow> u32 \<Rightarrow> bytes \<Rightarrow> Block \<Rightarrow> (bool \<times> Block) go" where
  "WriteBlockFecData F C sessionID fecDataNumber data b =
     (let startOffset = fecDataNumber * PAYLOAD;
          segmentNumber = unat (startOffset div FEC_SEGMENT_SIZE C)
      in if segmentNumber + 1 \<le> GetLength b then
           go_bind (PushFecData F sessionID fecDataNumber data (b_segmentList b ! segmentNumber))
             (\<lambda>(pushLen, endOfSegment, g).
                let b = b\<lparr>b_segmentList := (b_segmentList b)[segmentNumber := g]\<rparr>;
                    b = (if endOfSegment
                         then b\<lparr>b_receivedBytes := b_receivedBytes b + sg_segmentSize g\<rparr> else b)
                in Inr (endOfSegment, b))
         else Inr (False, b))"

text \<open>\<open>None\<close>: no unread data, the caller waits on \<open>condNewData\<close>.\<close>

definition ReadBlockData :: "bytes \<Rightarrow> Block \<Rightarrow> (int \<times> bool \<times> bytes \<times> Block) go option" where
  "ReadBlockData buf b =
     (if b_receivedBytes b - b_readBytes b = 0 then None
      else
        let bufLen = of_nat (length buf);
            unreadDataLen = b_receivedBytes b - b_readBytes b;
            readLen = (if bufLen \<le> unreadDataLen then bufLen else unreadDataLen)
        in Some (go_bind (go_index (b_segmentList b) (b_readSegmentNumber b)) (\<lambda>g.
             go_bind (PopData buf (b_readBytes b) (b_readBytes b + readLen) g)
               (\<lambda>(readBytes, endOfSegment, got).
                  let b = b\<lparr>b_readBytes := b_readBytes b + of_int readBytes\<rparr>;
                      b = (if endOfSegment
                           then b\<lparr>b_readSegmentNumber := b_readSegmentNumber b + 1\<rparr> else b)
                  in Inr (readBytes, endOfSegment, got, b)))))"

text \<open>\<open>None\<close>: the data has not been received, the caller waits on \<open>condSegment\<close>.\<close>

definition ReadBlockDataByDataNumber ::
    "Config \<Rightarrow> u32 \<Rightarrow> bytes \<Rightarrow> Block \<Rightarrow> (int \<times> bool \<times> bytes) go option" where
  "ReadBlockDataByDataNumber C dataNumber buf b =
     (let startOffset = dataNumber * PAYLOAD;
          endOffset = (if PAYLOAD \<le> b_blockSize b - startOffset then startOffset + PAYLOAD
                       else b_blockSize b)
      in if b_receivedBytes b < endOffset then None
         else Some (go_bind (go_index (b_segmentList b) (unat (startOffset div SEGMENT_SIZE C)))
                (PopData buf startOffset endOffset)))"

definition ReadBlockFecDataByDataNumber ::
    "Config \<Rightarrow> u32 \<Rightarrow> bytes \<Rightarrow> Block \<Rightarrow> (int \<times> bool \<times> bytes) go" where
  "ReadBlockFecDataByDataNumber C fecDataNumber buf b =
     (let startOffset = fecDataNumber * PAYLOAD;
          endOffset = startOffset + PAYLOAD
      in go_bind (go_index (b_segmentList b) (unat (startOffset div FEC_SEGMENT_SIZE C)))
           (PopFecData buf startOffset endOffset))"

text \<open>\<open>None\<close>: the loop spins while the data has not been received.\<close>

definition FecEncodeBlockData ::
    "fec_lib \<Rightarrow> Config \<Rightarrow> u32 \<Rightarrow> u32 \<Rightarrow> Block \<Rightarrow> (u32 \<times> u32 \<times> Block) go option" where
  "FecEncodeBlockData F C dataNumber fecSeedNumber b =
     (let startOffset = dataNumber * PAYLOAD;
          endOffset = (if PAYLOAD \<le> b_blockSize b - startOffset then startOffset + PAYLOAD
                       else b_blockSize b);
          segmentNumber = unat (startOffset div SEGMENT_SIZE C)
      in if b_receivedBytes b < endOffset then None
         else Some (go_bind (go_index (b_segmentList b) segmentNumber) (\<lambda>g.
                go_bind (FecEncodeData F fecSeedNumber g) (\<lambda>(s, e, g).
                  Inr (s, e, b\<lparr>b_segmentList := (b_segmentList b)[segmentNumber := g]\<rparr>)))))"

end
