(* ===== verification/Block_Props.thy ===== *)
theory Block_Props
  imports Block
begin

text \<open>
  Blocks against the byte sequence they stand for: filling a block from a file stores the file,
  reading by data number returns the file's chunks, and a receiving block that is sent those
  chunks in any order, over any sessions and with duplicates, returns the file again.
\<close>

section \<open>Cutting a file into segments\<close>

text \<open>Segments of \<open>m\<close> chunks, as \<open>SEGMENT_SIZE\<close> gives them.\<close>

definition conf_ok :: "Config \<Rightarrow> nat \<Rightarrow> bool" where
  "conf_ok C m \<longleftrightarrow> 0 < m \<and> unat (SEGMENT_SIZE C) = m * 1024"

definition seg_bytes :: "nat \<Rightarrow> bytes \<Rightarrow> nat \<Rightarrow> bytes" where
  "seg_bytes m src j = take (m * 1024) (drop (j * m * 1024) src)"

definition num_chunks :: "nat \<Rightarrow> nat" where
  "num_chunks len = (len + 1023) div 1024"

lemma num_chunks_iff: "k < num_chunks len \<longleftrightarrow> k * 1024 < len"
  by (auto simp: num_chunks_def)

lemma length_seg_bytes: "length (seg_bytes m src j) = min (m * 1024) (length src - j * m * 1024)"
  by (simp add: seg_bytes_def)

lemma chunk_seg_bytes: "k < m \<Longrightarrow> chunk (seg_bytes m src j) k = chunk src (j * m + k)"
proof -
  assume "k < m"
  then have "k * 1024 + 1024 \<le> m * 1024" by linarith
  then have "min 1024 (m * 1024 - k * 1024) = 1024" by simp
  then show ?thesis
    by (simp add: chunk_def seg_bytes_def drop_take take_take algebra_simps)
qed

lemma num_chunks_seg:
  "k < num_chunks (length (seg_bytes m src j)) \<longleftrightarrow> k < m \<and> j * m + k < num_chunks (length src)"
  unfolding num_chunks_iff length_seg_bytes by (auto simp: algebra_simps)

lemma conf_u32:
  assumes "conf_ok C m"
  shows "m < 2 ^ 22" and "SEGMENT_SIZE C \<noteq> 0" and "SEGMENT_SIZE C = of_nat (m * 1024)"
proof -
  show "m < 2 ^ 22" using assms unat_u32_lt [of "SEGMENT_SIZE C"] by (simp add: conf_ok_def)
  show "SEGMENT_SIZE C \<noteq> 0" using assms by (auto simp: conf_ok_def)
  have "of_nat (unat (SEGMENT_SIZE C)) = SEGMENT_SIZE C" by simp
  then show "SEGMENT_SIZE C = of_nat (m * 1024)" using assms by (simp only: conf_ok_def)
qed

section \<open>Filling\<close>

lemma fill_segment_step:
  assumes "file \<noteq> []" and "length buf = 1024"
    and "PushData 0 dn (take 1024 file @ drop (length file) buf) g = Inr (int c, eos, g1)"
  shows "fill_segment (dn # dns) file buf rb g
    = (if eos then Inr (g1, drop 1024 file, rb + of_nat c)
       else fill_segment dns (drop 1024 file) (take 1024 file @ drop (length file) buf)
              (rb + of_nat c) g1)"
proof -
  have "min (length file) 1024 + (1024 - length file) = 1024" by simp
  then show ?thesis using assms by simp
qed

lemma fill_segment_ok:
  assumes "received g src {..<k}" and "k < length (sg_dataSize g)"
    and "rest \<noteq> [] \<Longrightarrow> length src = length (sg_dataSize g) * 1024" and "length buf = 1024"
  shows "\<exists>g'. fill_segment (map (\<lambda>k. sg_startDataNumber g + of_nat k) [k..<length (sg_dataSize g)])
                (drop (k * 1024) src @ rest) buf rb g
              = Inr (g', rest, rb + of_nat (length src - k * 1024)) \<and>
            received g' src {..<length (sg_dataSize g)} \<and>
            sg_startDataNumber g' = sg_startDataNumber g \<and>
            length (sg_dataSize g') = length (sg_dataSize g)"
  using assms
proof (induction "length (sg_dataSize g) - k" arbitrary: k g buf rb)
  case 0
  then show ?case by simp
next
  case (Suc l)
  let ?n = "length (sg_dataSize g)" and ?file = "drop (k * 1024) src @ rest"
  note r = Suc.prems(1) and k = Suc.prems(2)
  note p = received_pushable [OF r k]
  have ne: "?file \<noteq> []" using pushable_bounds(2,4) [OF p] by simp
  have split: "[k..<?n] = k # [Suc k..<?n]" using k by (simp add: upt_conv_Cons)
  let ?buf = "take 1024 ?file @ drop (length ?file) buf"
  have full: "rest \<noteq> [] \<Longrightarrow> (k + 1) * 1024 \<le> length src" using Suc.prems(3) k by simp
  have chunk_file: "chunk src k = take (length (chunk src k)) ?file"
    by (simp add: chunk_def min_def)
  have data: "packet_for src k ?buf"
    using Suc.prems(4) chunk_file
    by (auto simp: packet_for_def length_chunk min_def take_append)
  obtain g1 where push: "PushData 0 (sg_startDataNumber g + of_nat k) ?buf g
        = Inr (int (length (chunk src k)), k = ?n - 1, g1)"
    and r1: "received g1 src (insert k {..<k})"
    and same: "sg_startDataNumber g1 = sg_startDataNumber g" "length (sg_dataSize g1) = ?n"
    using PushData_fresh [OF r k _ data, of 0] by auto
  have r1': "received g1 src {..<Suc k}" using r1 by (simp add: lessThan_Suc)
  have dropped: "drop 1024 ?file = drop (Suc k * 1024) src @ rest"
    using full by (cases "rest = []") (simp_all add: add.commute)
  note step = fill_segment_step [OF ne Suc.prems(4) push, of
      "map (\<lambda>k. sg_startDataNumber g + of_nat k) [Suc k..<?n]" rb, unfolded dropped]
  show ?case
  proof (cases "k = ?n - 1")
    case True
    have "drop (Suc k * 1024) src = []"
      using True k r by (simp add: received_def seg_geom_def Let_def)
    moreover have "length (chunk src k) = length src - k * 1024"
      using True k r by (auto simp: length_chunk received_def seg_geom_def Let_def)
    moreover have "Suc k = ?n" using True k by simp
    ultimately show ?thesis
      unfolding split list.map step using True r1' same by simp
  next
    case False
    have len: "length (chunk src k) = 1024"
    proof -
      have "Suc k < ?n" using False k by simp
      then have "Suc k * 1024 < length src"
        using pushable_bounds(2,4) [OF received_pushable [OF r]] by metis
      then show ?thesis by (simp add: length_chunk)
    qed
    have "Suc k < length (sg_dataSize g1)" using False k same by simp
    moreover have "l = length (sg_dataSize g1) - Suc k" using Suc.hyps(2) same by simp
    moreover have "rest \<noteq> [] \<Longrightarrow> length src = length (sg_dataSize g1) * 1024"
      using Suc.prems(3) same by simp
    moreover have "length ?buf = 1024" using Suc.prems(4) by simp
    ultimately obtain g2 where
      "fill_segment (map (\<lambda>k. sg_startDataNumber g1 + of_nat k) [Suc k..<length (sg_dataSize g1)])
         (drop (Suc k * 1024) src @ rest) ?buf (rb + 1024) g1
       = Inr (g2, rest, rb + 1024 + of_nat (length src - Suc k * 1024))"
      "received g2 src {..<length (sg_dataSize g1)}" "sg_startDataNumber g2 = sg_startDataNumber g1"
      "length (sg_dataSize g2) = length (sg_dataSize g1)"
      using Suc.hyps(1) [of g1 "Suc k" ?buf "rb + 1024", OF _ r1'] by blast
    moreover have "rb + 1024 + of_nat (length src - Suc k * 1024) = rb + of_nat (length src - k * 1024)"
    proof -
      have "length src - k * 1024 = 1024 + (length src - Suc k * 1024)" using len by (simp add: length_chunk)
      then show ?thesis by (simp only: of_nat_add) simp
    qed
    ultimately show ?thesis
      unfolding split list.map step using False by (simp add: same len)
  qed
qed

section \<open>What a block holds\<close>

text \<open>
  \<open>holds C m b src S\<close>: block \<open>b\<close>, in segments of \<open>m\<close> chunks, has received exactly the data numbers
  \<open>S\<close> of \<open>src\<close>, into the segments it has created so far.
\<close>

definition seg_local :: "nat \<Rightarrow> nat \<Rightarrow> nat set \<Rightarrow> nat set" where
  "seg_local m j S = {k. k < m \<and> j * m + k \<in> S}"

definition holds :: "nat \<Rightarrow> Block \<Rightarrow> bytes \<Rightarrow> nat set \<Rightarrow> bool" where
  "holds m b src S \<longleftrightarrow>
     length src = unat (b_blockSize b) \<and> S \<subseteq> {..<num_chunks (length src)} \<and>
     (\<forall>d \<in> S. d div m < length (b_segmentList b)) \<and>
     length (b_segmentList b) * m < num_chunks (length src) + m \<and>
     (\<forall>j < length (b_segmentList b).
        received (b_segmentList b ! j) (seg_bytes m src j) (seg_local m j S) \<and>
        sg_startDataNumber (b_segmentList b ! j) = of_nat (j * m)) \<and>
     b_receivedBytes b = of_nat (\<Sum>d \<in> S. length (chunk src d))"

lemma received_length:
  "received g src S \<Longrightarrow> length (sg_dataSize g) = num_chunks (length src)"
  by (auto simp: received_def seg_geom_def Let_def num_chunks_def)

text \<open>The chunks of a sequence add up to its length.\<close>

lemma sum_chunks: "(\<Sum>d < n. length (chunk src d)) = min (n * 1024) (length src)"
  by (induction n) (auto simp: length_chunk min_def)

lemma sum_chunks_le: "S \<subseteq> {..<num_chunks (length src)} \<Longrightarrow> (\<Sum>d \<in> S. length (chunk src d)) \<le> length src"
proof -
  assume "S \<subseteq> {..<num_chunks (length src)}"
  then have "(\<Sum>d \<in> S. length (chunk src d)) \<le> (\<Sum>d < num_chunks (length src). length (chunk src d))"
    by (intro sum_mono2) auto
  then show ?thesis by (simp add: sum_chunks)
qed

text \<open>The arguments \<open>CreateSegment\<close> gets for segment \<open>j\<close> of a file.\<close>

lemma seg_args_of_file:
  assumes "0 < m" and "j * m * 1024 < length src" and "length src < 2 ^ 32"
  defines "sz \<equiv> of_nat (length (seg_bytes m src j)) :: u32"
  shows "seg_args (of_nat (j * m)) (of_nat (j * m) + ceil_div sz PAYLOAD - 1) sz
           (num_chunks (length (seg_bytes m src j)))"
    and "unat sz = length (seg_bytes m src j)"
proof -
  let ?l = "length (seg_bytes m src j)" and ?n = "num_chunks (length (seg_bytes m src j))"
  have l: "0 < ?l" "j * m * 1024 + ?l \<le> length src" using assms(1,2) by (auto simp: length_seg_bytes)
  then show sz: "unat sz = ?l" using assms(3) by (simp add: sz_def unat_of_nat_lt)
  have nl: "0 < ?n" "(?n - 1) * 1024 < ?l" "?l \<le> ?n * 1024"
    using l num_chunks_iff [of "?n - 1" ?l] num_chunks_iff [of ?n ?l] num_chunks_iff [of 0 ?l] by auto
  have n: "j * m + ?n \<le> 2 ^ 22"
  proof -
    have "(j * m + (?n - 1)) * 1024 < 2 ^ 32" using nl l assms(3) by (simp add: algebra_simps)
    then show ?thesis by simp
  qed
  have "ceil_div sz PAYLOAD = of_nat ?n" by (simp add: ceil_div_def sz PAYLOAD_def num_chunks_def)
  then have "of_nat (j * m) + ceil_div sz PAYLOAD - 1 = (of_nat (j * m + ?n) :: u32) - 1" by simp
  also have "\<dots> = of_nat (j * m + (?n - 1))" using nl(1) by (simp add: of_nat_diff)
  finally have "unat (of_nat (j * m) + ceil_div sz PAYLOAD - 1) = j * m + (?n - 1)"
    using n by (simp add: unat_of_nat_lt del: of_nat_add)
  moreover have "unat (of_nat (j * m) :: u32) = j * m" using n by (intro unat_of_nat_lt) simp
  ultimately show "seg_args (of_nat (j * m)) (of_nat (j * m) + ceil_div sz PAYLOAD - 1) sz ?n"
    unfolding seg_args_def sz using nl by simp
qed

lemma data_numbers_seg:
  assumes "seg_args startNo endNo segSize n" and "unat endNo < 2 ^ 22"
  shows "data_numbers startNo endNo = map (\<lambda>k. startNo + of_nat k) [0..<n]"
proof -
  have "unat endNo + 1 = unat startNo + n" using assms(1) by (simp add: seg_args_def)
  then have "[unat startNo..<unat endNo + 1] = map (\<lambda>k. k + unat startNo) [0..<n]"
    by (simp add: map_add_upt add.commute)
  then show ?thesis by (simp add: data_numbers_def add.commute)
qed

lemma seg_local_upto: "seg_local m j {..<a} = {k. k < m \<and> j * m + k < a}"
  by (auto simp: seg_local_def)

lemma holds_empty:
  "length src = unat sz \<Longrightarrow> 0 < m \<Longrightarrow> holds m (CreateBlockBuffer n sz) src {}"
  by (simp add: holds_def CreateBlockBuffer_def)

lemma holds_received:
  "holds m b src S \<Longrightarrow> j < length (b_segmentList b) \<Longrightarrow>
     received (b_segmentList b ! j) (seg_bytes m src j) (seg_local m j S)"
  by (simp add: holds_def)

text \<open>Appending segment \<open>j\<close>, with the chunks \<open>seg_local m j S'\<close> of it filled in.\<close>

lemma holds_push:
  assumes h: "holds m b src S" and m: "0 < m" and j: "j = length (b_segmentList b)"
    and more: "j * m * 1024 < length src"
    and r: "received g (seg_bytes m src j) L" and L: "L \<subseteq> {..<m}" and st: "sg_startDataNumber g = of_nat (j * m)"
    and T: "T = S \<union> (\<lambda>k. j * m + k) ` L"
  shows "holds m ((PushSegment g b)\<lparr>b_receivedBytes := of_nat (\<Sum>d \<in> T. length (chunk src d))\<rparr>) src T"
proof -
  have notS: "d \<notin> S" if "d div m = j" for d
    using that h j by (auto simp: holds_def)
  have loc: "seg_local m i T = (if i = j then L else seg_local m i S)" for i
  proof -
    have eq: "i * m + k = j * m + k' \<longleftrightarrow> i = j \<and> k = k'" if "k < m" "k' < m" for k k'
    proof
      assume e: "i * m + k = j * m + k'"
      have "(i * m + k) div m = i" "(j * m + k') div m = j" using that m by simp_all
      then show "i = j \<and> k = k'" using e by simp
    qed simp
    have "(j * m + k) div m = j" if "k < m" for k using that m by simp
    then show ?thesis using L notS by (auto simp: seg_local_def T eq subset_iff)
  qed
  have Lsub: "j * m + k < num_chunks (length src)" if "k \<in> L" for k
  proof -
    have "k < length (sg_dataSize g)" using r that by (auto simp: received_def)
    then have "k < num_chunks (length (seg_bytes m src j))" using received_length [OF r] by simp
    then show ?thesis by (simp add: num_chunks_seg)
  qed
  have divL: "(j * m + k) div m = j" if "k \<in> L" for k using L that m by (auto simp: subset_iff)
  have "j * m < num_chunks (length src)" using more by (simp add: num_chunks_iff)
  then show ?thesis
    using h j r st loc Lsub divL
    by (auto simp: holds_def PushSegment_def nth_append less_Suc_eq T)
qed

section \<open>FillBlockFromFile\<close>

lemma fill_one_ok:
  assumes C: "conf_ok C m" and len: "length src < 2 ^ 32" and j: "j * m * 1024 < length src"
    and h: "holds m b src {..<j * m}" and jl: "length (b_segmentList b) = j"
  shows "\<exists>b'. fill_one C j (drop (j * m * 1024) src, b) = Inr (drop (Suc j * m * 1024) src, b') \<and>
           holds m b' src {..<min (Suc j * m) (num_chunks (length src))} \<and>
           length (b_segmentList b') = Suc j \<and> b_blockSize b' = b_blockSize b"
proof -
  have m: "0 < m" using C by (simp add: conf_ok_def)
  let ?s = "seg_bytes m src j"
  let ?sz = "of_nat (length ?s) :: u32" and ?n = "num_chunks (length ?s)"
  note args = seg_args_of_file [OF m j len]
  have rb: "unat (b_receivedBytes b) = j * m * 1024"
  proof -
    have "(\<Sum>d < j * m. length (chunk src d)) = j * m * 1024"
      using j by (simp add: sum_chunks)
    then show ?thesis using h j len by (simp add: holds_def unat_of_nat_lt del: of_nat_mult)
  qed
  have bs: "unat (b_blockSize b) = length src" using h by (simp add: holds_def)
  have diff: "unat (b_blockSize b - b_receivedBytes b) = length src - j * m * 1024"
    using j by (subst unat_sub) (simp_all add: word_le_nat_alt rb bs)
  have size: "(if SEGMENT_SIZE C \<le> b_blockSize b - b_receivedBytes b then SEGMENT_SIZE C
               else b_blockSize b - b_receivedBytes b) = ?sz"
    using C args(2) by (auto simp: word_le_nat_alt word_unat_eq_iff diff length_seg_bytes conf_ok_def)
  have "unat (b_receivedBytes b div PAYLOAD) = j * m" by (simp add: unat_div rb PAYLOAD_def)
  then have "unat (b_receivedBytes b div PAYLOAD) = unat (of_nat (j * m) :: u32)"
    using j len by (subst unat_of_nat_lt) simp_all
  then have start: "b_receivedBytes b div PAYLOAD = of_nat (j * m)" by (simp only: word_unat_eq_iff)
  let ?e = "of_nat (j * m) + ceil_div ?sz PAYLOAD - 1 :: u32"
  let ?g = "CreateSegment C (b_blockNumber b) (of_nat j) (of_nat (j * m)) ?e ?sz 0
              (b_receivedBytes b + ?sz = b_blockSize b)"
  note r0 = received_CreateSegment [OF args(1), of ?s C "b_blockNumber b" "of_nat j" 0
      "b_receivedBytes b + ?sz = b_blockSize b", OF args(2) [symmetric]]
  have npos: "0 < ?n" using args(1) by (simp add: seg_args_def)
  have full: "length ?s = length (sg_dataSize ?g) * 1024" if "drop (Suc j * m * 1024) src \<noteq> []"
    using that m unfolding r0(2) by (simp add: length_seg_bytes num_chunks_def)
  have inp: "drop (j * m * 1024) src = drop (0 * 1024) ?s @ drop (Suc j * m * 1024) src"
    by (simp add: seg_bytes_def algebra_simps flip: drop_drop)
  have dns: "data_numbers (of_nat (j * m)) ?e
               = map (\<lambda>k. sg_startDataNumber ?g + of_nat k) [0..<length (sg_dataSize ?g)]"
  proof -
    have "unat ?e < 2 ^ 22"
    proof -
      have "unat ?e + 1 = unat (of_nat (j * m) :: u32) + ?n" using args(1) by (simp add: seg_args_def)
      also have "unat (of_nat (j * m) :: u32) = j * m" using j len by (intro unat_of_nat_lt) simp
      finally have "unat ?e + 1 = j * m + ?n" .
      moreover have "j * m + (?n - 1) < num_chunks (length src)"
        using num_chunks_seg [of "?n - 1" m src j] npos by simp
      then have "(j * m + (?n - 1)) * 1024 < length src" by (simp add: num_chunks_iff)
      ultimately show ?thesis using len npos by simp
    qed
    then show ?thesis unfolding CreateSegment_sel(1) r0(2) by (rule data_numbers_seg [OF args(1)])
  qed
  obtain g where fill: "fill_segment (data_numbers (of_nat (j * m)) ?e) (drop (j * m * 1024) src)
        (replicate PAYLOAD_SIZE 0) 0 ?g
      = Inr (g, drop (Suc j * m * 1024) src, of_nat (length ?s))"
    and rg: "received g ?s {..<?n}" and sg: "sg_startDataNumber g = of_nat (j * m)"
  proof -
    have a1: "received ?g ?s {..<0}" using r0(1) by simp
    have a2: "0 < length (sg_dataSize ?g)" using npos unfolding r0(2) .
    have a3: "length (replicate PAYLOAD_SIZE (0 :: byte)) = 1024" by (simp add: PAYLOAD_SIZE_def)
    have "\<exists>g'. fill_segment (data_numbers (of_nat (j * m)) ?e) (drop (j * m * 1024) src)
          (replicate PAYLOAD_SIZE 0) 0 ?g
        = Inr (g', drop (Suc j * m * 1024) src, 0 + of_nat (length ?s - 0 * 1024)) \<and>
        received g' ?s {..<length (sg_dataSize ?g)} \<and>
        sg_startDataNumber g' = sg_startDataNumber ?g \<and>
        length (sg_dataSize g') = length (sg_dataSize ?g)"
      unfolding dns inp by (rule fill_segment_ok [OF a1 a2 full a3])
    then show ?thesis using that unfolding r0(2) CreateSegment_sel(1) by auto
  qed
  let ?T = "{..<min (Suc j * m) (num_chunks (length src))}"
  have T: "?T = {..<j * m} \<union> (\<lambda>k. j * m + k) ` {..<?n}"
  proof (intro set_eqI iffI)
    fix d assume d: "d \<in> ?T"
    show "d \<in> {..<j * m} \<union> (\<lambda>k. j * m + k) ` {..<?n}"
    proof (cases "d < j * m")
      case False
      then have "d = j * m + (d - j * m)" "d - j * m < m" using d by auto
      then show ?thesis using d num_chunks_seg [of "d - j * m" m src j] by auto
    qed simp
  next
    fix d assume "d \<in> {..<j * m} \<union> (\<lambda>k. j * m + k) ` {..<?n}"
    then consider "d < j * m" | k where "d = j * m + k" "k < ?n" by blast
    then show "d \<in> ?T"
    proof cases
      case 1
      have "j * m < num_chunks (length src)" using j by (simp add: num_chunks_iff)
      with 1 show ?thesis by simp
    next
      case 2
      then show ?thesis using num_chunks_seg [of k m src j] by simp
    qed
  qed
  have sum: "b_receivedBytes b + of_nat (length ?s) = of_nat (\<Sum>d \<in> ?T. length (chunk src d))"
  proof -
    have "(\<Sum>d \<in> ?T. length (chunk src d)) = j * m * 1024 + length ?s"
      using j by (auto simp: sum_chunks length_seg_bytes num_chunks_def min_def)
    moreover have "b_receivedBytes b = of_nat (unat (b_receivedBytes b))" by simp
    then have "b_receivedBytes b = of_nat (j * m * 1024)" unfolding rb .
    ultimately show ?thesis by simp
  qed
  have "holds m ((PushSegment g b)\<lparr>b_receivedBytes := of_nat (\<Sum>d \<in> ?T. length (chunk src d))\<rparr>) src ?T"
  proof (rule holds_push [OF h m jl [symmetric] j rg _ sg T])
    show "{..<?n} \<subseteq> {..<m}"
    proof (rule subsetI)
      fix k assume "k \<in> {..<?n}"
      then show "k \<in> {..<m}" using num_chunks_seg [of k m src j] by simp
    qed
  qed
  moreover have "fill_one C j (drop (j * m * 1024) src, b)
      = Inr (drop (Suc j * m * 1024) src,
          (PushSegment g b)\<lparr>b_receivedBytes := of_nat (\<Sum>d \<in> ?T. length (chunk src d))\<rparr>)"
    unfolding fill_one_def prod.case Let_def size unfolding start unfolding fill
    unfolding go_bind.simps prod.case unfolding sum ..
  ultimately show ?thesis using jl by (auto simp: PushSegment_def)
qed

lemma num_segments:
  assumes "conf_ok C m" and that: "len < 2 ^ 32"
  shows "unat (ceil_div (of_nat len) (SEGMENT_SIZE C)) = (len + (m * 1024 - 1)) div (m * 1024)"
proof -
  have m: "0 < m" using assms by (simp add: conf_ok_def)
  have "(len + (m * 1024 - 1)) div (m * 1024) \<le> len"
  proof (cases "len = 0")
    case False
    then have "len + (m * 1024 - 1) \<le> len * (m * 1024)"
      using m by (cases len) (auto simp: algebra_simps)
    then show ?thesis using m by (metis div_le_mono div_mult_self1_is_m mult.commute nat_0_less_mult_iff zero_less_numeral)
  qed (use m in simp)
  then have "unat (of_nat ((len + (m * 1024 - 1)) div (m * 1024)) :: u32) = (len + (m * 1024 - 1)) div (m * 1024)"
    using that by (intro unat_of_nat_lt) simp
  then show ?thesis using assms that by (simp add: ceil_div_def conf_ok_def unat_of_nat_lt)
qed

lemma lt_num_segments:
  fixes m :: nat
  assumes "0 < m"
  shows "j < (len + (m * 1024 - 1)) div (m * 1024) \<longleftrightarrow> j * m * 1024 < len"
proof -
  have "j < (len + (m * 1024 - 1)) div (m * 1024) \<longleftrightarrow> Suc j \<le> (len + (m * 1024 - 1)) div (m * 1024)" by auto
  also have "\<dots> \<longleftrightarrow> Suc j * (m * 1024) \<le> len + (m * 1024 - 1)"
    using assms by (simp add: less_eq_div_iff_mult_less_eq)
  also have "\<dots> \<longleftrightarrow> j * m * 1024 < len" using assms by (auto simp: algebra_simps)
  finally show ?thesis .
qed

lemma fill_all_ok:
  assumes C: "conf_ok C m" and len: "length src < 2 ^ 32"
    and j: "\<And>i. i < j \<Longrightarrow> i * m * 1024 < length src"
  shows "\<exists>b. go_fold (fill_one C) [0..<j] (src, CreateBlockBuffer n (of_nat (length src)))
               = Inr (drop (j * m * 1024) src, b) \<and>
             holds m b src {..<min (j * m) (num_chunks (length src))} \<and> length (b_segmentList b) = j \<and>
             b_blockSize b = of_nat (length src)"
  using j
proof (induction j)
  case 0
  have "length src = unat (of_nat (length src) :: u32)" using len by (simp add: unat_of_nat_lt)
  then have "holds m (CreateBlockBuffer n (of_nat (length src))) src {}"
    using C by (intro holds_empty) (simp_all add: conf_ok_def)
  then show ?case by (simp add: CreateBlockBuffer_def)
next
  case (Suc j)
  obtain b where b: "go_fold (fill_one C) [0..<j] (src, CreateBlockBuffer n (of_nat (length src)))
        = Inr (drop (j * m * 1024) src, b)"
    and h: "holds m b src {..<min (j * m) (num_chunks (length src))}" and l: "length (b_segmentList b) = j"
    and s: "b_blockSize b = of_nat (length src)"
    using Suc.IH Suc.prems by auto
  have more: "j * m * 1024 < length src" using Suc.prems [of j] by simp
  then have "j * m < num_chunks (length src)" by (simp add: num_chunks_iff)
  then have "holds m b src {..<j * m}" using h by (simp add: min_def)
  from fill_one_ok [OF C len more this l] obtain b' where
    "fill_one C j (drop (j * m * 1024) src, b) = Inr (drop (Suc j * m * 1024) src, b')"
    "holds m b' src {..<min (Suc j * m) (num_chunks (length src))}" "length (b_segmentList b') = Suc j"
    "b_blockSize b' = b_blockSize b" by blast
  with b s show ?case by (auto simp: go_fold_append)
qed

text \<open>A block that holds a whole file, in all its segments.\<close>

definition holds_file :: "nat \<Rightarrow> Block \<Rightarrow> bytes \<Rightarrow> bool" where
  "holds_file m b src \<longleftrightarrow> holds m b src {..<num_chunks (length src)}"

lemma FillBlockFromFile_ok:
  assumes C: "conf_ok C m" and len: "length src < 2 ^ 32"
  shows "\<exists>b. FillBlockFromFile C src (CreateBlockBuffer n 0) = Inr b \<and> holds_file m b src \<and>
             length (b_segmentList b) = (length src + (m * 1024 - 1)) div (m * 1024)"
proof -
  have m: "0 < m" using C by (simp add: conf_ok_def)
  let ?j = "(length src + (m * 1024 - 1)) div (m * 1024)"
  have init: "(CreateBlockBuffer n 0)\<lparr>b_blockSize := of_nat (length src)\<rparr>
                = CreateBlockBuffer n (of_nat (length src))" by (simp add: CreateBlockBuffer_def)
  obtain b where b: "go_fold (fill_one C) [0..<?j] (src, CreateBlockBuffer n (of_nat (length src)))
        = Inr (drop (?j * m * 1024) src, b)"
    and h: "holds m b src {..<min (?j * m) (num_chunks (length src))}" and l: "length (b_segmentList b) = ?j"
    and s: "b_blockSize b = of_nat (length src)"
    using fill_all_ok [OF C len, of ?j n] lt_num_segments [OF m] by blast
  have "\<not> ?j * m * 1024 < length src" using lt_num_segments [OF m, of ?j "length src"] by blast
  then have "\<not> ?j * m < num_chunks (length src)" by (simp add: num_chunks_iff)
  then have "min (?j * m) (num_chunks (length src)) = num_chunks (length src)" by simp
  then have hf: "holds_file m b src" using h by (simp add: holds_file_def)
  have "(\<Sum>d < num_chunks (length src). length (chunk src d)) = length src"
    by (simp add: sum_chunks num_chunks_def)
  then have "b_receivedBytes b = b_blockSize b" using hf s by (simp add: holds_file_def holds_def del: of_nat_sum)
  then show ?thesis
    using b hf l num_segments [OF C len]
    by (simp add: FillBlockFromFile_def Let_def init CreateBlockBuffer_def)
qed

section \<open>Reading by data number\<close>

lemma holds_bounds:
  assumes "holds m b src S" and "d < num_chunks (length src)"
  shows "d * 1024 < length src" and "length src < 2 ^ 32" and "unat (of_nat d * PAYLOAD :: u32) = d * 1024"
    and "unat (of_nat d :: u32) = d"
proof -
  show d: "d * 1024 < length src" using assms(2) by (simp add: num_chunks_iff)
  show l: "length src < 2 ^ 32" using assms(1) unat_u32_lt [of "b_blockSize b"] by (simp add: holds_def)
  show u: "unat (of_nat d :: u32) = d" using d l by (intro unat_of_nat_lt) simp
  have "unat (of_nat d * PAYLOAD :: u32) = unat (of_nat d :: u32) * 1024 mod 2 ^ 32"
    by (subst unat_word_ariths(2)) (simp add: PAYLOAD_def)
  then show "unat (of_nat d * PAYLOAD :: u32) = d * 1024" using d l unfolding u by simp
qed

lemma segment_number:
  assumes "conf_ok C m" and "unat (of_nat d * PAYLOAD :: u32) = d * 1024"
  shows "unat (of_nat d * PAYLOAD div SEGMENT_SIZE C) = d div m"
  using assms by (simp add: unat_div conf_ok_def div_mult2_eq [symmetric] mult.commute [of _ 1024])

text \<open>Popping chunk \<open>k\<close> of a segment that has received it.\<close>

lemma PopData_chunk:
  assumes r: "received g s L" and k: "k \<in> L" and st: "sg_startDataNumber g = of_nat i"
    and a: "unat a = (i + k) * 1024" and e: "unat e = unat a + length (chunk s k)" and buf: "length buf = 1024"
  shows "\<exists>eos. PopData buf a e g
           = Inr (int (length (chunk s k)), eos, chunk s k @ drop (length (chunk s k)) buf)"
proof -
  have kl: "k < length (sg_dataSize g)" using r k by (auto simp: received_def)
  note p = received_pushable [OF r kl]
  have "a = of_nat ((i + k) * 1024)" using a by (rule word_of_unat)
  then have sa: "a - of_nat i * PAYLOAD = of_nat k * PAYLOAD" by (simp add: PAYLOAD_def algebra_simps)
  have "e = of_nat ((i + k) * 1024 + length (chunk s k))" using e a by (intro word_of_unat) simp
  then have se: "e - of_nat i * PAYLOAD = of_nat k * PAYLOAD + of_nat (length (chunk s k))"
    by (simp add: PAYLOAD_def algebra_simps)
  have le: "\<not> sg_segmentSize g < of_nat k * PAYLOAD + of_nat (length (chunk s k))"
    using push_chunk(2) [OF p] by (simp add: word_less_nat_alt push_end_offset [OF p])
  have c1024: "length (chunk s k) \<le> 1024" by (simp add: length_chunk)
  have src: "take (length (chunk s k)) (drop (k * 1024) (sg_buffer g)) = chunk s k"
  proof -
    have "take (length (chunk s k)) (chunk (sg_buffer g) k) = chunk s k"
      using r k by (simp add: received_def)
    moreover have "take (length (chunk s k)) (chunk (sg_buffer g) k)
        = take (length (chunk s k)) (drop (k * 1024) (sg_buffer g))"
      using c1024 unfolding chunk_def [of "sg_buffer g"] by (simp add: min_absorb1)
    ultimately show ?thesis by simp
  qed
  have bl: "k * 1024 + length (chunk s k) \<le> length (sg_buffer g)"
    using r push_chunk(2) [OF p] by (simp add: received_def seg_geom_def Let_def)
  show ?thesis
    using bl src buf c1024
    by (simp add: PopData_def Let_def st sa se le push_start_offset [OF p] push_end_offset [OF p]
        push_chunk(3) [OF p] uint_nat del: of_nat_unat)
qed

lemma ReadBlockDataByDataNumber_ok:
  assumes C: "conf_ok C m" and h: "holds m b src S" and d: "d \<in> S" and buf: "length buf = 1024"
    and here: "\<And>d'. d' < d \<Longrightarrow> d' \<in> S"
  shows "\<exists>eos. ReadBlockDataByDataNumber C (of_nat d) buf b
           = Some (Inr (int (length (chunk src d)), eos, chunk src d @ drop (length (chunk src d)) buf))"
proof -
  have m: "0 < m" using C by (simp add: conf_ok_def)
  have dn: "d < num_chunks (length src)" using h d by (auto simp: holds_def)
  note b = holds_bounds [OF h dn]
  have bs: "unat (b_blockSize b) = length src" using h by (simp add: holds_def)
  have diff: "unat (b_blockSize b - of_nat d * PAYLOAD) = length src - d * 1024"
    using b by (subst unat_sub) (simp_all add: word_le_nat_alt bs)
  let ?e = "if PAYLOAD \<le> b_blockSize b - of_nat d * PAYLOAD then of_nat d * PAYLOAD + PAYLOAD
            else b_blockSize b"
  have P: "unat PAYLOAD = 1024" by (simp add: PAYLOAD_def)
  have e: "unat ?e = d * 1024 + length (chunk src d)"
  proof (cases "1024 \<le> length src - d * 1024")
    case True
    then have "unat (of_nat d * PAYLOAD + PAYLOAD :: u32) = d * 1024 + 1024"
      using b by (subst unat_word_ariths(1)) (simp add: b(3) P)
    then show ?thesis using True by (simp add: word_le_nat_alt diff P length_chunk)
  next
    case False
    then show ?thesis using b by (simp add: word_le_nat_alt diff P length_chunk bs)
  qed
  have "\<not> b_receivedBytes b < ?e"
  proof -
    have sub: "{..<Suc d} \<subseteq> S" using d here by (auto simp: less_Suc_eq)
    have fin: "finite S" using h finite_subset by (auto simp: holds_def)
    have "(\<Sum>x < Suc d. length (chunk src x)) \<le> (\<Sum>x \<in> S. length (chunk src x))"
      by (rule sum_mono2 [OF fin sub]) simp
    moreover have "(\<Sum>x < Suc d. length (chunk src x)) = d * 1024 + length (chunk src d)"
      using b by (simp add: sum_chunks length_chunk)
    moreover have "unat (b_receivedBytes b) = (\<Sum>x \<in> S. length (chunk src x))"
    proof -
      have "(\<Sum>x \<in> S. length (chunk src x)) \<le> length src"
        using h unfolding holds_def by (intro sum_chunks_le) blast
      then show ?thesis using h b by (simp add: holds_def unat_of_nat_lt del: of_nat_sum)
    qed
    ultimately show ?thesis using e by (simp add: word_less_nat_alt)
  qed
  moreover have seg: "d div m < length (b_segmentList b)" using h d by (simp add: holds_def)
  moreover have "\<exists>eos. PopData buf (of_nat d * PAYLOAD) ?e (b_segmentList b ! (d div m))
      = Inr (int (length (chunk src d)), eos, chunk src d @ drop (length (chunk src d)) buf)"
  proof -
    have k: "d mod m < m" "d div m * m + d mod m = d" using m by simp_all
    then have c: "chunk (seg_bytes m src (d div m)) (d mod m) = chunk src d"
      by (simp add: chunk_seg_bytes)
    have "d mod m \<in> seg_local m (d div m) S" using k d by (simp add: seg_local_def)
    moreover have "sg_startDataNumber (b_segmentList b ! (d div m)) = of_nat (d div m * m)"
      using h seg by (simp add: holds_def)
    ultimately show ?thesis
      using PopData_chunk [OF holds_received [OF h seg], of "d mod m" "d div m * m" "of_nat d * PAYLOAD" ?e buf]
        k b e buf unfolding c by simp
  qed
  ultimately show ?thesis
    using segment_number [OF C b(3)] by (auto simp: ReadBlockDataByDataNumber_def Let_def)
qed

section \<open>Writing\<close>

lemma WriteBlockData_ok:
  assumes C: "conf_ok C m" and h: "holds m b src S" and d: "d < num_chunks (length src)"
    and data: "packet_for src d data"
  shows "\<exists>eos b'. WriteBlockData C i (of_nat d) data b = Inr (eos, b') \<and>
           holds m b' src (if d div m < length (b_segmentList b) then insert d S else S) \<and>
           length (b_segmentList b') = length (b_segmentList b) \<and>
           eos = (d div m < length (b_segmentList b) \<and> d \<notin> S \<and>
                  d mod m + 1 = num_chunks (length (seg_bytes m src (d div m))))"
proof (cases "d div m < length (b_segmentList b)")
  case False
  then show ?thesis
    using h segment_number [OF C holds_bounds(3) [OF h d]]
    by (auto simp: WriteBlockData_def Let_def GetLength_def)
next
  case True
  have m: "0 < m" using C by (simp add: conf_ok_def)
  let ?j = "d div m" and ?k = "d mod m"
  let ?g = "b_segmentList b ! ?j" and ?s = "seg_bytes m src ?j" and ?L = "seg_local m ?j S"
  have k: "?k < m" "?j * m + ?k = d" using m by simp_all
  then have c: "chunk ?s ?k = chunk src d" by (simp add: chunk_seg_bytes)
  note r = holds_received [OF h True]
  have st: "sg_startDataNumber ?g = of_nat (?j * m)" using h True by (simp add: holds_def)
  have dn: "sg_startDataNumber ?g + of_nat ?k = of_nat d"
    unfolding st using k(2) by (metis of_nat_add)
  have kl: "?k < length (sg_dataSize ?g)"
    using received_length [OF r] num_chunks_seg [of ?k m src ?j] k d by simp
  have pk: "packet_for ?s ?k data" using data by (simp add: packet_for_def c)
  have loc: "seg_local m i (insert d S) = (if i = ?j then insert ?k ?L else seg_local m i S)" for i
  proof -
    have eq: "?j * m + x = d \<longleftrightarrow> x = ?k" for x using k(2) by linarith
    have "(i * m + x) div m = i" if "x < m" for x using that m by simp
    then show ?thesis using k eq by (auto simp: seg_local_def)
  qed
  have fin: "finite S" using h finite_subset by (auto simp: holds_def)
  have wr: "WriteBlockData C i (of_nat d) data b
      = go_bind (PushData i (of_nat d) data ?g) (\<lambda>(pushLen, endOfSegment, g).
          let b = b\<lparr>b_segmentList := (b_segmentList b)[?j := g]\<rparr>;
              b = (if 0 < pushLen then b\<lparr>b_receivedBytes := b_receivedBytes b + of_int pushLen\<rparr> else b)
          in Inr (endOfSegment, b))"
    using True segment_number [OF C holds_bounds(3) [OF h d]]
    by (simp add: WriteBlockData_def Let_def GetLength_def)
  show ?thesis
  proof (cases "d \<in> S")
    case old: True
    then have "?k \<in> ?L" using k by (simp add: seg_local_def)
    from PushData_duplicate [OF r this, of data i] data have
      "PushData i (of_nat d) data ?g
         = Inr (-1, False, ?g\<lparr>sg_stats := IncreaseDuplicatedNumData i (sg_stats ?g)\<rparr>)"
      by (simp add: dn packet_for_def)
    then show ?thesis using h old True unfolding wr
      by (auto simp: holds_def insert_absorb nth_list_update received_stats)
  next
    case new: False
    then have "?k \<notin> ?L" using k by (simp add: seg_local_def)
    from PushData_fresh [OF r kl this pk, of i] obtain g' where
      push: "PushData i (of_nat d) data ?g
         = Inr (int (length (chunk src d)), ?k = length (sg_dataSize ?g) - 1, g')"
      and r': "received g' ?s (insert ?k ?L)" and st': "sg_startDataNumber g' = sg_startDataNumber ?g"
      unfolding dn c by blast
    have pos: "0 < length (chunk src d)"
      using push_chunk(1) [OF received_pushable [OF r kl]] unfolding c .
    have "(\<Sum>x \<in> insert d S. length (chunk src x)) = (\<Sum>x \<in> S. length (chunk src x)) + length (chunk src d)"
      using new fin by simp
    then have sum: "of_nat (\<Sum>x \<in> insert d S. length (chunk src x))
        = b_receivedBytes b + of_nat (length (chunk src d))"
      using h by (simp add: holds_def)
    have "?k = length (sg_dataSize ?g) - 1 \<longleftrightarrow> ?k + 1 = num_chunks (length ?s)"
      using kl received_length [OF r] by auto
    then show ?thesis
      using h True d new r' st' st loc pos sum unfolding wr push
      by (auto simp: holds_def nth_list_update simp del: of_nat_sum)
  qed
qed

section \<open>Segments of a receiving block\<close>

text \<open>The next segment of a block that is being requested, empty.\<close>

lemma holds_add_segment:
  assumes C: "conf_ok C m" and h: "holds m b src S" and j: "j = length (b_segmentList b)"
    and more: "j * m * 1024 < length src" and len: "length src < 2 ^ 32"
  defines "sz \<equiv> of_nat (length (seg_bytes m src j)) :: u32"
  shows "holds m (PushSegment (CreateSegment C blk idx (of_nat (j * m))
           (of_nat (j * m) + ceil_div sz PAYLOAD - 1) sz seed lastSeg) b) src S"
proof -
  have m: "0 < m" using C by (simp add: conf_ok_def)
  note args = seg_args_of_file [OF m more len]
  note r = received_CreateSegment(1) [OF args(1) args(2) [symmetric], of C blk idx seed lastSeg]
  have "b_receivedBytes b = of_nat (\<Sum>d \<in> S. length (chunk src d))" using h by (simp add: holds_def)
  then have "(PushSegment g b)\<lparr>b_receivedBytes := of_nat (\<Sum>d \<in> S. length (chunk src d))\<rparr>
               = PushSegment g b" for g by (simp add: PushSegment_def)
  moreover have "holds m ((PushSegment (CreateSegment C blk idx (of_nat (j * m))
           (of_nat (j * m) + ceil_div sz PAYLOAD - 1) sz seed lastSeg) b)
             \<lparr>b_receivedBytes := of_nat (\<Sum>d \<in> S. length (chunk src d))\<rparr>) src S"
    unfolding sz_def by (rule holds_push [OF h m j more r]) simp_all
  ultimately show ?thesis by simp
qed

text \<open>Packets as they reach \<open>WriteBlockData\<close>: the session, the data number and the payload.\<close>

definition write_packets :: "Config \<Rightarrow> (u32 \<times> nat \<times> bytes) list \<Rightarrow> Block \<Rightarrow> Block go" where
  "write_packets C =
     go_fold (\<lambda>(i, d, data) b. go_bind (WriteBlockData C i (of_nat d) data b) (\<lambda>(_, b'). Inr b'))"

lemma write_packets_ok:
  assumes "conf_ok C m" and "holds m b src S"
    and "\<And>i d data. (i, d, data) \<in> set ps \<Longrightarrow>
           d < num_chunks (length src) \<and> packet_for src d data \<and> d div m < length (b_segmentList b)"
  shows "\<exists>b'. write_packets C ps b = Inr b' \<and> holds m b' src (S \<union> (fst \<circ> snd) ` set ps)"
  using assms
proof (induction ps arbitrary: b S)
  case Nil
  then show ?case by (simp add: write_packets_def)
next
  case (Cons p ps)
  obtain i d data where p: "p = (i, d, data)" by (cases p)
  have d: "d < num_chunks (length src)" "packet_for src d data" "d div m < length (b_segmentList b)"
    using Cons.prems(3) p by auto
  obtain eos b1 where w: "WriteBlockData C i (of_nat d) data b = Inr (eos, b1)"
    and h: "holds m b1 src (insert d S)" and l: "length (b_segmentList b1) = length (b_segmentList b)"
    using WriteBlockData_ok [OF Cons.prems(1,2) d(1,2), of i] d(3) by auto
  have "\<exists>b'. write_packets C ps b1 = Inr b' \<and> holds m b' src (insert d S \<union> (fst \<circ> snd) ` set ps)"
  proof (rule Cons.IH [OF Cons.prems(1) h])
    show "d < num_chunks (length src) \<and> packet_for src d data \<and> d div m < length (b_segmentList b1)"
      if "(i, d, data) \<in> set ps" for i d data using that Cons.prems(3) l by auto
  qed
  then obtain b' where
    "write_packets C ps b1 = Inr b'" "holds m b' src (insert d S \<union> (fst \<circ> snd) ` set ps)" by blast
  then show ?case using w by (auto simp: write_packets_def p)
qed

lemma conf_tiny: "conf_ok tiny_config 2"
  by (simp add: conf_ok_def tiny_config_def)

section \<open>Properties of blocks\<close>

text \<open>
  C2: Filling a block from a file of less than 4 GiB succeeds, and creates one segment per
  \<open>SEGMENT_SIZE\<close> bytes; afterwards reading by data number never waits and returns, for every data
  number, exactly that kilobyte of the file, the last one shorter.
\<close>

theorem block_fill_read:
  assumes "conf_ok C m" and "length src < 2 ^ 32"
  shows "\<exists>b. FillBlockFromFile C src (CreateBlockBuffer n 0) = Inr b \<and>
           length (b_segmentList b) = (length src + (m * 1024 - 1)) div (m * 1024) \<and>
           (\<forall>d < num_chunks (length src). \<forall>buf. length buf = 1024 \<longrightarrow>
              (\<exists>eos. ReadBlockDataByDataNumber C (of_nat d) buf b
                 = Some (Inr (int (length (chunk src d)), eos,
                         chunk src d @ drop (length (chunk src d)) buf))))"
proof -
  obtain b where b: "FillBlockFromFile C src (CreateBlockBuffer n 0) = Inr b"
    and h: "holds m b src {..<num_chunks (length src)}"
    and l: "length (b_segmentList b) = (length src + (m * 1024 - 1)) div (m * 1024)"
    using FillBlockFromFile_ok [OF assms, of n] by (auto simp: holds_file_def)
  show ?thesis
    using b l ReadBlockDataByDataNumber_ok [OF assms(1) h] by (intro exI [of _ b]) auto
qed

theorem block_fill_read_witness:
  "\<exists>b. FillBlockFromFile tiny_config (replicate 5000 7) (CreateBlockBuffer 1 0) = Inr b \<and>
     length (b_segmentList b) = (length (replicate 5000 (7 :: byte)) + (2 * 1024 - 1)) div (2 * 1024) \<and>
     (\<forall>d < num_chunks (length (replicate 5000 (7 :: byte))). \<forall>buf. length buf = 1024 \<longrightarrow>
        (\<exists>eos. ReadBlockDataByDataNumber tiny_config (of_nat d) buf b
           = Some (Inr (int (length (chunk (replicate 5000 7) d)), eos,
               chunk (replicate 5000 7) d @ drop (length (chunk (replicate 5000 7) d)) buf))))"
  by (rule block_fill_read [OF conf_tiny]) simp

text \<open>
  A block counts the bytes it received, not which ones: when the second datum of a segment
  arrives before the first, \<open>ReadBlockData\<close> does not wait for the first but hands the application
  the zeros the buffer was created with, and counts them as read.
\<close>

theorem block_read_ignores_gaps:
  assumes "conf_ok C m" and "1 < m" and "length src = 2048" and "packet_for src 1 data" and "length buf = 1024"
  defines "b0 \<equiv> PushSegment (CreateSegment C 1 0 0 1 2048 0 True) (CreateBlockBuffer 1 2048)"
  shows "\<exists>eos b b'. WriteBlockData C 5 1 data b0 = Inr (eos, b) \<and>
           ReadBlockData buf b = Some (Inr (1024, False, replicate 1024 0, b')) \<and> b_readBytes b' = 1024"
proof -
  have seg0: "SEGMENT_SIZE C \<noteq> 0" and unit: "unat (1 * PAYLOAD div SEGMENT_SIZE C) = 0"
    using assms(1,2) by (auto simp: conf_ok_def unat_div PAYLOAD_def)
  have args: "seg_args 0 1 2048 2" by (simp add: seg_args_def)
  let ?g = "CreateSegment C 1 0 0 1 2048 0 True"
  have "length src = unat (2048 :: u32)" using assms(3) by simp
  note r = received_CreateSegment [OF args this, of C 1 0 0 True]
  have c1: "length (chunk src 1) = 1024" using assms(3) by (simp add: length_chunk)
  obtain g where push: "PushData 5 (0 + of_nat 1) data ?g = Inr (int (length (chunk src 1)), True, g)"
    and buf: "sg_buffer g = take (1 * 1024) (sg_buffer ?g) @ chunk src 1
                @ drop (1 * 1024 + length (chunk src 1)) (sg_buffer ?g)"
    and st: "sg_startDataNumber g = 0" and sz: "sg_segmentSize g = 2048"
    using PushData_fresh [OF r(1) _ _ assms(4), of 5] r(2) by (auto simp del: CreateSegment_sel(6,7))
  let ?b = "(CreateBlockBuffer 1 2048)\<lparr>b_segmentList := [g], b_receivedBytes := 1024\<rparr>"
  have "WriteBlockData C 5 1 data b0 = Inr (True, ?b)"
    using push c1 unit
    by (simp add: WriteBlockData_def Let_def b0_def GetLength_def PushSegment_def CreateBlockBuffer_def)
  moreover have "PopData buf 0 1024 g = Inr (1024, False, replicate 1024 0)"
    using assms(5) by (simp add: PopData_def Let_def st sz buf c1)
  then have "\<exists>b'. ReadBlockData buf ?b = Some (Inr (1024, False, replicate 1024 0, b')) \<and> b_readBytes b' = 1024"
    using assms(5) by (simp add: ReadBlockData_def Let_def CreateBlockBuffer_def)
  ultimately show ?thesis by blast
qed

theorem block_read_ignores_gaps_witness:
  "\<exists>eos b b'. WriteBlockData tiny_config 5 1 (replicate 1024 7)
       (PushSegment (CreateSegment tiny_config 1 0 0 1 2048 0 True) (CreateBlockBuffer 1 2048)) = Inr (eos, b) \<and>
     ReadBlockData (replicate 1024 9) b = Some (Inr (1024, False, replicate 1024 0, b')) \<and>
     b_readBytes b' = 1024"
  by (rule block_read_ignores_gaps [OF conf_tiny, where src = "replicate 2048 7"])
    (simp_all add: packet_for_zeros)

end
