(* ===== verification/Framing.thy ===== *)
theory Framing
  imports Packets_Var Segment
begin

text \<open>
  The wire side of \<open>puctrl_session.go\<close>: the receive loop of \<open>handler\<close>, which cuts the stream into
  frames, \<open>parsePacket\<close>, which turns a frame into the packet its handler is called with, and what each
  send method writes to the stream. A stream is the list of bytes it still delivers before it
  ends; a packet handed over is an \<open>incoming\<close> value, and the handlers themselves are in
  \<open>Puctrl\<close>. A nil packet, which the two audit cases hand over after a parse error, is \<open>None\<close>.
\<close>

section \<open>parsePacket\<close>

datatype incoming =
  InBlockFind BlockFindPacket
| InBlockInfo BlockInfoPacket
| InBlockRequest BlockRequestPacket
| InBlockData BlockDataPacket
| InNodeInfo NodeInfoPacket
| InPathInfo PathInfoPacket
| InPathInfoAck PathInfoPacket
| InFin FinPacket
| InFinAck FinAckPacket
| InAudit "AuditDataPacket option"
| InAuditAck "AuditDataAckPacket option"

text \<open>\<open>if err != nil { panic(err) }\<close> around the result of a parser.\<close>

definition must :: "('p \<Rightarrow> incoming) \<Rightarrow> ('p \<times> bytes) option \<Rightarrow> incoming go" where
  "must f r = (case r of None \<Rightarrow> Inl (Explicit ''EOF'') | Some (p, _) \<Rightarrow> Inr (f p))"

definition parsePacket :: "byte \<Rightarrow> bytes \<Rightarrow> incoming go" where
  "parsePacket pktType data =
     (if length data < 5 then Inl Bounds
      else
        let r = drop 5 data
        in if pktType = BLOCK_FIND_PACKET then must InBlockFind (ParseBlockFindPacket r)
           else if pktType = BLOCK_INFO_PACKET then must InBlockInfo (ParseBlockInfoPacket r)
           else if pktType = BLOCK_REQUEST_PACKET then must InBlockRequest (ParseBlockRequestPacket r)
           else if pktType = BLOCK_DATA_PACKET then must InBlockData (ParseBlockDataPacket r)
           else if pktType = NODE_INFO_PACKET then must InNodeInfo (ParseNodeInfoPacket r)
           else if pktType = PATH_INFO_PACKET then must InPathInfo (ParsePathInfoPacket r)
           else if pktType = PATH_INFO_ACK_PACKET then must InPathInfoAck (ParsePathInfoPacket r)
           else if pktType = FIN_PACKET then must InFin (ParseFinPacket r)
           else if pktType = FIN_ACK_PACKET then must InFinAck (ParseFinAckPacket r)
           else if pktType = AUDIT_MSG_PACKET
             then Inr (InAudit (map_option fst (ParseAuditDataPacket r)))
           else if pktType = AUDIT_MSG_ACK_PACKET
             then Inr (InAuditAck (map_option fst (ParseAuditDataAckPacket r)))
           else Inl (Explicit ''Unknown packet type''))"

section \<open>handler\<close>

text \<open>How the loop ends: the stream ends (also inside a frame), a body length that is zero or above
  the packet size, or a panic of \<open>parsePacket\<close>.\<close>

datatype loop_end = StreamEnd | Desync | Panicked panic

text \<open>One frame: the header of five bytes, its length field, the body.\<close>

datatype frame = NoFrame | BadLength | Frame byte bytes bytes

definition read_frame :: "bytes \<Rightarrow> frame" where
  "read_frame stream =
     (case ReadFull 5 stream of
        None \<Rightarrow> NoFrame
      | Some (header, rest) \<Rightarrow>
          let bodyLen = unat (Uint32LE (header ! 1) (header ! 2) (header ! 3) (header ! 4))
          in if bodyLen \<le> 0 \<or> PACKET_SIZE < bodyLen then BadLength
             else case ReadFull bodyLen rest of
                    None \<Rightarrow> NoFrame
                  | Some (body, rest) \<Rightarrow> Frame (header ! 0) (header @ body) rest)"

lemma read_frame_shorter: "read_frame s = Frame t p rest \<Longrightarrow> length rest < length s"
  by (auto simp: read_frame_def ReadFull_def Let_def split: option.splits if_splits)

function handler :: "bytes \<Rightarrow> incoming list \<times> loop_end" where
  "handler stream =
     (case read_frame stream of
        NoFrame \<Rightarrow> ([], StreamEnd)
      | BadLength \<Rightarrow> ([], Desync)
      | Frame pktType pkt rest \<Rightarrow>
          (case parsePacket pktType pkt of
             Inl e \<Rightarrow> ([], Panicked e)
           | Inr p \<Rightarrow> (let (ps, e) = handler rest in (p # ps, e))))"
  by pat_completeness auto
termination
  by (relation "measure length") (auto simp: read_frame_shorter)

declare handler.simps [simp del]

section \<open>What the send methods write\<close>

text \<open>\<open>sendPacket\<close> writes its bytes as they are; only the audit packets put a frame header first.\<close>

definition sendPacket :: "bytes \<Rightarrow> bytes \<Rightarrow> bytes" where
  "sendPacket buf stream = stream @ buf"

definition sendNodeInfoPacket :: "byte \<Rightarrow> NodeInfo list \<Rightarrow> bytes \<Rightarrow> bytes" where
  "sendNodeInfoPacket sessionType nodeInfos =
     sendPacket (NodeInfoPacket_Write (CreateNodeInfoPacket (ucast sessionType) nodeInfos) [])"

definition sendPathInfoPacket ::
    "(string \<Rightarrow> ip option) \<Rightarrow> byte \<Rightarrow> string list \<Rightarrow> bytes \<Rightarrow> bytes go" where
  "sendPathInfoPacket v6 sessionType ipAddrs stream =
     go_bind (CreatePathInfoPacket v6 (ucast sessionType) ipAddrs) (\<lambda>pkt.
       go_bind (PathInfoPacket_Write pkt []) (\<lambda>b. Inr (sendPacket b stream)))"

definition sendPathInfoAckPacket ::
    "(string \<Rightarrow> ip option) \<Rightarrow> byte \<Rightarrow> string list \<Rightarrow> bytes \<Rightarrow> bytes go" where
  "sendPathInfoAckPacket v6 sessionType ipAddrs stream =
     go_bind (CreatePathInfoAckPacket v6 (ucast sessionType) ipAddrs) (\<lambda>pkt.
       go_bind (PathInfoPacket_Write pkt []) (\<lambda>b. Inr (sendPacket b stream)))"

definition sendBlockFindPacket :: "u32 \<Rightarrow> bytes \<Rightarrow> bytes" where
  "sendBlockFindPacket blockNumber =
     sendPacket (BlockFindPacket_Write (CreateBlockFindPacket blockNumber) [])"

definition SendBlockInfoPacket :: "u32 \<Rightarrow> u32 \<Rightarrow> u32 \<Rightarrow> bytes \<Rightarrow> bytes" where
  "SendBlockInfoPacket blockNumber blockSize status =
     sendPacket (BlockInfoPacket_Write (CreateBlockInfoPacket blockNumber status blockSize) [])"

definition SendBlockRequestPacket :: "u32 \<Rightarrow> u32 \<Rightarrow> u32 \<Rightarrow> byte \<Rightarrow> u32 \<Rightarrow> bytes \<Rightarrow> bytes" where
  "SendBlockRequestPacket blockNumber startDataNumber endDataNumber mpInfo fecSeedNumber =
     sendPacket (BlockRequestPacket_Write
       (CreateBlockRequestPacket blockNumber startDataNumber endDataNumber mpInfo fecSeedNumber) [])"

definition sendBlockDataPacket :: "u32 \<Rightarrow> u32 \<Rightarrow> u32 \<Rightarrow> byte \<Rightarrow> bytes \<Rightarrow> bytes \<Rightarrow> bytes go" where
  "sendBlockDataPacket sessionID blockNumber dataNumber dataType data stream =
     go_bind (CreateBlockDataPacket blockNumber dataNumber sessionID dataType data) (\<lambda>pkt.
       Inr (sendPacket (BlockDataPacket_Write pkt []) stream))"

definition sendFinPacket :: "u32 \<Rightarrow> u32 \<Rightarrow> bytes \<Rightarrow> bytes" where
  "sendFinPacket sessionID blockNumber =
     sendPacket (FinPacket_Write (CreateFinPacket sessionID blockNumber) [])"

definition sendFinAckPacket :: "u32 \<Rightarrow> u32 \<Rightarrow> bytes \<Rightarrow> bytes" where
  "sendFinAckPacket sessionID blockNumber =
     sendPacket (FinAckPacket_Write (CreateFinAckPacket sessionID blockNumber) [])"

definition sendAuditDataPacket :: "u32 \<Rightarrow> bytes \<Rightarrow> bytes \<Rightarrow> bytes" where
  "sendAuditDataPacket sessionID data stream =
     (let pkt = CreateAuditDataPacket sessionID data;
          body = AuditDataPacket_Write pkt []
      in AuditDataPacket_WriteFrame pkt stream body)"

definition sendAuditDataAckPacket :: "u32 \<Rightarrow> bytes \<Rightarrow> bytes \<Rightarrow> bytes" where
  "sendAuditDataAckPacket sessionID data stream =
     (let pkt = CreateAuditDataAckPacket sessionID data;
          body = AuditDataAckPacket_Write pkt []
      in AuditDataAckPacket_WriteFrame pkt stream body)"

section \<open>The session preamble\<close>

text \<open>\<open>Connector\<close> sends the session type and ID in five bytes, which \<open>Listener\<close> reads back.\<close>

definition session_info :: "byte \<Rightarrow> u32 \<Rightarrow> bytes" where
  "session_info sessionType sessionID = sessionType # PutUint32LE sessionID"

definition read_session_info :: "bytes \<Rightarrow> byte \<times> u32" where
  "read_session_info stream =
     (let buf = fst (ReadInto 5 stream)
      in (buf ! 0, Uint32LE (buf ! 1) (buf ! 2) (buf ! 3) (buf ! 4)))"

section \<open>Frames\<close>

lemma ReadFull_append: "length b = n \<Longrightarrow> 0 < n \<Longrightarrow> ReadFull n (b @ r) = Some (b, r)"
  by (auto simp: ReadFull_def)

lemma PutUint32LE_nth:
  "Uint32LE (PutUint32LE i ! 0) (PutUint32LE i ! Suc 0) (PutUint32LE i ! 2) (PutUint32LE i ! 3) = i"
  using Uint32LE_PutUint32LE by (simp add: PutUint32LE_def)

lemma read_frame_frame:
  assumes "0 < length body" and "length body \<le> PACKET_SIZE"
  shows "read_frame (((t # PutUint32LE (of_nat (length body))) @ body) @ rest)
           = Frame t ((t # PutUint32LE (of_nat (length body))) @ body) rest"
proof -
  let ?h = "t # PutUint32LE (of_nat (length body))"
  have "length ?h = 5" by (simp add: PutUint32LE_def)
  then have "ReadFull 5 (?h @ body @ rest) = Some (?h, body @ rest)" by (intro ReadFull_append) simp_all
  moreover have "unat (of_nat (length body) :: u32) = length body"
    using assms by (intro unat_of_nat_lt) (simp add: PACKET_SIZE_def)
  moreover have "ReadFull (length body) (body @ rest) = Some (body, rest)"
    using assms by (intro ReadFull_append) simp_all
  ultimately show ?thesis
    using assms PutUint32LE_nth [of "of_nat (length body)"]
    by (simp add: read_frame_def numeral_eq_Suc [of "num.Bit0 num.One"] eval_nat_numeral)
qed

end
