(* ===== verification/Framing_Props.thy ===== *)
theory Framing_Props
  imports Framing
begin

text \<open>
  Properties of the wire: \<open>parsePacket\<close> undoes every \<open>Write\<close>, a stream of framed audit messages is
  received message by message, and a packet that \<open>sendPacket\<close> writes without a frame header is
  taken for the header of a frame that never ends.
\<close>

section \<open>Parsing what was written\<close>

lemma parsePacket_body: "length h = 5 \<Longrightarrow> parsePacket t (h @ b) = parsePacket t (replicate 5 0 @ b)"
  by (simp add: parsePacket_def)

lemma must_Some [simp]: "must f (Some (p, r)) = Inr (f p)"
  by (simp add: must_def)

lemma pinfo_written:
  assumes "PathInfoPacket_Write p [] = Inr b" and "pinfo_ok p"
  shows "ParsePathInfoPacket b = Some (p, [])"
  using pinfo.dec_enc_exact [OF assms(2)] assms(1) by simp

lemma CreatePathInfoPacket_ok:
  assumes "CreatePathInfoPacket v6 t ips = Inr p" and "length ips < 256"
  shows "pinfo_ok p" and "pinfo_Type p = PATH_INFO_PACKET"
  using assms go_map_length [of "Ip2int v6" ips]
  by (auto simp: CreatePathInfoPacket_def pinfo_ok_def unat_of_nat_lt)

lemma CreateBlockDataPacket_ok:
  assumes "length data \<le> 1024"
  shows "\<exists>p. CreateBlockDataPacket blk d s ty data = Inr p \<and> bdata_ok p \<and> bdata_Type p = BLOCK_DATA_PACKET \<and>
           bdata_BlockNumber p = blk \<and> bdata_DataNumber p = d \<and> bdata_SessionID p = s \<and>
           bdata_DataType p = ty \<and> bdata_Data p = data"
proof -
  have u: "unat (of_nat (length data) :: u16) = length data" using assms by (intro unat_of_nat_lt) simp
  then have "unat (16 + of_nat (length data) :: u16) = 16 + length data"
    using assms by (simp add: unat_word_ariths)
  then show ?thesis
    using assms u
    by (simp add: CreateBlockDataPacket_def Let_def BLOCK_DATA_PACKET_HEADER_LEN_def PAYLOAD_SIZE_def
        word_less_nat_alt bdata_ok_def)
qed

text \<open>
  C35: The bytes that the controller's writer makes of a packet are parsed back to that packet, as one of its type,
  from behind the five bytes of header that the receive loop has taken: for block find, info, request, block data
  of at most 1024 bytes, node info of at most 8191 nodes, path info of fewer than 256 addresses, FIN, FIN ACK, and
  the audit message and its ACK below 2^32 bytes. Whether that header is sent before the packet is another matter
  (see the unframed packets below).
\<close>

theorem parsePacket_roundtrip:
  assumes h: "length h = 5"
  shows "parsePacket BLOCK_FIND_PACKET (h @ BlockFindPacket_Write (CreateBlockFindPacket n) [])
           = Inr (InBlockFind (CreateBlockFindPacket n))
    \<and> parsePacket BLOCK_INFO_PACKET (h @ BlockInfoPacket_Write (CreateBlockInfoPacket n st sz) [])
           = Inr (InBlockInfo (CreateBlockInfoPacket n st sz))
    \<and> parsePacket BLOCK_REQUEST_PACKET (h @ BlockRequestPacket_Write (CreateBlockRequestPacket n s e mp seed) [])
           = Inr (InBlockRequest (CreateBlockRequestPacket n s e mp seed))
    \<and> (length data \<le> 1024 \<longrightarrow> (\<exists>p. CreateBlockDataPacket n s sid ty data = Inr p \<and> bdata_Data p = data \<and>
         parsePacket BLOCK_DATA_PACKET (h @ BlockDataPacket_Write p []) = Inr (InBlockData p)))
    \<and> (length ns \<le> 8191 \<longrightarrow>
         parsePacket NODE_INFO_PACKET (h @ NodeInfoPacket_Write (CreateNodeInfoPacket t ns) [])
           = Inr (InNodeInfo (CreateNodeInfoPacket t ns)))
    \<and> (length ips < 256 \<and> CreatePathInfoPacket v6 t ips = Inr pi \<longrightarrow>
         (\<exists>b. PathInfoPacket_Write pi [] = Inr b \<and> parsePacket PATH_INFO_PACKET (h @ b) = Inr (InPathInfo pi)))
    \<and> parsePacket FIN_PACKET (h @ FinPacket_Write (CreateFinPacket sid n) []) = Inr (InFin (CreateFinPacket sid n))
    \<and> parsePacket FIN_ACK_PACKET (h @ FinAckPacket_Write (CreateFinAckPacket sid n) [])
           = Inr (InFinAck (CreateFinAckPacket sid n))
    \<and> (length msg < 2 ^ 32 \<longrightarrow>
         parsePacket AUDIT_MSG_PACKET (h @ AuditDataPacket_Write (CreateAuditDataPacket sid msg) [])
           = Inr (InAudit (Some (CreateAuditDataPacket sid msg))) \<and>
         parsePacket AUDIT_MSG_ACK_PACKET (h @ AuditDataAckPacket_Write (CreateAuditDataAckPacket sid msg) [])
           = Inr (InAuditAck (Some (CreateAuditDataAckPacket sid msg))))"
proof (intro conjI impI)
  have len: "unat (of_nat (length msg) :: u32) = length msg" if "length msg < 2 ^ 32"
    using that by (intro unat_of_nat_lt) simp
  have ok: "aud_ok (CreateAuditDataPacket sid msg)" "audack_ok (CreateAuditDataAckPacket sid msg)" if "length msg < 2 ^ 32"
    using len [OF that] by (simp_all add: aud_ok_def audack_ok_def CreateAuditDataPacket_def CreateAuditDataAckPacket_def)
  show "parsePacket AUDIT_MSG_PACKET (h @ AuditDataPacket_Write (CreateAuditDataPacket sid msg) [])
      = Inr (InAudit (Some (CreateAuditDataPacket sid msg)))" if "length msg < 2 ^ 32"
    using aud.dec_enc_exact [OF ok(1) [OF that]] h by (simp add: parsePacket_def packet_type_defs)
  show "parsePacket AUDIT_MSG_ACK_PACKET (h @ AuditDataAckPacket_Write (CreateAuditDataAckPacket sid msg) [])
      = Inr (InAuditAck (Some (CreateAuditDataAckPacket sid msg)))" if "length msg < 2 ^ 32"
    using audack.dec_enc_exact [OF ok(2) [OF that]] h by (simp add: parsePacket_def packet_type_defs)
  show "\<exists>p. CreateBlockDataPacket n s sid ty data = Inr p \<and> bdata_Data p = data \<and>
         parsePacket BLOCK_DATA_PACKET (h @ BlockDataPacket_Write p []) = Inr (InBlockData p)"
    if "length data \<le> 1024"
    using CreateBlockDataPacket_ok [OF that, of n s sid ty] h bdata.dec_enc_exact
    by (auto simp: parsePacket_def packet_type_defs)
  show "parsePacket NODE_INFO_PACKET (h @ NodeInfoPacket_Write (CreateNodeInfoPacket t ns) [])
      = Inr (InNodeInfo (CreateNodeInfoPacket t ns))" if "length ns \<le> 8191"
    using ninfo.dec_enc_exact [OF CreateNodeInfoPacket_ok [OF that]] h
    by (simp add: parsePacket_def packet_type_defs)
  show "\<exists>b. PathInfoPacket_Write pi [] = Inr b \<and> parsePacket PATH_INFO_PACKET (h @ b) = Inr (InPathInfo pi)"
    if c: "length ips < 256 \<and> CreatePathInfoPacket v6 t ips = Inr pi"
  proof -
    have ok: "pinfo_ok pi" using CreatePathInfoPacket_ok c by blast
    obtain b where b: "PathInfoPacket_Write pi [] = Inr b" using PathInfoPacket_Write_ok [OF ok] by blast
    then show ?thesis using pinfo_written [OF b ok] h by (simp add: parsePacket_def packet_type_defs)
  qed
qed (use h bfind.dec_enc_exact binfo.dec_enc_exact breq.dec_enc_exact fin.dec_enc_exact
      finack.dec_enc_exact in \<open>simp_all add: parsePacket_def packet_type_defs\<close>)

theorem parsePacket_roundtrip_witness:
  "parsePacket BLOCK_FIND_PACKET (replicate 5 0 @ BlockFindPacket_Write (CreateBlockFindPacket 7) [])
     = Inr (InBlockFind (CreateBlockFindPacket 7))
   \<and> (\<exists>p. CreateBlockDataPacket 7 3 5 0 [1, 2] = Inr p \<and> bdata_Data p = [1, 2] \<and>
        parsePacket BLOCK_DATA_PACKET (replicate 5 0 @ BlockDataPacket_Write p []) = Inr (InBlockData p))
   \<and> parsePacket AUDIT_MSG_PACKET (replicate 5 0 @ AuditDataPacket_Write (CreateAuditDataPacket 5 [1, 2]) [])
        = Inr (InAudit (Some (CreateAuditDataPacket 5 [1, 2])))"
  using parsePacket_roundtrip [of "replicate 5 0" 7 0 0 3 0 0 0 "[1, 2]" 5 0 "[]" 0 "[]" "\<lambda>_. None"
      "\<lparr>pinfo_Type = 0, pinfo_Length = 0, pinfo_SessionType = 0, pinfo_NumPath = 0, pinfo_IP = []\<rparr>" "[1, 2]"]
  by simp

section \<open>A stream of audit messages\<close>

datatype audit = Msg bytes | Ack bytes

fun audit_payload :: "audit \<Rightarrow> bytes" where
  "audit_payload (Msg d) = d"
| "audit_payload (Ack d) = d"

fun send_audit :: "u32 \<Rightarrow> audit \<Rightarrow> bytes \<Rightarrow> bytes" where
  "send_audit sid (Msg d) stream = sendAuditDataPacket sid d stream"
| "send_audit sid (Ack d) stream = sendAuditDataAckPacket sid d stream"

fun audit_in :: "u32 \<Rightarrow> audit \<Rightarrow> incoming" where
  "audit_in sid (Msg d) = InAudit (Some (CreateAuditDataPacket sid d))"
| "audit_in sid (Ack d) = InAuditAck (Some (CreateAuditDataAckPacket sid d))"

lemma send_audit_append: "send_audit sid m stream = stream @ send_audit sid m []"
  by (cases m) (simp_all add: sendAuditDataPacket_def sendAuditDataAckPacket_def Let_def
      AuditDataPacket_WriteFrame_def AuditDataAckPacket_WriteFrame_def)

lemma fold_send_audit: "fold (send_audit sid) ms w = w @ fold (send_audit sid) ms []"
proof (induction ms arbitrary: w)
  case (Cons m ms)
  show ?case
    using Cons [of "send_audit sid m w"] Cons [of "send_audit sid m []"] send_audit_append [of sid m w] by simp
qed simp

lemma audit_len: "length d + 9 \<le> PACKET_SIZE \<Longrightarrow> unat (of_nat (length d) :: u32) = length d"
  by (intro unat_of_nat_lt) (simp add: PACKET_SIZE_def)

lemma handler_audit:
  assumes "length (audit_payload m) + 9 \<le> PACKET_SIZE"
  shows "handler (send_audit sid m [] @ rest)
           = (let (ps, e) = handler rest in (audit_in sid m # ps, e))"
proof (cases m)
  case (Msg d)
  let ?p = "CreateAuditDataPacket sid d"
  let ?b = "AuditDataPacket_Write ?p []"
  have ok: "aud_ok ?p" using audit_len [of d] assms Msg by (simp add: aud_ok_def CreateAuditDataPacket_def)
  have l: "length ?b = length d + 9"
    by (simp add: AuditDataPacket_Write_def WriteByte_def CreateAuditDataPacket_def codec)
  have "send_audit sid m [] = (AUDIT_MSG_PACKET # PutUint32LE (of_nat (length ?b))) @ ?b"
    by (simp add: Msg sendAuditDataPacket_def Let_def AuditDataPacket_WriteFrame_def CreateAuditDataPacket_def)
  then have f: "read_frame (send_audit sid m [] @ rest) = Frame AUDIT_MSG_PACKET
      ((AUDIT_MSG_PACKET # PutUint32LE (of_nat (length ?b))) @ ?b) rest"
    using read_frame_frame [of ?b AUDIT_MSG_PACKET rest] assms Msg l by simp
  have "parsePacket AUDIT_MSG_PACKET ((AUDIT_MSG_PACKET # PutUint32LE (of_nat (length ?b))) @ ?b)
          = Inr (audit_in sid m)"
    using aud.dec_enc_exact [OF ok] by (simp add: parsePacket_def packet_type_defs Msg)
  then show ?thesis by (subst handler.simps) (simp add: f)
next
  case (Ack d)
  let ?p = "CreateAuditDataAckPacket sid d"
  let ?b = "AuditDataAckPacket_Write ?p []"
  have ok: "audack_ok ?p" using audit_len [of d] assms Ack by (simp add: audack_ok_def CreateAuditDataAckPacket_def)
  have l: "length ?b = length d + 9"
    by (simp add: AuditDataAckPacket_Write_def WriteByte_def CreateAuditDataAckPacket_def codec)
  have "send_audit sid m [] = (AUDIT_MSG_ACK_PACKET # PutUint32LE (of_nat (length ?b))) @ ?b"
    by (simp add: Ack sendAuditDataAckPacket_def Let_def AuditDataAckPacket_WriteFrame_def CreateAuditDataAckPacket_def)
  then have f: "read_frame (send_audit sid m [] @ rest) = Frame AUDIT_MSG_ACK_PACKET
      ((AUDIT_MSG_ACK_PACKET # PutUint32LE (of_nat (length ?b))) @ ?b) rest"
    using read_frame_frame [of ?b AUDIT_MSG_ACK_PACKET rest] assms Ack l by simp
  have "parsePacket AUDIT_MSG_ACK_PACKET ((AUDIT_MSG_ACK_PACKET # PutUint32LE (of_nat (length ?b))) @ ?b)
          = Inr (audit_in sid m)"
    using audack.dec_enc_exact [OF ok] by (simp add: parsePacket_def packet_type_defs Ack)
  then show ?thesis by (subst handler.simps) (simp add: f)
qed

lemma read_frame_short: "length s < 5 \<Longrightarrow> read_frame s = NoFrame"
  by (simp add: read_frame_def ReadFull_def)

text \<open>
  Whatever audit messages and acknowledgements a peer sends over a session, the receive loop
  hands over exactly these, in their order and with their payloads, also when the last frame is
  followed by a few bytes of another header; it ends with the stream.
\<close>

theorem audit_stream_roundtrip:
  assumes "\<forall>m \<in> set ms. length (audit_payload m) + 9 \<le> PACKET_SIZE" and "length tail < 5"
  shows "handler (fold (send_audit sid) ms [] @ tail) = (map (audit_in sid) ms, StreamEnd)"
  using assms(1)
proof (induction ms)
  case Nil
  then show ?case using assms(2) by (subst handler.simps) (simp add: read_frame_short)
next
  case (Cons m ms)
  have "fold (send_audit sid) (m # ms) [] @ tail
      = send_audit sid m [] @ (fold (send_audit sid) ms [] @ tail)"
    using fold_send_audit [of sid ms "send_audit sid m []"] by simp
  then show ?case using Cons by (simp add: handler_audit)
qed

theorem audit_stream_roundtrip_witness:
  "handler (fold (send_audit 7) [Msg [1, 2, 3], Ack [], Msg [9]] [] @ [23])
     = (map (audit_in 7) [Msg [1, 2, 3], Ack [], Msg [9]], StreamEnd)"
  by (rule audit_stream_roundtrip) (simp_all add: PACKET_SIZE_def)

section \<open>Packets without a frame\<close>

lemma Uint32LE_ge: "256 * unat b1 \<le> unat (Uint32LE b0 b1 b2 b3)"
proof -
  let ?w = "Uint32LE b0 b1 b2 b3"
  have "take_bit 8 (drop_bit 8 ?w) = ucast b1"
    by (rule bit_word_eqI) (auto simp: Uint32LE_def bit_simps dest: bit_imp_le_length)
  moreover have "unat (ucast b1 :: u32) = unat b1"
  proof -
    have "unat b1 < 2 ^ LENGTH(8)" by (rule unsigned_less)
    then show ?thesis by (simp add: unsigned_ucast_eq take_bit_nat_eq_self)
  qed
  ultimately have "unat (take_bit 8 (drop_bit 8 ?w)) = unat b1" by simp
  then have "unat ?w div 256 mod 256 = unat b1"
    by (simp add: drop_bit_eq_div take_bit_eq_mod unat_div unat_mod)
  then show ?thesis
    by (metis div_times_less_eq_dividend dual_order.trans mod_less_eq_dividend mult.commute mult_le_mono2)
qed

text \<open>The first five bytes of a packet with a 16-bit length field, read as a frame header, announce
  at least 256 bytes for each unit of the low length byte.\<close>

lemma read_frame_unframed:
  assumes "length rest + 1 < 256 * unat b1"
  shows "read_frame (t # b0 # b1 # rest) \<in> {NoFrame, BadLength}"
proof (cases rest)
  case (Cons b2 rest')
  then show ?thesis
  proof (cases rest')
    case (Cons b3 rest'')
    then have "length rest'' < unat (Uint32LE b0 b1 b2 b3)"
      using assms \<open>rest = _\<close> Uint32LE_ge [of b1 b0 b2 b3] by simp
    moreover have "ReadFull 5 (t # b0 # b1 # rest) = Some ([t, b0, b1, b2, b3], rest'')"
      using Cons \<open>rest = _\<close> by (simp add: ReadFull_def numeral_eq_Suc)
    ultimately show ?thesis by (simp add: read_frame_def ReadFull_def Let_def numeral_eq_Suc)
  qed (simp add: read_frame_short)
qed (simp add: read_frame_short)

lemma be16_bytes: "be16 i = [ucast (drop_bit 8 i), ucast i]"
  by (simp add: be16_def WriteUint16_def)

lemma handler_unframed:
  assumes "length rest + 1 < 256 * unat (ucast len :: byte)"
  shows "fst (handler (t # be16 len @ rest)) = []"
  using read_frame_unframed [OF assms, of t "ucast (drop_bit 8 len)"]
  by (subst handler.simps) (auto simp: be16_bytes)

text \<open>
  C36: A packet sent with \<open>sendPacket\<close> has no frame header, and the receive loop takes its own first
  five bytes for one: a block find, block info or block request, FIN or FIN ACK packet is never
  handed over, and it swallows whatever follows it up to at least 1,700 further bytes.
\<close>

theorem unframed_packets_lost:
  assumes "length rest \<le> 1700"
  shows "fst (handler (sendBlockFindPacket n [] @ rest)) = []
    \<and> fst (handler (SendBlockInfoPacket n sz st [] @ rest)) = []
    \<and> fst (handler (SendBlockRequestPacket n s e mp seed [] @ rest)) = []
    \<and> fst (handler (sendFinPacket sid n [] @ rest)) = []
    \<and> fst (handler (sendFinAckPacket sid n [] @ rest)) = []"
proof (intro conjI)
  have h: "fst (handler (t # be16 len @ r)) = []"
    if "7 \<le> unat (ucast len :: byte)" "length r \<le> 1750" for t len r
    using that by (intro handler_unframed) simp
  show "fst (handler (sendBlockFindPacket n [] @ rest)) = []"
    using h [of 7 "be32 n @ rest"] assms
    by (simp add: sendBlockFindPacket_def sendPacket_def BlockFindPacket_Write_def CreateBlockFindPacket_def
        WriteByte_def codec BLOCK_FIND_PACKET_HEADER_LEN_def)
  show "fst (handler (SendBlockInfoPacket n sz st [] @ rest)) = []"
    using h [of 15 "be32 n @ be32 st @ be32 sz @ rest"] assms
    by (simp add: SendBlockInfoPacket_def sendPacket_def BlockInfoPacket_Write_def CreateBlockInfoPacket_def
        WriteByte_def codec BLOCK_INFO_PACKET_HEADER_LEN_def)
  show "fst (handler (SendBlockRequestPacket n s e mp seed [] @ rest)) = []"
    using h [of 20 "be32 n @ be32 s @ be32 e @ mp # be32 seed @ rest"] assms
    by (simp add: SendBlockRequestPacket_def sendPacket_def BlockRequestPacket_Write_def
        CreateBlockRequestPacket_def WriteByte_def codec BLOCK_REQUEST_PACKET_HEADER_LEN_def)
  show "fst (handler (sendFinPacket sid n [] @ rest)) = []"
    using h [of 11 "be32 sid @ be32 n @ rest"] assms
    by (simp add: sendFinPacket_def sendPacket_def FinPacket_Write_def CreateFinPacket_def
        WriteByte_def codec FIN_PACKET_HEADER_LEN_def)
  show "fst (handler (sendFinAckPacket sid n [] @ rest)) = []"
    using h [of 11 "be32 sid @ be32 n @ rest"] assms
    by (simp add: sendFinAckPacket_def sendPacket_def FinAckPacket_Write_def CreateFinAckPacket_def
        WriteByte_def codec FIN_ACK_PACKET_HEADER_LEN_def)
qed

theorem unframed_packets_lost_witness:
  "fst (handler (sendBlockFindPacket 7 [] @ replicate 1500 23)) = []
   \<and> fst (handler (SendBlockInfoPacket 7 2048 1 [] @ replicate 1500 23)) = []
   \<and> fst (handler (SendBlockRequestPacket 7 0 1 0 0 [] @ replicate 1500 23)) = []
   \<and> fst (handler (sendFinPacket 5 7 [] @ replicate 1500 23)) = []
   \<and> fst (handler (sendFinAckPacket 5 7 [] @ replicate 1500 23)) = []"
  by (rule unframed_packets_lost) simp

text \<open>
  The session type and ID that a connecting peer sends first are what the listener reads.
\<close>

theorem session_preamble_roundtrip:
  "read_session_info (session_info sessionType sessionID @ rest) = (sessionType, sessionID)"
proof -
  have "fst (ReadInto 5 (session_info sessionType sessionID @ rest)) = session_info sessionType sessionID"
    by (simp add: session_info_def ReadInto_def)
  then show ?thesis using PutUint32LE_nth [of sessionID]
    by (simp add: read_session_info_def Let_def session_info_def eval_nat_numeral)
qed

end
