(* ===== verification/Conflict_Graph.thy ===== *)
theory Conflict_Graph
  imports Go_Strings
begin

text \<open>
  The conflict graph of \<open>kafka/processor/processor.go\<close>: the read and write sets of a batch of
  transactions (\<open>TxMeta\<close>), the key numbering \<open>idxToInt\<close> and the matrix \<open>BuildRWSetGraph\<close> computes
  from them, with what the matrix says about conflicts in terms of the keys themselves.
\<close>

record TxMeta =
  tx_Index :: int
  tx_User :: string
  tx_Reads :: "string list"
  tx_Writes :: "string list"
  tx_Urgency :: bool

definition idxToInt :: "string \<Rightarrow> int" where
  "idxToInt s = (case Atoi (TrimPrefix s ''User'') of None \<Rightarrow> 0 | Some num \<Rightarrow> num)"

text \<open>A row of \<open>Readset\<close> or \<open>Writeset\<close>: \<open>make([]int, keyCount)\<close> with a 1 at each key's number.\<close>

definition mark_key :: "nat \<Rightarrow> string \<Rightarrow> int list \<Rightarrow> int list go" where
  "mark_key keyCount key row =
     (let idx = idxToInt key
      in if 0 \<le> idx \<and> nat idx < keyCount then Inr (row[nat idx := 1]) else Inl Bounds)"

definition mark_keys :: "nat \<Rightarrow> string list \<Rightarrow> int list go" where
  "mark_keys keyCount keys = go_fold (mark_key keyCount) keys (replicate keyCount 0)"

definition rw_rows :: "nat \<Rightarrow> TxMeta \<Rightarrow> (int list \<times> int list) go" where
  "rw_rows keyCount tx =
     go_bind (mark_keys keyCount (tx_Reads tx)) (\<lambda>r.
       go_bind (mark_keys keyCount (tx_Writes tx)) (\<lambda>w. Inr (r, w)))"

text \<open>The innermost loop: an entry is set when some key number is read and written, or written twice.\<close>

definition conflict_entry :: "nat \<Rightarrow> (int list \<times> int list) list \<Rightarrow> nat \<Rightarrow> nat \<Rightarrow> int" where
  "conflict_entry keyCount rows i j =
     (if i \<noteq> j \<and> list_ex (\<lambda>k. fst (rows ! i) ! k = 1 \<and> snd (rows ! j) ! k = 1 \<or>
                            snd (rows ! i) ! k = 1 \<and> snd (rows ! j) ! k = 1) [0..<keyCount]
      then 1 else 0)"

definition BuildRWSetGraph :: "TxMeta list \<Rightarrow> nat \<Rightarrow> int list list go" where
  "BuildRWSetGraph txList keyCount =
     go_bind (go_map (rw_rows keyCount) txList) (\<lambda>rows.
       Inr (map (\<lambda>i. map (conflict_entry keyCount rows i) [0..<length txList]) [0..<length txList]))"

section \<open>Conflicts by key\<close>

definition key_ok :: "nat \<Rightarrow> string \<Rightarrow> bool" where
  "key_ok n key \<longleftrightarrow> 0 \<le> idxToInt key \<and> nat (idxToInt key) < n"

definition keys_ok :: "nat \<Rightarrow> TxMeta \<Rightarrow> bool" where
  "keys_ok n tx \<longleftrightarrow> (\<forall>key \<in> set (tx_Reads tx) \<union> set (tx_Writes tx). key_ok n key)"

definition nums :: "string list \<Rightarrow> int set" where
  "nums keys = idxToInt ` set keys"

text \<open>\<open>t\<close> reads or writes a key number that \<open>u\<close> writes.\<close>

definition conflicts :: "TxMeta \<Rightarrow> TxMeta \<Rightarrow> bool" where
  "conflicts t u \<longleftrightarrow> (nums (tx_Reads t) \<union> nums (tx_Writes t)) \<inter> nums (tx_Writes u) \<noteq> {}"

lemma mark_fold:
  assumes "length row = n"
  shows "go_fold (mark_key n) keys row =
    (if \<forall>key \<in> set keys. key_ok n key
     then Inr (map (\<lambda>k. if int k \<in> nums keys then 1 else row ! k) [0..<n])
     else Inl Bounds)"
  using assms
proof (induction keys arbitrary: row)
  case Nil
  then show ?case by (simp add: nums_def list_eq_iff_nth_eq)
next
  case (Cons key keys)
  show ?case
  proof (cases "key_ok n key")
    case True
    then have "mark_key n key row = Inr (row[nat (idxToInt key) := 1])"
      by (simp add: mark_key_def key_ok_def)
    moreover have "map (\<lambda>k. if int k \<in> nums keys then 1 else row[nat (idxToInt key) := 1] ! k) [0..<n]
        = map (\<lambda>k. if int k \<in> nums (key # keys) then 1 else row ! k) [0..<n]"
      using True Cons.prems by (auto simp: nums_def key_ok_def nth_list_update)
    ultimately show ?thesis using True Cons by simp
  next
    case False
    then show ?thesis by (auto simp: mark_key_def key_ok_def)
  qed
qed

lemma mark_keys_eq:
  "mark_keys n keys = (if \<forall>key \<in> set keys. key_ok n key
     then Inr (map (\<lambda>k. if int k \<in> nums keys then 1 else 0) [0..<n]) else Inl Bounds)"
proof -
  have "map (\<lambda>k. if int k \<in> nums keys then 1 else replicate n (0 :: int) ! k) [0..<n]
          = map (\<lambda>k. if int k \<in> nums keys then 1 else 0) [0..<n]" by simp
  then show ?thesis by (simp add: mark_keys_def mark_fold)
qed

definition rows_of :: "nat \<Rightarrow> TxMeta \<Rightarrow> int list \<times> int list" where
  "rows_of n tx = (map (\<lambda>k. if int k \<in> nums (tx_Reads tx) then 1 else 0) [0..<n],
                   map (\<lambda>k. if int k \<in> nums (tx_Writes tx) then 1 else 0) [0..<n])"

lemma rw_rows_eq: "rw_rows n tx = (if keys_ok n tx then Inr (rows_of n tx) else Inl Bounds)"
  by (auto simp: rw_rows_def mark_keys_eq keys_ok_def rows_of_def)

lemma go_map_if:
  "go_map (\<lambda>x. if P x then Inr (f x) else Inl e) xs
     = (if \<forall>x \<in> set xs. P x then Inr (map f xs) else Inl e)"
  by (induction xs) auto

lemma nums_bounded: "\<forall>key \<in> set keys. key_ok n key \<Longrightarrow> x \<in> nums keys \<Longrightarrow> \<exists>k < n. x = int k"
  unfolding nums_def key_ok_def by (metis imageE nat_0_le)

lemma conflict_entry_eq:
  assumes "\<forall>tx \<in> set txs. keys_ok n tx" and "i < length txs" and "j < length txs"
  shows "conflict_entry n (map (rows_of n) txs) i j = (if i \<noteq> j \<and> conflicts (txs ! i) (txs ! j) then 1 else 0)"
proof -
  have b: "\<exists>k < n. x = int k" if "x \<in> nums (tx_Writes (txs ! j))" for x
  proof (rule nums_bounded [OF _ that])
    show "\<forall>key \<in> set (tx_Writes (txs ! j)). key_ok n key"
      using assms(1) nth_mem [OF assms(3)] unfolding keys_ok_def by blast
  qed
  let ?A = "nums (tx_Reads (txs ! i)) \<union> nums (tx_Writes (txs ! i))" and ?B = "nums (tx_Writes (txs ! j))"
  have "(\<exists>k < n. int k \<in> ?A \<and> int k \<in> ?B) \<longleftrightarrow> conflicts (txs ! i) (txs ! j)"
    unfolding conflicts_def using b by blast
  moreover have "list_ex (\<lambda>k. fst (map (rows_of n) txs ! i) ! k = 1 \<and> snd (map (rows_of n) txs ! j) ! k = 1 \<or>
      snd (map (rows_of n) txs ! i) ! k = 1 \<and> snd (map (rows_of n) txs ! j) ! k = 1) [0..<n]
      \<longleftrightarrow> (\<exists>k < n. int k \<in> ?A \<and> int k \<in> ?B)"
    using assms(2,3) by (auto simp: rows_of_def list_ex_iff split: if_splits)
  ultimately show ?thesis by (simp add: conflict_entry_def)
qed

lemma BuildRWSetGraph_eq:
  "BuildRWSetGraph txs n =
     (if \<forall>tx \<in> set txs. keys_ok n tx
      then Inr (map (\<lambda>i. map (\<lambda>j. if i \<noteq> j \<and> conflicts (txs ! i) (txs ! j) then 1 else 0)
                          [0..<length txs]) [0..<length txs])
      else Inl Bounds)"
proof (cases "\<forall>tx \<in> set txs. keys_ok n tx")
  case True
  then show ?thesis
    by (auto simp: BuildRWSetGraph_def rw_rows_eq [abs_def] go_map_if conflict_entry_eq)
next
  case False
  then show ?thesis by (auto simp: BuildRWSetGraph_def rw_rows_eq [abs_def] go_map_if)
qed


text \<open>
  C40: When every key number is below \<open>keyCount\<close>, the matrix has a 1 exactly between two different
  transactions of which the second writes a key number that the first reads or writes; a key
  numbered outside the range makes the function panic.
\<close>

theorem BuildRWSetGraph_spec:
  "BuildRWSetGraph txs n =
     (if \<forall>tx \<in> set txs. keys_ok n tx
      then Inr (map (\<lambda>i. map (\<lambda>j. if i \<noteq> j \<and> conflicts (txs ! i) (txs ! j) then 1 else 0)
                          [0..<length txs]) [0..<length txs])
      else Inl Bounds)"
  by (rule BuildRWSetGraph_eq)

text \<open>The key numbering merges no two equal keys, and tells the keys \<open>User0, User1, ...\<close> apart.\<close>

definition user_key :: "nat \<Rightarrow> string" where
  "user_key n = ''User'' @ itoa_nat n"

lemma idxToInt_user_key: "n < 2 ^ 63 \<Longrightarrow> idxToInt (user_key n) = int n"
  by (simp add: idxToInt_def user_key_def Atoi_itoa_nat del: append_Cons)

lemma conflicts_if_shared_key:
  "key \<in> set (tx_Reads t) \<union> set (tx_Writes t) \<Longrightarrow> key \<in> set (tx_Writes u) \<Longrightarrow> conflicts t u"
  by (auto simp: conflicts_def nums_def)

text \<open>
  No conflict is missed: transactions that share a key, which the second writes, conflict
  whatever the key; and none is invented between transactions whose keys are all of the form
  \<open>User<n>\<close>: there the conflicts are exactly the shared keys.
\<close>

theorem conflicts_keys:
  defines "shared t u \<equiv> (set (tx_Reads t) \<union> set (tx_Writes t)) \<inter> set (tx_Writes u)"
  shows "(shared t u \<noteq> {} \<longrightarrow> conflicts t u) \<and>
    ((\<forall>key \<in> set (tx_Reads t) \<union> set (tx_Writes t) \<union> set (tx_Writes u). \<exists>n < 2 ^ 63. key = user_key n)
      \<longrightarrow> conflicts t u \<longrightarrow> shared t u \<noteq> {})"
proof (intro conjI impI)
  show "conflicts t u" if "shared t u \<noteq> {}"
    using that conflicts_if_shared_key [of _ t u] by (auto simp: shared_def)
next
  assume keys: "\<forall>key \<in> set (tx_Reads t) \<union> set (tx_Writes t) \<union> set (tx_Writes u). \<exists>n < 2 ^ 63. key = user_key n"
    and "conflicts t u"
  then obtain x y where x: "x \<in> set (tx_Reads t) \<union> set (tx_Writes t)" and y: "y \<in> set (tx_Writes u)"
    and e: "idxToInt x = idxToInt y"
    by (auto simp: conflicts_def nums_def) metis+
  obtain m n where "x = user_key m" "m < 2 ^ 63" "y = user_key n" "n < 2 ^ 63"
    using keys x y by (metis UnCI)
  then have "x = y" using e idxToInt_user_key [of m] idxToInt_user_key [of n] by simp
  then show "shared t u \<noteq> {}" using x y by (auto simp: shared_def)
qed

definition tx_read :: "int \<Rightarrow> string list \<Rightarrow> string list \<Rightarrow> TxMeta" where
  "tx_read i rs ws = \<lparr>tx_Index = i, tx_User = hd (rs @ ws), tx_Reads = rs, tx_Writes = ws, tx_Urgency = False\<rparr>"

lemma idx_values: "idxToInt ''User1'' = 1" "idxToInt ''User2'' = 2" "idxToInt ''asset'' = 0"
  by code_simp+

theorem BuildRWSetGraph_spec_witness:
  "BuildRWSetGraph [tx_read 0 [''User1''] [''User2''], tx_read 1 [''asset''] [''User1'']] 3
     = Inr [[0, 1], [0, 0]]"
  by (subst BuildRWSetGraph_spec)
    (simp add: tx_read_def keys_ok_def key_ok_def conflicts_def nums_def idx_values)

theorem conflicts_keys_witness:
  "\<not> conflicts (tx_read 0 [] [user_key 1]) (tx_read 1 [] [user_key 2])"
proof -
  have "user_key 1 \<noteq> user_key 2"
    using idxToInt_user_key [of 1] idxToInt_user_key [of 2] by auto
  moreover have "\<exists>n < 2 ^ 63. user_key 1 = user_key n" "\<exists>n < 2 ^ 63. user_key 2 = user_key n"
    by (rule exI [of _ 1], simp) (rule exI [of _ 2], simp)
  ultimately show ?thesis
    using conflicts_keys [of "tx_read 0 [] [user_key 1]" "tx_read 1 [] [user_key 2]"]
    by (auto simp: tx_read_def)
qed

end
