(* ===== verification/Scheduler.thy ===== *)
theory Scheduler
  imports Conflict_Graph "HOL-Library.AList"
begin

text \<open>
  \<open>transactionScheduler\<close> of \<open>kafka/processor/processor.go\<close>. The graph is a Go map from transaction
  to successors, here an association list with distinct keys. Go leaves the order in which
  \<open>range\<close> visits a map open: \<open>ord t\<close> is the order of the \<open>t\<close>-th visit, an argument of every
  definition that depends on it, so that a theorem about all \<open>ord\<close> holds of every run. The printed
  abort counts of \<open>GetAbortCounts\<close> have no effect on the result and are left out here.
\<close>

section \<open>Graph\<close>

type_synonym graph = "(int \<times> int list) list"

definition graph_nodes :: "graph \<Rightarrow> int list" where
  "graph_nodes g = map fst g"

definition succs :: "graph \<Rightarrow> int \<Rightarrow> int list" where
  "succs g v = (case map_of g v of None \<Rightarrow> [] | Some ts \<Rightarrow> ts)"

definition AddEdge :: "int \<Rightarrow> int \<Rightarrow> graph \<Rightarrow> graph" where
  "AddEdge from to g = AList.update from (succs g from @ [to]) g"

definition RemoveNode :: "int \<Rightarrow> graph \<Rightarrow> graph" where
  "RemoveNode node g = map (\<lambda>(f, ts). (f, filter (\<lambda>t. t \<noteq> node) ts)) (AList.delete node g)"

definition updateDependencies :: "int \<Rightarrow> graph \<Rightarrow> graph" where
  "updateDependencies removedTx g = map (\<lambda>(f, ts). (f, filter (\<lambda>t. t \<noteq> removedTx) ts)) g"

text \<open>\<open>checkConflict\<close> lists a node once per edge to \<open>tx\<close>, in the order of the visit.\<close>

definition checkConflict :: "graph \<Rightarrow> int \<Rightarrow> int list" where
  "checkConflict g tx =
     concat (map (\<lambda>(node, neighbors). if node = tx then []
                    else map (\<lambda>_. node) (filter (\<lambda>t. t = tx) neighbors)) g)"

text \<open>The nodes of the batch, then an edge for every 1 of the matrix.\<close>

definition init_nodes :: "int list \<Rightarrow> graph" where
  "init_nodes txinfo = fold (\<lambda>tx g. AList.update tx [] g) txinfo []"

definition add_row :: "int list \<Rightarrow> int list list \<Rightarrow> nat \<Rightarrow> graph \<Rightarrow> graph" where
  "add_row txinfo matrix i g =
     fold (\<lambda>j g. if matrix ! i ! j = 1 then AddEdge (txinfo ! i) (txinfo ! j) g else g)
       [0..<length matrix] g"

definition build_graph :: "int list \<Rightarrow> int list list \<Rightarrow> graph" where
  "build_graph txinfo matrix =
     fold (add_row txinfo matrix) [0..<length matrix] (init_nodes txinfo)"

definition incoming :: "graph \<Rightarrow> int \<Rightarrow> bool" where
  "incoming g node = list_ex (\<lambda>(_, neighbors). list_ex (\<lambda>to. to = node) neighbors) g"

section \<open>The loop\<close>

text \<open>\<open>visit ord t ks\<close> is the order in which the \<open>t\<close>-th visit meets the keys \<open>ks\<close>; an \<open>ord\<close> that
  returns something else than a permutation stands for the stored order.\<close>

definition visit :: "(nat \<Rightarrow> int list \<Rightarrow> int list) \<Rightarrow> nat \<Rightarrow> int list \<Rightarrow> int list" where
  "visit ord t ks = (if mset (ord t ks) = mset ks then ord t ks else ks)"

definition zero_in_degree :: "int list \<Rightarrow> graph \<Rightarrow> int list" where
  "zero_in_degree ks g = filter (\<lambda>node. \<not> incoming g node) ks"

definition remove_all :: "int list \<Rightarrow> graph \<Rightarrow> graph" where
  "remove_all nodes g = fold RemoveNode nodes g"

lemma graph_nodes_RemoveNode: "graph_nodes (RemoveNode v g) = filter (\<lambda>x. x \<noteq> v) (graph_nodes g)"
  by (induction g) (auto simp: graph_nodes_def RemoveNode_def AList.delete_eq)

lemma graph_nodes_remove_all:
  "graph_nodes (remove_all vs g) = filter (\<lambda>x. x \<notin> set vs) (graph_nodes g)"
proof (induction vs arbitrary: g)
  case Nil
  then show ?case by (simp add: remove_all_def)
next
  case (Cons v vs)
  have "filter (\<lambda>x. x \<noteq> v \<and> x \<notin> set vs) (graph_nodes g)
      = filter (\<lambda>x. x \<notin> set vs \<and> x \<noteq> v) (graph_nodes g)" by (rule filter_cong) auto
  then show ?case using Cons by (simp add: remove_all_def graph_nodes_RemoveNode)
qed

lemma length_graph: "length g = length (graph_nodes g)"
  by (simp add: graph_nodes_def)

lemma set_visit [simp]: "set (visit ord t ks) = set ks"
  by (auto simp: visit_def dest: mset_eq_setD)

lemma mset_visit: "mset (visit ord t ks) = mset ks"
  by (simp add: visit_def)

lemma visit_empty [simp]: "visit ord t ks = [] \<longleftrightarrow> ks = []"
  by (metis set_visit set_empty)

lemma remove_all_shorter:
  assumes "v \<in> set vs" and "v \<in> set (graph_nodes g)"
  shows "length (remove_all vs g) < length g"
  unfolding length_graph graph_nodes_remove_all using assms
  by (metis length_filter_less)

function schedule ::
    "(nat \<Rightarrow> int list \<Rightarrow> int list) \<Rightarrow> nat \<Rightarrow> graph \<Rightarrow> int list \<Rightarrow> int list \<Rightarrow> int list \<times> int list" where
  "schedule ord t g successList abortList =
     (if g = [] then (successList, abortList)
      else
        let zeroInDegree = zero_in_degree (visit ord t (graph_nodes g)) g
        in if zeroInDegree = [] then
             let nodeToAbort = hd (visit ord (t + 1) (graph_nodes g))
             in schedule ord (t + 2) (RemoveNode nodeToAbort g) successList (abortList @ [nodeToAbort])
           else schedule ord (t + 1) (remove_all zeroInDegree g) (successList @ zeroInDegree) abortList)"
  by pat_completeness auto
termination
proof (relation "measure (\<lambda>(ord, t, g, s, a). length g)", simp, goal_cases)
  case (1 ord t g s a z v)
  have ne: "visit ord (t + 1) (graph_nodes g) \<noteq> []" using 1 by (simp add: graph_nodes_def)
  then have "v \<in> set (visit ord (t + 1) (graph_nodes g))" unfolding 1(4) by (rule hd_in_set)
  then have "v \<in> set (graph_nodes g)" by simp
  then show ?case using remove_all_shorter [of v "[v]" g] by (simp add: remove_all_def)
next
  case (2 ord t g s a z)
  then have "z \<noteq> []" by simp
  then have z: "hd z \<in> set z" by (rule hd_in_set)
  then have "hd z \<in> set (graph_nodes g)" using 2 by (auto simp: zero_in_degree_def)
  with z show ?case using remove_all_shorter by simp
qed

declare schedule.simps [simp del]

definition transactionScheduler ::
    "(nat \<Rightarrow> int list \<Rightarrow> int list) \<Rightarrow> int list \<Rightarrow> int list list \<Rightarrow> int list \<times> int list" where
  "transactionScheduler ord txinfo matrix = schedule ord 0 (build_graph txinfo matrix) [] []"

text \<open>\<open>Numkeyitem\<close> is 10000.\<close>

definition epsilonOrdering ::
    "(nat \<Rightarrow> int list \<Rightarrow> int list) \<Rightarrow> TxMeta list \<Rightarrow> (int list \<times> int list) go" where
  "epsilonOrdering ord txs =
     go_bind (BuildRWSetGraph txs 10000) (\<lambda>ConflictGraph.
       Inr (transactionScheduler ord (map tx_Index txs) ConflictGraph))"

end
