(* ===== verification/Scheduler_Props.thy ===== *)
theory Scheduler_Props
  imports Scheduler Interfaces
begin

text \<open>
  The scheduler as a step relation that leaves every choice of \<open>range\<close> open, with its invariant, as an
  instance of \<open>terminating_machine\<close>; the executable loop follows the relation, so that what the
  relation promises holds of the code for every visiting order.
\<close>

section \<open>Edges\<close>

definition edge :: "graph \<Rightarrow> int \<Rightarrow> int \<Rightarrow> bool" where
  "edge g u v \<longleftrightarrow> v \<in> set (succs g u)"

lemma succs_update: "succs (AList.update k ts g) u = (if u = k then ts else succs g u)"
  by (simp add: succs_def update_conv')

lemma graph_nodes_update:
  "graph_nodes (AList.update k ts g)
     = (if k \<in> set (graph_nodes g) then graph_nodes g else graph_nodes g @ [k])"
  by (simp add: graph_nodes_def update_keys)

lemma succs_RemoveNode: "succs (RemoveNode v g) u = (if u = v then [] else filter (\<lambda>t. t \<noteq> v) (succs g u))"
  by (induction g) (auto simp: RemoveNode_def succs_def AList.delete_eq)

lemma edge_RemoveNode: "edge (RemoveNode w g) u v \<longleftrightarrow> edge g u v \<and> u \<noteq> w \<and> v \<noteq> w"
  by (auto simp: edge_def succs_RemoveNode)

lemma edge_remove_all: "edge (remove_all ws g) u v \<longleftrightarrow> edge g u v \<and> u \<notin> set ws \<and> v \<notin> set ws"
  by (induction ws arbitrary: g) (auto simp: remove_all_def edge_RemoveNode)

lemma edge_map_of: "edge g u v \<longleftrightarrow> (\<exists>ts. map_of g u = Some ts \<and> v \<in> set ts)"
  by (cases "map_of g u") (simp_all add: edge_def succs_def)

lemma edge_node: "edge g u v \<Longrightarrow> u \<in> set (graph_nodes g)"
  by (force simp: edge_map_of graph_nodes_def dest: map_of_SomeD)

lemma incoming_iff: "distinct (graph_nodes g) \<Longrightarrow> incoming g v \<longleftrightarrow> (\<exists>u. edge g u v)"
proof -
  assume d: "distinct (graph_nodes g)"
  have "incoming g v \<longleftrightarrow> (\<exists>u ts. (u, ts) \<in> set g \<and> v \<in> set ts)"
    by (auto simp: incoming_def list_ex_iff)
  also have "\<dots> \<longleftrightarrow> (\<exists>u ts. map_of g u = Some ts \<and> v \<in> set ts)"
    using d by (auto simp: graph_nodes_def)
  also have "\<dots> \<longleftrightarrow> (\<exists>u. edge g u v)" by (simp add: edge_map_of)
  finally show ?thesis .
qed

text \<open>\<open>AddEdge\<close> adds exactly its edge.\<close>

lemma edge_AddEdge: "edge (AddEdge a b g) u v \<longleftrightarrow> edge g u v \<or> u = a \<and> v = b"
  by (auto simp: edge_def AddEdge_def succs_update)

lemma edge_add_row:
  "edge (add_row txinfo matrix i g) u v \<longleftrightarrow>
     edge g u v \<or> (\<exists>j < length matrix. matrix ! i ! j = 1 \<and> u = txinfo ! i \<and> v = txinfo ! j)"
proof -
  have "edge (fold (\<lambda>j g. if matrix ! i ! j = 1 then AddEdge (txinfo ! i) (txinfo ! j) g else g) [0..<n] g) u v
    \<longleftrightarrow> edge g u v \<or> (\<exists>j < n. matrix ! i ! j = 1 \<and> u = txinfo ! i \<and> v = txinfo ! j)" for n
    by (induction n) (auto simp: edge_AddEdge less_Suc_eq)
  then show ?thesis by (simp add: add_row_def)
qed

lemma nodes_add_row:
  assumes "txinfo ! i \<in> set (graph_nodes g)"
  shows "graph_nodes (add_row txinfo matrix i g) = graph_nodes g"
proof -
  have "graph_nodes (fold (\<lambda>j g. if matrix ! i ! j = 1 then AddEdge (txinfo ! i) (txinfo ! j) g else g) [0..<n] g)
      = graph_nodes g" for n
    using assms by (induction n) (auto simp: AddEdge_def graph_nodes_update)
  then show ?thesis by (simp add: add_row_def)
qed

lemma init_nodes_props:
  "distinct (graph_nodes (init_nodes xs)) \<and> set (graph_nodes (init_nodes xs)) = set xs \<and>
   \<not> edge (init_nodes xs) u v"
proof (induction xs rule: rev_induct)
  case Nil
  then show ?case by (simp add: init_nodes_def graph_nodes_def edge_def succs_def)
next
  case (snoc x xs)
  then show ?case
    by (auto simp: init_nodes_def graph_nodes_update edge_def succs_update)
qed

lemma init_nodes_distinct: "distinct xs \<Longrightarrow> graph_nodes (init_nodes xs) = xs"
proof (induction xs rule: rev_induct)
  case Nil
  then show ?case by (simp add: init_nodes_def graph_nodes_def)
next
  case (snoc x xs)
  then show ?case by (auto simp: init_nodes_def graph_nodes_update)
qed

lemma build_graph_props:
  assumes "length matrix = length txinfo"
  shows "graph_nodes (build_graph txinfo matrix) = graph_nodes (init_nodes txinfo)"
    and "edge (build_graph txinfo matrix) u v \<longleftrightarrow>
      (\<exists>i < length txinfo. \<exists>j < length txinfo. matrix ! i ! j = 1 \<and> u = txinfo ! i \<and> v = txinfo ! j)"
proof -
  have "n \<le> length txinfo \<Longrightarrow>
      graph_nodes (fold (add_row txinfo matrix) [0..<n] (init_nodes txinfo)) = graph_nodes (init_nodes txinfo) \<and>
      (edge (fold (add_row txinfo matrix) [0..<n] (init_nodes txinfo)) u v \<longleftrightarrow>
        (\<exists>i < n. \<exists>j < length txinfo. matrix ! i ! j = 1 \<and> u = txinfo ! i \<and> v = txinfo ! j))" for n
  proof (induction n)
    case 0
    then show ?case by (simp add: init_nodes_props)
  next
    case (Suc n)
    then have "txinfo ! n \<in> set (graph_nodes (init_nodes txinfo))" by (simp add: init_nodes_props)
    then show ?case using Suc assms by (auto simp: edge_add_row nodes_add_row less_Suc_eq)
  qed
  from this [of "length txinfo"] show
    "graph_nodes (build_graph txinfo matrix) = graph_nodes (init_nodes txinfo)"
    "edge (build_graph txinfo matrix) u v \<longleftrightarrow>
      (\<exists>i < length txinfo. \<exists>j < length txinfo. matrix ! i ! j = 1 \<and> u = txinfo ! i \<and> v = txinfo ! j)"
    by (simp_all add: build_graph_def assms)
qed

section \<open>The step relation\<close>

type_synonym sched = "graph \<times> int list \<times> int list"

inductive sched_step :: "sched \<Rightarrow> sched \<Rightarrow> bool" where
  batch: "mset zs = mset (filter (\<lambda>v. \<not> incoming g v) (graph_nodes g)) \<Longrightarrow> zs \<noteq> [] \<Longrightarrow>
    sched_step (g, s, a) (remove_all zs g, s @ zs, a)"
| abort: "\<forall>v \<in> set (graph_nodes g). incoming g v \<Longrightarrow> v \<in> set (graph_nodes g) \<Longrightarrow>
    sched_step (g, s, a) (RemoveNode v g, s, a @ [v])"

inductive_cases sched_stepE: "sched_step (g, s, a) st"
inductive_simps sched_step_empty [simp]: "sched_step ([], s, a) st"

definition before :: "'a list \<Rightarrow> 'a \<Rightarrow> 'a \<Rightarrow> bool" where
  "before s u v \<longleftrightarrow> (\<exists>xs ys. s = xs @ ys \<and> u \<in> set xs \<and> v \<in> set ys)"

lemma before_append: "before s u v \<Longrightarrow> before (s @ zs) u v"
  unfolding before_def by (metis append.assoc Un_iff set_append)

lemma before_new: "u \<in> set s \<Longrightarrow> v \<in> set zs \<Longrightarrow> before (s @ zs) u v"
  by (auto simp: before_def)

lemma before_asym: "distinct s \<Longrightarrow> before s u v \<Longrightarrow> \<not> before s v u"
proof
  assume d: "distinct s" and "before s u v" "before s v u"
  from \<open>before s u v\<close> obtain xs ys where s: "s = xs @ ys" "u \<in> set xs" "v \<in> set ys"
    unfolding before_def by blast
  from \<open>before s v u\<close> obtain xs' ys' where s': "s = xs' @ ys'" "v \<in> set xs'" "u \<in> set ys'"
    unfolding before_def by blast
  from s(1) s'(1) have "xs @ ys = xs' @ ys'" by simp
  then obtain us where "xs = xs' @ us \<and> us @ ys = ys' \<or> xs @ us = xs' \<and> ys = us @ ys'"
    by (auto simp: append_eq_append_conv2)
  then show False
    using d s s' by auto
qed

text \<open>Relative to the graph \<open>g0\<close> the loop started with: every node is in exactly one place, the edges
  left are those between nodes left, and the success list respects every edge.\<close>

definition sched_inv :: "graph \<Rightarrow> sched \<Rightarrow> bool" where
  "sched_inv g0 = (\<lambda>(g, s, a).
     mset (graph_nodes g) + mset s + mset a = mset (graph_nodes g0) \<and> distinct (graph_nodes g0) \<and>
     (\<forall>u v. edge g u v \<longleftrightarrow> edge g0 u v \<and> u \<in> set (graph_nodes g) \<and> v \<in> set (graph_nodes g)) \<and>
     (\<forall>u v. edge g0 u v \<longrightarrow> v \<in> set s \<longrightarrow> u \<notin> set (graph_nodes g) \<and> (u \<in> set s \<longrightarrow> before s u v)))"

lemma sched_inv_distinct: "sched_inv g0 (g, s, a) \<Longrightarrow> distinct (graph_nodes g @ s @ a)"
proof -
  assume "sched_inv g0 (g, s, a)"
  then have "mset (graph_nodes g @ s @ a) = mset (graph_nodes g0)" and "distinct (graph_nodes g0)"
    by (simp_all add: sched_inv_def add.assoc)
  then show ?thesis by (metis mset_eq_imp_distinct_iff)
qed

lemma sched_inv_step:
  assumes i: "sched_inv g0 st" and step: "sched_step st st'"
  shows "sched_inv g0 st'"
  using step
proof cases
  case (batch zs g s a)
  have d: "distinct (graph_nodes g @ s @ a)" using i batch sched_inv_distinct by blast
  have z: "set zs = {v \<in> set (graph_nodes g). \<not> incoming g v}"
    using mset_eq_setD [OF batch(3)] by auto
  have dz: "distinct zs" using batch(3) d by (metis distinct_append distinct_filter mset_eq_imp_distinct_iff)
  have noin: "\<not> edge g u v" if "v \<in> set zs" for u v
    using that z incoming_iff [of g v] d by auto
  have m: "mset (graph_nodes g) = mset zs + mset (filter (\<lambda>x. x \<notin> set zs) (graph_nodes g))"
  proof -
    have "mset (filter (\<lambda>x. x \<in> set zs) (graph_nodes g)) = mset zs"
    proof (rule set_eq_iff_mset_eq_distinct [THEN iffD1])
      show "set (filter (\<lambda>x. x \<in> set zs) (graph_nodes g)) = set zs" using z by auto
    qed (use d dz in simp_all)
    then show ?thesis using multiset_partition [of "mset (graph_nodes g)" "\<lambda>x. x \<in> set zs"] by simp
  qed
  have ord: "u \<notin> set (graph_nodes g) \<and> (u \<in> set (s @ zs) \<longrightarrow> before (s @ zs) u v)"
    if e: "edge g0 u v" and v: "v \<in> set (s @ zs)" for u v
  proof (cases "v \<in> set s")
    case True
    then have "u \<notin> set (graph_nodes g)" "u \<in> set s \<longrightarrow> before s u v"
      using i e batch(1) by (auto simp: sched_inv_def)
    then show ?thesis using before_append [of s u v zs] z by auto
  next
    case False
    then have vz: "v \<in> set zs" using v by simp
    then have "u \<notin> set (graph_nodes g)" using noin [OF vz] i e batch(1) z by (auto simp: sched_inv_def)
    then show ?thesis using before_new [OF _ vz] z by auto
  qed
  note i' = i [unfolded batch(1) sched_inv_def prod.case]
  show ?thesis
    unfolding batch(2) sched_inv_def prod.case graph_nodes_remove_all edge_remove_all
  proof (intro conjI)
    show "mset (filter (\<lambda>x. x \<notin> set zs) (graph_nodes g)) + mset (s @ zs) + mset a = mset (graph_nodes g0)"
    proof -
      let ?f = "mset (filter (\<lambda>x. x \<notin> set zs) (graph_nodes g))"
      have "?f + mset (s @ zs) + mset a = (mset zs + ?f) + mset s + mset a"
        unfolding mset_append by (simp only: ac_simps)
      then show ?thesis using i' unfolding m [symmetric] by metis
    qed
    show "distinct (graph_nodes g0)" using i' by blast
    show "\<forall>u v. (edge g u v \<and> u \<notin> set zs \<and> v \<notin> set zs) = (edge g0 u v \<and>
        u \<in> set (filter (\<lambda>x. x \<notin> set zs) (graph_nodes g)) \<and> v \<in> set (filter (\<lambda>x. x \<notin> set zs) (graph_nodes g)))"
      using i' by (simp only: set_filter mem_Collect_eq) blast
    show "\<forall>u v. edge g0 u v \<longrightarrow> v \<in> set (s @ zs) \<longrightarrow>
        u \<notin> set (filter (\<lambda>x. x \<notin> set zs) (graph_nodes g)) \<and> (u \<in> set (s @ zs) \<longrightarrow> before (s @ zs) u v)"
      using ord by (simp only: set_filter mem_Collect_eq) blast
  qed
next
  case (abort g v s a)
  have d: "distinct (graph_nodes g @ s @ a)" using i abort sched_inv_distinct by blast
  have m: "mset (graph_nodes g) = {#v#} + mset (filter (\<lambda>x. x \<noteq> v) (graph_nodes g))"
  proof -
    have "distinct (graph_nodes g)" using d by simp
    then have "filter (\<lambda>x. x \<noteq> v) (graph_nodes g) = remove1 v (graph_nodes g)"
      by (simp add: distinct_remove1_removeAll removeAll_filter_not_eq eq_commute)
    then show ?thesis using abort(4) by simp
  qed
  note i' = i [unfolded abort(1) sched_inv_def prod.case]
  show ?thesis
    unfolding abort(2) sched_inv_def prod.case graph_nodes_RemoveNode edge_RemoveNode
  proof (intro conjI)
    show "mset (filter (\<lambda>x. x \<noteq> v) (graph_nodes g)) + mset s + mset (a @ [v]) = mset (graph_nodes g0)"
    proof -
      let ?f = "mset (filter (\<lambda>x. x \<noteq> v) (graph_nodes g))"
      have "?f + mset s + mset (a @ [v]) = ({#v#} + ?f) + mset s + mset a"
        by simp
      then show ?thesis using i' unfolding m [symmetric] by metis
    qed
    show "distinct (graph_nodes g0)" using i' by blast
    show "\<forall>u w. (edge g u w \<and> u \<noteq> v \<and> w \<noteq> v) = (edge g0 u w \<and>
        u \<in> set (filter (\<lambda>x. x \<noteq> v) (graph_nodes g)) \<and> w \<in> set (filter (\<lambda>x. x \<noteq> v) (graph_nodes g)))"
      using i' by (simp only: set_filter mem_Collect_eq) blast
    show "\<forall>u w. edge g0 u w \<longrightarrow> w \<in> set s \<longrightarrow>
        u \<notin> set (filter (\<lambda>x. x \<noteq> v) (graph_nodes g)) \<and> (u \<in> set s \<longrightarrow> before s u w)"
      using i' by (simp only: set_filter mem_Collect_eq) blast
  qed
qed

lemma sched_step_size:
  assumes "sched_step (g, s, a) (g', s', a')"
  shows "length g' < length g"
  using assms
proof cases
  case (batch zs)
  then obtain v where "v \<in> set zs" by (cases zs) auto
  moreover have "set zs \<subseteq> set (graph_nodes g)" using mset_eq_setD [OF batch(4)] by auto
  ultimately show ?thesis using batch(1) remove_all_shorter by blast
next
  case (abort v)
  then show ?thesis using remove_all_shorter [of v "[v]" g] by (simp add: remove_all_def)
qed

interpretation sched: terminating_machine sched_step "sched_inv g0" "\<lambda>(g, s, a). length g" for g0
  by unfold_locales (auto intro: sched_inv_step sched_step_size)

section \<open>The code follows the relation\<close>

lemma zero_in_degree_mset:
  "mset (zero_in_degree (visit ord t (graph_nodes g)) g)
     = mset (filter (\<lambda>v. \<not> incoming g v) (graph_nodes g))"
  using mset_visit [of ord t "graph_nodes g"] by (metis mset_filter zero_in_degree_def)

lemma schedule_steps:
  "sched_step\<^sup>*\<^sup>* (g, s, a) ([], fst (schedule ord t g s a), snd (schedule ord t g s a))"
proof (induction ord t g s a rule: schedule.induct)
  case (1 ord t g s a)
  let ?zs = "zero_in_degree (visit ord t (graph_nodes g)) g"
  let ?v = "hd (visit ord (t + 1) (graph_nodes g))"
  consider "g = []" | "g \<noteq> []" "?zs = []" | "g \<noteq> []" "?zs \<noteq> []" by blast
  then show ?case
  proof cases
    case 1
    then show ?thesis by (simp add: schedule.simps)
  next
    case 2
    have all: "\<forall>v \<in> set (graph_nodes g). incoming g v"
      using 2(2) by (auto simp: zero_in_degree_def filter_empty_conv)
    have "visit ord (t + 1) (graph_nodes g) \<noteq> []" using 2(1) by (simp add: graph_nodes_def)
    then have "?v \<in> set (graph_nodes g)" using hd_in_set set_visit by metis
    then have "sched_step (g, s, a) (RemoveNode ?v g, s, a @ [?v])" by (rule sched_step.abort [OF all])
    moreover have "schedule ord t g s a = schedule ord (t + 2) (RemoveNode ?v g) s (a @ [?v])"
      using 2 by (subst schedule.simps) (simp add: Let_def)
    ultimately show ?thesis
      using "1.IH"(1) [OF 2(1) refl 2(2) refl] by (metis converse_rtranclp_into_rtranclp)
  next
    case 3
    have "sched_step (g, s, a) (remove_all ?zs g, s @ ?zs, a)"
      by (rule sched_step.batch [OF zero_in_degree_mset 3(2)])
    moreover have "schedule ord t g s a = schedule ord (t + 1) (remove_all ?zs g) (s @ ?zs) a"
      using 3 by (subst schedule.simps) (simp add: Let_def)
    ultimately show ?thesis
      using "1.IH"(2) [OF 3(1) refl 3(2)] by (metis converse_rtranclp_into_rtranclp)
  qed
qed

lemma sched_inv_init:
  "sched_inv (build_graph txinfo matrix) (build_graph txinfo matrix, [], [])"
  if "length matrix = length txinfo"
proof -
  have "distinct (graph_nodes (build_graph txinfo matrix))"
    using that by (simp add: build_graph_props init_nodes_props)
  moreover have "edge (build_graph txinfo matrix) u v \<Longrightarrow>
      u \<in> set (graph_nodes (build_graph txinfo matrix)) \<and> v \<in> set (graph_nodes (build_graph txinfo matrix))" for u v
    using that by (auto simp: build_graph_props init_nodes_props)
  ultimately show ?thesis by (auto simp: sched_inv_def)
qed

lemma scheduler_final:
  assumes "length matrix = length txinfo" and "transactionScheduler ord txinfo matrix = (s, a)"
  shows "sched_inv (build_graph txinfo matrix) ([], s, a)"
proof -
  have "sched_step\<^sup>*\<^sup>* (build_graph txinfo matrix, [], []) ([], s, a)"
    using schedule_steps [of "build_graph txinfo matrix" "[]" "[]" ord 0] assms(2)
    by (simp add: transactionScheduler_def)
  then show ?thesis using sched.inv_steps sched_inv_init [OF assms(1)] by blast
qed

section \<open>Acyclic graphs\<close>

definition edges_of :: "graph \<Rightarrow> (int \<times> int) set" where
  "edges_of g = {(u, v). edge g u v}"

lemma finite_edges: "finite (edges_of g)"
proof -
  have "edges_of g \<subseteq> (\<Union>u \<in> set (graph_nodes g). (\<lambda>v. (u, v)) ` set (succs g u))"
    by (auto simp: edges_of_def edge_def intro: edge_node [unfolded edge_def])
  then show ?thesis by (rule finite_subset) auto
qed

lemma acyclic_no_abort:
  assumes ac: "acyclic (edges_of g0)" and inv: "sched_inv g0 (g, s, [])" and step: "sched_step (g, s, []) (g', s', a')"
  shows "a' = []"
  using step
proof cases
  case (abort v)
  have wf: "wf (edges_of g0)" using ac finite_edges by (rule finite_acyclic_wf [rotated])
  obtain z where z: "z \<in> set (graph_nodes g)" and least: "\<And>y. (y, z) \<in> edges_of g0 \<Longrightarrow> y \<notin> set (graph_nodes g)"
    using wfE_min [OF wf abort(5)] by blast
  have "incoming g z" using abort(4) z by blast
  then obtain u where "edge g u z" using incoming_iff sched_inv_distinct [OF inv] by auto
  then have "(u, z) \<in> edges_of g0" "u \<in> set (graph_nodes g)" using inv by (auto simp: sched_inv_def edges_of_def)
  then show ?thesis using least by blast
qed simp

lemma acyclic_steps_no_abort:
  assumes "sched_step\<^sup>*\<^sup>* (g0, [], []) st" and ac: "acyclic (edges_of g0)" and i: "sched_inv g0 (g0, [], [])"
  shows "snd (snd st) = []"
  using assms(1)
proof (induction rule: rtranclp_induct)
  case (step st st')
  have "sched_inv g0 st" using sched.inv_steps [OF step(1) i] .
  then show ?case using step acyclic_no_abort [OF ac] by (cases st; cases st') auto
qed simp

section \<open>Properties of the scheduler\<close>

lemma transactionScheduler_partition:
  assumes "length matrix = length txinfo"
  shows "\<exists>s a. transactionScheduler ord txinfo matrix = (s, a) \<and> distinct (s @ a) \<and>
           set s \<union> set a = set txinfo"
proof -
  obtain s a where sa: "transactionScheduler ord txinfo matrix = (s, a)" by fastforce
  from scheduler_final [OF assms sa] have "mset s + mset a = mset (graph_nodes (build_graph txinfo matrix))"
    and "distinct (graph_nodes (build_graph txinfo matrix))" by (simp_all add: sched_inv_def graph_nodes_def)
  then have m: "mset (s @ a) = mset (graph_nodes (build_graph txinfo matrix))"
    and d: "distinct (graph_nodes (build_graph txinfo matrix))" by simp_all
  have "distinct (s @ a)" using mset_eq_imp_distinct_iff [OF m] d by blast
  moreover have "set (s @ a) = set (graph_nodes (build_graph txinfo matrix))" using m by (rule mset_eq_setD)
  ultimately show ?thesis using sa assms by (simp add: build_graph_props init_nodes_props)
qed


text \<open>
  For every order in which Go may visit the graph, the scheduler ends, and each transaction of
  the batch is in exactly one of its two results, exactly once.
\<close>

theorem scheduler_partition:
  assumes "length matrix = length txinfo"
  shows "\<exists>s a. transactionScheduler ord txinfo matrix = (s, a) \<and> distinct (s @ a) \<and>
           set s \<union> set a = set txinfo"
  using assms by (rule transactionScheduler_partition)

theorem scheduler_partition_witness:
  "\<exists>s a. transactionScheduler (\<lambda>_. rev) [4, 7, 9] [[0, 1, 0], [1, 0, 1], [0, 0, 0]] = (s, a) \<and>
     distinct (s @ a) \<and> set s \<union> set a = set [4, 7, 9]"
  by (rule scheduler_partition) simp

lemma transactionScheduler_order:
  assumes "length matrix = length txinfo" and "transactionScheduler ord txinfo matrix = (s, a)"
    and "i < length txinfo" and "j < length txinfo" and "matrix ! i ! j = 1"
    and "txinfo ! i \<in> set s" and "txinfo ! j \<in> set s"
  shows "before s (txinfo ! i) (txinfo ! j)"
proof -
  have "edge (build_graph txinfo matrix) (txinfo ! i) (txinfo ! j)"
    using assms by (auto simp: build_graph_props)
  then show ?thesis
    using scheduler_final [OF assms(1,2)] assms(6,7) by (auto simp: sched_inv_def)
qed


text \<open>
  C33: Among the transactions that are not aborted, the schedule respects every edge of the conflict
  graph: if transaction \<open>i\<close> reads or writes what \<open>j\<close> writes, \<open>i\<close> comes first.
\<close>

theorem scheduler_order:
  assumes "length matrix = length txinfo" and "transactionScheduler ord txinfo matrix = (s, a)"
    and "i < length txinfo" and "j < length txinfo" and "matrix ! i ! j = 1"
    and "txinfo ! i \<in> set s" and "txinfo ! j \<in> set s"
  shows "before s (txinfo ! i) (txinfo ! j)"
  using assms by (rule transactionScheduler_order)

lemma tiny_schedule: "transactionScheduler (\<lambda>_ ks. ks) [4, 7, 9] [[0, 0, 1], [0, 0, 0], [0, 1, 0]] = ([4, 9, 7], [])"
  by code_simp

theorem scheduler_order_witness: "before [4, 9, 7] ([4, 7, 9] ! 2) ([4, 7, 9 :: int] ! 1)"
  by (rule scheduler_order [OF _ tiny_schedule]) (simp_all add: numeral_eq_Suc)

text \<open>
  When the conflict graph has no cycle, nothing is aborted, whatever the visiting order.
\<close>

theorem scheduler_acyclic_commits_all:
  assumes "length matrix = length txinfo"
    and "acyclic {(txinfo ! i, txinfo ! j) | i j. i < length txinfo \<and> j < length txinfo \<and> matrix ! i ! j = 1}"
  shows "snd (transactionScheduler ord txinfo matrix) = []"
proof -
  let ?g = "build_graph txinfo matrix"
  have "edges_of ?g = {(txinfo ! i, txinfo ! j) | i j. i < length txinfo \<and> j < length txinfo \<and> matrix ! i ! j = 1}"
    using assms(1) by (auto simp: edges_of_def build_graph_props)
  then have ac: "acyclic (edges_of ?g)" using assms(2) by simp
  have "sched_step\<^sup>*\<^sup>* (?g, [], [])
      ([], fst (transactionScheduler ord txinfo matrix), snd (transactionScheduler ord txinfo matrix))"
    unfolding transactionScheduler_def by (rule schedule_steps)
  from acyclic_steps_no_abort [OF this ac sched_inv_init [OF assms(1)]] show ?thesis by simp
qed

theorem scheduler_acyclic_commits_all_witness:
  "snd (transactionScheduler (\<lambda>_. rev) [4, 7] [[0, 1], [0, 0]]) = []"
proof (rule scheduler_acyclic_commits_all)
  have "{([4, 7] ! i, [4, 7 :: int] ! j) | i j. i < length [4, 7 :: int] \<and> j < length [4, 7 :: int] \<and>
          [[0, 1], [0, 0 :: int]] ! i ! j = 1} \<subseteq> {(4, 7)}"
    by (auto simp: less_Suc_eq)
  moreover have "acyclic ({} :: (int \<times> int) set)" by (simp add: acyclic_def)
  then have "acyclic {(4 :: int, 7 :: int)}" by (simp add: acyclic_insert)
  ultimately show "acyclic {([4, 7] ! i, [4, 7 :: int] ! j) | i j. i < length [4, 7 :: int] \<and>
      j < length [4, 7 :: int] \<and> [[0, 1], [0, 0 :: int]] ! i ! j = 1}"
    by (rule acyclic_subset [rotated])
qed simp

text \<open>
  C34: The loop ends whatever it picks: no sequence of choices of batches and of nodes to abort is
  longer than the batch, and as long as nodes are left there is a next step.
\<close>

theorem scheduler_terminates:
  assumes "length matrix = length txinfo" and "distinct txinfo"
    and "(sched_step ^^ n) (build_graph txinfo matrix, [], []) (g, s, a)"
  shows "n + length g \<le> length txinfo \<and> (g \<noteq> [] \<longrightarrow> (\<exists>st. sched_step (g, s, a) st))"
proof
  have "length (build_graph txinfo matrix) = length txinfo"
    using assms(1,2) by (simp add: length_graph build_graph_props init_nodes_distinct)
  then show "n + length g \<le> length txinfo"
    using sched.steps_bounded [OF assms(3) sched_inv_init [OF assms(1)]] by simp
  show "g \<noteq> [] \<longrightarrow> (\<exists>st. sched_step (g, s, a) st)"
  proof
    assume "g \<noteq> []"
    then have "graph_nodes g \<noteq> []" by (simp add: graph_nodes_def)
    then have v: "hd (graph_nodes g) \<in> set (graph_nodes g)" by (rule hd_in_set)
    show "\<exists>st. sched_step (g, s, a) st"
    proof (cases "\<forall>v \<in> set (graph_nodes g). incoming g v")
      case True
      then show ?thesis using sched_step.abort v by blast
    next
      case False
      then have "filter (\<lambda>v. \<not> incoming g v) (graph_nodes g) \<noteq> []" by (auto simp: filter_empty_conv)
      then show ?thesis using sched_step.batch [OF refl] by blast
    qed
  qed
qed

theorem scheduler_terminates_witness:
  "0 + length (build_graph [4, 7] [[0, 1], [1, 0]]) \<le> length [4, 7 :: int] \<and>
   (\<exists>st. sched_step (build_graph [4, 7] [[0, 1], [1, 0]], [], []) st)"
proof -
  have ne: "build_graph [4, 7 :: int] [[0, 1], [1, 0]] \<noteq> []" by code_simp
  have "((sched_step :: _ \<Rightarrow> _) ^^ 0) (build_graph [4, 7] [[0, 1], [1, 0]], [], [])
      (build_graph [4, 7] [[0, 1], [1, 0]], [], [])" by simp
  from scheduler_terminates [OF _ _ this] ne show ?thesis by simp
qed

end
