(* ===== verification/Abort_Store.thy ===== *)
theory Abort_Store
  imports Conflict_Graph "HOL-Library.AList"
begin

text \<open>
  The abort counts of \<open>kafka/processor/processor.go\<close>: how \<open>SaveAbortCount\<close> tallies the aborted
  transactions of a batch per user and adds the tally to the collection \<open>User.abortTransaction\<close>, and
  how \<open>GetAbortCounts\<close> reads it back. The collection is the list of its documents, of which the
  two fields the code uses are kept. \<open>UpdateOne\<close> with \<open>$inc\<close> and upsert is the argument \<open>upd\<close>, of which the
  theorems assume \<open>inc_upsert\<close>; \<open>update_one\<close> is an instance.
\<close>

datatype count = Missing | CInt32 int | CInt64 int | CDouble int | CText

record abort_doc =
  d_user :: "string option"
  d_abortCount :: count

type_synonym docs = "abort_doc list"
type_synonym mongo = "string \<Rightarrow> int \<Rightarrow> docs \<Rightarrow> docs go"

text \<open>The tally: one for each aborted ID and each transaction of the list with that index. The result
  is in the order in which users were first counted; the order in which Go ranges over it is \<open>ord\<close>.\<close>

definition count_user :: "string \<Rightarrow> (string \<times> int) list \<Rightarrow> (string \<times> int) list" where
  "count_user user m = AList.update user ((case map_of m user of None \<Rightarrow> 0 | Some n \<Rightarrow> n) + 1) m"

definition abort_tally :: "TxMeta list \<Rightarrow> int list \<Rightarrow> (string \<times> int) list" where
  "abort_tally txUsers abortIDs =
     fold (\<lambda>abortID. fold (\<lambda>tx m. if tx_Index tx = abortID then count_user (tx_User tx) m else m) txUsers)
       abortIDs []"

definition SaveAbortCount ::
    "mongo \<Rightarrow> ((string \<times> int) list \<Rightarrow> (string \<times> int) list) \<Rightarrow> TxMeta list \<Rightarrow> int list \<Rightarrow> docs \<Rightarrow> docs go" where
  "SaveAbortCount upd ord txUsers abortIDs =
     go_fold (\<lambda>(user, n). upd user n) (in_order ord (abort_tally txUsers abortIDs))"

text \<open>Documents without a user name are skipped; of several with the same name the last counts.\<close>

definition count_int :: "count \<Rightarrow> int" where
  "count_int c = (case c of CInt32 n \<Rightarrow> n | CInt64 n \<Rightarrow> n | _ \<Rightarrow> 0)"

definition read_doc :: "abort_doc \<Rightarrow> (string \<rightharpoonup> int) \<Rightarrow> (string \<rightharpoonup> int)" where
  "read_doc d m =
     (case d_user d of
        None \<Rightarrow> m
      | Some user \<Rightarrow> if user = [] then m else m(user \<mapsto> count_int (d_abortCount d)))"

definition GetAbortCounts :: "docs \<Rightarrow> string \<rightharpoonup> int" where
  "GetAbortCounts ds = fold read_doc ds Map.empty"

section \<open>The tally\<close>

definition tally_of :: "TxMeta list \<Rightarrow> int list \<Rightarrow> string \<Rightarrow> nat" where
  "tally_of txs ids user =
     sum_list (map (\<lambda>i. length (filter (\<lambda>tx. tx_Index tx = i \<and> tx_User tx = user) txs)) ids)"

definition get0 :: "(string \<times> int) list \<Rightarrow> string \<Rightarrow> int" where
  "get0 m user = (case map_of m user of None \<Rightarrow> 0 | Some n \<Rightarrow> n)"

lemma get0_count_user: "get0 (count_user u m) v = get0 m v + (if u = v then 1 else 0)"
  by (simp add: get0_def count_user_def update_conv')

lemma distinct_count_user: "distinct (map fst m) \<Longrightarrow> distinct (map fst (count_user u m))"
  by (simp add: count_user_def distinct_update)

lemma tally_inner:
  "get0 (fold (\<lambda>tx m. if tx_Index tx = i then count_user (tx_User tx) m else m) txs m) user
     = get0 m user + int (length (filter (\<lambda>tx. tx_Index tx = i \<and> tx_User tx = user) txs))"
  by (induction txs arbitrary: m) (auto simp: get0_count_user)

lemma tally_inner_distinct:
  "distinct (map fst m) \<Longrightarrow>
   distinct (map fst (fold (\<lambda>tx m. if tx_Index tx = i then count_user (tx_User tx) m else m) txs m))"
  by (induction txs arbitrary: m) (auto simp: distinct_count_user)

lemma abort_tally_get: "get0 (abort_tally txs ids) user = int (tally_of txs ids user)"
proof -
  have "get0 (fold (\<lambda>abortID. fold (\<lambda>tx m. if tx_Index tx = abortID then count_user (tx_User tx) m else m) txs)
          ids m) user = get0 m user + int (tally_of txs ids user)" for m
    by (induction ids arbitrary: m) (auto simp: tally_inner tally_of_def)
  then show ?thesis by (simp add: abort_tally_def get0_def)
qed

lemma abort_tally_distinct: "distinct (map fst (abort_tally txs ids))"
proof -
  have "distinct (map fst m) \<Longrightarrow> distinct (map fst
      (fold (\<lambda>abortID. fold (\<lambda>tx m. if tx_Index tx = abortID then count_user (tx_User tx) m else m) txs) ids m))" for m
    by (induction ids arbitrary: m) (auto intro: tally_inner_distinct)
  then show ?thesis by (simp add: abort_tally_def)
qed

lemma keys_count_user: "fst ` set (count_user u m) = insert u (fst ` set m)"
proof -
  have "set (map fst (count_user u m)) = insert u (set (map fst m))"
    by (simp only: count_user_def update_keys) (auto simp: image_iff)
  then show ?thesis by simp
qed

lemma tally_inner_keys:
  "fst ` set (fold (\<lambda>tx m. if tx_Index tx = i then count_user (tx_User tx) m else m) txs m)
     \<subseteq> fst ` set m \<union> tx_User ` set txs"
proof (induction txs arbitrary: m)
  case (Cons tx txs)
  let ?m = "if tx_Index tx = i then count_user (tx_User tx) m else m"
  have "fst ` set ?m \<subseteq> insert (tx_User tx) (fst ` set m)" by (simp add: keys_count_user) blast
  then show ?case
    using Cons [of ?m] unfolding fold.simps comp_apply list.set image_insert by blast
qed simp

lemma abort_tally_keys: "fst ` set (abort_tally txs ids) \<subseteq> tx_User ` set txs"
proof -
  let ?f = "\<lambda>i. fold (\<lambda>tx m. if tx_Index tx = i then count_user (tx_User tx) m else m) txs"
  have "fst ` set (fold ?f ids m) \<subseteq> fst ` set m \<union> tx_User ` set txs" for m
  proof (induction ids arbitrary: m)
    case (Cons i ids)
    show ?case
      using Cons [of "?f i m"] tally_inner_keys [of i txs m] unfolding fold.simps comp_apply by blast
  qed simp
  from this [of "[]"] show ?thesis by (simp add: abort_tally_def)
qed

section \<open>The collection\<close>

text \<open>Numeric counts, at most one document per user: what the program itself writes.\<close>

definition docs_ok :: "docs \<Rightarrow> bool" where
  "docs_ok ds \<longleftrightarrow> distinct (map d_user ds) \<and>
     (\<forall>d \<in> set ds. (\<exists>n. d_abortCount d = CInt32 n \<or> d_abortCount d = CInt64 n))"

definition stored :: "docs \<Rightarrow> string \<Rightarrow> int" where
  "stored ds user = (case GetAbortCounts ds user of None \<Rightarrow> 0 | Some n \<Rightarrow> n)"

lemma read_docs_fold: "fold read_doc ds m = m ++ fold read_doc ds Map.empty"
proof (induction ds arbitrary: m)
  case (Cons d ds)
  have "read_doc d m = m ++ read_doc d Map.empty" by (auto simp: read_doc_def split: option.split)
  then show ?case using Cons [of "read_doc d m"] Cons [of "read_doc d Map.empty"] by simp
qed simp

lemma GetAbortCounts_Cons: "GetAbortCounts (d # ds) = read_doc d Map.empty ++ GetAbortCounts ds"
  using read_docs_fold [of ds "read_doc d Map.empty"] by (simp add: GetAbortCounts_def)

lemma read_doc_empty:
  "read_doc d Map.empty user
     = (if d_user d = Some user \<and> user \<noteq> [] then Some (count_int (d_abortCount d)) else None)"
  by (auto simp: read_doc_def split: option.split)

lemma GetAbortCounts_notin: "Some user \<notin> d_user ` set ds \<Longrightarrow> GetAbortCounts ds user = None"
proof (induction ds)
  case Nil
  then show ?case by (simp add: GetAbortCounts_def)
next
  case (Cons d ds)
  then have "d_user d \<noteq> Some user" by auto
  then show ?case using Cons by (simp add: GetAbortCounts_Cons read_doc_empty map_add_def)
qed

lemma stored_Cons:
  "stored (d # ds) user = (case GetAbortCounts ds user of Some n \<Rightarrow> n
     | None \<Rightarrow> if d_user d = Some user \<and> user \<noteq> [] then count_int (d_abortCount d) else 0)"
  by (simp add: stored_def GetAbortCounts_Cons map_add_def read_doc_empty split: option.split)

lemma stored_Nil: "stored [] user = 0"
  by (simp add: stored_def GetAbortCounts_def)

text \<open>What the code relies on: an update adds the increment to the user's count, or inserts the user. The counts are
  unbounded here; in MongoDB the update of a count that would leave 64 bits is an error.\<close>

definition inc_upsert :: "mongo \<Rightarrow> bool" where
  "inc_upsert upd \<longleftrightarrow> (\<forall>ds user n. docs_ok ds \<longrightarrow> user \<noteq> [] \<longrightarrow>
     (\<exists>ds'. upd user n ds = Inr ds' \<and> docs_ok ds' \<and>
        (\<forall>v. stored ds' v = stored ds v + (if v = user then n else 0))))"

definition store_ok :: "mongo \<Rightarrow> docs \<Rightarrow> bool" where
  "store_ok upd ds \<longleftrightarrow> inc_upsert upd \<and> docs_ok ds"

lemma save_fold:
  assumes upd: "inc_upsert upd" and "docs_ok ds" and "distinct (map fst m)" and "\<forall>(u, n) \<in> set m. u \<noteq> []"
  shows "\<exists>ds'. go_fold (\<lambda>(user, n). upd user n) m ds = Inr ds' \<and> docs_ok ds' \<and>
           (\<forall>v. stored ds' v = stored ds v + get0 m v)"
  using assms(2-)
proof (induction m arbitrary: ds)
  case Nil
  then show ?case by (simp add: get0_def)
next
  case (Cons p m)
  obtain u n where p: "p = (u, n)" by (cases p)
  obtain ds1 where ds1: "upd u n ds = Inr ds1" "docs_ok ds1"
    "\<forall>v. stored ds1 v = stored ds v + (if v = u then n else 0)"
    using upd [unfolded inc_upsert_def, rule_format, OF Cons.prems(1), of u n] Cons.prems(3) p by auto
  obtain ds2 where ds2: "go_fold (\<lambda>(user, n). upd user n) m ds1 = Inr ds2" "docs_ok ds2"
    "\<forall>v. stored ds2 v = stored ds1 v + get0 m v"
    using Cons.IH [OF ds1(2)] Cons.prems(2,3) by auto
  have "map_of m u = None" using Cons.prems(2) p by (simp add: map_of_eq_None_iff)
  then have "get0 (p # m) v = get0 m v + (if v = u then n else 0)" for v by (simp add: get0_def p)
  then show ?case using ds1 ds2 p by auto
qed

lemma SaveAbortCount_ok:
  assumes "inc_upsert upd" and "docs_ok ds" and "\<forall>tx \<in> set txs. tx_User tx \<noteq> []"
  shows "\<exists>ds'. SaveAbortCount upd ord txs ids ds = Inr ds' \<and> docs_ok ds' \<and>
           (\<forall>user. stored ds' user = stored ds user + int (tally_of txs ids user))"
proof -
  have "u \<noteq> []" if "(u, n) \<in> set (abort_tally txs ids)" for u n
  proof -
    have "u \<in> tx_User ` set txs" using abort_tally_keys [of txs ids] that by force
    then show ?thesis using assms(3) by auto
  qed
  moreover have "get0 (in_order ord (abort_tally txs ids)) = get0 (abort_tally txs ids)"
  proof -
    have "map_of (in_order ord (abort_tally txs ids)) = map_of (abort_tally txs ids)"
      using abort_tally_distinct [of txs ids] by (subst map_of_inject_set) auto
    then show ?thesis by (simp add: get0_def fun_eq_iff)
  qed
  ultimately show ?thesis
    using save_fold [OF assms(1,2), of "in_order ord (abort_tally txs ids)"] abort_tally_distinct [of txs ids]
    by (auto simp: SaveAbortCount_def abort_tally_get)
qed

text \<open>
  Saving the aborts of a batch adds to every user's stored count exactly the number of the
  user's aborted transactions, and leaves every other count as it was; reading the counts back
  gives the sums.
\<close>

theorem SaveAbortCount_adds:
  assumes "inc_upsert upd" and "docs_ok ds" and "\<forall>tx \<in> set txs. tx_User tx \<noteq> []"
  shows "\<exists>ds'. SaveAbortCount upd ord txs ids ds = Inr ds' \<and> docs_ok ds' \<and>
           (\<forall>user. stored ds' user = stored ds user + int (tally_of txs ids user))"
  using assms by (rule SaveAbortCount_ok)

text \<open>An instance of \<open>UpdateOne\<close>: \<open>$inc\<close> adds to a number, starts a missing field at the increment and
  refuses any other value; upsert appends a document.\<close>

definition inc_count :: "int \<Rightarrow> count \<Rightarrow> count option" where
  "inc_count n c =
     (case c of
        Missing \<Rightarrow> Some (CInt32 n)
      | CInt32 k \<Rightarrow> Some (if - (2 ^ 31) \<le> k + n \<and> k + n < 2 ^ 31 then CInt32 (k + n) else CInt64 (k + n))
      | CInt64 k \<Rightarrow> Some (CInt64 (k + n))
      | CDouble k \<Rightarrow> Some (CDouble (k + n))
      | CText \<Rightarrow> None)"

fun update_one :: "string \<Rightarrow> int \<Rightarrow> docs \<Rightarrow> docs go" where
  "update_one user n [] = Inr [\<lparr>d_user = Some user, d_abortCount = CInt32 n\<rparr>]"
| "update_one user n (d # ds) =
     (if d_user d = Some user
      then (case inc_count n (d_abortCount d) of
              None \<Rightarrow> Inl (Fatal ''MongoDB update'')
            | Some c \<Rightarrow> Inr (d\<lparr>d_abortCount := c\<rparr> # ds))
      else go_bind (update_one user n ds) (\<lambda>ds'. Inr (d # ds')))"

lemma update_one_ok:
  assumes "docs_ok ds" and "user \<noteq> []"
  shows "\<exists>ds'. update_one user n ds = Inr ds' \<and> docs_ok ds' \<and>
           d_user ` set ds' = insert (Some user) (d_user ` set ds) \<and>
           (\<forall>v. stored ds' v = stored ds v + (if v = user then n else 0))"
  using assms
proof (induction ds)
  case Nil
  then show ?case
    by (auto simp: docs_ok_def stored_Cons stored_Nil count_int_def GetAbortCounts_def)
next
  case (Cons d ds)
  show ?case
  proof (cases "d_user d = Some user")
    case True
    then have none: "GetAbortCounts ds user = None"
      using Cons.prems(1) by (intro GetAbortCounts_notin) (auto simp: docs_ok_def)
    obtain c where c: "inc_count n (d_abortCount d) = Some c" "count_int c = count_int (d_abortCount d) + n"
      "\<exists>k. c = CInt32 k \<or> c = CInt64 k"
      using Cons.prems(1) by (auto simp: docs_ok_def inc_count_def count_int_def)
    then show ?thesis
      using True Cons.prems none
      by (auto simp: docs_ok_def stored_Cons split: option.split)
  next
    case False
    have "docs_ok ds" using Cons.prems(1) by (auto simp: docs_ok_def)
    then obtain ds' where ds': "update_one user n ds = Inr ds'" "docs_ok ds'"
      "d_user ` set ds' = insert (Some user) (d_user ` set ds)"
      "\<forall>v. stored ds' v = stored ds v + (if v = user then n else 0)" using Cons.IH Cons.prems(2) by blast
    have d: "d_user d \<notin> d_user ` set ds'" using False ds'(3) Cons.prems(1) by (auto simp: docs_ok_def)
    then have ok: "docs_ok (d # ds')" using ds'(2) Cons.prems(1) by (auto simp: docs_ok_def)
    have "stored (d # ds') v = stored (d # ds) v + (if v = user then n else 0)" for v
    proof (cases "d_user d = Some v")
      case True
      then have "GetAbortCounts ds v = None" "GetAbortCounts ds' v = None"
        using d Cons.prems(1) by (auto simp: docs_ok_def intro!: GetAbortCounts_notin)
      then show ?thesis using True False by (auto simp: stored_Cons)
    next
      case diff: False
      then have "stored (d # ds') v = stored ds' v" "stored (d # ds) v = stored ds v"
        unfolding stored_Cons by (simp_all add: stored_def split: option.split)
      then show ?thesis using ds'(4) by simp
    qed
    then show ?thesis using ds' ok False by auto
  qed
qed

lemma inc_upsert_update_one: "inc_upsert update_one"
  unfolding inc_upsert_def using update_one_ok by blast

theorem SaveAbortCount_adds_witness:
  "\<exists>ds'. SaveAbortCount update_one rev [tx_read 0 [] [''User1''], tx_read 1 [] [''User2'']] [1]
             [\<lparr>d_user = Some ''User2'', d_abortCount = CInt32 4\<rparr>] = Inr ds' \<and> docs_ok ds' \<and>
     (\<forall>user. stored ds' user = stored [\<lparr>d_user = Some ''User2'', d_abortCount = CInt32 4\<rparr>] user
        + int (tally_of [tx_read 0 [] [''User1''], tx_read 1 [] [''User2'']] [1] user))"
  by (rule SaveAbortCount_adds [OF inc_upsert_update_one]) (simp_all add: docs_ok_def tx_read_def)

end
