(* ===== verification/Ordering.thy ===== *)
theory Ordering
  imports Scheduler_Props Abort_Store
begin

text \<open>
  \<open>loopProcess\<close> of \<open>kafka/processor/processor.go\<close>: a batch of transactions is classified into
  read-only, urgent and normal ones, the urgent and then the normal ones are ordered by the
  scheduler, and the batch is emitted as an abort and a commit message. The protobuf and JSON
  libraries are the fields of \<open>wire_lib\<close>; what they decode a transaction into is modelled as far as
  the code looks at it. The marshalling of the emitted lists and the timestamps are left out.
\<close>

section \<open>What the libraries decode\<close>

datatype json = JBool bool | JObj "(string \<times> json) list" | JOther

record KVWrite =
  w_Key :: string
  w_Value :: "json option"

record NsRwSet =
  ns_Reads :: "string list"
  ns_Writes :: "KVWrite list"

text \<open>\<open>wl_batch\<close>: the JSON of \<open>TxData\<close>; \<open>wl_envelope\<close>: one serialized envelope; \<open>wl_actions\<close>: the actions of an
  envelope, each the read-write sets of its namespaces or \<open>None\<close> when they do not unmarshal. The
  last may panic (\<open>UnmarshalPayloadOrPanic\<close>, nil messages).\<close>

record 'e wire_lib =
  wl_batch :: "bytes \<Rightarrow> bytes list option"
  wl_envelope :: "bytes \<Rightarrow> 'e option"
  wl_actions :: "'e \<Rightarrow> NsRwSet list option list go"

datatype 'e emit = EmitAbort "'e list" | EmitCommit "'e list"

section \<open>Reading a transaction\<close>

definition json_field :: "string \<Rightarrow> json \<Rightarrow> json option" where
  "json_field k j = (case j of JObj fs \<Rightarrow> map_of (rev fs) k | _ \<Rightarrow> None)"

definition is_urgent :: "json option \<Rightarrow> bool" where
  "is_urgent v = (case v of
     Some (JObj fs) \<Rightarrow>
       (case json_field ''UserInfo'' (JObj fs) of
          Some (JObj us) \<Rightarrow> json_field ''Urgency'' (JObj us) = Some (JBool True)
        | _ \<Rightarrow> False)
   | _ \<Rightarrow> False)"

definition add_read :: "string \<Rightarrow> TxMeta \<times> bool \<Rightarrow> TxMeta \<times> bool" where
  "add_read key = (\<lambda>(meta, found).
     if key = ''namespaces/fields/basic/Sequence'' then (meta, found)
     else
       let meta = (if \<not> found then meta\<lparr>tx_User := key\<rparr> else meta)
       in (meta\<lparr>tx_Reads := tx_Reads meta @ [key]\<rparr>, True))"

definition add_write :: "KVWrite \<Rightarrow> TxMeta \<times> bool \<Rightarrow> TxMeta \<times> bool" where
  "add_write w = (\<lambda>(meta, found).
     let meta = (if \<not> found then meta\<lparr>tx_User := w_Key w\<rparr> else meta);
         meta = meta\<lparr>tx_Writes := tx_Writes meta @ [w_Key w]\<rparr>;
         meta = (if is_urgent (w_Value w) then meta\<lparr>tx_Urgency := True\<rparr> else meta)
     in (meta, True))"

definition read_action :: "nat \<Rightarrow> NsRwSet list \<Rightarrow> TxMeta" where
  "read_action i nss =
     fst (fold (\<lambda>ns st. fold add_write (ns_Writes ns) (fold add_read (ns_Reads ns) st)) nss
       (\<lparr>tx_Index = int i, tx_User = [], tx_Reads = [], tx_Writes = [], tx_Urgency = False\<rparr>, False))"

text \<open>The loop over the envelopes: one entry of both lists per action that unmarshals.\<close>

definition read_envelope ::
    "'e wire_lib \<Rightarrow> nat \<times> 'e \<Rightarrow> TxMeta list \<times> 'e list \<Rightarrow> (TxMeta list \<times> 'e list) go" where
  "read_envelope L = (\<lambda>(i, data) (metas, originals).
     go_bind (wl_actions L data) (\<lambda>actions.
       let nsss = concat (map (\<lambda>a. case a of None \<Rightarrow> [] | Some nss \<Rightarrow> [nss]) actions)
       in Inr (metas @ map (read_action i) nsss, originals @ map (\<lambda>_. data) nsss)))"

definition read_batch :: "'e wire_lib \<Rightarrow> 'e list \<Rightarrow> (TxMeta list \<times> 'e list) go" where
  "read_batch L kafkadata = go_fold (read_envelope L) (enumerate 0 kafkadata) ([], [])"

section \<open>Urgent against normal\<close>

text \<open>The keys of the committed urgent transactions: their user and what they write.\<close>

definition committed_users :: "TxMeta list \<Rightarrow> string list" where
  "committed_users txs = concat (map (\<lambda>tx. tx_User tx # tx_Writes tx) txs)"

definition checkbetweennormalandurgent :: "TxMeta list \<Rightarrow> TxMeta list \<Rightarrow> TxMeta list \<times> TxMeta list" where
  "checkbetweennormalandurgent normalList committedUrgent =
     (let committedUsers = committed_users committedUrgent;
          conflict = (\<lambda>tx. tx_User tx \<in> set committedUsers \<or>
                           list_ex (\<lambda>w. w \<in> set committedUsers) (tx_Writes tx))
      in fold (\<lambda>tx (serialIdx, abortIdx).
                if conflict tx then (serialIdx, abortIdx @ [tx]) else (serialIdx @ [tx], abortIdx))
           normalList ([], []))"

section \<open>reverseArray\<close>

text \<open>The loop swaps \<open>i\<close> and \<open>j\<close> inwards.\<close>

function swap_loop :: "nat \<Rightarrow> nat \<Rightarrow> 'e list \<Rightarrow> 'e list" where
  "swap_loop i j xs = (if i < j then swap_loop (i + 1) (j - 1) (xs[i := xs ! j, j := xs ! i]) else xs)"
  by pat_completeness auto
termination
  by (relation "measure (\<lambda>(i, j, xs). j - i)") auto

declare swap_loop.simps [simp del]

definition reverseArray :: "'e list \<Rightarrow> 'e list" where
  "reverseArray arr = (if arr = [] then [] else swap_loop 0 (length arr - 1) arr)"

section \<open>loopProcess\<close>

text \<open>Indexing with an \<open>int\<close>.\<close>

definition at :: "'a list \<Rightarrow> int \<Rightarrow> 'a go" where
  "at xs i = (if 0 \<le> i then go_index xs (nat i) else Inl Bounds)"

record 'e lists =
  l_Ordered :: "'e list"
  l_Abort :: "'e list"

text \<open>Classification: a read-only transaction goes straight to \<open>OrderedData\<close>.\<close>

definition is_read_only :: "TxMeta \<Rightarrow> bool" where
  "is_read_only meta \<longleftrightarrow> 0 < length (tx_Reads meta) \<and> length (tx_Writes meta) = 0"

definition read_only_data :: "'e list \<Rightarrow> TxMeta list \<Rightarrow> 'e list go" where
  "read_only_data originalData metas =
     go_map (\<lambda>meta. at originalData (tx_Index meta)) (filter is_read_only metas)"

definition urgent_list :: "TxMeta list \<Rightarrow> TxMeta list" where
  "urgent_list metas = filter (\<lambda>m. \<not> is_read_only m \<and> tx_Urgency m) metas"

definition normal_list :: "TxMeta list \<Rightarrow> TxMeta list" where
  "normal_list metas = filter (\<lambda>m. \<not> is_read_only m \<and> \<not> tx_Urgency m) metas"

text \<open>The urgent phase returns the committed urgent transactions, both lists and the counts.\<close>

definition urgent_phase ::
    "mongo \<Rightarrow> ((string \<times> int) list \<Rightarrow> (string \<times> int) list) \<Rightarrow>
     (nat \<Rightarrow> int list \<Rightarrow> int list) \<Rightarrow> TxMeta list \<Rightarrow> 'e list \<Rightarrow> TxMeta list \<Rightarrow> 'e lists \<Rightarrow> docs \<Rightarrow>
     (TxMeta list \<times> 'e lists \<times> docs) go" where
  "urgent_phase upd ordM ord txMetaList originalData urgentList ls ds =
     (if urgentList = [] then Inr ([], ls, ds)
      else go_bind (epsilonOrdering ord urgentList) (\<lambda>(serialIdx, abortUrgent).
        go_bind (go_map (\<lambda>i. go_bind (at txMetaList i) (\<lambda>m. go_bind (at originalData i) (\<lambda>d. Inr (m, d))))
                   serialIdx) (\<lambda>mds.
        go_bind (go_map (at originalData) abortUrgent) (\<lambda>aborted.
        go_bind (SaveAbortCount upd ordM urgentList abortUrgent ds) (\<lambda>ds.
          Inr (map fst mds,
               ls\<lparr>l_Ordered := l_Ordered ls @ map snd mds, l_Abort := l_Abort ls @ aborted\<rparr>, ds))))))"

text \<open>The normal phase. The numbers the scheduler returns are indices into the batch; the code
  uses them as positions in \<open>serialTX\<close>.\<close>

definition normal_phase ::
    "(nat \<Rightarrow> int list \<Rightarrow> int list) \<Rightarrow> 'e list \<Rightarrow> TxMeta list \<Rightarrow> TxMeta list \<Rightarrow> 'e lists \<Rightarrow> 'e lists go" where
  "normal_phase ord originalData normalList committedUrgent ls =
     (if normalList = [] then Inr ls
      else
        let (serialTX, abortBetween) = checkbetweennormalandurgent normalList committedUrgent
        in go_bind (go_map (\<lambda>tx. at originalData (tx_Index tx)) abortBetween) (\<lambda>aborted.
           go_bind (epsilonOrdering ord serialTX) (\<lambda>(serialIdx, abortNormal).
           go_bind (go_map (\<lambda>i. go_bind (at serialTX i) (\<lambda>tx. at originalData (tx_Index tx))) serialIdx) (\<lambda>ordered.
           go_bind (go_map (\<lambda>i. go_bind (at serialTX i) (\<lambda>tx. at originalData (tx_Index tx))) abortNormal) (\<lambda>aborted'.
             Inr (ls\<lparr>l_Ordered := l_Ordered ls @ ordered, l_Abort := (l_Abort ls @ aborted) @ aborted'\<rparr>))))))"

definition process_batch ::
    "mongo \<Rightarrow> ((string \<times> int) list \<Rightarrow> (string \<times> int) list) \<Rightarrow>
     (nat \<Rightarrow> int list \<Rightarrow> int list) \<Rightarrow> (nat \<Rightarrow> int list \<Rightarrow> int list) \<Rightarrow> TxMeta list \<Rightarrow> 'e list \<Rightarrow> docs \<Rightarrow>
     ('e emit list \<times> docs) go" where
  "process_batch upd ordM ordU ordN txMetaList originalData ds =
     go_bind (read_only_data originalData txMetaList) (\<lambda>readOnly.
     go_bind (urgent_phase upd ordM ordU txMetaList originalData (urgent_list txMetaList)
                \<lparr>l_Ordered = readOnly, l_Abort = []\<rparr> ds) (\<lambda>(committedUrgent, ls, ds).
     go_bind (normal_phase ordN originalData (normal_list txMetaList) committedUrgent ls) (\<lambda>ls.
       Inr ([EmitAbort (l_Abort ls), EmitCommit (reverseArray (l_Ordered ls))], ds))))"

definition loopProcess ::
    "'e wire_lib \<Rightarrow> mongo \<Rightarrow> ((string \<times> int) list \<Rightarrow> (string \<times> int) list) \<Rightarrow>
     (nat \<Rightarrow> int list \<Rightarrow> int list) \<Rightarrow> (nat \<Rightarrow> int list \<Rightarrow> int list) \<Rightarrow> bytes \<Rightarrow> docs \<Rightarrow>
     ('e emit list \<times> docs) go" where
  "loopProcess L upd ordM ordU ordN msg ds =
     (case wl_batch L msg of
        None \<Rightarrow> Inl (Fatal ''Failed to unmarshal JSON'')
      | Some batch \<Rightarrow>
          go_bind (go_map (\<lambda>b. case wl_envelope L b of
                       None \<Rightarrow> Inl (Fatal ''Failed to unmarshal envelope'') | Some e \<Rightarrow> Inr e) batch)
            (\<lambda>kafkadata.
               if length kafkadata = 1 then Inr ([EmitCommit kafkadata], ds)
               else go_bind (read_batch L kafkadata) (\<lambda>(txMetaList, originalData).
                      process_batch upd ordM ordU ordN txMetaList originalData ds)))"

end
