(* ===== verification/Ordering_Props.thy ===== *)
theory Ordering_Props
  imports Ordering
begin

text \<open>
  What \<open>loopProcess\<close> promises about a batch, and where it does not keep it: the ordering of
  conflicting transactions, the separation of urgent from normal ones, the batches for which it
  emits every transaction once, and the batches for which it panics.
\<close>

section \<open>Ordering a list of transactions\<close>

lemma epsilonOrdering_eq:
  assumes "\<forall>tx \<in> set txs. keys_ok 10000 tx"
  shows "epsilonOrdering ord txs = Inr (transactionScheduler ord (map tx_Index txs)
           (map (\<lambda>i. map (\<lambda>j. if i \<noteq> j \<and> conflicts (txs ! i) (txs ! j) then 1 else 0)
                  [0..<length txs]) [0..<length txs]))"
  using assms by (simp add: epsilonOrdering_def BuildRWSetGraph_eq)

lemma epsilonOrdering_ok:
  assumes "distinct (map tx_Index txs)" and "\<forall>tx \<in> set txs. keys_ok 10000 tx"
  shows "\<exists>s a. epsilonOrdering ord txs = Inr (s, a) \<and> distinct (s @ a) \<and>
    set s \<union> set a = tx_Index ` set txs \<and>
    (\<forall>t \<in> set txs. \<forall>u \<in> set txs. t \<noteq> u \<longrightarrow> tx_Index t \<in> set s \<longrightarrow> tx_Index u \<in> set s \<longrightarrow>
       (conflicts t u \<longrightarrow> before s (tx_Index t) (tx_Index u)) \<and>
       set (tx_Writes t) \<inter> set (tx_Writes u) = {})"
proof -
  let ?x = "map tx_Index txs"
  let ?m = "map (\<lambda>i. map (\<lambda>j. if i \<noteq> j \<and> conflicts (txs ! i) (txs ! j) then 1 else 0)
              [0..<length txs]) [0..<length txs] :: int list list"
  have len: "length ?m = length ?x" by simp
  obtain s a where sa: "transactionScheduler ord ?x ?m = (s, a)" and d: "distinct (s @ a)"
    and set: "set s \<union> set a = set ?x" using transactionScheduler_partition [OF len] by blast
  have ord: "before s (tx_Index t) (tx_Index u)"
    if tu: "t \<in> set txs" "u \<in> set txs" "t \<noteq> u" "tx_Index t \<in> set s" "tx_Index u \<in> set s" "conflicts t u" for t u
  proof -
    obtain i j where ij: "i < length txs" "t = txs ! i" "j < length txs" "u = txs ! j"
      using tu by (metis in_set_conv_nth)
    then have "?m ! i ! j = 1" using tu by auto
    then show ?thesis using transactionScheduler_order [OF len sa, of i j] ij tu by simp
  qed
  have ww: "set (tx_Writes t) \<inter> set (tx_Writes u) = {}"
    if tu: "t \<in> set txs" "u \<in> set txs" "t \<noteq> u" "tx_Index t \<in> set s" "tx_Index u \<in> set s" for t u
  proof (rule ccontr)
    assume "set (tx_Writes t) \<inter> set (tx_Writes u) \<noteq> {}"
    then have "conflicts t u" "conflicts u t" using conflicts_if_shared_key by auto
    then have "before s (tx_Index t) (tx_Index u)" "before s (tx_Index u) (tx_Index t)"
      using ord tu by auto
    then show False using before_asym [of s] d by auto
  qed
  show ?thesis
    using epsilonOrdering_eq [OF assms(2)] sa d set ord ww by auto
qed


text \<open>
  C4: Ordering transactions with distinct indices and keys in range never fails; it splits them
  into scheduled and aborted ones, each exactly once; of two scheduled transactions the one that
  reads or writes what the other writes comes first; so no two scheduled transactions write the
  same key.
\<close>

theorem epsilonOrdering_correct:
  assumes "distinct (map tx_Index txs)" and "\<forall>tx \<in> set txs. keys_ok 10000 tx"
  shows "\<exists>s a. epsilonOrdering ord txs = Inr (s, a) \<and> distinct (s @ a) \<and>
    set s \<union> set a = tx_Index ` set txs \<and>
    (\<forall>t \<in> set txs. \<forall>u \<in> set txs. t \<noteq> u \<longrightarrow> tx_Index t \<in> set s \<longrightarrow> tx_Index u \<in> set s \<longrightarrow>
       (conflicts t u \<longrightarrow> before s (tx_Index t) (tx_Index u)) \<and>
       set (tx_Writes t) \<inter> set (tx_Writes u) = {})"
  using assms by (rule epsilonOrdering_ok)

theorem epsilonOrdering_correct_witness:
  "\<exists>s a. epsilonOrdering (\<lambda>_. rev) [tx_read 3 [''User1''] [''User2''], tx_read 5 [''User2''] [''User2'']]
       = Inr (s, a) \<and> distinct (s @ a) \<and> set s \<union> set a = {3, 5}"
proof -
  have "distinct (map tx_Index [tx_read 3 [''User1''] [''User2''], tx_read 5 [''User2''] [''User2'']])"
    and "\<forall>tx \<in> set [tx_read 3 [''User1''] [''User2''], tx_read 5 [''User2''] [''User2'']]. keys_ok 10000 tx"
    by (simp_all add: tx_read_def keys_ok_def key_ok_def idx_values)
  from epsilonOrdering_correct [OF this, of "\<lambda>_. rev"] show ?thesis by (auto simp: tx_read_def)
qed

section \<open>reverseArray\<close>

lemma length_swap_loop [simp]: "length (swap_loop i j xs) = length xs"
proof (induction i j xs rule: swap_loop.induct)
  case (1 i j xs)
  then show ?case by (subst swap_loop.simps) simp
qed

lemma swap_loop_nth:
  assumes "j < length xs" and "k < length xs"
  shows "swap_loop i j xs ! k = (if i \<le> k \<and> k \<le> j then xs ! (i + j - k) else xs ! k)"
  using assms
proof (induction i j xs arbitrary: k rule: swap_loop.induct)
  case (1 i j xs)
  show ?case
  proof (cases "i < j")
    case True
    have "swap_loop i j xs ! k = swap_loop (i + 1) (j - 1) (xs[i := xs ! j, j := xs ! i]) ! k"
      using True by (subst swap_loop.simps) simp
    also have "\<dots> = (if i + 1 \<le> k \<and> k \<le> j - 1 then xs[i := xs ! j, j := xs ! i] ! (i + 1 + (j - 1) - k)
                     else xs[i := xs ! j, j := xs ! i] ! k)"
      using 1 True by simp
    also have "\<dots> = (if i \<le> k \<and> k \<le> j then xs ! (i + j - k) else xs ! k)"
      using True "1.prems" by (auto simp: nth_list_update)
    finally show ?thesis .
  next
    case False
    then have "swap_loop i j xs = xs" by (subst swap_loop.simps) simp
    moreover have "i + j - k = k" if "i \<le> k" "k \<le> j" using False that by simp
    ultimately show ?thesis by simp
  qed
qed

lemma reverseArray_eq: "reverseArray arr = rev arr"
proof (cases "arr = []")
  case False
  then have "swap_loop 0 (length arr - 1) arr = rev arr"
    by (intro nth_equalityI) (auto simp: swap_loop_nth rev_nth)
  then show ?thesis using False by (simp add: reverseArray_def)
qed (simp add: reverseArray_def)

text \<open>
  The swapping loop of \<open>reverseArray\<close> computes the reverse of its argument.
\<close>

theorem reverseArray_rev: "reverseArray arr = rev arr"
  by (rule reverseArray_eq)

section \<open>Urgent against normal\<close>

definition touches :: "TxMeta list \<Rightarrow> TxMeta \<Rightarrow> bool" where
  "touches urgent tx \<longleftrightarrow>
     (\<exists>u \<in> set urgent. \<exists>k \<in> insert (tx_User tx) (set (tx_Writes tx)). k = tx_User u \<or> k \<in> set (tx_Writes u))"

lemma check_eq:
  "checkbetweennormalandurgent normal urgent
     = (filter (\<lambda>tx. \<not> touches urgent tx) normal, filter (touches urgent) normal)"
proof -
  have users: "k \<in> set (committed_users urgent) \<longleftrightarrow> (\<exists>u \<in> set urgent. k = tx_User u \<or> k \<in> set (tx_Writes u))" for k
    by (auto simp: committed_users_def)
  have part: "fold (\<lambda>tx (s, a). if P tx then (s, a @ [tx]) else (s @ [tx], a)) xs (s, a)
      = (s @ filter (\<lambda>tx. \<not> P tx) xs, a @ filter P xs)" for P :: "TxMeta \<Rightarrow> bool" and xs s a
    by (induction xs arbitrary: s a) auto
  have conflict: "(tx_User tx \<in> set (committed_users urgent) \<or>
      list_ex (\<lambda>w. w \<in> set (committed_users urgent)) (tx_Writes tx)) = touches urgent tx" for tx
    by (auto simp: touches_def users list_ex_iff)
  show ?thesis
    by (simp only: checkbetweennormalandurgent_def Let_def conflict part append_Nil)
qed

text \<open>
  A normal transaction is set aside exactly when its user, or a key it writes, is the user of
  or a key written by a committed urgent transaction; the others keep their order.
\<close>

theorem check_separates:
  "checkbetweennormalandurgent normal urgent
     = (filter (\<lambda>tx. \<not> touches urgent tx) normal, filter (touches urgent) normal)"
  by (rule check_eq)

section \<open>Batches\<close>

text \<open>One action per envelope, so that the index of an entry is its position.\<close>

definition wf_batch :: "TxMeta list \<Rightarrow> 'e list \<Rightarrow> bool" where
  "wf_batch metas originals \<longleftrightarrow>
     length originals = length metas \<and> map tx_Index metas = map int [0..<length metas] \<and>
     (\<forall>tx \<in> set metas. keys_ok 10000 tx)"

lemma at_int [simp]: "at xs (int i) = go_index xs i"
  by (simp add: at_def)

lemma wf_index:
  assumes "wf_batch metas originals" and "tx \<in> set metas"
  shows "\<exists>i < length metas. tx = metas ! i \<and> tx_Index tx = int i \<and>
           at originals (tx_Index tx) = Inr (originals ! i) \<and> at metas (tx_Index tx) = Inr tx"
proof -
  obtain i where i: "i < length metas" "tx = metas ! i" using assms(2) by (metis in_set_conv_nth)
  then have "tx_Index tx = int i"
    using assms(1) by (metis (no_types, lifting) wf_batch_def add_0 diff_zero length_upt nth_map nth_upt)
  then show ?thesis using i assms(1) by (auto simp: wf_batch_def)
qed

lemma wf_distinct: "wf_batch metas originals \<Longrightarrow> distinct (map tx_Index metas)"
  by (simp add: wf_batch_def distinct_map inj_on_def)

lemma go_map_at_out:
  assumes "i \<in> set is" and "f i = Inl Bounds" and "\<And>j e. j \<in> set is \<Longrightarrow> f j = Inl e \<Longrightarrow> e = Bounds"
  shows "go_map f is = Inl Bounds"
  using assms
proof (induction "is")
  case (Cons j js)
  show ?case
  proof (cases "f j")
    case (Inl e)
    then show ?thesis using Cons.prems(3) [of j] by simp
  next
    case (Inr y)
    then have "go_map f js = Inl Bounds" using Cons by (cases "j = i") auto
    then show ?thesis using Inr by simp
  qed
qed simp

lemma go_map_error:
  assumes "\<And>x e. f x = Inl e \<Longrightarrow> e = Bounds"
  shows "go_map f xs = Inl Bounds \<or> (\<exists>ys. go_map f xs = Inr ys)"
proof (induction xs)
  case (Cons x xs)
  then show ?case using assms [of x] by (cases "f x") auto
qed simp

text \<open>The lookup of the normal phase: position, then index.\<close>

definition pick :: "'e list \<Rightarrow> TxMeta list \<Rightarrow> int \<Rightarrow> 'e go" where
  "pick originals serialTX i = go_bind (at serialTX i) (\<lambda>tx. at originals (tx_Index tx))"

lemma pick_error: "pick originals serialTX i = Inl e \<Longrightarrow> e = Bounds"
  by (auto simp: pick_def at_def go_index_def go_bind_Inl_iff split: if_splits)

section \<open>Which positions a phase touches\<close>

definition env_of :: "'e list \<Rightarrow> int \<Rightarrow> 'e" where
  "env_of originals i = originals ! nat i"

lemma wf_filter:
  assumes "wf_batch metas originals"
  shows "map tx_Index (filter P metas) = map int (filter (\<lambda>i. P (metas ! i)) [0..<length metas])"
proof -
  have "tx_Index (metas ! i) = int i" if "i < length metas" for i
    using assms that by (metis (no_types, lifting) wf_batch_def add_0 diff_zero length_upt nth_map nth_upt)
  then have "map (\<lambda>i. tx_Index (metas ! i)) (filter (\<lambda>i. P (metas ! i)) [0..<length metas])
      = map int (filter (\<lambda>i. P (metas ! i)) [0..<length metas])" by simp
  moreover have "filter P metas = map (nth metas) (filter (\<lambda>i. P (metas ! i)) [0..<length metas])"
    using filter_map [of P "nth metas" "[0..<length metas]"] by (simp add: map_nth comp_def)
  ultimately show ?thesis by (simp add: comp_def)
qed

lemma sub_interval: 
  assumes "sorted_wrt (<) (js :: nat list)" and "\<forall>j \<in> set js. j < length js"
  shows "js = [0..<length js]"
proof -
  have "distinct js" "sorted js" using assms(1) by (simp_all add: strict_sorted_iff)
  moreover have "set js = {0..<length js}"
    using assms(2) \<open>distinct js\<close> by (intro card_subset_eq) (auto simp: distinct_card)
  ultimately show ?thesis by (intro sorted_distinct_set_unique) auto
qed

lemma wf_filter_dense:
  assumes "wf_batch metas originals" and "\<forall>tx \<in> set (filter P metas). tx_Index tx < int (length (filter P metas))"
  shows "map tx_Index (filter P metas) = map int [0..<length (filter P metas)]"
proof -
  let ?js = "filter (\<lambda>i. P (metas ! i)) [0..<length metas]"
  have e: "map tx_Index (filter P metas) = map int ?js" by (rule wf_filter [OF assms(1)])
  then have l: "length ?js = length (filter P metas)" by (metis length_map)
  have "sorted_wrt (<) ?js" by (simp add: sorted_wrt_filter)
  moreover have "int j < int (length ?js)" if "j \<in> set ?js" for j
  proof -
    have "int j \<in> set (map tx_Index (filter P metas))" unfolding e using that by auto
    then obtain tx where "tx \<in> set (filter P metas)" "tx_Index tx = int j" by auto
    then show ?thesis using assms(2) l by fastforce
  qed
  ultimately have "?js = [0..<length ?js]" by (intro sub_interval) auto
  then show ?thesis using e l by simp
qed

lemma envelopes_filter:
  assumes "wf_batch metas originals" and "set txs \<subseteq> set metas"
  shows "go_map (\<lambda>tx. at originals (tx_Index tx)) txs = Inr (map (env_of originals) (map tx_Index txs))"
proof -
  have "at originals (tx_Index tx) = Inr (env_of originals (tx_Index tx))" if "tx \<in> set txs" for tx
    using wf_index [OF assms(1)] that assms(2) by (fastforce simp: env_of_def)
  then show ?thesis by (simp add: go_map_total)
qed

lemma envelopes_all:
  assumes "wf_batch metas originals"
  shows "image_mset (env_of originals) (image_mset tx_Index (mset metas)) = mset originals"
proof -
  have "map (env_of originals) (map tx_Index metas) = map (nth originals) [0..<length originals]"
    using assms by (simp add: wf_batch_def env_of_def)
  then have "mset (map (env_of originals) (map tx_Index metas)) = mset originals"
    by (simp only: map_nth)
  then show ?thesis by (simp add: multiset.map_comp)
qed

section \<open>The phases\<close>

text \<open>What an ordered list of transactions yields: the two index lists share out the indices.\<close>

lemma epsilonOrdering_mset:
  assumes "wf_batch metas originals"
  shows "\<exists>s a. epsilonOrdering ord (filter P metas) = Inr (s, a) \<and> distinct (s @ a) \<and>
    set s \<union> set a = tx_Index ` set (filter P metas) \<and>
    mset s + mset a = image_mset tx_Index (mset (filter P metas))"
proof -
  have d: "distinct (map tx_Index (filter P metas))"
    by (rule distinct_map_filterI [OF wf_distinct [OF assms]])
  moreover have "\<forall>tx \<in> set (filter P metas). keys_ok 10000 tx" using assms by (simp add: wf_batch_def)
  ultimately obtain s a where sa: "epsilonOrdering ord (filter P metas) = Inr (s, a)" "distinct (s @ a)"
    "set s \<union> set a = tx_Index ` set (filter P metas)" using epsilonOrdering_ok by blast
  have "mset (s @ a) = mset (map tx_Index (filter P metas))"
    using sa d by (subst set_eq_iff_mset_eq_distinct [symmetric]) auto
  then show ?thesis using sa by (intro exI [of _ s] exI [of _ a]) simp
qed

lemma at_env:
  assumes "wf_batch metas originals" and "i \<in> tx_Index ` set metas"
  shows "at originals i = Inr (env_of originals i) \<and> at metas i = Inr (metas ! nat i)"
  using wf_index [OF assms(1)] assms(2) by (fastforce simp: env_of_def)

lemma urgent_phase_ok:
  assumes wf: "wf_batch metas originals" and ds: "store_ok upd ds"
    and users: "\<forall>tx \<in> set (urgent_list metas). tx_User tx \<noteq> []"
  shows "\<exists>s a ds'. urgent_phase upd ordM ord metas originals (urgent_list metas) ls ds =
      Inr (map (\<lambda>i. metas ! nat i) s, ls\<lparr>l_Ordered := l_Ordered ls @ map (env_of originals) s,
             l_Abort := l_Abort ls @ map (env_of originals) a\<rparr>, ds') \<and> docs_ok ds' \<and>
      mset s + mset a = image_mset tx_Index (mset (urgent_list metas)) \<and>
      (\<forall>user. stored ds' user = stored ds user + int (tally_of (urgent_list metas) a user))"
proof (cases "urgent_list metas = []")
  case True
  then have "tally_of (urgent_list metas) [] user = 0" for user by (simp add: tally_of_def)
  then show ?thesis using True ds
    by - (rule exI [of _ "[]"], rule exI [of _ "[]"], rule exI [of _ ds], simp add: urgent_phase_def store_ok_def)
next
  case False
  obtain s a where sa: "epsilonOrdering ord (urgent_list metas) = Inr (s, a)"
    "set s \<union> set a = tx_Index ` set (urgent_list metas)"
    "mset s + mset a = image_mset tx_Index (mset (urgent_list metas))"
    using epsilonOrdering_mset [OF wf] unfolding urgent_list_def by blast
  obtain ds' where ds': "SaveAbortCount upd ordM (urgent_list metas) a ds = Inr ds'" "docs_ok ds'"
    "\<forall>user. stored ds' user = stored ds user + int (tally_of (urgent_list metas) a user)"
    using SaveAbortCount_ok [OF _ _ users, of upd ds] ds unfolding store_ok_def by blast
  have "i \<in> tx_Index ` set metas" if "i \<in> set s \<union> set a" for i
    using that unfolding sa(2) by (auto simp: urgent_list_def)
  then have at: "at originals i = Inr (env_of originals i)" "at metas i = Inr (metas ! nat i)"
    if "i \<in> set s \<union> set a" for i using at_env [OF wf] that by blast+
  have "go_map (\<lambda>i. go_bind (at metas i) (\<lambda>m. go_bind (at originals i) (\<lambda>d. Inr (m, d)))) s
      = Inr (map (\<lambda>i. (metas ! nat i, env_of originals i)) s)"
    by (rule go_map_total) (simp add: at)
  moreover have "go_map (at originals) a = Inr (map (env_of originals) a)"
    by (rule go_map_total) (simp add: at)
  ultimately show ?thesis
    using False sa(1,3) ds'
    by (intro exI [of _ s] exI [of _ a] exI [of _ ds']) (simp add: urgent_phase_def comp_def)
qed

lemma pick_eq:
  assumes wf: "wf_batch metas originals" and "set txs \<subseteq> set metas"
  shows "pick originals txs i = (if 0 \<le> i \<and> i < int (length txs)
           then Inr (env_of originals (tx_Index (txs ! nat i))) else Inl Bounds)"
proof (cases "0 \<le> i \<and> i < int (length txs)")
  case True
  then have "txs ! nat i \<in> set metas" using assms(2) by (auto simp: subset_iff)
  then have "at originals (tx_Index (txs ! nat i)) = Inr (env_of originals (tx_Index (txs ! nat i)))"
    using at_env [OF wf] by blast
  then show ?thesis using True by (simp add: pick_def at_def nat_less_iff)
next
  case False
  then show ?thesis by (auto simp: pick_def at_def nat_less_iff)
qed

definition survivors :: "TxMeta list \<Rightarrow> TxMeta list \<Rightarrow> TxMeta list" where
  "survivors metas urgent = filter (\<lambda>m. \<not> is_read_only m \<and> \<not> tx_Urgency m \<and> \<not> touches urgent m) metas"

lemma survivors_eq: "filter (\<lambda>tx. \<not> touches urgent tx) (normal_list metas) = survivors metas urgent"
  by (simp add: survivors_def normal_list_def)

text \<open>The indices of the surviving normal transactions are the first numbers.\<close>

definition dense :: "TxMeta list \<Rightarrow> bool" where
  "dense txs \<longleftrightarrow> map tx_Index txs = map int [0..<length txs]"

lemma dense_iff:
  assumes "wf_batch metas originals"
  shows "dense (survivors metas urgent) \<longleftrightarrow>
    (\<forall>tx \<in> set (survivors metas urgent). tx_Index tx < int (length (survivors metas urgent)))"
proof
  assume d: "dense (survivors metas urgent)"
  show "\<forall>tx \<in> set (survivors metas urgent). tx_Index tx < int (length (survivors metas urgent))"
  proof
    fix tx assume "tx \<in> set (survivors metas urgent)"
    then have "tx_Index tx \<in> set (map tx_Index (survivors metas urgent))" by simp
    then show "tx_Index tx < int (length (survivors metas urgent))"
      using d unfolding dense_def by auto
  qed
next
  assume "\<forall>tx \<in> set (survivors metas urgent). tx_Index tx < int (length (survivors metas urgent))"
  then show "dense (survivors metas urgent)"
    unfolding dense_def survivors_def by (rule wf_filter_dense [OF assms])
qed

lemma normal_phase_ok:
  assumes wf: "wf_batch metas originals" and dense: "dense (survivors metas urgent)"
  shows "\<exists>s a. normal_phase ord originals (normal_list metas) urgent ls =
      Inr (ls\<lparr>l_Ordered := l_Ordered ls @ map (env_of originals) s,
              l_Abort := l_Abort ls @ map (env_of originals)
                (map tx_Index (filter (touches urgent) (normal_list metas)) @ a)\<rparr>) \<and>
      epsilonOrdering ord (survivors metas urgent) = Inr (s, a) \<and>
      mset s + mset a = image_mset tx_Index (mset (survivors metas urgent))"
proof -
  let ?S = "survivors metas urgent"
  obtain s a where sa: "epsilonOrdering ord ?S = Inr (s, a)" "set s \<union> set a = tx_Index ` set ?S"
    "mset s + mset a = image_mset tx_Index (mset ?S)"
    using epsilonOrdering_mset [OF wf] unfolding survivors_def by blast
  have sub: "set ?S \<subseteq> set metas" by (auto simp: survivors_def)
  have pick: "pick originals ?S i = Inr (env_of originals i)" if "i \<in> set s \<union> set a" for i
  proof -
    have "i \<in> set (map tx_Index ?S)" using that unfolding sa(2) by simp
    then obtain k where k: "i = int k" "k < length ?S" using dense unfolding dense_def by auto
    then have "map tx_Index ?S ! k = int k" using dense unfolding dense_def by simp
    then show ?thesis using k by (simp add: pick_eq [OF wf sub])
  qed
  have "go_map (pick originals ?S) s = Inr (map (env_of originals) s)"
    and "go_map (pick originals ?S) a = Inr (map (env_of originals) a)"
    by (rule go_map_total, simp add: pick)+
  moreover have "go_map (\<lambda>tx. at originals (tx_Index tx)) (filter (touches urgent) (normal_list metas))
      = Inr (map (env_of originals) (map tx_Index (filter (touches urgent) (normal_list metas))))"
    by (rule envelopes_filter [OF wf]) (auto simp: normal_list_def)
  ultimately have "normal_list metas \<noteq> [] \<Longrightarrow> ?thesis"
    using sa(1,3) by (intro exI [of _ s] exI [of _ a])
      (simp add: normal_phase_def check_eq survivors_eq pick_def [abs_def])
  moreover have "normal_list metas = [] \<Longrightarrow> ?thesis"
    using sa by (intro exI [of _ s] exI [of _ a])
      (auto simp: normal_phase_def survivors_eq [symmetric])
  ultimately show ?thesis by blast
qed

lemma normal_phase_bounds:
  assumes wf: "wf_batch metas originals" and sparse: "\<not> dense (survivors metas urgent)"
  shows "normal_phase ord originals (normal_list metas) urgent ls = Inl Bounds"
proof -
  let ?S = "survivors metas urgent"
  obtain s a where sa: "epsilonOrdering ord ?S = Inr (s, a)" "set s \<union> set a = tx_Index ` set ?S"
    using epsilonOrdering_mset [OF wf] unfolding survivors_def by blast
  have sub: "set ?S \<subseteq> set metas" by (auto simp: survivors_def)
  obtain tx where "tx \<in> set ?S" "\<not> tx_Index tx < int (length ?S)"
    using sparse unfolding dense_iff [OF wf] by blast
  then have "tx_Index tx \<in> set s \<union> set a" and out: "pick originals ?S (tx_Index tx) = Inl Bounds"
    unfolding sa(2) by (auto simp: pick_eq [OF wf sub])
  moreover have "go_map (pick originals ?S) s = Inl Bounds" if "tx_Index tx \<in> set s"
    by (rule go_map_at_out [of "tx_Index tx"]) (use that out pick_error in auto)
  moreover have "go_map (pick originals ?S) a = Inl Bounds" if "tx_Index tx \<in> set a"
    by (rule go_map_at_out [of "tx_Index tx"]) (use that out pick_error in auto)
  moreover have "go_map (pick originals ?S) s = Inl Bounds \<or> (\<exists>xs. go_map (pick originals ?S) s = Inr xs)"
    using go_map_error [of "pick originals ?S"] pick_error by blast
  moreover have "go_map (\<lambda>tx. at originals (tx_Index tx)) (filter (touches urgent) (normal_list metas))
      = Inr (map (env_of originals) (map tx_Index (filter (touches urgent) (normal_list metas))))"
    by (rule envelopes_filter [OF wf]) (auto simp: normal_list_def)
  moreover have "normal_list metas \<noteq> []"
    using sparse by (auto simp: survivors_eq [symmetric] dense_def)
  ultimately show ?thesis
    using sa(1) by (auto simp: normal_phase_def check_eq survivors_eq pick_def [abs_def])
qed

section \<open>Whole batches\<close>

definition ids :: "TxMeta list \<Rightarrow> int list" where
  "ids txs = map tx_Index txs"

text \<open>The outcome of a batch in terms of the two index lists of each phase.\<close>

definition batch_outcome ::
    "(nat \<Rightarrow> int list \<Rightarrow> int list) \<Rightarrow> TxMeta list \<Rightarrow> 'e list \<Rightarrow> int list \<Rightarrow> int list \<Rightarrow> TxMeta list \<Rightarrow> docs \<Rightarrow>
     ('e emit list \<times> docs) go \<Rightarrow> bool" where
  "batch_outcome ordN metas originals su au urgent ds' r \<longleftrightarrow>
     (if dense (survivors metas urgent)
      then \<exists>sn an. epsilonOrdering ordN (survivors metas urgent) = Inr (sn, an) \<and>
             mset sn + mset an = mset (ids (survivors metas urgent)) \<and>
             r = Inr ([EmitAbort (map (env_of originals) (au @ ids (filter (touches urgent) (normal_list metas)) @ an)),
                       EmitCommit (rev (map (env_of originals) (ids (filter is_read_only metas) @ su @ sn)))], ds')
      else r = Inl Bounds)"

lemma process_batch_eq:
  assumes wf: "wf_batch metas originals" and ds: "store_ok upd ds"
    and users: "\<forall>tx \<in> set (urgent_list metas). tx_User tx \<noteq> []"
  shows "\<exists>su au ds' urgent. urgent = map (\<lambda>i. metas ! nat i) su \<and>
    mset su + mset au = mset (ids (urgent_list metas)) \<and> docs_ok ds' \<and>
    (\<forall>user. stored ds' user = stored ds user + int (tally_of (urgent_list metas) au user)) \<and>
    batch_outcome ordN metas originals su au urgent ds' (process_batch upd ordM ordU ordN metas originals ds)"
proof -
  have ro: "read_only_data originals metas = Inr (map (env_of originals) (ids (filter is_read_only metas)))"
    unfolding read_only_data_def ids_def by (rule envelopes_filter [OF wf]) auto
  let ?ls = "\<lparr>l_Ordered = map (env_of originals) (ids (filter is_read_only metas)), l_Abort = []\<rparr>"
  obtain su au ds' where u: "urgent_phase upd ordM ordU metas originals (urgent_list metas) ?ls ds =
      Inr (map (\<lambda>i. metas ! nat i) su, ?ls\<lparr>l_Ordered := l_Ordered ?ls @ map (env_of originals) su,
             l_Abort := l_Abort ?ls @ map (env_of originals) au\<rparr>, ds')" "docs_ok ds'"
      "mset su + mset au = mset (ids (urgent_list metas))"
      "\<forall>user. stored ds' user = stored ds user + int (tally_of (urgent_list metas) au user)"
    using urgent_phase_ok [OF wf ds users, of ordM ordU ?ls] by (auto simp: ids_def)
  define urgent where "urgent = map (\<lambda>i. metas ! nat i) su"
  show ?thesis
  proof (cases "dense (survivors metas urgent)")
    case True
    let ?ls' = "?ls\<lparr>l_Ordered := l_Ordered ?ls @ map (env_of originals) su,
             l_Abort := l_Abort ?ls @ map (env_of originals) au\<rparr>"
    obtain sn an where n: "epsilonOrdering ordN (survivors metas urgent) = Inr (sn, an)"
      "mset sn + mset an = mset (ids (survivors metas urgent))"
      "normal_phase ordN originals (normal_list metas) urgent ?ls' =
        Inr (?ls'\<lparr>l_Ordered := l_Ordered ?ls' @ map (env_of originals) sn,
              l_Abort := l_Abort ?ls' @ map (env_of originals)
                (ids (filter (touches urgent) (normal_list metas)) @ an)\<rparr>)"
      using normal_phase_ok [OF wf True, of ordN ?ls'] unfolding ids_def mset_map by blast
    have "process_batch upd ordM ordU ordN metas originals ds = Inr
              ([EmitAbort (map (env_of originals) (au @ ids (filter (touches urgent) (normal_list metas)) @ an)),
                EmitCommit (rev (map (env_of originals) (ids (filter is_read_only metas) @ su @ sn)))], ds')"
      using n(3) by (simp add: process_batch_def ro u(1) urgent_def [symmetric] reverseArray_eq)
    then have "batch_outcome ordN metas originals su au urgent ds' (process_batch upd ordM ordU ordN metas originals ds)"
      using n(1,2) True by (auto simp: batch_outcome_def)
    then show ?thesis using u urgent_def
      by - (rule exI [of _ su], rule exI [of _ au], rule exI [of _ ds'], rule exI [of _ urgent], simp)
  next
    case False
    then have "process_batch upd ordM ordU ordN metas originals ds = Inl Bounds"
      by (simp add: process_batch_def ro u(1) urgent_def [symmetric] normal_phase_bounds [OF wf])
    then have "batch_outcome ordN metas originals su au urgent ds' (process_batch upd ordM ordU ordN metas originals ds)"
      using False by (simp add: batch_outcome_def)
    then show ?thesis using u urgent_def
      by - (rule exI [of _ su], rule exI [of _ au], rule exI [of _ ds'], rule exI [of _ urgent], simp)
  qed
qed

text \<open>The four groups of a batch share out its transactions.\<close>

lemma batch_groups:
  "mset metas = mset (filter is_read_only metas) + mset (urgent_list metas) +
     mset (filter (touches urgent) (normal_list metas)) + mset (survivors metas urgent)"
proof -
  let ?rest = "filter (\<lambda>m. \<not> is_read_only m) metas"
  have part: "mset xs = mset (filter P xs) + mset (filter (\<lambda>x. \<not> P x) xs)" for P and xs :: "TxMeta list"
    unfolding mset_filter by (rule multiset_partition)
  have u: "filter tx_Urgency ?rest = urgent_list metas" "filter (\<lambda>m. \<not> tx_Urgency m) ?rest = normal_list metas"
    by (simp_all add: urgent_list_def normal_list_def conj_commute)
  have a: "mset metas = mset (filter is_read_only metas) + mset ?rest" by (rule part)
  have b: "mset ?rest = mset (urgent_list metas) + mset (normal_list metas)"
    using part [of ?rest tx_Urgency] unfolding u .
  have c: "mset (normal_list metas) = mset (filter (touches urgent) (normal_list metas)) + mset (survivors metas urgent)"
    using part [of "normal_list metas" "touches urgent"] unfolding survivors_eq .
  show ?thesis by (simp only: a b c add.assoc)
qed

lemma batch_ids:
  "mset (ids (filter is_read_only metas)) + mset (ids (urgent_list metas)) +
     mset (ids (filter (touches urgent) (normal_list metas))) + mset (ids (survivors metas urgent))
   = image_mset tx_Index (mset metas)"
proof -
  have "image_mset tx_Index (mset metas) = image_mset tx_Index (mset (filter is_read_only metas) +
     mset (urgent_list metas) + mset (filter (touches urgent) (normal_list metas)) + mset (survivors metas urgent))"
    using batch_groups [of metas urgent] by (rule arg_cong)
  then show ?thesis by (simp only: ids_def mset_map image_mset_union)
qed

text \<open>
  A batch with one action per envelope either panics on an index out of range or emits one abort
  and one commit message, and then every envelope is in exactly one of the two, exactly once.
\<close>

theorem batch_conserved:
  assumes "wf_batch metas originals" and "store_ok upd ds"
    and "\<forall>tx \<in> set (urgent_list metas). tx_User tx \<noteq> []"
  shows "case process_batch upd ordM ordU ordN metas originals ds of
      Inl e \<Rightarrow> e = Bounds
    | Inr (ems, ds') \<Rightarrow> docs_ok ds' \<and>
        (\<exists>A C. ems = [EmitAbort A, EmitCommit C] \<and> mset A + mset C = mset originals)"
proof -
  obtain su au ds' urgent where u: "urgent = map (\<lambda>i. metas ! nat i) su"
    "mset su + mset au = mset (ids (urgent_list metas))" "docs_ok ds'"
    and out: "batch_outcome ordN metas originals su au urgent ds' (process_batch upd ordM ordU ordN metas originals ds)"
    using process_batch_eq [OF assms, of ordN ordM ordU] by blast
  show ?thesis
  proof (cases "dense (survivors metas urgent)")
    case True
    then obtain sn an where n: "mset sn + mset an = mset (ids (survivors metas urgent))"
      "process_batch upd ordM ordU ordN metas originals ds = Inr
         ([EmitAbort (map (env_of originals) (au @ ids (filter (touches urgent) (normal_list metas)) @ an)),
           EmitCommit (rev (map (env_of originals) (ids (filter is_read_only metas) @ su @ sn)))], ds')"
      using out by (auto simp only: batch_outcome_def if_True)
    let ?A = "au @ ids (filter (touches urgent) (normal_list metas)) @ an"
    let ?C = "ids (filter is_read_only metas) @ su @ sn"
    have "mset ?A + mset ?C = mset (ids (filter is_read_only metas)) + (mset su + mset au) +
        mset (ids (filter (touches urgent) (normal_list metas))) + (mset sn + mset an)"
      by (simp only: mset_append ac_simps)
    also have "\<dots> = image_mset tx_Index (mset metas)"
      unfolding u(2) n(1) by (rule batch_ids)
    finally have "mset (map (env_of originals) ?A) + mset (rev (map (env_of originals) ?C)) = mset originals"
      by (simp only: mset_rev mset_map image_mset_union [symmetric] envelopes_all [OF assms(1)])
    then show ?thesis using u(3) by (simp only: n(2) sum.case prod.case) blast
  next
    case False
    then show ?thesis using out by (simp add: batch_outcome_def)
  qed
qed

lemma wf_ids: "wf_batch metas originals \<Longrightarrow> ids metas = map int [0..<length metas]"
  by (simp add: ids_def wf_batch_def)

lemma wf_tx_Index: "wf_batch metas originals \<Longrightarrow> i < length metas \<Longrightarrow> tx_Index (metas ! i) = int i"
  using wf_ids [of metas originals] by (metis ids_def nth_map map_nth length_map nth_upt add_0 diff_zero length_upt)

lemma in_ids_filter:
  assumes "wf_batch metas originals"
  shows "int i \<in> set (ids (filter P metas)) \<longleftrightarrow> i < length metas \<and> P (metas ! i)"
  unfolding ids_def wf_filter [OF assms] by auto

text \<open>Without urgent transactions the positions of the survivors are those of the writers.\<close>

lemma survivors_no_urgent:
  "urgent_list metas = [] \<Longrightarrow> survivors metas [] = filter (\<lambda>m. \<not> is_read_only m) metas"
  unfolding survivors_def by (rule filter_cong) (auto simp: urgent_list_def touches_def filter_empty_conv)

lemma dense_no_urgent:
  assumes wf: "wf_batch metas originals" and "urgent_list metas = []"
  shows "dense (survivors metas []) \<longleftrightarrow>
    \<not> (\<exists>j < length metas. \<exists>i < j. is_read_only (metas ! i) \<and> \<not> is_read_only (metas ! j))"
proof
  let ?S = "filter (\<lambda>m. \<not> is_read_only m) metas"
  assume d: "dense (survivors metas [])"
  show "\<not> (\<exists>j < length metas. \<exists>i < j. is_read_only (metas ! i) \<and> \<not> is_read_only (metas ! j))"
  proof
    assume "\<exists>j < length metas. \<exists>i < j. is_read_only (metas ! i) \<and> \<not> is_read_only (metas ! j)"
    then obtain i j where ij: "j < length metas" "i < j" "is_read_only (metas ! i)" "\<not> is_read_only (metas ! j)"
      by blast
    have e: "ids ?S = map int [0..<length ?S]"
      using d unfolding survivors_no_urgent [OF assms(2)] dense_def ids_def .
    have "int j \<in> set (ids ?S)" unfolding in_ids_filter [OF wf] using ij by simp
    then have "int i \<in> set (ids ?S)" unfolding e using ij(2) by auto
    then show False unfolding in_ids_filter [OF wf] using ij by simp
  qed
next
  let ?js = "filter (\<lambda>i. \<not> is_read_only (metas ! i)) [0..<length metas]"
  assume no: "\<not> (\<exists>j < length metas. \<exists>i < j. is_read_only (metas ! i) \<and> \<not> is_read_only (metas ! j))"
  have "j < length ?js" if j: "j \<in> set ?js" for j
  proof -
    have jn: "j < length metas" "\<not> is_read_only (metas ! j)" using j by simp_all
    have "\<not> is_read_only (metas ! i)" if "i \<le> j" for i
      using no jn that by (cases "i = j") (blast, metis le_neq_implies_less)
    then have "{0..j} \<subseteq> set ?js" using jn(1) by auto
    then have "card {0..j} \<le> card (set ?js)" by (intro card_mono) auto
    then show ?thesis using card_length [of ?js] by simp
  qed
  then have e: "?js = [0..<length ?js]" by (intro sub_interval) (auto simp: sorted_wrt_filter)
  have "map tx_Index (survivors metas []) = map int ?js"
    unfolding survivors_no_urgent [OF assms(2)] by (rule wf_filter [OF wf])
  then have m: "map tx_Index (survivors metas []) = map int ?js" .
  then have l: "length (survivors metas []) = length ?js" by (metis length_map)
  show "dense (survivors metas [])" unfolding dense_def m l using e by (rule arg_cong)
qed

lemma no_urgent_batch:
  assumes wf: "wf_batch metas originals" and "urgent_list metas = []" and ds: "store_ok upd ds"
  shows "process_batch upd ordM ordU ordN metas originals ds = Inl Bounds \<longleftrightarrow> \<not> dense (survivors metas [])"
proof -
  have "\<forall>tx \<in> set (urgent_list metas). tx_User tx \<noteq> []" using assms(2) by simp
  from process_batch_eq [OF wf ds this, of ordN ordM ordU] obtain su au ds' urgent where
    u: "urgent = map (\<lambda>i. metas ! nat i) su" "mset su + mset au = mset (ids (urgent_list metas))"
    and out: "batch_outcome ordN metas originals su au urgent ds' (process_batch upd ordM ordU ordN metas originals ds)"
    by blast
  have "su = []" using u(2) assms(2) by (simp add: ids_def)
  then have "urgent = []" using u(1) by simp
  then show ?thesis using out by (auto simp: batch_outcome_def split: if_splits)
qed

text \<open>
  C37: A batch without urgent transactions, whose envelopes have one action each (so that the index of a transaction is
  its position) and whose keys all have numbers below 10000, with a database that updates as documented, panics with an index out of range exactly
  when a read-only transaction stands before one that writes: \<open>serialTX\<close> is then shorter than the
  indices it is indexed with. (A key with a number of 10000 or more panics by itself, in the conflict graph.)
\<close>

theorem batch_panics:
  assumes "wf_batch metas originals" and "urgent_list metas = []" and "store_ok upd ds"
  shows "process_batch upd ordM ordU ordN metas originals ds = Inl Bounds \<longleftrightarrow>
    (\<exists>j < length metas. \<exists>i < j. is_read_only (metas ! i) \<and> \<not> is_read_only (metas ! j))"
  unfolding no_urgent_batch [OF assms] dense_no_urgent [OF assms(1,2)] by (rule not_not)

lemma env_of_inj:
  assumes wf: "wf_batch metas originals" and "distinct originals"
    and "i < length metas" and "x \<in> tx_Index ` set metas" and "originals ! i = env_of originals x"
  shows "x = int i"
proof -
  obtain j where "j < length metas" "x = int j" using wf_index [OF wf] assms(4) by fastforce
  then show ?thesis using assms by (simp add: env_of_def wf_batch_def nth_eq_iff_index_eq)
qed

lemma committed_iff:
  assumes "wf_batch metas originals" and "distinct originals" and "i < length metas"
    and "set is \<subseteq> tx_Index ` set metas"
  shows "originals ! i \<in> set (map (env_of originals) is) \<longleftrightarrow> int i \<in> set is"
proof
  assume "originals ! i \<in> set (map (env_of originals) is)"
  then obtain x where x: "x \<in> set is" "originals ! i = env_of originals x" by auto
  then have "x = int i" using env_of_inj [OF assms(1-3)] assms(4) by blast
  then show "int i \<in> set is" using x(1) by simp
next
  assume "int i \<in> set is"
  then have "env_of originals (int i) \<in> set (map (env_of originals) is)" by simp
  then show "originals ! i \<in> set (map (env_of originals) is)" by (simp add: env_of_def)
qed

lemma subset_ids_part:
  assumes "mset xs + mset ys = mset (ids (filter P metas))"
  shows "set xs \<subseteq> set (ids (filter P metas)) \<and> set xs \<subseteq> tx_Index ` set metas"
proof -
  have "set xs \<union> set ys = set (ids (filter P metas))"
    using assms by (metis mset_append mset_eq_setD set_append)
  then show ?thesis by (auto simp: ids_def)
qed

text \<open>Where the transactions of a commit message come from.\<close>

lemma committed_sources:
  assumes wf: "wf_batch metas originals" and d: "distinct originals" and ds: "store_ok upd ds"
    and users: "\<forall>tx \<in> set (urgent_list metas). tx_User tx \<noteq> []"
    and r: "process_batch upd ordM ordU ordN metas originals ds = Inr ([EmitAbort A, EmitCommit C], ds')"
    and i: "i < length metas" "originals ! i \<in> set C" "tx_Urgency (metas ! i)" "\<not> is_read_only (metas ! i)"
    and j: "j < length metas" "originals ! j \<in> set C" "\<not> tx_Urgency (metas ! j)" "\<not> is_read_only (metas ! j)"
  shows "\<not> touches [metas ! i] (metas ! j)"
proof -
  obtain su au urgent where u: "urgent = map (\<lambda>i. metas ! nat i) su"
    "mset su + mset au = mset (ids (urgent_list metas))"
    and out: "batch_outcome ordN metas originals su au urgent ds' (process_batch upd ordM ordU ordN metas originals ds)"
    using process_batch_eq [OF wf ds users, of ordN ordM ordU] r by (auto simp: batch_outcome_def split: if_splits)
  obtain sn an where n: "mset sn + mset an = mset (ids (survivors metas urgent))"
    and C: "C = rev (map (env_of originals) (ids (filter is_read_only metas) @ su @ sn))"
    using out r by (auto simp: batch_outcome_def split: if_splits)
  have su: "set su \<subseteq> set (ids (urgent_list metas))" "set su \<subseteq> tx_Index ` set metas"
    using subset_ids_part [OF u(2) [unfolded urgent_list_def]] unfolding urgent_list_def by blast+
  have sn: "set sn \<subseteq> set (ids (survivors metas urgent))" "set sn \<subseteq> tx_Index ` set metas"
    using subset_ids_part [OF n [unfolded survivors_def]] unfolding survivors_def by blast+
  let ?all = "ids (filter is_read_only metas) @ su @ sn"
  have all: "set ?all \<subseteq> tx_Index ` set metas" using su(2) sn(2) by (auto simp: ids_def)
  have "int i \<in> set ?all" "int j \<in> set ?all"
    using committed_iff [OF wf d i(1) all] committed_iff [OF wf d j(1) all] i(2) j(2)
    unfolding C set_rev by blast+
  moreover have "int i \<notin> set (ids (filter is_read_only metas))" "int j \<notin> set (ids (filter is_read_only metas))"
    "int i \<notin> set sn" "int j \<notin> set su"
    using i j su(1) sn(1) by (auto simp: in_ids_filter [OF wf] urgent_list_def survivors_def)
  ultimately have si: "int i \<in> set su" and sj: "int j \<in> set sn" by auto
  have "metas ! i \<in> set urgent" unfolding u(1) using si by force
  moreover have "\<not> touches urgent (metas ! j)"
    using sj sn(1) by (auto simp: in_ids_filter [OF wf] survivors_def)
  ultimately show ?thesis by (auto simp: touches_def)
qed

text \<open>
  C5: Urgent transactions win: when an urgent and a normal transaction of a batch are both in the
  commit message, the normal one has neither the user nor a written key of the urgent one.
\<close>

theorem urgent_wins:
  assumes "wf_batch metas originals" and "distinct originals" and "store_ok upd ds"
    and "\<forall>tx \<in> set (urgent_list metas). tx_User tx \<noteq> []"
    and "process_batch upd ordM ordU ordN metas originals ds = Inr ([EmitAbort A, EmitCommit C], ds')"
    and "i < length metas" "originals ! i \<in> set C" "tx_Urgency (metas ! i)" "\<not> is_read_only (metas ! i)"
    and "j < length metas" "originals ! j \<in> set C" "\<not> tx_Urgency (metas ! j)" "\<not> is_read_only (metas ! j)"
  shows "\<not> touches [metas ! i] (metas ! j)"
  using assms by (rule committed_sources)

section \<open>The order of the commit message\<close>

lemma before_rev: "before s u v \<Longrightarrow> before (rev s) v u"
  unfolding before_def by (metis rev_append set_rev)

lemma before_map: "before s u v \<Longrightarrow> before (map f s) (f u) (f v)"
  unfolding before_def by (metis image_eqI list.set_map map_append)

lemma wf_distinct_tx: "wf_batch metas originals \<Longrightarrow> i < length metas \<Longrightarrow> j < length metas \<Longrightarrow>
    i \<noteq> j \<Longrightarrow> metas ! i \<noteq> metas ! j"
  by (metis of_nat_eq_iff wf_tx_Index)

lemma normal_batch_order:
  assumes wf: "wf_batch metas originals" and d: "distinct originals" and ds: "store_ok upd ds"
    and normal: "\<forall>tx \<in> set metas. \<not> is_read_only tx \<and> \<not> tx_Urgency tx"
  shows "\<exists>A C ds'. process_batch upd ordM ordU ordN metas originals ds = Inr ([EmitAbort A, EmitCommit C], ds') \<and>
    (\<forall>i < length metas. \<forall>j < length metas. i \<noteq> j \<longrightarrow> conflicts (metas ! i) (metas ! j) \<longrightarrow>
       originals ! i \<in> set C \<longrightarrow> originals ! j \<in> set C \<longrightarrow> before C (originals ! j) (originals ! i))"
proof -
  have ul: "urgent_list metas = []" and ro: "filter is_read_only metas = []"
    using normal by (auto simp: urgent_list_def filter_empty_conv)
  then have users: "\<forall>tx \<in> set (urgent_list metas). tx_User tx \<noteq> []" by simp
  have S: "survivors metas [] = metas"
    unfolding survivors_no_urgent [OF ul] using normal by (simp add: filter_id_conv)
  obtain su au ds' urgent where u: "urgent = map (\<lambda>i. metas ! nat i) su"
    "mset su + mset au = mset (ids (urgent_list metas))"
    and out: "batch_outcome ordN metas originals su au urgent ds' (process_batch upd ordM ordU ordN metas originals ds)"
    using process_batch_eq [OF wf ds users, of ordN ordM ordU] by blast
  have "su = []" using u(2) ul by (simp add: ids_def)
  then have su: "su = []" "urgent = []" using u(1) by simp_all
  have "dense metas" using wf by (simp add: dense_def wf_batch_def)
  then obtain sn an where n: "epsilonOrdering ordN metas = Inr (sn, an)"
    "mset sn + mset an = mset (ids metas)"
    and r: "\<exists>A. process_batch upd ordM ordU ordN metas originals ds =
      Inr ([EmitAbort A, EmitCommit (rev (map (env_of originals) sn))], ds')"
    using out by (simp add: batch_outcome_def su S ro ids_def) blast
  have sub: "set sn \<subseteq> tx_Index ` set metas"
    using subset_ids_part [of sn an "\<lambda>_. True" metas] n(2) by simp
  have dm: "distinct (map tx_Index metas)" "\<forall>tx \<in> set metas. keys_ok 10000 tx"
    using wf_distinct [OF wf] wf by (simp_all add: wf_batch_def)
  from epsilonOrdering_ok [OF dm, of ordN]
  have sa: "\<forall>t \<in> set metas. \<forall>u \<in> set metas. t \<noteq> u \<longrightarrow> tx_Index t \<in> set sn \<longrightarrow> tx_Index u \<in> set sn \<longrightarrow>
       (conflicts t u \<longrightarrow> before sn (tx_Index t) (tx_Index u))"
    by (auto simp: n(1))
  have order: "before (rev (map (env_of originals) sn)) (originals ! j) (originals ! i)"
    if ij: "i < length metas" "j < length metas" "i \<noteq> j" "conflicts (metas ! i) (metas ! j)"
      "originals ! i \<in> set (rev (map (env_of originals) sn))"
      "originals ! j \<in> set (rev (map (env_of originals) sn))" for i j
  proof -
    have "int i \<in> set sn" "int j \<in> set sn"
      using committed_iff [OF wf d ij(1) sub] committed_iff [OF wf d ij(2) sub] ij(5,6)
      unfolding set_rev by blast+
    moreover have "metas ! i \<noteq> metas ! j" by (rule wf_distinct_tx [OF wf ij(1-3)])
    ultimately have "before sn (int i) (int j)"
      using sa [rule_format, of "metas ! i" "metas ! j"] ij(1,2,4)
      by (simp add: wf_tx_Index [OF wf])
    from before_rev [OF before_map [OF this, of "env_of originals"]] show ?thesis
      by (simp add: env_of_def)
  qed
  then show ?thesis using r by blast
qed

text \<open>
  C39: A batch of normal writing transactions, of distinct envelopes with one action each, is emitted when every key
  number is below 10000 and the database updates as documented; among its committed transactions,
  one that reads or writes what another writes stands after it, although the scheduler put it
  before: the reversal turns the order of the schedule around.
\<close>

theorem commit_order_reversed:
  assumes "wf_batch metas originals" and "distinct originals" and "store_ok upd ds"
    and "\<forall>tx \<in> set metas. \<not> is_read_only tx \<and> \<not> tx_Urgency tx"
  shows "\<exists>A C ds'. process_batch upd ordM ordU ordN metas originals ds = Inr ([EmitAbort A, EmitCommit C], ds') \<and>
    (\<forall>i < length metas. \<forall>j < length metas. i \<noteq> j \<longrightarrow> conflicts (metas ! i) (metas ! j) \<longrightarrow>
       originals ! i \<in> set C \<longrightarrow> originals ! j \<in> set C \<longrightarrow> before C (originals ! j) (originals ! i))"
  using assms by (rule normal_batch_order)

section \<open>Concrete batches\<close>

definition tiny_batch :: "TxMeta list" where
  "tiny_batch = [tx_read 0 [''User2''] [''User1''], (tx_read 1 [''User2''] [''User2''])\<lparr>tx_Urgency := True\<rparr>]"

lemma tiny_keys: "\<forall>tx \<in> set tiny_batch. keys_ok 10000 tx"
  by (simp add: tiny_batch_def tx_read_def keys_ok_def key_ok_def idx_values)

lemma tiny_wf: "wf_batch tiny_batch [''a'', ''b'']"
  unfolding wf_batch_def using tiny_keys by (simp add: tiny_batch_def tx_read_def upt_rec)

lemma tiny_users: "\<forall>tx \<in> set (urgent_list tiny_batch). tx_User tx \<noteq> []"
  by (simp add: tiny_batch_def tx_read_def urgent_list_def is_read_only_def)

lemma store_ok_Nil: "store_ok update_one []"
  by (simp add: store_ok_def inc_upsert_update_one docs_ok_def)

theorem batch_conserved_witness:
  "case process_batch update_one rev (\<lambda>_. rev) (\<lambda>_. rev) tiny_batch [''a'', ''b''] [] of
      Inl e \<Rightarrow> e = Bounds
    | Inr (ems, ds') \<Rightarrow> docs_ok ds' \<and>
        (\<exists>A C. ems = [EmitAbort A, EmitCommit C] \<and> mset A + mset C = mset [''a'', ''b''])"
  by (rule batch_conserved [OF tiny_wf store_ok_Nil tiny_users])

lemma one_schedule: "transactionScheduler ord [i] [[0]] = ([i], [])"
proof -
  have v: "visit ord 0 [i] = [i]" by (simp add: visit_def)
  have "schedule ord 0 [(i, [])] [] [] = ([i], [])"
    by (subst schedule.simps, subst schedule.simps)
      (simp add: v zero_in_degree_def incoming_def graph_nodes_def remove_all_def RemoveNode_def)
  then show ?thesis
    by (simp add: transactionScheduler_def build_graph_def init_nodes_def add_row_def)
qed

lemma one_ordering: "keys_ok 10000 tx \<Longrightarrow> epsilonOrdering ord [tx] = Inr ([tx_Index tx], [])"
  by (simp add: epsilonOrdering_eq one_schedule)

definition clash_batch :: "TxMeta list" where
  "clash_batch = [tx_read 0 [''User7''] [''User1''], (tx_read 1 [''User2''] [''User2''])\<lparr>tx_Urgency := True\<rparr>]"

lemma idx_seven: "idxToInt ''User7'' = 7"
  by code_simp

lemma clash_wf: "wf_batch clash_batch [''a'', ''b'']"
  by (simp add: wf_batch_def clash_batch_def tx_read_def keys_ok_def key_ok_def idx_values idx_seven upt_rec)

lemma clash_run:
  "process_batch update_one rev (\<lambda>_. rev) (\<lambda>_. rev) clash_batch [''a'', ''b''] [] = Inr ([EmitAbort [], EmitCommit [''a'', ''b'']], [])"
proof -
  let ?n = "tx_read 0 [''User7''] [''User1'']" and ?u = "(tx_read 1 [''User2''] [''User2''])\<lparr>tx_Urgency := True\<rparr>"
  have l: "urgent_list clash_batch = [?u]" "normal_list clash_batch = [?n]" "filter is_read_only clash_batch = []"
    by (simp_all add: clash_batch_def urgent_list_def normal_list_def is_read_only_def tx_read_def)
  have o: "epsilonOrdering (\<lambda>_. rev) [?u] = Inr ([1], [])" "epsilonOrdering (\<lambda>_. rev) [?n] = Inr ([0], [])"
    by (subst one_ordering; simp add: tx_read_def keys_ok_def key_ok_def idx_values idx_seven)+
  have "\<not> touches [?u] ?n" by (simp add: touches_def tx_read_def)
  then have c: "checkbetweennormalandurgent [?n] [?u] = ([?n], [])" by (simp add: check_eq)
  have i0: "tx_Index ?n = 0" by (simp add: tx_read_def)
  have s: "SaveAbortCount update_one rev [?u] [] [] = Inr []" by (simp add: SaveAbortCount_def abort_tally_def in_order_def)
  have b: "clash_batch ! Suc 0 = ?u" by (simp add: clash_batch_def)
  have "urgent_phase update_one rev (\<lambda>_. rev) clash_batch [''a'', ''b''] [?u] \<lparr>l_Ordered = [], l_Abort = []\<rparr> []
      = Inr ([?u], \<lparr>l_Ordered = [''b''], l_Abort = []\<rparr>, [])"
    using b by (simp add: urgent_phase_def o s at_def go_index_def clash_batch_def)
  moreover have "normal_phase (\<lambda>_. rev) [''a'', ''b''] [?n] [?u] \<lparr>l_Ordered = [''b''], l_Abort = []\<rparr>
      = Inr \<lparr>l_Ordered = [''b'', ''a''], l_Abort = []\<rparr>"
    by (simp add: normal_phase_def c o at_def go_index_def i0)
  ultimately show ?thesis
    by (simp add: process_batch_def read_only_data_def l reverseArray_eq)
qed

theorem urgent_wins_witness:
  "process_batch update_one rev (\<lambda>_. rev) (\<lambda>_. rev) clash_batch [''a'', ''b''] [] = Inr ([EmitAbort [], EmitCommit [''a'', ''b'']], []) \<and>
   \<not> touches [clash_batch ! 1] (clash_batch ! 0)"
proof
  have "\<forall>tx \<in> set (urgent_list clash_batch). tx_User tx \<noteq> []"
    by (simp add: clash_batch_def tx_read_def urgent_list_def is_read_only_def)
  from urgent_wins [OF clash_wf _ store_ok_Nil this clash_run, of 1 0]
  show "\<not> touches [clash_batch ! 1] (clash_batch ! 0)"
    by (simp add: clash_batch_def tx_read_def is_read_only_def)
qed (rule clash_run)

theorem batch_panics_witness:
  "process_batch update_one rev (\<lambda>_. rev) (\<lambda>_. rev) [tx_read 0 [''User1''] [], tx_read 1 [''User2''] [''User2'']] [''a'', ''b''] [] = Inl Bounds"
proof -
  let ?m = "[tx_read 0 [''User1''] [], tx_read 1 [''User2''] [''User2'']]"
  have "wf_batch ?m [''a'', ''b'']"
    by (simp add: wf_batch_def tx_read_def keys_ok_def key_ok_def idx_values upt_rec)
  moreover have "urgent_list ?m = []" by (simp add: urgent_list_def tx_read_def)
  moreover have "\<exists>j < length ?m. \<exists>i < j. is_read_only (?m ! i) \<and> \<not> is_read_only (?m ! j)"
    by (rule exI [of _ 1]) (simp add: is_read_only_def tx_read_def)
  ultimately show ?thesis using batch_panics [of ?m "[''a'', ''b'']" update_one "[]" rev "\<lambda>_. rev" "\<lambda>_. rev"] store_ok_Nil by blast
qed

theorem commit_order_reversed_witness:
  "\<exists>A C ds'. process_batch update_one rev (\<lambda>_. rev) (\<lambda>_. rev) [tx_read 0 [''User1''] [''User2''], tx_read 1 [''User7''] [''User1'']]
       [''reader'', ''writer''] [] = Inr ([EmitAbort A, EmitCommit C], ds') \<and>
     (''reader'' \<in> set C \<longrightarrow> ''writer'' \<in> set C \<longrightarrow> before C ''writer'' ''reader'')"
proof -
  let ?m = "[tx_read 0 [''User1''] [''User2''], tx_read 1 [''User7''] [''User1'']]"
  have "wf_batch ?m [''reader'', ''writer'']"
    by (simp add: wf_batch_def tx_read_def keys_ok_def key_ok_def idx_values idx_seven upt_rec)
  moreover have "\<forall>tx \<in> set ?m. \<not> is_read_only tx \<and> \<not> tx_Urgency tx"
    by (simp add: is_read_only_def tx_read_def)
  moreover have "conflicts (?m ! 0) (?m ! 1)" by (simp add: conflicts_def nums_def tx_read_def)
  ultimately show ?thesis
    using commit_order_reversed [of ?m "[''reader'', ''writer'']" update_one "[]" rev "\<lambda>_. rev" "\<lambda>_. rev"] store_ok_Nil by force
qed

end
