(* ===== verification/Safe_Map.thy ===== *)
theory Safe_Map
  imports Interfaces "HOL-Library.AList"
begin

text \<open>
  \<open>puctrl_safemap.go\<close>, the locked map behind \<open>blockMap\<close>, and Go's built-in map as \<open>sessionMap\<close> uses
  it: there the keys are also visited, in an order Go leaves open, so that it is an association
  list with distinct keys, whose order is the order of the visit. Both are key-value stores.
  Every method of \<open>SafeMap\<close> runs under its lock and is one step.
\<close>

section \<open>SafeMap\<close>

record ('k, 't) SafeMap =
  sm_store :: "'k \<rightharpoonup> 't"

definition NewSafeMap :: "('k, 't) SafeMap" where
  "NewSafeMap = \<lparr>sm_store = Map.empty\<rparr>"

definition SafeMap_Set :: "'k \<Rightarrow> 't \<Rightarrow> ('k, 't) SafeMap \<Rightarrow> ('k, 't) SafeMap" where
  "SafeMap_Set key v m = m\<lparr>sm_store := (sm_store m)(key \<mapsto> v)\<rparr>"

definition SafeMap_Get :: "('k, 't) SafeMap \<Rightarrow> 'k \<Rightarrow> 't option" where
  "SafeMap_Get m key = sm_store m key"

definition SafeMap_Delete :: "'k \<Rightarrow> ('k, 't) SafeMap \<Rightarrow> ('k, 't) SafeMap" where
  "SafeMap_Delete key m = m\<lparr>sm_store := (sm_store m)(key := None)\<rparr>"

interpretation safe_map: kv_store SafeMap_Get "\<lambda>m k v. SafeMap_Set k v m" "\<lambda>m k. SafeMap_Delete k m" "\<lambda>_. True"
  by unfold_locales (auto simp: SafeMap_Get_def SafeMap_Set_def SafeMap_Delete_def)

lemma NewSafeMap_Get [simp]: "SafeMap_Get NewSafeMap k = None"
  by (simp add: SafeMap_Get_def NewSafeMap_def)

lemma SafeMap_Get_Set [simp]: "SafeMap_Get (SafeMap_Set k v m) k' = (if k' = k then Some v else SafeMap_Get m k')"
  by (rule safe_map.get_put) simp

section \<open>Go maps that are visited\<close>

type_synonym ('k, 'v) gomap = "('k \<times> 'v) list"

definition gm_get :: "('k, 'v) gomap \<Rightarrow> 'k \<Rightarrow> 'v option" where
  "gm_get m k = map_of m k"

definition gm_put :: "('k, 'v) gomap \<Rightarrow> 'k \<Rightarrow> 'v \<Rightarrow> ('k, 'v) gomap" where
  "gm_put m k v = AList.update k v m"

definition gm_del :: "('k, 'v) gomap \<Rightarrow> 'k \<Rightarrow> ('k, 'v) gomap" where
  "gm_del m k = AList.delete k m"

definition gm_ok :: "('k, 'v) gomap \<Rightarrow> bool" where
  "gm_ok m \<longleftrightarrow> distinct (map fst m)"

interpretation go_map: kv_store gm_get gm_put gm_del gm_ok
  by unfold_locales
    (auto simp: gm_get_def gm_put_def gm_del_def gm_ok_def update_conv' delete_conv' distinct_update distinct_delete)

lemma gm_put_keys: "k \<in> fst ` set m \<Longrightarrow> map fst (gm_put m k v) = map fst m"
  by (simp add: gm_put_def update_keys)

end
