(* ===== verification/Pu_State.thy ===== *)
theory Pu_State
  imports Block_Props Framing Safe_Map
begin

text \<open>
  The state of \<open>PuCtrl\<close> and \<open>PuSession\<close> (\<open>puctrl.go\<close>, \<open>puctrl_session.go\<close>). A session keeps the bytes it
  has written to its QUIC stream; a channel is its capacity and its buffer, and a goroutine that
  the code has started and that has not ended is an element of \<open>pu_tasks\<close>. A call that waits (on a
  channel or on a block's condition variable) has no value: \<open>None\<close>.
\<close>

section \<open>Channels\<close>

record 'a chan =
  ch_cap :: nat
  ch_buf :: "'a list"

definition make_chan :: "nat \<Rightarrow> 'a chan" where
  "make_chan n = \<lparr>ch_cap = n, ch_buf = []\<rparr>"

definition chan_send :: "'a \<Rightarrow> 'a chan \<Rightarrow> 'a chan option" where
  "chan_send x c = (if length (ch_buf c) < ch_cap c then Some (c\<lparr>ch_buf := ch_buf c @ [x]\<rparr>) else None)"

definition chan_recv :: "'a chan \<Rightarrow> ('a \<times> 'a chan) option" where
  "chan_recv c = (case ch_buf c of [] \<Rightarrow> None | x # xs \<Rightarrow> Some (x, c\<lparr>ch_buf := xs\<rparr>))"

text \<open>Sending to and receiving from a nil channel waits for ever.\<close>

definition nil_send :: "'a \<Rightarrow> 'a chan option \<Rightarrow> 'a chan option" where
  "nil_send x c = Option.bind c (chan_send x)"

definition nil_recv :: "'a chan option \<Rightarrow> ('a \<times> 'a chan) option" where
  "nil_recv c = Option.bind c chan_recv"

lemma chan_recv_send: "ch_buf c = [] \<Longrightarrow> chan_send x c = Some c' \<Longrightarrow> chan_recv c' = Some (x, c)"
  by (cases c) (auto simp: chan_send_def chan_recv_def split: if_splits)

section \<open>Sessions\<close>

record PuSession =
  ps_sessionType :: byte
  ps_sessionID :: u32
  ps_sessionOwner :: bool
  ps_index :: u16
  ps_blockNumber :: u32
  ps_blockStatus :: u32
  ps_pushPullTimeout :: nat
  ps_blockReceiving :: bool
  ps_stream :: bytes
  ps_closed :: bool

section \<open>Goroutines of the controller\<close>

text \<open>The loops that run beside the handlers, each with its local variables at the loop head:
  the request loops of a receiver, the transmission loops of a sender, and the rest of
  \<open>ReceiveBlockData\<close> after the end of a segment, which may wait on a semaphore.\<close>

datatype task =
  BlockRequest byte u32 u32 u32 u32
| BlockRequestMP byte u32 u32 u32 u32 u32
| SendSP u32 BlockRequestPacket u32
| SendMP u32 BlockRequestPacket nat u32
| EncodeFEC u32 BlockRequestPacket nat
| SendFEC u32 BlockRequestPacket nat u32 u32 nat u32
| EndSegment u32

section \<open>PuCtrl\<close>

type_synonym listener = "AuditDataPacket option chan"

record PuCtrl =
  pu_peerId :: u32
  pu_peerPushMode :: bool
  pu_peerModeStatus :: string
  pu_childAddr :: "string list"
  pu_numSession :: u16
  pu_numPullSession :: u16
  pu_sessionMap :: "(u32, PuSession) gomap"
  pu_blockMap :: "(u32, Block) SafeMap"
  pu_expectedBlockNumber :: u32
  pu_semPush :: "u32 chan option"
  pu_semPull :: "u32 chan option"
  pu_nodeInfo :: "NodeInfo list"
  pu_chFinReceived :: "u32 chan"
  pu_chFinAckReceived :: "u32 chan"
  pu_chStopTransmission :: "nat option"
  pu_stopped :: "nat list"
  pu_nextStop :: nat
  pu_AuditBroadcaster :: "listener list"
  pu_AuditMsgAckChan :: "AuditDataAckPacket option list"
  pu_tasks :: "task list"
  pu_commands :: "string list"
  pu_listening :: bool

text \<open>A new controller. \<open>pu_stopped\<close> are the stop channels that have been closed, \<open>pu_nextStop\<close> the
  number the next one gets, \<open>pu_commands\<close> the commands that have been run. \<open>AuditMsgAckChan\<close> has no buffer:
  \<open>pu_AuditMsgAckChan\<close> is what its receivers have taken.\<close>

definition CreatePuCtrl :: "u32 \<Rightarrow> PuCtrl" where
  "CreatePuCtrl peerID =
     \<lparr>pu_peerId = peerID, pu_peerPushMode = True, pu_peerModeStatus = [], pu_childAddr = [],
      pu_numSession = 0, pu_numPullSession = 0, pu_sessionMap = [], pu_blockMap = NewSafeMap,
      pu_expectedBlockNumber = 0, pu_semPush = None, pu_semPull = None, pu_nodeInfo = [],
      pu_chFinReceived = make_chan 1, pu_chFinAckReceived = make_chan 1,
      pu_chStopTransmission = None, pu_stopped = [], pu_nextStop = 0,
      pu_AuditBroadcaster = [], pu_AuditMsgAckChan = [], pu_tasks = [],
      pu_commands = [''iptables -t nat --flush''], pu_listening = False\<rparr>"

text \<open>A \<open>PuSession\<close> takes the current number of sessions as its index.\<close>

definition CreatePuSession :: "Config \<Rightarrow> byte \<Rightarrow> u32 \<Rightarrow> bool \<Rightarrow> PuCtrl \<Rightarrow> PuSession \<times> PuCtrl" where
  "CreatePuSession C sessionType sessionID sessionOwner p =
     (\<lparr>ps_sessionType = sessionType, ps_sessionID = sessionID, ps_sessionOwner = sessionOwner,
       ps_index = pu_numSession p, ps_blockNumber = 0, ps_blockStatus = PEER_NOT_KNOWN,
       ps_pushPullTimeout = (if 0 < PUSH_PULL_TRANSITION_TIMEOUT C
         then unat (PUSH_PULL_TRANSITION_TIMEOUT C) else 1000),
       ps_blockReceiving = False, ps_stream = [], ps_closed = False\<rparr>,
      p\<lparr>pu_numSession := pu_numSession p + 1\<rparr>)"

section \<open>Access to the session map\<close>

text \<open>A method or field of a missing session is reached through a nil pointer.\<close>

definition on_session :: "u32 \<Rightarrow> (PuSession \<Rightarrow> PuSession) \<Rightarrow> PuCtrl \<Rightarrow> PuCtrl go" where
  "on_session sid f p =
     (case gm_get (pu_sessionMap p) sid of
        None \<Rightarrow> Inl NilDeref
      | Some s \<Rightarrow> Inr (p\<lparr>pu_sessionMap := gm_put (pu_sessionMap p) sid (f s)\<rparr>))"

definition on_session_go :: "u32 \<Rightarrow> (PuSession \<Rightarrow> PuSession go) \<Rightarrow> PuCtrl \<Rightarrow> PuCtrl go" where
  "on_session_go sid f p =
     (case gm_get (pu_sessionMap p) sid of
        None \<Rightarrow> Inl NilDeref
      | Some s \<Rightarrow> go_bind (f s) (\<lambda>s. Inr (p\<lparr>pu_sessionMap := gm_put (pu_sessionMap p) sid s\<rparr>)))"

definition of_session :: "u32 \<Rightarrow> (PuSession \<Rightarrow> 'a) \<Rightarrow> PuCtrl \<Rightarrow> 'a go" where
  "of_session sid f p =
     (case gm_get (pu_sessionMap p) sid of None \<Rightarrow> Inl NilDeref | Some s \<Rightarrow> Inr (f s))"

text \<open>Writing bytes to the stream of a session.\<close>

definition on_stream :: "(bytes \<Rightarrow> bytes) \<Rightarrow> PuSession \<Rightarrow> PuSession" where
  "on_stream f s = s\<lparr>ps_stream := f (ps_stream s)\<rparr>"

text \<open>The keys of the sessions of a type, in the order of the visit.\<close>

definition session_ids :: "byte \<Rightarrow> PuCtrl \<Rightarrow> u32 list" where
  "session_ids t p = map fst (filter (\<lambda>(_, s). ps_sessionType s = t) (pu_sessionMap p))"

end
