(* ===== verification/Pu_Transfer.thy ===== *)
theory Pu_Transfer
  imports Pu_State
begin

unbundle bit_operations_syntax

text \<open>
  \<open>puctrl_handler.go\<close>: how a controller announces, requests, sends and receives blocks. A handler is
  a function of the state. A loop that runs in a goroutine is the function of one iteration,
  \<open>(task option \<times> PuCtrl) go option\<close>: the task at the next loop head or its end, a panic, or no value
  while it waits. The random seed of an FEC request is an argument.
\<close>

section \<open>MpInfo\<close>

text \<open>Two bits of pull mode, three of the number of block owners, three of the peer ID.\<close>

definition getPullMode :: "byte \<Rightarrow> byte" where
  "getPullMode mpInfo = drop_bit 6 (mpInfo AND 0b11000000)"

definition getPeerInfo :: "byte \<Rightarrow> u32 \<times> u32" where
  "getPeerInfo mpInfo = (ucast (drop_bit 3 (mpInfo AND 0b00111000)), ucast (mpInfo AND 0b00000111))"

definition setPullModePeerInfo :: "byte \<Rightarrow> byte \<Rightarrow> byte" where
  "setPullModePeerInfo pullMode numBlockOwners =
     (push_bit 6 (0xff AND pullMode)) OR (push_bit 3 (0xff AND numBlockOwners))"

section \<open>Announcing\<close>

definition SendBlockInfo :: "u32 \<Rightarrow> u32 \<Rightarrow> PuCtrl \<Rightarrow> PuCtrl go" where
  "SendBlockInfo sessionID blockNumber p =
     (case SafeMap_Get (pu_blockMap p) blockNumber of
        Some block \<Rightarrow>
          on_session sessionID (on_stream (SendBlockInfoPacket blockNumber (b_blockSize block) PEER_HAS_BLOCK)) p
      | None \<Rightarrow>
          on_session sessionID (on_stream (SendBlockInfoPacket blockNumber 0 PEER_HAS_NO_BLOCK)) p)"

definition SendAuditInfo :: "u32 \<Rightarrow> bytes \<Rightarrow> PuCtrl \<Rightarrow> PuCtrl go" where
  "SendAuditInfo sessionID data = on_session sessionID (\<lambda>s. on_stream (sendAuditDataPacket (ps_sessionID s) data) s)"

definition SendAuditAckInfo :: "u32 \<Rightarrow> bytes \<Rightarrow> PuCtrl \<Rightarrow> PuCtrl go" where
  "SendAuditAckInfo sessionID data =
     on_session sessionID (\<lambda>s. on_stream (sendAuditDataAckPacket (ps_sessionID s) data) s)"

definition SendBlockFind :: "u32 \<Rightarrow> u32 \<Rightarrow> PuCtrl \<Rightarrow> PuCtrl go" where
  "SendBlockFind sessionID blockNumber = on_session sessionID (on_stream (sendBlockFindPacket blockNumber))"

section \<open>Requesting\<close>

definition AddSegment ::
    "Config \<Rightarrow> u32 \<Rightarrow> u32 \<Rightarrow> u32 \<Rightarrow> u32 \<Rightarrow> u32 \<Rightarrow> u32 \<Rightarrow> bool \<Rightarrow> PuCtrl \<Rightarrow> PuCtrl" where
  "AddSegment C blockNumber idx startNo endNo segmentSize fecSeedNumber lastSeg p =
     (case SafeMap_Get (pu_blockMap p) blockNumber of
        None \<Rightarrow> p
      | Some block \<Rightarrow> p\<lparr>pu_blockMap := SafeMap_Set blockNumber
          (PushSegment (CreateSegment C blockNumber idx startNo endNo segmentSize fecSeedNumber lastSeg) block)
          (pu_blockMap p)\<rparr>)"

text \<open>One round of \<open>blockRequest\<close>: wait for the semaphore of the session type, request the segment
  at the offset, or the rest of it, from the session whose ID was in the semaphore.\<close>

definition blockRequest ::
    "Config \<Rightarrow> byte \<Rightarrow> u32 \<Rightarrow> u32 \<Rightarrow> u32 \<Rightarrow> u32 \<Rightarrow> PuCtrl \<Rightarrow> (task option \<times> PuCtrl) go option" where
  "blockRequest C sessionType blockNumber blockSize offset idx p =
     (if offset < blockSize then
        case nil_recv (if sessionType = PUSH_SESSION then pu_semPush p else pu_semPull p) of
          None \<Rightarrow> None
        | Some (selected, sem) \<Rightarrow>
            let p = (if sessionType = PUSH_SESSION then p\<lparr>pu_semPush := Some sem\<rparr>
                     else p\<lparr>pu_semPull := Some sem\<rparr>);
                fresh = (offset mod SEGMENT_SIZE C = 0);
                sz = (if fresh
                      then if SEGMENT_SIZE C \<le> blockSize - offset then SEGMENT_SIZE C else blockSize - offset
                      else SEGMENT_SIZE C - offset mod SEGMENT_SIZE C);
                startDataNumber = offset div PAYLOAD;
                endDataNumber = startDataNumber + ceil_div sz PAYLOAD - 1;
                p = (if fresh
                     then AddSegment C blockNumber idx startDataNumber endDataNumber sz 0
                            (offset + sz = blockSize) p
                     else p)
            in Some (go_bind
                 (on_session selected (\<lambda>s. on_stream
                    (SendBlockRequestPacket blockNumber startDataNumber endDataNumber 0 0)
                    (s\<lparr>ps_blockStatus := PEER_DOWNLOADING\<rparr>)) p) (\<lambda>p.
               go_bind
                 (if sessionType = PUSH_SESSION \<and> idx + 1 = 2
                  then go_fold (\<lambda>sessionID. SendBlockInfo sessionID blockNumber)
                         (filter (\<lambda>sessionID. selected \<noteq> sessionID) (session_ids PUSH_SESSION p)) p
                  else Inr p) (\<lambda>p.
                 Inr (Some (BlockRequest sessionType blockNumber blockSize (offset + sz) (idx + 1)), p))))
      else Some (Inr (None, p)))"

text \<open>One round of \<open>blockRequestMP\<close>: every pull session is asked for the segment, each with the next
  peer ID.\<close>

definition request_all ::
    "u32 \<Rightarrow> u32 \<Rightarrow> u32 \<Rightarrow> byte \<Rightarrow> u32 \<Rightarrow> PuCtrl \<Rightarrow> PuCtrl go" where
  "request_all blockNumber startDataNumber endDataNumber mpInfo fecSeedNumber p =
     go_fold (\<lambda>(k, sid). on_session sid (\<lambda>s. on_stream
         (SendBlockRequestPacket blockNumber startDataNumber endDataNumber (mpInfo + of_nat k) fecSeedNumber)
         (s\<lparr>ps_blockStatus := PEER_DOWNLOADING\<rparr>)))
       (enumerate 0 (session_ids PULL_SESSION p)) p"

definition blockRequestMP ::
    "Config \<Rightarrow> u32 \<Rightarrow> byte \<Rightarrow> u32 \<Rightarrow> u32 \<Rightarrow> u32 \<Rightarrow> u32 \<Rightarrow> u32 \<Rightarrow> PuCtrl \<Rightarrow>
     (task option \<times> PuCtrl) go option" where
  "blockRequestMP C rand sessionType blockNumber blockSize offset idx numBlockOwners p =
     (if 8 \<le> numBlockOwners then Some (Inl (Explicit ''numBlockOwners >= 8''))
      else if offset < blockSize then
        case nil_recv (pu_semPull p) of
          None \<Rightarrow> None
        | Some (_, sem) \<Rightarrow>
            let p = p\<lparr>pu_semPull := Some sem\<rparr>;
                sz = (if SEGMENT_SIZE C \<le> blockSize - offset then SEGMENT_SIZE C else blockSize - offset);
                startDataNumber = offset div PAYLOAD;
                endDataNumber = startDataNumber + ceil_div sz PAYLOAD - 1;
                fecSeedNumber = (if PULL_MODE C = PULL_MODE_MP_FEC then rand else 0);
                p = AddSegment C blockNumber idx startDataNumber endDataNumber sz fecSeedNumber
                      (offset + sz = blockSize) p;
                mpInfo = setPullModePeerInfo (PULL_MODE C) (ucast numBlockOwners)
            in Some (go_bind (request_all blockNumber startDataNumber endDataNumber mpInfo fecSeedNumber p) (\<lambda>p.
                 Inr (Some (BlockRequestMP sessionType blockNumber blockSize (offset + sz) (idx + 1)
                        numBlockOwners), p)))
      else Some (Inr (None, p)))"

text \<open>The counts over the pull sessions: those that answered, and those that have the block.\<close>

definition count_infos :: "PuCtrl \<Rightarrow> u16 \<times> u32" where
  "count_infos p =
     fold (\<lambda>(_, s) (received, owners).
         if ps_sessionType s = PULL_SESSION then
           if ps_blockStatus s = PEER_HAS_BLOCK then (received + 1, owners + 1)
           else if ps_blockStatus s = PEER_HAS_NO_BLOCK then (received + 1, owners)
           else (received, owners)
         else (received, owners))
       (pu_sessionMap p) (0, 0)"

definition go_task :: "task \<Rightarrow> PuCtrl \<Rightarrow> PuCtrl" where
  "go_task t p = p\<lparr>pu_tasks := pu_tasks p @ [t]\<rparr>"

definition SendBlockRequest :: "Config \<Rightarrow> byte \<Rightarrow> u32 \<Rightarrow> BlockInfoPacket \<Rightarrow> PuCtrl \<Rightarrow> PuCtrl" where
  "SendBlockRequest C sessionType sessionID pkt p =
     (let p = (if pu_expectedBlockNumber p < binfo_BlockNumber pkt
               then p\<lparr>pu_expectedBlockNumber := binfo_BlockNumber pkt\<rparr> else p);
          (numBlockInfoReceived, numBlockOwners) =
            (if sessionType = PULL_SESSION then count_infos p else (0, 0))
      in if sessionType = PUSH_SESSION \<or>
            (sessionType = PULL_SESSION \<and> 0 < numBlockOwners \<and> pu_numPullSession p = numBlockInfoReceived)
         then
           let block = (case SafeMap_Get (pu_blockMap p) (binfo_BlockNumber pkt) of
                 None \<Rightarrow> CreateBlockBuffer (binfo_BlockNumber pkt) (binfo_BlockSize pkt) | Some b \<Rightarrow> b);
               p = p\<lparr>pu_blockMap := SafeMap_Set (binfo_BlockNumber pkt) block (pu_blockMap p)\<rparr>
           in if sessionType = PUSH_SESSION then
                go_task (BlockRequest sessionType (binfo_BlockNumber pkt) (binfo_BlockSize pkt) (b_receivedBytes block) 0)
                  (p\<lparr>pu_semPush := Some \<lparr>ch_cap = 1, ch_buf = [sessionID]\<rparr>\<rparr>)
              else if PULL_MODE C = PULL_MODE_SP then
                go_task (BlockRequest sessionType (binfo_BlockNumber pkt) (binfo_BlockSize pkt) (b_receivedBytes block) 0)
                  (p\<lparr>pu_semPull := Some \<lparr>ch_cap = unat numBlockOwners,
                       ch_buf = map fst (filter (\<lambda>(_, s). ps_sessionType s = sessionType \<and>
                                  ps_blockStatus s = PEER_HAS_BLOCK) (pu_sessionMap p))\<rparr>\<rparr>)
              else if PULL_MODE C = PULL_MODE_MP \<or> PULL_MODE C = PULL_MODE_MP_FEC then
                go_task (BlockRequestMP sessionType (binfo_BlockNumber pkt) (binfo_BlockSize pkt)
                           (b_receivedBytes block) 0 numBlockOwners)
                  (p\<lparr>pu_semPull := Some \<lparr>ch_cap = 1, ch_buf = [0]\<rparr>\<rparr>)
              else p
         else p)"

section \<open>Sending\<close>

text \<open>The first data number of the \<open>i\<close>-th pass of a peer.\<close>

definition pass_start :: "u32 \<Rightarrow> u32 \<Rightarrow> u32 \<Rightarrow> nat \<Rightarrow> u32" where
  "pass_start startNo numBlockOwners peerId i = startNo + (peerId + of_nat i) mod numBlockOwners"

text \<open>The stop channel of the running transmission is closed, and a new one made, and \<open>SendBlockData\<close> as a handler runs it
  that no other one interrupts. The code has no lock here: \<open>Pu_Stop\<close> has the steps between which handlers of other sessions may come,
  shows that this is what they do together, and what happens when two of them interleave.\<close>

definition stop_existing :: "PuCtrl \<Rightarrow> PuCtrl" where
  "stop_existing p =
     p\<lparr>pu_stopped := (case pu_chStopTransmission p of None \<Rightarrow> pu_stopped p | Some c \<Rightarrow> c # pu_stopped p),
       pu_chStopTransmission := Some (pu_nextStop p), pu_nextStop := pu_nextStop p + 1\<rparr>"

definition SendBlockData :: "u32 \<Rightarrow> BlockRequestPacket \<Rightarrow> PuCtrl \<Rightarrow> PuCtrl" where
  "SendBlockData sessionID pkt p =
     (if breq_MpInfo pkt = 0 then go_task (SendSP sessionID pkt (breq_StartDataNumber pkt)) p
      else
        let stop = pu_nextStop p;
            p = stop_existing p;
            pullMode = getPullMode (breq_MpInfo pkt);
            (numBlockOwners, peerId) = getPeerInfo (breq_MpInfo pkt)
        in if pullMode = PULL_MODE_MP then
             go_task (SendMP sessionID pkt 0 (pass_start (breq_StartDataNumber pkt) numBlockOwners peerId 0)) p
           else if pullMode = PULL_MODE_MP_FEC then go_task (EncodeFEC sessionID pkt stop) p
           else p)"

definition send_data :: "u32 \<Rightarrow> u32 \<Rightarrow> u32 \<Rightarrow> byte \<Rightarrow> bytes \<Rightarrow> PuCtrl \<Rightarrow> PuCtrl go" where
  "send_data sessionID blockNumber dataNumber dataType data =
     on_session_go sessionID (\<lambda>s.
       go_bind (sendBlockDataPacket (ps_sessionID s) blockNumber dataNumber dataType data (ps_stream s))
         (\<lambda>stream. Inr (s\<lparr>ps_stream := stream\<rparr>)))"

text \<open>The body of both transmission loops without FEC: read the data, wait for it if need be, send it;
  nothing when the block is not there.\<close>

definition send_number :: "Config \<Rightarrow> u32 \<Rightarrow> u32 \<Rightarrow> u32 \<Rightarrow> PuCtrl \<Rightarrow> PuCtrl go option" where
  "send_number C sessionID blockNumber dataNumber p =
     (case SafeMap_Get (pu_blockMap p) blockNumber of
        None \<Rightarrow> Some (Inr p)
      | Some block \<Rightarrow>
          (case ReadBlockDataByDataNumber C dataNumber (replicate PAYLOAD_SIZE 0) block of
             None \<Rightarrow> None
           | Some r \<Rightarrow> Some (go_bind r (\<lambda>(_, _, data).
               send_data sessionID blockNumber dataNumber DATA_TYPE_SOURCE data p))))"

definition sendBlockDataSP ::
    "Config \<Rightarrow> u32 \<Rightarrow> BlockRequestPacket \<Rightarrow> u32 \<Rightarrow> PuCtrl \<Rightarrow> (task option \<times> PuCtrl) go option" where
  "sendBlockDataSP C sessionID pkt dataNumber p =
     (if dataNumber \<le> breq_EndDataNumber pkt then
        map_option (\<lambda>r. go_bind r (\<lambda>p. Inr (Some (SendSP sessionID pkt (dataNumber + 1)), p)))
          (send_number C sessionID (breq_BlockNumber pkt) dataNumber p)
      else Some (Inr (None, p)))"

text \<open>The two nested loops: a pass that has reached the end starts the next one.\<close>

definition sendBlockDataMP ::
    "Config \<Rightarrow> u32 \<Rightarrow> BlockRequestPacket \<Rightarrow> nat \<Rightarrow> u32 \<Rightarrow> PuCtrl \<Rightarrow> (task option \<times> PuCtrl) go option" where
  "sendBlockDataMP C sessionID pkt i dataNumber p =
     (let (numBlockOwners, peerId) = getPeerInfo (breq_MpInfo pkt)
      in if i < unat numBlockOwners then
           if dataNumber \<le> breq_EndDataNumber pkt then
             map_option (\<lambda>r. go_bind r (\<lambda>p. Inr (Some (SendMP sessionID pkt i (dataNumber + numBlockOwners)), p)))
               (send_number C sessionID (breq_BlockNumber pkt) dataNumber p)
           else Some (Inr (Some (SendMP sessionID pkt (i + 1)
                  (pass_start (breq_StartDataNumber pkt) numBlockOwners peerId (i + 1))), p))
         else Some (Inr (None, p)))"

text \<open>\<open>sendBlockDataMPFEC\<close> up to its loops: encode the segment of the first requested data number.\<close>

definition encodeFEC ::
    "fec_lib \<Rightarrow> Config \<Rightarrow> u32 \<Rightarrow> BlockRequestPacket \<Rightarrow> nat \<Rightarrow> PuCtrl \<Rightarrow> (task option \<times> PuCtrl) go option" where
  "encodeFEC F C sessionID pkt stop p =
     (case SafeMap_Get (pu_blockMap p) (breq_BlockNumber pkt) of
        None \<Rightarrow> Some (Inl NilDeref)
      | Some block \<Rightarrow>
          map_option (\<lambda>r. go_bind r (\<lambda>(startFec, endFec, block).
              let (numBlockOwners, peerId) = getPeerInfo (breq_MpInfo pkt)
              in Inr (Some (SendFEC sessionID pkt 0 startFec endFec stop (pass_start startFec numBlockOwners peerId 0)),
                   p\<lparr>pu_blockMap := SafeMap_Set (breq_BlockNumber pkt) block (pu_blockMap p)\<rparr>)))
            (FecEncodeBlockData F C (breq_StartDataNumber pkt) (breq_FecSeedNumber pkt) block))"

text \<open>Its loops, which stop when their stop channel is closed.\<close>

definition sendBlockDataMPFEC ::
    "Config \<Rightarrow> u32 \<Rightarrow> BlockRequestPacket \<Rightarrow> nat \<Rightarrow> u32 \<Rightarrow> u32 \<Rightarrow> nat \<Rightarrow> u32 \<Rightarrow> PuCtrl \<Rightarrow>
     (task option \<times> PuCtrl) go" where
  "sendBlockDataMPFEC C sessionID pkt i startFec endFec stop fecDataNumber p =
     (let (numBlockOwners, peerId) = getPeerInfo (breq_MpInfo pkt)
      in if i < unat numBlockOwners then
           if fecDataNumber \<le> endFec then
             if stop \<in> set (pu_stopped p) then Inr (None, p)
             else go_bind
               (case SafeMap_Get (pu_blockMap p) (breq_BlockNumber pkt) of
                  None \<Rightarrow> Inr p
                | Some block \<Rightarrow>
                    go_bind (ReadBlockFecDataByDataNumber C fecDataNumber (replicate PAYLOAD_SIZE 0) block)
                      (\<lambda>(_, _, data). send_data sessionID (breq_BlockNumber pkt) fecDataNumber DATA_TYPE_FEC data p))
               (\<lambda>p. Inr (Some (SendFEC sessionID pkt i startFec endFec stop (fecDataNumber + numBlockOwners)), p))
           else Inr (Some (SendFEC sessionID pkt (i + 1) startFec endFec stop
                  (pass_start startFec numBlockOwners peerId (i + 1))), p)
         else Inr (None, p))"

section \<open>Receiving\<close>

text \<open>\<open>ReceiveBlockData\<close> up to the end of a segment, whose handling is the task \<open>EndSegment\<close>.\<close>

definition ReceiveBlockData ::
    "fec_lib \<Rightarrow> Config \<Rightarrow> u32 \<Rightarrow> BlockDataPacket \<Rightarrow> PuCtrl \<Rightarrow> PuCtrl go" where
  "ReceiveBlockData F C sessionID pkt p =
     (case SafeMap_Get (pu_blockMap p) (bdata_BlockNumber pkt) of
        None \<Rightarrow> Inl (Explicit ''PuCtrl.ReceiveBlockData(): Not found block buffer'')
      | Some block \<Rightarrow>
          go_bind (on_session sessionID (\<lambda>s. s\<lparr>ps_blockReceiving := True\<rparr>) p) (\<lambda>p.
          go_bind
            (if bdata_DataType pkt = DATA_TYPE_SOURCE
             then WriteBlockData C sessionID (bdata_DataNumber pkt) (bdata_Data pkt) block
             else if bdata_DataType pkt = DATA_TYPE_FEC
             then WriteBlockFecData F C sessionID (bdata_DataNumber pkt) (bdata_Data pkt) block
             else Inr (False, block)) (\<lambda>(endOfSegment, block).
              let p = p\<lparr>pu_blockMap := SafeMap_Set (bdata_BlockNumber pkt) block (pu_blockMap p)\<rparr>
              in Inr (if endOfSegment then go_task (EndSegment sessionID) p else p))))"

definition endSegment :: "u32 \<Rightarrow> PuCtrl \<Rightarrow> (task option \<times> PuCtrl) go option" where
  "endSegment sessionID p =
     (case gm_get (pu_sessionMap p) sessionID of
        None \<Rightarrow> Some (Inl NilDeref)
      | Some s \<Rightarrow>
          map_option (\<lambda>p. go_bind (on_session sessionID (\<lambda>s. s\<lparr>ps_blockReceiving := False\<rparr>) p)
              (\<lambda>p. Inr (None, p)))
            (if ps_sessionType s = PUSH_SESSION
             then map_option (\<lambda>c. p\<lparr>pu_semPush := Some c\<rparr>) (nil_send sessionID (pu_semPush p))
             else map_option (\<lambda>c. p\<lparr>pu_semPull := Some c\<rparr>) (nil_send sessionID (pu_semPull p))))"

section \<open>One iteration of a goroutine\<close>

fun run_task :: "fec_lib \<Rightarrow> Config \<Rightarrow> u32 \<Rightarrow> task \<Rightarrow> PuCtrl \<Rightarrow> (task option \<times> PuCtrl) go option" where
  "run_task F C rand (BlockRequest t bn bs off idx) p = blockRequest C t bn bs off idx p"
| "run_task F C rand (BlockRequestMP t bn bs off idx n) p = blockRequestMP C rand t bn bs off idx n p"
| "run_task F C rand (SendSP sid pkt dn) p = sendBlockDataSP C sid pkt dn p"
| "run_task F C rand (SendMP sid pkt i dn) p = sendBlockDataMP C sid pkt i dn p"
| "run_task F C rand (EncodeFEC sid pkt stop) p = encodeFEC F C sid pkt stop p"
| "run_task F C rand (SendFEC sid pkt i s e stop dn) p = Some (sendBlockDataMPFEC C sid pkt i s e stop dn p)"
| "run_task F C rand (EndSegment sid) p = endSegment sid p"

end
