(* ===== verification/Pu_Cmd.thy ===== *)
theory Pu_Cmd
  imports Pu_State Net_Addr
begin

text \<open>
  \<open>puctrl_cmd.go\<close>: the commands the controller builds and runs, as strings. \<open>Sprintf\<close> with \<open>%s\<close> and
  \<open>%d\<close> is concatenation. \<open>strings.Fields\<close> only splits the string before it is run; a command that has
  been run is an element of \<open>pu_commands\<close>. Whether a command succeeds is the argument \<open>run\<close>.
\<close>

definition port_str :: "u16 \<Rightarrow> string" where
  "port_str n = itoa_nat (unat n)"

text \<open>\<open>Conf.MY_IP_ADDRS[i]\<close> panics out of range.\<close>

definition my_ip :: "Config \<Rightarrow> nat \<Rightarrow> string go" where
  "my_ip C i = go_index (MY_IP_ADDRS C) i"

section \<open>Packet forwarding\<close>

text \<open>\<open>cmdFmt\<close> with its five arguments.\<close>

definition forward_cmd :: "string \<Rightarrow> string \<Rightarrow> u16 \<Rightarrow> string \<Rightarrow> u16 \<Rightarrow> string" where
  "forward_cmd chain action sport addr dport =
     ''iptables -t nat '' @ action @ '' '' @ chain @ '' -p udp --sport '' @ port_str sport @ '' -s '' @ addr
       @ '' -j DNAT --to-destination '' @ addr @ '':'' @ port_str dport"

definition run_cmd :: "string \<Rightarrow> PuCtrl \<Rightarrow> PuCtrl" where
  "run_cmd c p = p\<lparr>pu_commands := pu_commands p @ [c]\<rparr>"

definition DisablePacketForwarding :: "PuCtrl \<Rightarrow> PuCtrl" where
  "DisablePacketForwarding = run_cmd ''iptables -t nat --flush''"

definition EnablePacketForwarding :: "(string \<Rightarrow> bool) \<Rightarrow> Config \<Rightarrow> u16 \<Rightarrow> bool \<Rightarrow> PuCtrl \<Rightarrow> PuCtrl go" where
  "EnablePacketForwarding run C index isPullSender p =
     go_bind (my_ip C 0) (\<lambda>addr.
       let sport = (if \<not> isPullSender then EQUIC_APP_DST_PORT C + index else LISTEN_PORT C);
           cmds = (\<lambda>action. map (\<lambda>chain. forward_cmd chain action sport addr (EQUIC_APP_SRC_PORT C + index))
                     [''PREROUTING'', ''OUTPUT'']);
           p = fold run_cmd (cmds ''-D'') p
       in go_fold (\<lambda>c p. if run c then Inr (run_cmd c p)
                         else Inl (Explicit ''PuCtrl.EnablePacketForwarding(): Append Rule Failed!''))
            (cmds ''-A'') p)"

section \<open>Enhanced QUIC\<close>

definition addr_opt :: "string \<Rightarrow> string \<Rightarrow> u16 \<Rightarrow> string" where
  "addr_opt opt addr port = opt @ '' '' @ addr @ '':'' @ port_str port @ '' ''"

text \<open>The options of the tunnel; \<open>int(Conf.NUM_MULTIPATH)\<close> source addresses are read from the
  configuration.\<close>

definition quic_options :: "Config \<Rightarrow> string list \<Rightarrow> bool \<Rightarrow> byte \<Rightarrow> u16 \<Rightarrow> string go" where
  "quic_options C dstIpAddr isReceiver sessionType index =
     go_bind (my_ip C 0) (\<lambda>addr.
     go_bind (go_map (my_ip C) [0..<unat (NUM_MULTIPATH C)]) (\<lambda>paths.
       let cmd = (if EQUIC_FEC_MODE C then ''-f '' else '''') @ (if isReceiver then ''-r '' else '''')
             @ addr_opt ''-a'' addr (EQUIC_APP_SRC_PORT C + index)
             @ (if isReceiver \<and> sessionType = PUSH_SESSION \<or> \<not> isReceiver \<and> sessionType = PULL_SESSION
                then addr_opt ''-u'' addr (LISTEN_PORT C)
                else addr_opt ''-u'' addr (EQUIC_APP_DST_PORT C + index))
             @ concat (map (\<lambda>path. addr_opt ''-s'' path (EQUIC_TUN_SRC_PORT C + index)) paths);
           cmd = (if 0 < length dstIpAddr \<and> \<not> isReceiver
                  then if \<not> isReceiver \<and> sessionType = PULL_SESSION
                       then cmd @ concat (map (\<lambda>d. addr_opt ''-d'' d (EQUIC_TUN_DST_PORT C + 0)) dstIpAddr)
                       else cmd @ concat (map (\<lambda>d. addr_opt ''-d'' d (EQUIC_TUN_DST_PORT C)) dstIpAddr)
                  else cmd);
           cmd = (if 0 < length dstIpAddr \<and> isReceiver \<and> sessionType = PULL_SESSION
                  then cmd @ concat (map (\<lambda>d. addr_opt ''-d'' d (EQUIC_TUN_DST_PORT C)) dstIpAddr)
                  else cmd)
       in Inr cmd))"

definition RunEnhancedQuic :: "Config \<Rightarrow> string list \<Rightarrow> bool \<Rightarrow> byte \<Rightarrow> u16 \<Rightarrow> PuCtrl \<Rightarrow> PuCtrl go" where
  "RunEnhancedQuic C dstIpAddr isReceiver sessionType index p =
     go_bind (quic_options C dstIpAddr isReceiver sessionType index) (\<lambda>cmd.
       Inr (run_cmd (EQUIC_PATH C @ '' '' @ cmd) p))"

end
