(* ===== verification/Pu_Tree.thy ===== *)
theory Pu_Tree
  imports Pu_Transfer Pu_Cmd
begin

text \<open>
  \<open>puctrl.go\<close>: the distribution tree (node infos, children, ancestors), connecting to the children, the
  operations the application calls, the audit messages and the closing of a controller. What
  \<open>Connector\<close> obtains from the network is the argument \<open>dial\<close>: for the i-th attempt the ID of the new
  session, or \<open>None\<close> when the connection fails and the result is nil.
\<close>

section \<open>Node infos\<close>

definition SetNodeInfo :: "NodeInfo list \<Rightarrow> PuCtrl \<Rightarrow> PuCtrl" where
  "SetNodeInfo nodeinfos p =
     p\<lparr>pu_nodeInfo := map (\<lambda>n. \<lparr>node_IP = node_IP n, node_Port = node_Port n,
         node_NumOfChilds = node_NumOfChilds n, node_OffsetOfChild = node_OffsetOfChild n\<rparr>) nodeinfos\<rparr>"

definition GetNodeInfo :: "(string \<Rightarrow> ip option) \<Rightarrow> Config \<Rightarrow> PeerAddr list \<Rightarrow> NodeInfo list go" where
  "GetNodeInfo v6 C = go_map (\<lambda>a. go_bind (Ip2int v6 (pa_Addr a)) (\<lambda>ip.
     Inr \<lparr>node_IP = ip, node_Port = LISTEN_PORT C, node_NumOfChilds = pa_NumChild a,
          node_OffsetOfChild = pa_ChildOffset a\<rparr>))"

text \<open>\<open>var myInfo packet.NodeInfo\<close>.\<close>

definition zero_node :: NodeInfo where
  "zero_node = \<lparr>node_IP = 0, node_Port = 0, node_NumOfChilds = 0, node_OffsetOfChild = 0\<rparr>"

text \<open>The loop that looks for the node's own address: its index, or the number of nodes.\<close>

fun my_index :: "string \<Rightarrow> NodeInfo list \<Rightarrow> nat" where
  "my_index addr [] = 0"
| "my_index addr (n # ns) = (if Int2ip (node_IP n) = addr then 0 else my_index addr ns + 1)"

definition my_info :: "string \<Rightarrow> NodeInfo list \<Rightarrow> NodeInfo" where
  "my_info addr ns = (case find (\<lambda>n. Int2ip (node_IP n) = addr) ns of None \<Rightarrow> zero_node | Some n \<Rightarrow> n)"

text \<open>The first of the nodes before position \<open>i\<close> whose children include it; the comparisons are of bytes.\<close>

definition parent_of :: "nat \<Rightarrow> NodeInfo list \<Rightarrow> NodeInfo" where
  "parent_of i ns =
     (case find (\<lambda>n. node_OffsetOfChild n \<le> (of_nat i :: byte) \<and>
                     (of_nat i :: byte) < node_OffsetOfChild n + node_NumOfChilds n) (take i ns) of
        None \<Rightarrow> zero_node | Some n \<Rightarrow> n)"

text \<open>\<open>ancestorInfos[k]\<close> is filled for the \<open>j < i-1\<close> that are not the parent; what is not filled stays zero.\<close>

definition getAncestorInfo :: "Config \<Rightarrow> PuCtrl \<Rightarrow> NodeInfo list go" where
  "getAncestorInfo C p =
     (let ns = pu_nodeInfo p
      in go_bind (if ns = [] then Inr [] else my_ip C 0) (\<lambda>addr.
           let i = my_index addr ns;
               parentInfo = parent_of i ns;
               others = map (\<lambda>n. n\<lparr>node_NumOfChilds := 0, node_OffsetOfChild := 0\<rparr>)
                          (filter (\<lambda>n. node_IP parentInfo \<noteq> node_IP n) (take (i - 1) ns))
           in if int i - 1 \<le> 0 then Inl (Explicit ''PuCtrl.PushToPull(): No parent node found!'')
              else Inr ((my_info addr ns)\<lparr>node_NumOfChilds := of_nat (i - 1), node_OffsetOfChild := 1\<rparr>
                        # others @ replicate (i - 1 - length others) zero_node)))"

section \<open>Connecting\<close>

text \<open>\<open>listenOnce\<close>: the second call does nothing. The listening goroutine itself is \<open>Accept\<close> below.\<close>

definition Listen :: "(string \<Rightarrow> bool) \<Rightarrow> Config \<Rightarrow> PuCtrl \<Rightarrow> PuCtrl go" where
  "Listen run C p =
     (if pu_listening p then Inr p
      else
        let p = p\<lparr>pu_listening := True\<rparr>
        in if EQUIC_ENABLE C
           then go_bind (EnablePacketForwarding run C 0 False p) (RunEnhancedQuic C [] False PULL_SESSION 0)
           else Inr p)"

text \<open>The addresses of the children; the loop variable is a byte.\<close>

function child_range :: "byte \<Rightarrow> byte \<Rightarrow> byte list" where
  "child_range i e = (if i < e then i # child_range (i + 1) e else [])"
  by pat_completeness auto
termination
proof (relation "measure (\<lambda>(i, e). unat e - unat i)", simp, goal_cases)
  case (1 i e)
  then have "unat i < unat e" by (simp add: word_less_nat_alt)
  moreover have "unat e < 256" using unat_byte [of e] .
  ultimately have "unat (i + 1) = unat i + 1" by (simp add: unat_word_ariths)
  then show ?case using \<open>unat i < unat e\<close> by simp
qed

declare child_range.simps [simp del]

definition child_addrs :: "string \<Rightarrow> NodeInfo list \<Rightarrow> string list go" where
  "child_addrs addr nodeInfo =
     (let myInfo = my_info addr nodeInfo
      in go_map (\<lambda>i. go_bind (go_index nodeInfo (unat i)) (\<lambda>n. Inr (Int2ip (node_IP n) @ '':'' @ ''5000'')))
           (child_range (node_OffsetOfChild myInfo) (node_OffsetOfChild myInfo + node_NumOfChilds myInfo)))"

text \<open>\<open>Connector\<close>: the preamble is written, and the session entered in the map.\<close>

definition Connector :: "Config \<Rightarrow> u32 option \<Rightarrow> byte \<Rightarrow> PuCtrl \<Rightarrow> PuSession option \<times> PuCtrl" where
  "Connector C conn sessionType p =
     (case conn of
        None \<Rightarrow> (None, p)
      | Some sessionID \<Rightarrow>
          let (s, p) = CreatePuSession C sessionType sessionID True p;
              s = on_stream (\<lambda>b. b @ session_info sessionType sessionID) s
          in (Some s, p\<lparr>pu_sessionMap := gm_put (pu_sessionMap p) sessionID s\<rparr>))"

text \<open>One round of the loop over the children. The result of \<open>Connector\<close> is dereferenced by the log call.\<close>

definition connect_one ::
    "(string \<Rightarrow> bool) \<Rightarrow> (string \<Rightarrow> string \<Rightarrow> u32 option) \<Rightarrow> Config \<Rightarrow> byte \<Rightarrow> string \<Rightarrow> PuCtrl \<Rightarrow> PuCtrl go" where
  "connect_one run dial C sessionType peerAddr p =
     (let sessionID = pu_numSession p;
          p = p\<lparr>pu_numSession := pu_numSession p + 1\<rparr>
      in go_bind (my_ip C 0) (\<lambda>addr.
         let myBindAddr = addr @ '':'' @ port_str (BIND_PORT C + sessionID)
         in go_bind
              (if EQUIC_ENABLE C \<and> sessionType = PUSH_SESSION
               then go_bind (EnablePacketForwarding run C (pu_numSession p) False p)
                      (RunEnhancedQuic C [GetIP peerAddr] False sessionType sessionID)
               else Inr p) (\<lambda>p.
            case Connector C (dial myBindAddr peerAddr) sessionType p of
              (None, p) \<Rightarrow> Inl NilDeref
            | (Some s, p) \<Rightarrow> Inr p)))"

text \<open>\<open>NUM_PEERS\<close> limits the number of children that are connected to, when it is positive.\<close>

definition Connect ::
    "(string \<Rightarrow> bool) \<Rightarrow> (string \<Rightarrow> string \<Rightarrow> u32 option) \<Rightarrow> Config \<Rightarrow> NodeInfo list \<Rightarrow> byte \<Rightarrow> PuCtrl \<Rightarrow> PuCtrl go" where
  "Connect run dial C nodeInfo sessionType p =
     go_bind (if nodeInfo = [] then Inr [] else my_ip C 0) (\<lambda>addr.
     go_bind (child_addrs addr nodeInfo) (\<lambda>childAddr.
       let p = p\<lparr>pu_childAddr := childAddr\<rparr>;
           peers = (if 0 < NUM_PEERS C then take (unat (NUM_PEERS C)) childAddr else childAddr)
       in go_fold (connect_one run dial C sessionType) peers p))"

text \<open>The listening side of a connection, from the preamble the peer has sent.\<close>

definition Accept :: "Config \<Rightarrow> bytes \<Rightarrow> PuCtrl \<Rightarrow> PuCtrl" where
  "Accept C stream p =
     (let (sessionType, sessionID) = read_session_info stream;
          (s, p) = CreatePuSession C sessionType sessionID False p
      in p\<lparr>pu_sessionMap := gm_put (pu_sessionMap p) sessionID s\<rparr>)"

section \<open>The operations of the application\<close>

definition RegisterBlock :: "Config \<Rightarrow> bytes \<Rightarrow> u32 \<Rightarrow> PuCtrl \<Rightarrow> PuCtrl go" where
  "RegisterBlock C blockFile blockNumber p =
     go_bind (FillBlockFromFile C blockFile (CreateBlockBuffer blockNumber 0)) (\<lambda>block.
       Inr (p\<lparr>pu_blockMap := SafeMap_Set blockNumber block (pu_blockMap p)\<rparr>))"

definition Send :: "Config \<Rightarrow> bytes \<Rightarrow> u32 \<Rightarrow> PuCtrl \<Rightarrow> PuCtrl go" where
  "Send C blockFile blockNumber p =
     go_bind (RegisterBlock C blockFile blockNumber p) (\<lambda>p.
     go_bind (go_fold (\<lambda>sessionID. SendBlockInfo sessionID blockNumber) (session_ids PUSH_SESSION p) p) (\<lambda>q.
       if session_ids PUSH_SESSION p = [] then Inl (Explicit ''PuCtrl.SendBlock(): Push session does not exist!'')
       else Inr q))"

text \<open>The error result of the two audit operations is \<open>False\<close>.\<close>

definition SendAuditMsg :: "bytes \<Rightarrow> PuCtrl \<Rightarrow> (bool \<times> PuCtrl) go" where
  "SendAuditMsg data p =
     go_bind (go_fold (\<lambda>sessionID. SendAuditInfo sessionID data) (session_ids PUSH_SESSION p) p) (\<lambda>q.
       Inr (session_ids PUSH_SESSION p \<noteq> [], q))"

definition SendAuditAckMsg :: "bytes \<Rightarrow> PuCtrl \<Rightarrow> (bool \<times> PuCtrl) go" where
  "SendAuditAckMsg data p =
     go_bind (go_fold (\<lambda>sessionID. SendAuditAckInfo sessionID data) (session_ids PUSH_SESSION p) p) (\<lambda>q.
       Inr (session_ids PUSH_SESSION p \<noteq> [], q))"

text \<open>\<open>None\<close>: the loop spins, or the block waits for data.\<close>

definition Receive :: "bytes \<Rightarrow> PuCtrl \<Rightarrow> ((u32 \<times> u32 \<times> int \<times> bytes) \<times> PuCtrl) go option" where
  "Receive buf p =
     (case SafeMap_Get (pu_blockMap p) (pu_expectedBlockNumber p) of
        None \<Rightarrow> None
      | Some block \<Rightarrow>
          if b_readBytes block < b_blockSize block then
            map_option (\<lambda>r. go_bind r (\<lambda>(readLen, _, got, block).
                Inr ((pu_expectedBlockNumber p, b_blockSize block, readLen, got),
                  p\<lparr>pu_blockMap := SafeMap_Set (pu_expectedBlockNumber p) block (pu_blockMap p),
                    pu_peerModeStatus := (if pu_peerPushMode p then ''Push Mode: Download from parent!''
                      else ''Pull Mode: Download from pull node(s)!'')\<rparr>)))
              (ReadBlockData buf block)
          else None)"

definition FindBlock :: "u32 \<Rightarrow> PuCtrl \<Rightarrow> PuCtrl go" where
  "FindBlock blockNumber p =
     (let ids = session_ids PULL_SESSION p
      in go_bind (go_fold (\<lambda>sessionID p. go_bind (SendBlockFind sessionID blockNumber p) (\<lambda>p.
             Inr (p\<lparr>pu_numPullSession := pu_numPullSession p + 1\<rparr>))) ids (p\<lparr>pu_numPullSession := 0\<rparr>)) (\<lambda>p.
           if ids = [] then Inl (Explicit ''PuCtrl.FindBlock(): Pull session does not exist!'') else Inr p))"

definition PushToPull ::
    "(string \<Rightarrow> bool) \<Rightarrow> (string \<Rightarrow> string \<Rightarrow> u32 option) \<Rightarrow> Config \<Rightarrow> PuCtrl \<Rightarrow> PuCtrl go" where
  "PushToPull run dial C p =
     go_bind (getAncestorInfo C p) (\<lambda>ancestorInfos.
     go_bind (Connect run dial C ancestorInfos PULL_SESSION p) (\<lambda>p.
       FindBlock (pu_expectedBlockNumber p) p))"

definition CloseAllSessions :: "PuCtrl \<Rightarrow> PuCtrl" where
  "CloseAllSessions p = p\<lparr>pu_sessionMap := []\<rparr>"

text \<open>A session is closed and forgotten once per visit when there is a child at all.\<close>

definition DisconnectFromChildren :: "PuCtrl \<Rightarrow> PuCtrl" where
  "DisconnectFromChildren p =
     fold (\<lambda>sid p. if pu_childAddr p = [] then p else p\<lparr>pu_sessionMap := gm_del (pu_sessionMap p) sid\<rparr>)
       (map fst (pu_sessionMap p)) p"

section \<open>Audit messages\<close>

definition Register :: "PuCtrl \<Rightarrow> nat \<times> PuCtrl" where
  "Register p = (length (pu_AuditBroadcaster p), p\<lparr>pu_AuditBroadcaster := pu_AuditBroadcaster p @ [make_chan 10]\<rparr>)"

text \<open>\<open>select\<close> with a default: a full channel is passed over.\<close>

definition Broadcast :: "AuditDataPacket option \<Rightarrow> listener list \<Rightarrow> listener list" where
  "Broadcast pkt = map (\<lambda>ch. case chan_send pkt ch of None \<Rightarrow> ch | Some ch \<Rightarrow> ch)"

definition ReceiveAuditMsg :: "AuditDataPacket option \<Rightarrow> PuCtrl \<Rightarrow> PuCtrl" where
  "ReceiveAuditMsg pkt p = p\<lparr>pu_AuditBroadcaster := Broadcast pkt (pu_AuditBroadcaster p)\<rparr>"

section \<open>Closing\<close>

definition owned_ids :: "PuCtrl \<Rightarrow> u32 list" where
  "owned_ids p = map fst (filter (\<lambda>(_, s). ps_sessionOwner s) (pu_sessionMap p))"

definition foreign_ids :: "PuCtrl \<Rightarrow> u32 list" where
  "foreign_ids p = map fst (filter (\<lambda>(_, s). \<not> ps_sessionOwner s) (pu_sessionMap p))"

definition send_fin :: "u32 \<Rightarrow> u32 list \<Rightarrow> PuCtrl \<Rightarrow> PuCtrl go" where
  "send_fin blockNumber = go_fold (\<lambda>sid. on_session sid (\<lambda>s. on_stream (sendFinPacket (ps_sessionID s) blockNumber) s))"

definition send_fin_ack :: "u32 \<Rightarrow> u32 list \<Rightarrow> PuCtrl \<Rightarrow> PuCtrl go" where
  "send_fin_ack blockNumber = go_fold (\<lambda>sid. on_session sid (\<lambda>s. on_stream (sendFinAckPacket (ps_sessionID s) blockNumber) s))"

text \<open>Where \<open>Close\<close> stands: waiting for a FIN from the parent, with the number of own sessions it
  counted; waiting for FIN ACKs from the children, with the block number to acknowledge to the parent
  afterwards, if there is one; or returned.\<close>

datatype close_state = AwaitFin nat | AwaitAcks nat "u32 option" | Closed

definition Close_begin :: "u32 \<Rightarrow> PuCtrl \<Rightarrow> (close_state \<times> PuCtrl) go" where
  "Close_begin blockNumber p =
     (let numOwnerSessions = length (owned_ids p)
      in if numOwnerSessions = length (pu_sessionMap p)
         then go_bind (send_fin blockNumber (owned_ids p) p) (\<lambda>p. Inr (AwaitAcks numOwnerSessions None, p))
         else if numOwnerSessions < length (pu_sessionMap p) then Inr (AwaitFin numOwnerSessions, p)
         else Inr (Closed, p))"

fun Close_step :: "close_state \<Rightarrow> PuCtrl \<Rightarrow> (close_state \<times> PuCtrl) go option" where
  "Close_step (AwaitFin n) p =
     (case chan_recv (pu_chFinReceived p) of
        None \<Rightarrow> None
      | Some (lastBlockNumber, c) \<Rightarrow>
          let p = p\<lparr>pu_chFinReceived := c\<rparr>
          in Some (if 0 < n
               then go_bind (send_fin lastBlockNumber (owned_ids p) p) (\<lambda>p. Inr (AwaitAcks n (Some lastBlockNumber), p))
               else go_bind (send_fin_ack lastBlockNumber (foreign_ids p) p) (\<lambda>p. Inr (Closed, p))))"
| "Close_step (AwaitAcks (Suc n) parent) p =
     (case chan_recv (pu_chFinAckReceived p) of
        None \<Rightarrow> None
      | Some (_, c) \<Rightarrow> Some (Inr (AwaitAcks n parent, p\<lparr>pu_chFinAckReceived := c\<rparr>)))"
| "Close_step (AwaitAcks 0 parent) p =
     Some (case parent of
        None \<Rightarrow> Inr (Closed, p)
      | Some lastBlockNumber \<Rightarrow> go_bind (send_fin_ack lastBlockNumber (foreign_ids p) p) (\<lambda>p. Inr (Closed, p)))"
| "Close_step Closed p = None"

end
