(* ===== verification/Pu_Handlers.thy ===== *)
theory Pu_Handlers
  imports Pu_Tree
begin

text \<open>
  The packet handlers of \<open>puctrl_session.go\<close>, and \<open>handle\<close>, which calls the one of a packet that
  \<open>parsePacket\<close> hands over. A handler runs for a session of the session map. \<open>ready\<close> says that
  a receiver waits at the unbuffered \<open>AuditMsgAckChan\<close>.
\<close>

definition handleNodeInfoPacket ::
    "(string \<Rightarrow> bool) \<Rightarrow> (string \<Rightarrow> string \<Rightarrow> u32 option) \<Rightarrow> Config \<Rightarrow> NodeInfoPacket \<Rightarrow> PuCtrl \<Rightarrow> PuCtrl go" where
  "handleNodeInfoPacket run dial C pkt p =
     Connect run dial C (ninfo_NodeInfos pkt) (ucast (ninfo_SessionType pkt))
       (SetNodeInfo (ninfo_NodeInfos pkt) p)"

definition handlePathInfoPacket ::
    "(string \<Rightarrow> ip option) \<Rightarrow> Config \<Rightarrow> u32 \<Rightarrow> PathInfoPacket \<Rightarrow> PuCtrl \<Rightarrow> PuCtrl go" where
  "handlePathInfoPacket v6 C sid pkt =
     on_session_go sid (\<lambda>s.
       if unat (NUM_MULTIPATH C) \<le> length (MY_IP_ADDRS C) then
         go_bind (sendPathInfoAckPacket v6 (ps_sessionType s) (take (unat (NUM_MULTIPATH C)) (MY_IP_ADDRS C))
                    (ps_stream s)) (\<lambda>stream. Inr (s\<lparr>ps_stream := stream\<rparr>))
       else Inl Bounds)"

definition handleAuditMsgPacket :: "AuditDataPacket option \<Rightarrow> PuCtrl \<Rightarrow> PuCtrl" where
  "handleAuditMsgPacket pkt = ReceiveAuditMsg pkt"

definition ReceiveAuditMsgAck :: "bool \<Rightarrow> AuditDataAckPacket option \<Rightarrow> PuCtrl \<Rightarrow> PuCtrl option" where
  "ReceiveAuditMsgAck ready pkt p =
     (if ready then Some (p\<lparr>pu_AuditMsgAckChan := pu_AuditMsgAckChan p @ [pkt]\<rparr>) else None)"

definition handleBlockFindPacket :: "u32 \<Rightarrow> BlockFindPacket \<Rightarrow> PuCtrl \<Rightarrow> PuCtrl go" where
  "handleBlockFindPacket sid pkt = SendBlockInfo sid (bfind_BlockNumber pkt)"

definition handleBlockInfoPacket :: "Config \<Rightarrow> u32 \<Rightarrow> BlockInfoPacket \<Rightarrow> PuCtrl \<Rightarrow> PuCtrl go" where
  "handleBlockInfoPacket C sid pkt p =
     go_bind (on_session sid (\<lambda>s. s\<lparr>ps_blockNumber := binfo_BlockNumber pkt, ps_blockStatus := binfo_Status pkt\<rparr>) p) (\<lambda>p.
     go_bind (of_session sid ps_sessionType p) (\<lambda>sessionType.
       Inr (SendBlockRequest C sessionType sid pkt p)))"

definition handleBlockRequestPacket :: "u32 \<Rightarrow> BlockRequestPacket \<Rightarrow> PuCtrl \<Rightarrow> PuCtrl" where
  "handleBlockRequestPacket sid pkt = SendBlockData sid pkt"

text \<open>The block looked up is the session's, the one written to is the packet's.\<close>

definition handleBlockDataPacket ::
    "fec_lib \<Rightarrow> Config \<Rightarrow> u32 \<Rightarrow> BlockDataPacket \<Rightarrow> PuCtrl \<Rightarrow> PuCtrl go" where
  "handleBlockDataPacket F C sid pkt p =
     go_bind (of_session sid ps_blockNumber p) (\<lambda>blockNumber.
       case SafeMap_Get (pu_blockMap p) blockNumber of
         None \<Rightarrow> Inr p
       | Some _ \<Rightarrow> ReceiveBlockData F C sid pkt p)"

definition handleFinPacket :: "FinPacket \<Rightarrow> PuCtrl \<Rightarrow> PuCtrl option" where
  "handleFinPacket pkt p =
     map_option (\<lambda>c. p\<lparr>pu_chFinReceived := c\<rparr>) (chan_send (fin_BlockNumber pkt) (pu_chFinReceived p))"

definition handleFinAckPacket :: "FinAckPacket \<Rightarrow> PuCtrl \<Rightarrow> PuCtrl option" where
  "handleFinAckPacket pkt p =
     map_option (\<lambda>c. p\<lparr>pu_chFinAckReceived := c\<rparr>) (chan_send (finack_BlockNumber pkt) (pu_chFinAckReceived p))"

text \<open>The calls of \<open>parsePacket\<close>.\<close>

fun handle ::
    "(string \<Rightarrow> ip option) \<Rightarrow> (string \<Rightarrow> bool) \<Rightarrow> (string \<Rightarrow> string \<Rightarrow> u32 option) \<Rightarrow> fec_lib \<Rightarrow> Config \<Rightarrow> bool \<Rightarrow>
     u32 \<Rightarrow> incoming \<Rightarrow> PuCtrl \<Rightarrow> PuCtrl go option" where
  "handle v6 run dial F C ready sid (InBlockFind pkt) p = Some (handleBlockFindPacket sid pkt p)"
| "handle v6 run dial F C ready sid (InBlockInfo pkt) p = Some (handleBlockInfoPacket C sid pkt p)"
| "handle v6 run dial F C ready sid (InBlockRequest pkt) p = Some (Inr (handleBlockRequestPacket sid pkt p))"
| "handle v6 run dial F C ready sid (InBlockData pkt) p = Some (handleBlockDataPacket F C sid pkt p)"
| "handle v6 run dial F C ready sid (InNodeInfo pkt) p = Some (handleNodeInfoPacket run dial C pkt p)"
| "handle v6 run dial F C ready sid (InPathInfo pkt) p = Some (handlePathInfoPacket v6 C sid pkt p)"
| "handle v6 run dial F C ready sid (InPathInfoAck pkt) p = Some (Inr p)"
| "handle v6 run dial F C ready sid (InFin pkt) p = map_option Inr (handleFinPacket pkt p)"
| "handle v6 run dial F C ready sid (InFinAck pkt) p = map_option Inr (handleFinAckPacket pkt p)"
| "handle v6 run dial F C ready sid (InAudit pkt) p = Some (Inr (handleAuditMsgPacket pkt p))"
| "handle v6 run dial F C ready sid (InAuditAck pkt) p = map_option Inr (ReceiveAuditMsgAck ready pkt p)"

end
