(* ===== verification/Pu_Send_Props.thy ===== *)
theory Pu_Send_Props
  imports Pu_Handlers
begin

text \<open>
  The sending side of a block transfer: what \<open>MpInfo\<close> carries, and what the transmission loops of
  \<open>puctrl_handler.go\<close> write to a session, from the request to their end.
\<close>

section \<open>Writing to sessions one after the other\<close>

lemma on_session_ok:
  "gm_get (pu_sessionMap p) sid = Some s \<Longrightarrow>
   on_session sid f p = Inr (p\<lparr>pu_sessionMap := gm_put (pu_sessionMap p) sid (f s)\<rparr>)"
  by (simp add: on_session_def)

lemma gm_get_put [simp]: "gm_get (gm_put m k v) k' = (if k' = k then Some v else gm_get m k')"
  by (simp add: gm_get_def gm_put_def update_conv')

lemma gm_get_key: "k \<in> set (map fst m) \<Longrightarrow> \<exists>v. gm_get m k = Some v"
  unfolding gm_get_def by (metis map_of_eq_None_iff not_Some_eq set_map)

lemma gm_key_get: "gm_get m k = Some v \<Longrightarrow> k \<in> set (map fst m)"
  unfolding gm_get_def by (metis map_of_eq_None_iff option.distinct(1) set_map)

text \<open>A loop over distinct sessions, each changed by its own function, changes nothing else.\<close>

lemma fold_on_session:
  assumes "distinct (map snd kis)" and "set (map snd kis) \<subseteq> set (map fst (pu_sessionMap p))"
  shows "\<exists>q. go_fold (\<lambda>(k, sid). on_session sid (f k)) kis p = Inr q \<and>
    q = p\<lparr>pu_sessionMap := pu_sessionMap q\<rparr> \<and>
    map fst (pu_sessionMap q) = map fst (pu_sessionMap p) \<and>
    (\<forall>sid. sid \<notin> set (map snd kis) \<longrightarrow> gm_get (pu_sessionMap q) sid = gm_get (pu_sessionMap p) sid) \<and>
    (\<forall>(k, sid) \<in> set kis. gm_get (pu_sessionMap q) sid = map_option (f k) (gm_get (pu_sessionMap p) sid))"
  using assms
proof (induction kis arbitrary: p)
  case (Cons x kis)
  obtain k sid where x: "x = (k, sid)" by (cases x)
  obtain s where s: "gm_get (pu_sessionMap p) sid = Some s" using Cons.prems(2) x gm_get_key by fastforce
  let ?p = "p\<lparr>pu_sessionMap := gm_put (pu_sessionMap p) sid (f k s)\<rparr>"
  have keys: "map fst (pu_sessionMap ?p) = map fst (pu_sessionMap p)"
    using gm_put_keys [of sid "pu_sessionMap p" "f k s"] gm_key_get [OF s] by simp
  have "distinct (map snd kis)" "set (map snd kis) \<subseteq> set (map fst (pu_sessionMap ?p))"
    using Cons.prems unfolding keys by auto
  from Cons.IH [OF this] obtain q where q: "go_fold (\<lambda>(k, sid). on_session sid (f k)) kis ?p = Inr q"
    "q = ?p\<lparr>pu_sessionMap := pu_sessionMap q\<rparr>" "map fst (pu_sessionMap q) = map fst (pu_sessionMap ?p)"
    "\<forall>sid. sid \<notin> set (map snd kis) \<longrightarrow> gm_get (pu_sessionMap q) sid = gm_get (pu_sessionMap ?p) sid"
    "\<forall>(k, sid) \<in> set kis. gm_get (pu_sessionMap q) sid = map_option (f k) (gm_get (pu_sessionMap ?p) sid)"
    by blast
  have "sid \<notin> set (map snd kis)" using Cons.prems(1) x by simp
  then have "gm_get (pu_sessionMap q) sid = map_option (f k) (gm_get (pu_sessionMap p) sid)"
    using q(4) s by simp
  moreover have "gm_get (pu_sessionMap q) i = map_option (f j) (gm_get (pu_sessionMap p) i)" if "(j, i) \<in> set kis" for j i
  proof -
    have "i \<noteq> sid" using that Cons.prems(1) x by force
    then show ?thesis using q(5) that by auto
  qed
  moreover have "go_fold (\<lambda>(k, sid). on_session sid (f k)) (x # kis) p = Inr q"
    using q(1) s by (simp add: x on_session_ok)
  moreover have "q = p\<lparr>pu_sessionMap := pu_sessionMap q\<rparr>" using q(2) by simp
  ultimately show ?case
    using q(3,4) keys by (intro exI [of _ q]) (auto simp: x)
qed simp

lemma fold_on_session_const:
  assumes "distinct sids" and "set sids \<subseteq> set (map fst (pu_sessionMap p))"
  shows "\<exists>q. go_fold (\<lambda>sid. on_session sid f) sids p = Inr q \<and>
    q = p\<lparr>pu_sessionMap := pu_sessionMap q\<rparr> \<and>
    map fst (pu_sessionMap q) = map fst (pu_sessionMap p) \<and>
    (\<forall>sid. gm_get (pu_sessionMap q) sid =
       (if sid \<in> set sids then map_option f (gm_get (pu_sessionMap p) sid) else gm_get (pu_sessionMap p) sid))"
proof -
  let ?kis = "map (\<lambda>sid. ((), sid)) sids"
  have "distinct (map snd ?kis)" "set (map snd ?kis) \<subseteq> set (map fst (pu_sessionMap p))"
    using assms by (simp_all add: comp_def)
  from fold_on_session [OF this, of "\<lambda>_. f"] obtain q where
    q: "go_fold (\<lambda>(k, sid). on_session sid f) ?kis p = Inr q" "q = p\<lparr>pu_sessionMap := pu_sessionMap q\<rparr>"
    "map fst (pu_sessionMap q) = map fst (pu_sessionMap p)"
    "\<forall>sid. sid \<notin> set (map snd ?kis) \<longrightarrow> gm_get (pu_sessionMap q) sid = gm_get (pu_sessionMap p) sid"
    "\<forall>(k, sid) \<in> set ?kis. gm_get (pu_sessionMap q) sid = map_option f (gm_get (pu_sessionMap p) sid)" by blast
  have "go_fold (\<lambda>(k, sid). on_session sid f) (map (\<lambda>sid. ((), sid)) xs) p = go_fold (\<lambda>sid. on_session sid f) xs p"
    for xs and p :: PuCtrl
  proof (induction xs arbitrary: p)
    case (Cons x xs)
    then show ?case by (cases "on_session x f p") simp_all
  qed simp
  then show ?thesis using q by (intro exI [of _ q]) (auto simp: comp_def)
qed

lemma session_ids_keys: "set (session_ids t p) \<subseteq> set (map fst (pu_sessionMap p))"
  by (auto simp: session_ids_def)

lemma distinct_session_ids: "gm_ok (pu_sessionMap p) \<Longrightarrow> distinct (session_ids t p)"
  unfolding session_ids_def gm_ok_def by (induction "pu_sessionMap p") (auto intro: distinct_map_filterI)

lemma in_session_ids:
  assumes "gm_ok (pu_sessionMap p)"
  shows "sid \<in> set (session_ids t p) \<longleftrightarrow> (\<exists>s. gm_get (pu_sessionMap p) sid = Some s \<and> ps_sessionType s = t)"
  using assms unfolding session_ids_def gm_ok_def gm_get_def
  by (auto simp: image_iff)

section \<open>MpInfo\<close>

definition small :: "nat \<Rightarrow> byte list" where
  "small n = map of_nat [0..<n]"

lemma in_small: "unat b < n \<Longrightarrow> b \<in> set (small n)"
  unfolding small_def by (auto simp: image_iff intro!: bexI [of _ "unat b"])

definition mp_ok :: "byte \<Rightarrow> byte \<Rightarrow> byte \<Rightarrow> bool" where
  "mp_ok m n k \<longleftrightarrow>
     (let mp = setPullModePeerInfo m n + k
      in getPullMode mp = m \<and> getPeerInfo mp = (ucast n, ucast k))"

lemma mp_table: "list_all (\<lambda>m. list_all (\<lambda>n. list_all (mp_ok m n) (small 8)) (small 8)) (small 4)"
  by code_simp

definition mp_over :: "byte \<Rightarrow> byte \<Rightarrow> byte \<Rightarrow> bool" where
  "mp_over m n k \<longleftrightarrow> getPeerInfo (setPullModePeerInfo m n + (8 + k)) = (ucast n + 1, ucast k)"

lemma mp_over_table: "list_all (\<lambda>m. list_all (\<lambda>n. list_all (mp_over m n) (small 8)) (small 7)) (small 4)"
  by code_simp

text \<open>
  What the requester packs into \<open>MpInfo\<close> (the pull mode, fewer than eight owners, the number of the
  session) is what the sender unpacks for each of the first eight pull sessions; for the ninth to
  the sixteenth, whom the loop also counts up to, the peer ID starts again at zero and the number of
  owners is read as one too high.
\<close>

theorem mpInfo_roundtrip:
  assumes "unat m < 4" and "unat n < 8" and "unat k < 8"
  shows "getPullMode (setPullModePeerInfo m n + k) = m \<and>
    getPeerInfo (setPullModePeerInfo m n + k) = (ucast n, ucast k) \<and>
    (unat n < 7 \<longrightarrow> getPeerInfo (setPullModePeerInfo m n + (8 + k)) = (ucast n + 1, ucast k))"
proof -
  have "mp_ok m n k"
    using mp_table in_small [OF assms(1)] in_small [OF assms(2)] in_small [OF assms(3)]
    unfolding list_all_iff by blast
  moreover have "mp_over m n k" if "unat n < 7"
    using mp_over_table in_small [OF assms(1)] in_small [OF that] in_small [OF assms(3)]
    unfolding list_all_iff by blast
  ultimately show ?thesis by (simp add: mp_ok_def mp_over_def Let_def)
qed

theorem mpInfo_roundtrip_witness:
  "getPullMode (setPullModePeerInfo 2 3 + 1) = 2 \<and> getPeerInfo (setPullModePeerInfo 2 3 + 1) = (3, 1) \<and>
   getPeerInfo (setPullModePeerInfo 2 3 + (8 + 1)) = (4, 1)"
  using mpInfo_roundtrip [of 2 3 1] by simp

section \<open>Data packets of a session\<close>

text \<open>The packet of data number \<open>d\<close>: the chunk, with zeros behind a shorter last one.\<close>

definition data_packet :: "u32 \<Rightarrow> u32 \<Rightarrow> bytes \<Rightarrow> nat \<Rightarrow> bytes" where
  "data_packet sessionID blockNumber src d =
     BlockDataPacket_Write \<lparr>bdata_Type = BLOCK_DATA_PACKET, bdata_Length = 1040,
       bdata_BlockNumber = blockNumber, bdata_DataNumber = of_nat d, bdata_SessionID = sessionID,
       bdata_DataType = DATA_TYPE_SOURCE,
       bdata_Data = chunk src d @ drop (length (chunk src d)) (replicate PAYLOAD_SIZE 0)\<rparr> []"

lemma length_chunk_le: "length (chunk src d) \<le> 1024"
  by (simp add: length_chunk)

definition wrote :: "u32 \<Rightarrow> bytes \<Rightarrow> PuCtrl \<Rightarrow> PuCtrl" where
  "wrote sid bs p = (case gm_get (pu_sessionMap p) sid of None \<Rightarrow> p
     | Some s \<Rightarrow> p\<lparr>pu_sessionMap := gm_put (pu_sessionMap p) sid (on_stream (\<lambda>b. b @ bs) s)\<rparr>)"

lemma wrote_blockMap [simp]: "pu_blockMap (wrote sid bs p) = pu_blockMap p"
  by (simp add: wrote_def split: option.split)

lemma wrote_session:
  "gm_get (pu_sessionMap p) sid = Some s \<Longrightarrow>
   gm_get (pu_sessionMap (wrote sid bs p)) sid = Some (on_stream (\<lambda>b. b @ bs) s)"
  by (simp add: wrote_def)

lemma wrote_Nil: "gm_get (pu_sessionMap p) sid = Some s \<Longrightarrow> wrote sid [] p = p"
  by (simp add: wrote_def on_stream_def gm_put_def gm_get_def update_triv)

lemma wrote_wrote:
  "gm_get (pu_sessionMap p) sid = Some s \<Longrightarrow> wrote sid bs' (wrote sid bs p) = wrote sid (bs @ bs') p"
  by (simp add: wrote_def on_stream_def) (simp add: gm_put_def)

lemma send_data_ok:
  assumes "gm_get (pu_sessionMap p) sid = Some s"
  shows "send_data sid bn (of_nat d) DATA_TYPE_SOURCE
      (chunk src d @ drop (length (chunk src d)) (replicate PAYLOAD_SIZE 0)) p
    = Inr (wrote sid (data_packet (ps_sessionID s) bn src d) p)"
proof -
  have len: "length (chunk src d @ drop (length (chunk src d)) (replicate PAYLOAD_SIZE (0 :: byte))) = 1024"
    using length_chunk_le [of src d] by (simp add: PAYLOAD_SIZE_def)
  show ?thesis
    unfolding send_data_def on_session_go_def sendBlockDataPacket_def CreateBlockDataPacket_def Let_def len
    using assms
    by (simp add: wrote_def on_stream_def data_packet_def sendPacket_def BLOCK_DATA_PACKET_HEADER_LEN_def
        PAYLOAD_SIZE_def)
qed

text \<open>A session that serves a block the controller holds in full.\<close>

definition serves :: "Config \<Rightarrow> nat \<Rightarrow> u32 \<Rightarrow> u32 \<Rightarrow> bytes \<Rightarrow> PuCtrl \<Rightarrow> u32 \<Rightarrow> bool" where
  "serves C m sid bn src p ps_id \<longleftrightarrow>
     conf_ok C m \<and> (\<exists>b. SafeMap_Get (pu_blockMap p) bn = Some b \<and> holds_file m b src) \<and>
     (\<exists>s. gm_get (pu_sessionMap p) sid = Some s \<and> ps_sessionID s = ps_id)"

lemma serves_wrote: "serves C m sid bn src p i \<Longrightarrow> serves C m sid bn src (wrote sid bs p) i"
  unfolding serves_def using wrote_session by (fastforce simp: on_stream_def)

lemma serves_wrote_wrote:
  "serves C m sid bn src p i \<Longrightarrow> wrote sid bs' (wrote sid bs p) = wrote sid (bs @ bs') p"
  unfolding serves_def using wrote_wrote by blast

lemma send_number_ok:
  assumes "serves C m sid bn src p i" and "d < num_chunks (length src)"
  shows "send_number C sid bn (of_nat d) p = Some (Inr (wrote sid (data_packet i bn src d) p))"
proof -
  obtain b s where b: "conf_ok C m" "SafeMap_Get (pu_blockMap p) bn = Some b" "holds_file m b src"
    and s: "gm_get (pu_sessionMap p) sid = Some s" "ps_sessionID s = i"
    using assms(1) unfolding serves_def by blast
  obtain eos where "ReadBlockDataByDataNumber C (of_nat d) (replicate PAYLOAD_SIZE 0) b
      = Some (Inr (int (length (chunk src d)), eos, chunk src d @ drop (length (chunk src d)) (replicate PAYLOAD_SIZE 0)))"
    using ReadBlockDataByDataNumber_ok [OF b(1) b(3) [unfolded holds_file_def], of d "replicate PAYLOAD_SIZE 0"]
      assms(2) by (auto simp: PAYLOAD_SIZE_def)
  then show ?thesis
    using send_data_ok [OF s(1), of bn d src] s(2) by (simp add: send_number_def b(2))
qed

section \<open>Runs of one goroutine\<close>

text \<open>\<open>n\<close> iterations of a goroutine that nothing interferes with.\<close>

fun run_n :: "fec_lib \<Rightarrow> Config \<Rightarrow> u32 \<Rightarrow> nat \<Rightarrow> task \<Rightarrow> PuCtrl \<Rightarrow> (task option \<times> PuCtrl) go option" where
  "run_n F C r 0 t p = Some (Inr (Some t, p))"
| "run_n F C r (Suc n) t p =
     (case run_task F C r t p of
        Some (Inr (Some t', p')) \<Rightarrow> run_n F C r n t' p'
      | res \<Rightarrow> res)"

definition finishes :: "fec_lib \<Rightarrow> Config \<Rightarrow> u32 \<Rightarrow> task \<Rightarrow> PuCtrl \<Rightarrow> PuCtrl \<Rightarrow> bool" where
  "finishes F C r t p q \<longleftrightarrow> (\<exists>n. run_n F C r n t p = Some (Inr (None, q)))"

lemma finishes_step:
  "run_task F C r t p = Some (Inr (Some t', p')) \<Longrightarrow> finishes F C r t' p' q \<Longrightarrow> finishes F C r t p q"
  unfolding finishes_def by (metis (no_types, lifting) run_n.simps(2) option.simps(5) sum.case(2) prod.case option.case(2))

lemma finishes_end: "run_task F C r t p = Some (Inr (None, q)) \<Longrightarrow> finishes F C r t p q"
  unfolding finishes_def by (rule exI [of _ 1]) simp

section \<open>Single peer\<close>

definition data_packets :: "u32 \<Rightarrow> u32 \<Rightarrow> bytes \<Rightarrow> nat list \<Rightarrow> bytes" where
  "data_packets i bn src ds = concat (map (data_packet i bn src) ds)"

lemma data_packets_simps [simp]:
  "data_packets i bn src [] = []"
  "data_packets i bn src (d # ds) = data_packet i bn src d @ data_packets i bn src ds"
  "data_packets i bn src (ds @ es) = data_packets i bn src ds @ data_packets i bn src es"
  by (simp_all add: data_packets_def)

lemma chunk_number_small: "conf_ok C m \<Longrightarrow> holds m b src S \<Longrightarrow> d < num_chunks (length src) \<Longrightarrow> d < 2 ^ 22"
  using unat_u32_lt [of "b_blockSize b"] unfolding holds_def num_chunks_def by auto

lemma serves_small: "serves C m sid bn src p i \<Longrightarrow> d < num_chunks (length src) \<Longrightarrow> d < 2 ^ 22"
  unfolding serves_def holds_file_def using chunk_number_small by blast

lemma serves_session: "serves C m sid bn src p i \<Longrightarrow> wrote sid [] p = p"
  unfolding serves_def using wrote_Nil by blast

lemma SP_run:
  assumes "serves C m sid (breq_BlockNumber pkt) src p i" and "e < num_chunks (length src)"
    and "breq_EndDataNumber pkt = of_nat e" and "d \<le> e + 1"
  shows "finishes F C r (SendSP sid pkt (of_nat d)) p
           (wrote sid (data_packets i (breq_BlockNumber pkt) src [d..<e + 1]) p)"
  using assms(1,4)
proof (induction "e + 1 - d" arbitrary: d p)
  case 0
  then have "d = e + 1" by simp
  then have "\<not> (of_nat d :: u32) \<le> of_nat e"
    using serves_small [OF 0(2) assms(2)] by (simp add: word_le_nat_alt unat_of_nat_lt del: of_nat_add of_nat_Suc)
  then show ?case
    using 0 \<open>d = e + 1\<close> by (intro finishes_end) (simp add: sendBlockDataSP_def assms(3) serves_session)
next
  case (Suc k)
  let ?bn = "breq_BlockNumber pkt"
  have d: "d \<le> e" "d < num_chunks (length src)" using Suc.hyps(2) assms(2) by simp_all
  have le: "(of_nat d :: u32) \<le> of_nat e"
    using serves_small [OF Suc.prems(1) assms(2)] d(1) by (simp add: word_le_nat_alt unat_of_nat_lt)
  have "run_task F C r (SendSP sid pkt (of_nat d)) p
      = Some (Inr (Some (SendSP sid pkt (of_nat (d + 1))), wrote sid (data_packet i ?bn src d) p))"
    using send_number_ok [OF Suc.prems(1) d(2)] le by (simp add: sendBlockDataSP_def assms(3) add.commute)
  moreover have "finishes F C r (SendSP sid pkt (of_nat (d + 1))) (wrote sid (data_packet i ?bn src d) p)
      (wrote sid (data_packets i ?bn src [d + 1..<e + 1]) (wrote sid (data_packet i ?bn src d) p))"
    by (rule Suc.hyps(1)) (use Suc d serves_wrote in auto)
  moreover have "[d..<e + 1] = d # [d + 1..<e + 1]" using d(1) by (simp add: upt_rec)
  ultimately show ?case
    using finishes_step serves_wrote_wrote [OF Suc.prems(1)] by fastforce
qed

text \<open>A controller with one push session that holds a block of two chunks.\<close>

definition demo_session :: "byte \<Rightarrow> u32 \<Rightarrow> PuSession" where
  "demo_session sessionType sid = fst (CreatePuSession tiny_config sessionType sid True (CreatePuCtrl 1))"

definition demo_block :: Block where
  "demo_block = projr (FillBlockFromFile tiny_config (replicate 1500 7) (CreateBlockBuffer 1 0))"

definition demo_ctrl :: PuCtrl where
  "demo_ctrl = (CreatePuCtrl 1)\<lparr>pu_sessionMap := [(7, demo_session PUSH_SESSION 7)],
     pu_blockMap := SafeMap_Set 1 demo_block NewSafeMap\<rparr>"

lemma demo_sels [simp]:
  "SafeMap_Get (pu_blockMap demo_ctrl) k = (if k = 1 then Some demo_block else None)"
  "gm_get (pu_sessionMap demo_ctrl) k = (if k = 7 then Some (demo_session PUSH_SESSION 7) else None)"
  "ps_sessionID (demo_session t sid) = sid" "ps_sessionType (demo_session t sid) = t"
  by (auto simp: demo_ctrl_def demo_session_def CreatePuSession_def CreatePuCtrl_def gm_get_def)

lemma serves_demo: "serves tiny_config 2 7 1 (replicate 1500 7) demo_ctrl 7"
proof -
  obtain b where "FillBlockFromFile tiny_config (replicate 1500 7) (CreateBlockBuffer 1 0) = Inr b"
    "holds_file 2 b (replicate 1500 7)"
    using FillBlockFromFile_ok [OF conf_tiny, of "replicate 1500 7" 1] by auto
  then have "holds_file 2 demo_block (replicate 1500 7)" by (simp add: demo_block_def)
  then show ?thesis using conf_tiny by (simp add: serves_def)
qed

text \<open>
  A request to a single peer is answered in full: the transmission loop ends without waiting,
  having written exactly the packets of the requested data numbers, in order, each with its chunk of
  the file.
\<close>

theorem sendBlockDataSP_complete:
  assumes "serves C m sid (breq_BlockNumber pkt) src p i" and "e < num_chunks (length src)" and "s \<le> e"
    and "breq_StartDataNumber pkt = of_nat s" and "breq_EndDataNumber pkt = of_nat e"
    and "breq_MpInfo pkt = 0"
  shows "\<exists>t. SendBlockData sid pkt p = go_task t p \<and>
    finishes F C r t p (wrote sid (data_packets i (breq_BlockNumber pkt) src [s..<e + 1]) p)"
  using SP_run [OF assms(1,2,5), of s] assms(3,4,6) by (simp add: SendBlockData_def) blast

theorem sendBlockDataSP_complete_witness:
  "\<exists>t. SendBlockData 7 (CreateBlockRequestPacket 1 0 1 0 0) demo_ctrl = go_task t demo_ctrl \<and>
    finishes no_fec tiny_config 0 t demo_ctrl (wrote 7 (data_packets 7 1 (replicate 1500 7) [0..<1 + 1]) demo_ctrl)"
  using sendBlockDataSP_complete [of tiny_config 2 7 "CreateBlockRequestPacket 1 0 1 0 0" "replicate 1500 7"
      demo_ctrl 7 1 0 no_fec 0] serves_demo
  by (simp add: CreateBlockRequestPacket_def num_chunks_def)

section \<open>Multiple peers\<close>


















section \<open>A peer without the block\<close>

text \<open>
  An FEC request for a block the controller does not have makes the goroutine it starts panic on a
  nil pointer in its first iteration, which ends the process.
\<close>

theorem fec_request_without_block:
  assumes "getPullMode (breq_MpInfo pkt) = PULL_MODE_MP_FEC"
    and "SafeMap_Get (pu_blockMap p) (breq_BlockNumber pkt) = None"
  shows "\<exists>t q. SendBlockData sid pkt p = go_task t q \<and> run_task F C r t q = Some (Inl NilDeref)"
proof -
  let ?q = "stop_existing p"
  have "breq_MpInfo pkt \<noteq> 0" using assms(1) by (auto simp: getPullMode_def PULL_MODE_MP_FEC_def)
  then have "SendBlockData sid pkt p = go_task (EncodeFEC sid pkt (pu_nextStop p)) ?q"
    using assms(1) by (simp add: SendBlockData_def Let_def PULL_MODE_MP_def PULL_MODE_MP_FEC_def split: prod.split)
  moreover have "SafeMap_Get (pu_blockMap ?q) (breq_BlockNumber pkt) = None"
    using assms(2) by (simp add: stop_existing_def)
  then have "run_task F C r (EncodeFEC sid pkt (pu_nextStop p)) ?q = Some (Inl NilDeref)"
    by (simp add: encodeFEC_def)
  ultimately show ?thesis by blast
qed

theorem fec_request_without_block_witness:
  "\<exists>t q. SendBlockData 7 (CreateBlockRequestPacket 2 0 1 (setPullModePeerInfo PULL_MODE_MP_FEC 2 + 1) 9) demo_ctrl
      = go_task t q \<and> run_task no_fec tiny_config 0 t q = Some (Inl NilDeref)"
proof (rule fec_request_without_block)
  show "getPullMode (breq_MpInfo (CreateBlockRequestPacket 2 0 1 (setPullModePeerInfo PULL_MODE_MP_FEC 2 + 1) 9))
      = PULL_MODE_MP_FEC" by code_simp
qed (simp add: CreateBlockRequestPacket_def)

end
