(* ===== verification/Pu_Recv_Props.thy ===== *)
theory Pu_Recv_Props
  imports Pu_Send_Props
begin

text \<open>
  The receiving side of a block transfer: which segments are requested and when, and that the block
  a controller assembles from the packets it is sent is the file, whatever their order, their
  sessions and the interleaving with the request loop.
\<close>

section \<open>Asking several peers\<close>

definition request_packet :: "u32 \<Rightarrow> u32 \<Rightarrow> u32 \<Rightarrow> byte \<Rightarrow> u32 \<Rightarrow> bytes" where
  "request_packet bn startNo endNo mp seed =
     BlockRequestPacket_Write (CreateBlockRequestPacket bn startNo endNo mp seed) []"

definition asked :: "u32 \<Rightarrow> u32 \<Rightarrow> u32 \<Rightarrow> byte \<Rightarrow> u32 \<Rightarrow> PuSession \<Rightarrow> PuSession" where
  "asked bn startNo endNo mp seed s =
     s\<lparr>ps_blockStatus := PEER_DOWNLOADING, ps_stream := ps_stream s @ request_packet bn startNo endNo mp seed\<rparr>"

lemma on_stream_request:
  "on_stream (SendBlockRequestPacket bn startNo endNo mp seed) (s\<lparr>ps_blockStatus := PEER_DOWNLOADING\<rparr>)
     = asked bn startNo endNo mp seed s"
  by (simp add: on_stream_def SendBlockRequestPacket_def sendPacket_def asked_def request_packet_def)

lemma request_all_ok:
  assumes "gm_ok (pu_sessionMap p)"
  shows "\<exists>q. request_all bn startNo endNo mp seed p = Inr q \<and> q = p\<lparr>pu_sessionMap := pu_sessionMap q\<rparr> \<and>
    map fst (pu_sessionMap q) = map fst (pu_sessionMap p) \<and>
    (\<forall>k < length (session_ids PULL_SESSION p).
       gm_get (pu_sessionMap q) (session_ids PULL_SESSION p ! k) =
       map_option (asked bn startNo endNo (mp + of_nat k) seed)
         (gm_get (pu_sessionMap p) (session_ids PULL_SESSION p ! k)))"
proof -
  let ?ids = "session_ids PULL_SESSION p"
  have snd: "map snd (enumerate 0 ?ids) = ?ids" by simp
  obtain q where q: "go_fold (\<lambda>(k, sid). on_session sid (asked bn startNo endNo (mp + of_nat k) seed))
      (enumerate 0 ?ids) p = Inr q" "q = p\<lparr>pu_sessionMap := pu_sessionMap q\<rparr>"
    "map fst (pu_sessionMap q) = map fst (pu_sessionMap p)"
    "\<forall>(k, sid) \<in> set (enumerate 0 ?ids). gm_get (pu_sessionMap q) sid
       = map_option (asked bn startNo endNo (mp + of_nat k) seed) (gm_get (pu_sessionMap p) sid)"
    using fold_on_session [of "enumerate 0 ?ids" p "\<lambda>k. asked bn startNo endNo (mp + of_nat k) seed"]
      session_ids_keys [of PULL_SESSION p] distinct_session_ids [OF assms, of PULL_SESSION]
    unfolding snd by blast
  have "gm_get (pu_sessionMap q) (?ids ! k) = map_option (asked bn startNo endNo (mp + of_nat k) seed)
      (gm_get (pu_sessionMap p) (?ids ! k))" if "k < length ?ids" for k
  proof -
    have "(k, ?ids ! k) \<in> set (enumerate 0 ?ids)" using that by (simp add: in_set_enumerate_eq)
    then show ?thesis using q(4) by blast
  qed
  then show ?thesis using q by (intro exI [of _ q]) (simp add: request_all_def on_stream_request)
qed

text \<open>
  A round of \<open>blockRequestMP\<close> asks every pull session for the same range, whatever its peer has
  said about the block, each under the next peer ID, and notes it as downloading.
\<close>

theorem request_all_asks_everyone:
  assumes "gm_ok (pu_sessionMap p)"
  shows "\<exists>q. request_all bn startNo endNo mp seed p = Inr q \<and>
    map fst (pu_sessionMap q) = map fst (pu_sessionMap p) \<and>
    (\<forall>k < length (session_ids PULL_SESSION p).
       gm_get (pu_sessionMap q) (session_ids PULL_SESSION p ! k) =
       map_option (\<lambda>s. s\<lparr>ps_blockStatus := PEER_DOWNLOADING, ps_stream := ps_stream s @
            BlockRequestPacket_Write (CreateBlockRequestPacket bn startNo endNo (mp + of_nat k) seed) []\<rparr>)
         (gm_get (pu_sessionMap p) (session_ids PULL_SESSION p ! k)))"
  using request_all_ok [OF assms, of bn startNo endNo mp seed]
  unfolding asked_def [abs_def] request_packet_def by blast

text \<open>A controller with a push session and two pull sessions, before any block is announced.\<close>

definition demo_recv :: PuCtrl where
  "demo_recv = (CreatePuCtrl 1)\<lparr>pu_sessionMap := [(7, demo_session PUSH_SESSION 7),
     (8, demo_session PULL_SESSION 8), (9, demo_session PULL_SESSION 9)]\<rparr>"

lemma demo_recv_ok: "gm_ok (pu_sessionMap demo_recv)"
  by (simp add: demo_recv_def gm_ok_def)

theorem request_all_asks_everyone_witness:
  "\<exists>q. request_all 1 0 1 (setPullModePeerInfo PULL_MODE_MP 2) 0 demo_recv = Inr q \<and>
    map fst (pu_sessionMap q) = map fst (pu_sessionMap demo_recv) \<and>
    (\<forall>k < length (session_ids PULL_SESSION demo_recv).
       gm_get (pu_sessionMap q) (session_ids PULL_SESSION demo_recv ! k) =
       map_option (\<lambda>s. s\<lparr>ps_blockStatus := PEER_DOWNLOADING, ps_stream := ps_stream s @
            BlockRequestPacket_Write (CreateBlockRequestPacket 1 0 1 (setPullModePeerInfo PULL_MODE_MP 2 + of_nat k) 0) []\<rparr>)
         (gm_get (pu_sessionMap demo_recv) (session_ids PULL_SESSION demo_recv ! k))) \<and>
    session_ids PULL_SESSION demo_recv = [8, 9]"
  using request_all_asks_everyone [OF demo_recv_ok, of 1 0 1 "setPullModePeerInfo PULL_MODE_MP 2" 0]
  by (simp add: demo_recv_def session_ids_def PUSH_SESSION_def PULL_SESSION_def)

section \<open>The range of a round\<close>

lemma range_at_offset:
  assumes C: "conf_ok C m" and len: "length src < 2 ^ 32" and j: "j * m * 1024 < length src"
    and bs: "bs = of_nat (length src)"
  defines "off \<equiv> of_nat (j * m * 1024) :: u32" and "sz \<equiv> of_nat (length (seg_bytes m src j)) :: u32"
  shows "off < bs" and "off mod SEGMENT_SIZE C = 0"
    and "(if SEGMENT_SIZE C \<le> bs - off then SEGMENT_SIZE C else bs - off) = sz"
    and "off div PAYLOAD = of_nat (j * m)"
    and "off + sz = of_nat (min (Suc j * m * 1024) (length src))"
proof -
  have m: "0 < m" using C by (simp add: conf_ok_def)
  have uo: "unat off = j * m * 1024" unfolding off_def using j len by (intro unat_of_nat_lt) simp
  have ub: "unat bs = length src" unfolding bs using len by (intro unat_of_nat_lt) simp
  have us: "unat sz = length (seg_bytes m src j)"
    unfolding sz_def using j len by (intro unat_of_nat_lt) (simp add: length_seg_bytes)
  show "off < bs" using j by (simp add: word_less_nat_alt uo ub)
  have "unat (off mod SEGMENT_SIZE C) = 0" using C by (simp add: unat_mod uo conf_ok_def mult.assoc)
  then show "off mod SEGMENT_SIZE C = 0" by (simp add: unat_eq_zero)
  have diff: "unat (bs - off) = length src - j * m * 1024"
    using j by (subst unat_sub) (simp_all add: word_le_nat_alt uo ub)
  show "(if SEGMENT_SIZE C \<le> bs - off then SEGMENT_SIZE C else bs - off) = sz"
    using C by (auto simp: word_le_nat_alt word_unat_eq_iff diff us length_seg_bytes conf_ok_def)
  have "unat (off div PAYLOAD) = j * m" by (simp add: unat_div uo PAYLOAD_def)
  moreover have "unat (of_nat (j * m) :: u32) = j * m" using j len by (intro unat_of_nat_lt) simp
  ultimately show "off div PAYLOAD = of_nat (j * m)" by (simp only: word_unat_eq_iff)
  have "j * m * 1024 + length (seg_bytes m src j) = min (Suc j * m * 1024) (length src)"
    using j by (simp add: length_seg_bytes)
  then show "off + sz = of_nat (min (Suc j * m * 1024) (length src))"
    unfolding off_def sz_def by (simp flip: of_nat_add del: of_nat_mult)
qed

section \<open>A round of the request loop\<close>

text \<open>The semaphore of a session type, and the state after its first value is taken.\<close>

definition sem_of :: "byte \<Rightarrow> PuCtrl \<Rightarrow> u32 chan option" where
  "sem_of t p = (if t = PUSH_SESSION then pu_semPush p else pu_semPull p)"

definition with_sem :: "byte \<Rightarrow> u32 chan \<Rightarrow> PuCtrl \<Rightarrow> PuCtrl" where
  "with_sem t c p = (if t = PUSH_SESSION then p\<lparr>pu_semPush := Some c\<rparr> else p\<lparr>pu_semPull := Some c\<rparr>)"

lemma with_sem_sel [simp]:
  "pu_sessionMap (with_sem t c p) = pu_sessionMap p" "pu_blockMap (with_sem t c p) = pu_blockMap p"
  "pu_tasks (with_sem t c p) = pu_tasks p"
  by (simp_all add: with_sem_def)

definition next_segment :: "Config \<Rightarrow> nat \<Rightarrow> bytes \<Rightarrow> u32 \<Rightarrow> nat \<Rightarrow> Segment" where
  "next_segment C m src bn j =
     (let sz = of_nat (length (seg_bytes m src j)) in
      CreateSegment C bn (of_nat j) (of_nat (j * m)) (of_nat (j * m) + ceil_div sz PAYLOAD - 1) sz 0
        (of_nat (min (Suc j * m * 1024) (length src)) = (of_nat (length src) :: u32)))"

lemma SendBlockInfo_on_session:
  "SendBlockInfo sid bn p = on_session sid (on_stream
     (case SafeMap_Get (pu_blockMap p) bn of
        Some block \<Rightarrow> SendBlockInfoPacket bn (b_blockSize block) PEER_HAS_BLOCK
      | None \<Rightarrow> SendBlockInfoPacket bn 0 PEER_HAS_NO_BLOCK)) p"
  by (simp add: SendBlockInfo_def split: option.split)

lemma on_session_blockMap: "on_session sid f p = Inr q \<Longrightarrow> pu_blockMap q = pu_blockMap p"
  by (auto simp: on_session_def split: option.splits)

lemma SendBlockInfo_fold:
  "go_fold (\<lambda>sid. SendBlockInfo sid bn) sids p = go_fold (\<lambda>sid. on_session sid (on_stream
     (case SafeMap_Get (pu_blockMap p) bn of
        Some block \<Rightarrow> SendBlockInfoPacket bn (b_blockSize block) PEER_HAS_BLOCK
      | None \<Rightarrow> SendBlockInfoPacket bn 0 PEER_HAS_NO_BLOCK))) sids p"
proof (induction sids arbitrary: p)
  case (Cons sid sids)
  let ?f = "on_stream (case SafeMap_Get (pu_blockMap p) bn of
        Some block \<Rightarrow> SendBlockInfoPacket bn (b_blockSize block) PEER_HAS_BLOCK
      | None \<Rightarrow> SendBlockInfoPacket bn 0 PEER_HAS_NO_BLOCK)"
  show ?case
  proof (cases "on_session sid ?f p")
    case (Inr q)
    then show ?thesis
      using Cons [of q] on_session_blockMap [OF Inr] by (simp add: SendBlockInfo_on_session)
  qed (simp add: SendBlockInfo_on_session)
qed simp

text \<open>The round requests the next segment, whose buffer it appends to the block; apart from the
  semaphore it changes statuses and streams of sessions only.\<close>

lemma blockRequest_round:
  assumes C: "conf_ok C m" and len: "length src < 2 ^ 32" and j: "j * m * 1024 < length src"
    and ok: "gm_ok (pu_sessionMap p)" and b: "SafeMap_Get (pu_blockMap p) bn = Some b"
    and sem: "nil_recv (sem_of t p) = Some (selected, c)" and sel: "selected \<in> set (map fst (pu_sessionMap p))"
  shows "\<exists>q. blockRequest C t bn (of_nat (length src)) (of_nat (j * m * 1024)) (of_nat j) p
      = Some (Inr (Some (BlockRequest t bn (of_nat (length src))
                     (of_nat (min (Suc j * m * 1024) (length src))) (of_nat (Suc j))), q)) \<and>
    q = (with_sem t c p)\<lparr>pu_blockMap := SafeMap_Set bn (PushSegment (next_segment C m src bn j) b)
           (pu_blockMap p), pu_sessionMap := pu_sessionMap q\<rparr> \<and>
    map fst (pu_sessionMap q) = map fst (pu_sessionMap p) \<and>
    (\<exists>s. gm_get (pu_sessionMap p) selected = Some s \<and>
       gm_get (pu_sessionMap q) selected = Some (asked bn (of_nat (j * m)) (of_nat (j * m) +
         ceil_div (of_nat (length (seg_bytes m src j))) PAYLOAD - 1) 0 0 s))"
proof -
  note range = range_at_offset [OF C len j refl]
  let ?sz = "of_nat (length (seg_bytes m src j)) :: u32"
  let ?e = "of_nat (j * m) + ceil_div ?sz PAYLOAD - 1 :: u32"
  let ?p = "AddSegment C bn (of_nat j) (of_nat (j * m)) ?e ?sz 0
              (of_nat (min (Suc j * m * 1024) (length src)) = (of_nat (length src) :: u32)) (with_sem t c p)"
  have p: "?p = (with_sem t c p)\<lparr>pu_blockMap :=
      SafeMap_Set bn (PushSegment (next_segment C m src bn j) b) (pu_blockMap p)\<rparr>"
    by (simp add: AddSegment_def b next_segment_def Let_def)
  have map_p: "pu_sessionMap ?p = pu_sessionMap p" unfolding p by simp
  obtain s where s: "gm_get (pu_sessionMap p) selected = Some s" using gm_get_key [OF sel] by blast
  let ?q = "?p\<lparr>pu_sessionMap := gm_put (pu_sessionMap p) selected (asked bn (of_nat (j * m)) ?e 0 0 s)\<rparr>"
  have q1: "on_session selected (\<lambda>s. on_stream (SendBlockRequestPacket bn (of_nat (j * m)) ?e 0 0)
      (s\<lparr>ps_blockStatus := PEER_DOWNLOADING\<rparr>)) ?p = Inr ?q"
    unfolding on_session_def on_stream_request map_p s option.case ..
  have keys: "map fst (pu_sessionMap ?q) = map fst (pu_sessionMap p)"
    using gm_put_keys [of selected "pu_sessionMap p"] sel by simp
  have okq: "gm_ok (pu_sessionMap ?q)" using ok unfolding gm_ok_def keys .
  let ?ids = "filter (\<lambda>sid. selected \<noteq> sid) (session_ids PUSH_SESSION ?q)"
  have ids: "distinct ?ids" "set ?ids \<subseteq> set (map fst (pu_sessionMap ?q))"
    using distinct_session_ids [OF okq, of PUSH_SESSION] session_ids_keys [of PUSH_SESSION ?q] by auto
  obtain q where q: "(if t = PUSH_SESSION \<and> of_nat j + 1 = (2 :: u32)
      then go_fold (\<lambda>sid. SendBlockInfo sid bn) ?ids ?q else Inr ?q) = Inr q"
    "q = ?q\<lparr>pu_sessionMap := pu_sessionMap q\<rparr>" "map fst (pu_sessionMap q) = map fst (pu_sessionMap ?q)"
    "gm_get (pu_sessionMap q) selected = gm_get (pu_sessionMap ?q) selected"
  proof (cases "t = PUSH_SESSION \<and> of_nat j + 1 = (2 :: u32)")
    case True
    let ?f = "on_stream (case SafeMap_Get (pu_blockMap ?q) bn of
        Some block \<Rightarrow> SendBlockInfoPacket bn (b_blockSize block) PEER_HAS_BLOCK
      | None \<Rightarrow> SendBlockInfoPacket bn 0 PEER_HAS_NO_BLOCK)"
    from fold_on_session_const [OF ids, of ?f] obtain q' where
      q': "go_fold (\<lambda>sid. on_session sid ?f) ?ids ?q = Inr q'" "q' = ?q\<lparr>pu_sessionMap := pu_sessionMap q'\<rparr>"
      "map fst (pu_sessionMap q') = map fst (pu_sessionMap ?q)"
      "gm_get (pu_sessionMap q') selected = gm_get (pu_sessionMap ?q) selected" by auto
    show ?thesis
      by (rule that [of q']) (use True q' in \<open>simp_all only: SendBlockInfo_fold if_True simp_thms\<close>)
  next
    case False
    then show ?thesis by (intro that [of ?q]) auto
  qed
  have "blockRequest C t bn (of_nat (length src)) (of_nat (j * m * 1024)) (of_nat j) p
      = Some (Inr (Some (BlockRequest t bn (of_nat (length src))
                     (of_nat (min (Suc j * m * 1024) (length src))) (of_nat j + 1)), q))"
    using sem q(1) q1
    unfolding blockRequest_def Let_def sem_of_def [symmetric] with_sem_def [symmetric]
    by (simp only: range if_True option.case prod.case go_bind.simps simp_thms)
  moreover have "of_nat j + 1 = (of_nat (Suc j) :: u32)" by simp
  moreover have "q = (with_sem t c p)\<lparr>pu_blockMap := SafeMap_Set bn (PushSegment (next_segment C m src bn j) b)
           (pu_blockMap p), pu_sessionMap := pu_sessionMap q\<rparr>"
    using q(2) unfolding p by simp
  ultimately show ?thesis using q(3,4) keys s by (intro exI [of _ q]) (simp del: of_nat_Suc)
qed

section \<open>The download of a block\<close>

text \<open>
  A receiver whose block \<open>bn\<close> is the file \<open>src\<close>: packets of the file arrive over any session, in any
  order and any number of times, interleaved with the iterations of its goroutines.
\<close>

definition arrival :: "u32 \<Rightarrow> bytes \<Rightarrow> BlockDataPacket \<Rightarrow> nat \<Rightarrow> bool" where
  "arrival bn src pkt d \<longleftrightarrow> d < num_chunks (length src) \<and> packet_for src d (bdata_Data pkt) \<and>
     bdata_BlockNumber pkt = bn \<and> bdata_DataNumber pkt = of_nat d \<and> bdata_DataType pkt = DATA_TYPE_SOURCE"

definition keys :: "PuCtrl \<Rightarrow> u32 set" where
  "keys p = set (map fst (pu_sessionMap p))"

definition resume :: "task option \<Rightarrow> PuCtrl \<Rightarrow> PuCtrl" where
  "resume t p = p\<lparr>pu_tasks := pu_tasks p @ (case t of None \<Rightarrow> [] | Some t \<Rightarrow> [t])\<rparr>"

inductive recv_step :: "fec_lib \<Rightarrow> Config \<Rightarrow> u32 \<Rightarrow> bytes \<Rightarrow> PuCtrl \<Rightarrow> PuCtrl \<Rightarrow> bool"
  for F :: fec_lib and C :: Config and bn :: u32 and src :: bytes where
  arrive: "arrival bn src pkt d \<Longrightarrow> sid \<in> keys p \<Longrightarrow> handleBlockDataPacket F C sid pkt p = Inr q \<Longrightarrow>
    recv_step F C bn src p q"
| goroutine: "pu_tasks p = ts @ t # us \<Longrightarrow>
    run_task F C r t (p\<lparr>pu_tasks := ts @ us\<rparr>) = Some (Inr (t', q)) \<Longrightarrow>
    recv_step F C bn src p (resume t' q)"

definition sem_ok :: "PuCtrl \<Rightarrow> u32 chan option \<Rightarrow> bool" where
  "sem_ok p sem \<longleftrightarrow> (case sem of None \<Rightarrow> True | Some c \<Rightarrow> set (ch_buf c) \<subseteq> keys p)"

definition dl_core :: "Config \<Rightarrow> nat \<Rightarrow> u32 \<Rightarrow> bytes \<Rightarrow> PuCtrl \<Rightarrow> nat set \<Rightarrow> nat \<Rightarrow> bool" where
  "dl_core C m bn src p S j \<longleftrightarrow>
     conf_ok C m \<and> length src < 2 ^ 32 \<and> gm_ok (pu_sessionMap p) \<and>
     sem_ok p (pu_semPush p) \<and> sem_ok p (pu_semPull p) \<and>
     (\<exists>b. SafeMap_Get (pu_blockMap p) bn = Some b \<and> holds m b src S \<and> length (b_segmentList b) = j)"

text \<open>The goroutines are ends of segments and at most one request loop, which stands at the next segment;
  when it has ended, all segments have been requested.\<close>

fun task_ok :: "nat \<Rightarrow> u32 \<Rightarrow> bytes \<Rightarrow> PuCtrl \<Rightarrow> nat \<Rightarrow> task \<Rightarrow> bool" where
  "task_ok m bn src p j (EndSegment sid) \<longleftrightarrow> sid \<in> keys p"
| "task_ok m bn src p j (BlockRequest t b bs off idx) \<longleftrightarrow>
     b = bn \<and> bs = of_nat (length src) \<and> off = of_nat (min (j * m * 1024) (length src)) \<and> idx = of_nat j"
| "task_ok m bn src p j _ \<longleftrightarrow> False"

fun is_request :: "task \<Rightarrow> bool" where
  "is_request (BlockRequest t b bs off idx) = True"
| "is_request _ = False"

definition tasks_ok :: "nat \<Rightarrow> u32 \<Rightarrow> bytes \<Rightarrow> PuCtrl \<Rightarrow> nat \<Rightarrow> task list \<Rightarrow> bool" where
  "tasks_ok m bn src p j ts \<longleftrightarrow> (\<forall>t \<in> set ts. task_ok m bn src p j t) \<and>
     length (filter is_request ts) \<le> 1 \<and> (filter is_request ts = [] \<longrightarrow> length src \<le> j * m * 1024)"

definition dl_inv :: "Config \<Rightarrow> nat \<Rightarrow> u32 \<Rightarrow> bytes \<Rightarrow> PuCtrl \<Rightarrow> bool" where
  "dl_inv C m bn src p \<longleftrightarrow> (\<exists>S j. dl_core C m bn src p S j \<and> tasks_ok m bn src p j (pu_tasks p))"

lemma keys_simps [simp]:
  "keys (p\<lparr>pu_tasks := ts\<rparr>) = keys p" "keys (p\<lparr>pu_blockMap := bm\<rparr>) = keys p"
  "keys (p\<lparr>pu_semPush := c\<rparr>) = keys p" "keys (p\<lparr>pu_semPull := c\<rparr>) = keys p"
  by (simp_all add: keys_def)

lemma task_ok_keys: "keys q = keys p \<Longrightarrow> task_ok m bn src q j t = task_ok m bn src p j t"
  by (cases t) auto

lemma tasks_ok_keys: "keys q = keys p \<Longrightarrow> tasks_ok m bn src q j ts = tasks_ok m bn src p j ts"
  using task_ok_keys [of q p m bn src j] by (simp add: tasks_ok_def)

lemma sem_ok_keys: "keys q = keys p \<Longrightarrow> sem_ok q c = sem_ok p c"
  by (simp add: sem_ok_def split: option.split)

lemma tasks_ok_end: "tasks_ok m bn src p j ts \<Longrightarrow> sid \<in> keys p \<Longrightarrow> tasks_ok m bn src p j (ts @ [EndSegment sid])"
  by (auto simp: tasks_ok_def)

lemma tasks_ok_perm: "tasks_ok m bn src p j (ts @ t # us) = tasks_ok m bn src p j (t # ts @ us)"
  by (auto simp: tasks_ok_def)

lemma on_session_keeps:
  assumes "sid \<in> keys p"
  shows "\<exists>q. on_session sid f p = Inr q \<and> q = p\<lparr>pu_sessionMap := pu_sessionMap q\<rparr> \<and>
    map fst (pu_sessionMap q) = map fst (pu_sessionMap p)"
proof -
  obtain s where "gm_get (pu_sessionMap p) sid = Some s" using gm_get_key [OF assms [unfolded keys_def]] by blast
  then have "on_session sid f p = Inr (p\<lparr>pu_sessionMap := gm_put (pu_sessionMap p) sid (f s)\<rparr>)"
    by (rule on_session_ok)
  moreover have "map fst (gm_put (pu_sessionMap p) sid (f s)) = map fst (pu_sessionMap p)"
    using gm_put_keys [of sid "pu_sessionMap p" "f s"] assms by (simp add: keys_def)
  ultimately show ?thesis by (intro exI [of _ "p\<lparr>pu_sessionMap := gm_put (pu_sessionMap p) sid (f s)\<rparr>"]) simp
qed

text \<open>Arrivals.\<close>

lemma receive_ok:
  assumes core: "dl_core C m bn src p S j" and arr: "arrival bn src pkt d" and sid: "sid \<in> keys p"
  defines "eos \<equiv> d div m < j \<and> d \<notin> S \<and> d mod m + 1 = num_chunks (length (seg_bytes m src (d div m)))"
  shows "\<exists>q. ReceiveBlockData F C sid pkt p = Inr q \<and>
    dl_core C m bn src q (if d div m < j then insert d S else S) j \<and> keys q = keys p \<and>
    pu_tasks q = pu_tasks p @ (if eos then [EndSegment sid] else []) \<and> pu_semPush q = pu_semPush p \<and>
    gm_get (pu_sessionMap q) sid = map_option (\<lambda>s. s\<lparr>ps_blockReceiving := True\<rparr>) (gm_get (pu_sessionMap p) sid)"
proof -
  obtain b where j: "conf_ok C m" "length src < 2 ^ 32"
    "gm_ok (pu_sessionMap p)" "sem_ok p (pu_semPush p)" "sem_ok p (pu_semPull p)"
    and b: "SafeMap_Get (pu_blockMap p) bn = Some b" "holds m b src S" "length (b_segmentList b) = j"
    using core unfolding dl_core_def by (elim exE conjE) (rule that; assumption)
  obtain s where s: "gm_get (pu_sessionMap p) sid = Some s" using gm_get_key [OF sid [unfolded keys_def]] by blast
  let ?q = "p\<lparr>pu_sessionMap := gm_put (pu_sessionMap p) sid (s\<lparr>ps_blockReceiving := True\<rparr>)\<rparr>"
  let ?S = "if d div m < j then insert d S else S"
  obtain b' where w: "WriteBlockData C sid (of_nat d) (bdata_Data pkt) b = Inr (eos, b')"
    "holds m b' src ?S" "length (b_segmentList b') = j"
    using WriteBlockData_ok [OF j(1) b(2), of d "bdata_Data pkt" sid] arr b(3) unfolding arrival_def eos_def by auto
  let ?r = "(if eos then go_task (EndSegment sid) else (\<lambda>p. p)) (?q\<lparr>pu_blockMap := SafeMap_Set bn b' (pu_blockMap p)\<rparr>)"
  have "on_session sid (\<lambda>s. s\<lparr>ps_blockReceiving := True\<rparr>) p = Inr ?q" by (rule on_session_ok [OF s])
  then have recv: "ReceiveBlockData F C sid pkt p = Inr ?r"
    using arr w(1) b(1) by (simp add: ReceiveBlockData_def arrival_def)
  have fst: "map fst (pu_sessionMap ?q) = map fst (pu_sessionMap p)"
    using gm_put_keys [of sid "pu_sessionMap p"] sid by (simp add: keys_def)
  have kr: "keys ?r = keys p" unfolding keys_def by (cases eos) (use fst in \<open>simp_all add: go_task_def\<close>)
  have "gm_ok (pu_sessionMap ?r)" using j(3) fst by (simp add: gm_ok_def go_task_def)
  then have "dl_core C m bn src ?r ?S j"
    unfolding dl_core_def sem_ok_keys [OF kr]
    using j(1,2,4,5) w(2,3) by (cases eos) (auto simp: go_task_def)
  then show ?thesis using recv kr s by (intro exI [of _ ?r]) (simp add: go_task_def)
qed

lemma arrive_ok:
  assumes core: "dl_core C m bn src p S j" and tasks: "tasks_ok m bn src p j (pu_tasks p)"
    and arr: "arrival bn src pkt d" and sid: "sid \<in> keys p"
  shows "\<exists>q S'. handleBlockDataPacket F C sid pkt p = Inr q \<and> (S' = S \<or> S' = insert d S \<and> d div m < j) \<and>
    dl_core C m bn src q S' j \<and> tasks_ok m bn src q j (pu_tasks q)"
proof -
  let ?S = "if d div m < j then insert d S else S"
  obtain s where s: "gm_get (pu_sessionMap p) sid = Some s" using gm_get_key [OF sid [unfolded keys_def]] by blast
  obtain q eos where q: "ReceiveBlockData F C sid pkt p = Inr q" "dl_core C m bn src q ?S j" "keys q = keys p"
    "pu_tasks q = pu_tasks p @ (if eos then [EndSegment sid] else [])"
    using receive_ok [OF core arr sid, of F] by blast
  have "tasks_ok m bn src q j (pu_tasks q)"
    unfolding tasks_ok_keys [OF q(3)] q(4) using tasks tasks_ok_end [OF tasks sid] by simp
  moreover have "handleBlockDataPacket F C sid pkt p = Inr p \<or> handleBlockDataPacket F C sid pkt p = Inr q"
    using s q(1) by (auto simp: handleBlockDataPacket_def of_session_def split: option.split)
  moreover have "?S = S \<or> ?S = insert d S \<and> d div m < j" by simp
  ultimately show ?thesis using core tasks q(2) by blast
qed

text \<open>Goroutines.\<close>

lemma chan_recv_buf:
  assumes "nil_recv sem = Some (x, c)" and "sem_ok p sem"
  shows "x \<in> keys p \<and> set (ch_buf c) \<subseteq> keys p"
proof -
  obtain a where a: "sem = Some a" "chan_recv a = Some (x, c)"
    using assms(1) by (auto simp: nil_recv_def bind_eq_Some_conv)
  then show ?thesis using assms(2) by (cases "ch_buf a") (auto simp: chan_recv_def sem_ok_def)
qed

lemma chan_send_buf: "nil_send x sem = Some c \<Longrightarrow> sem_ok p sem \<Longrightarrow> x \<in> keys p \<Longrightarrow> sem_ok p (Some c)"
  by (auto simp: nil_send_def chan_send_def sem_ok_def bind_eq_Some_conv split: if_splits)

lemma sem_of_ok: "sem_ok p (pu_semPush p) \<Longrightarrow> sem_ok p (pu_semPull p) \<Longrightarrow> sem_ok p (sem_of t p)"
  by (simp add: sem_of_def)

lemma with_sem_ok:
  "set (ch_buf c) \<subseteq> keys p \<Longrightarrow> sem_ok p (pu_semPush p) \<Longrightarrow> sem_ok p (pu_semPull p) \<Longrightarrow>
   sem_ok p (pu_semPush (with_sem t c p)) \<and> sem_ok p (pu_semPull (with_sem t c p))"
  by (simp add: with_sem_def sem_ok_def)

lemma tasks_ok_without:
  "tasks_ok m bn src p j (ts @ BlockRequest t b bs off idx # us) \<Longrightarrow>
   filter is_request (ts @ us) = [] \<and> (\<forall>x \<in> set (ts @ us). task_ok m bn src p j x)"
  unfolding tasks_ok_perm by (auto simp: tasks_ok_def)

lemma tasks_ok_ends:
  "filter is_request ts = [] \<Longrightarrow> (\<forall>x \<in> set ts. task_ok m bn src p j x) \<Longrightarrow> x \<in> set ts \<Longrightarrow>
   task_ok m bn src p i x"
  by (cases x) (auto simp: filter_empty_conv)

lemma dl_core_tasks [simp]: "dl_core C m bn src (p\<lparr>pu_tasks := ts\<rparr>) S j = dl_core C m bn src p S j"
  by (simp add: dl_core_def sem_ok_keys [of "p\<lparr>pu_tasks := ts\<rparr>" p])

lemma request_more:
  assumes core: "dl_core C m bn src p S j" and more: "j * m * 1024 < length src"
    and recv: "nil_recv (sem_of t p) = Some (selected, c)"
  shows "\<exists>q. blockRequest C t bn (of_nat (length src)) (of_nat (j * m * 1024)) (of_nat j) p
      = Some (Inr (Some (BlockRequest t bn (of_nat (length src))
                     (of_nat (min (Suc j * m * 1024) (length src))) (of_nat (Suc j))), q)) \<and>
    dl_core C m bn src q S (Suc j) \<and> keys q = keys p \<and> pu_tasks q = pu_tasks p \<and>
    pu_semPush q = pu_semPush (with_sem t c p) \<and>
    (\<exists>s e. gm_get (pu_sessionMap p) selected = Some s \<and>
       gm_get (pu_sessionMap q) selected = Some (asked bn (of_nat (j * m)) e 0 0 s))"
proof -
  obtain b where C: "conf_ok C m" and len: "length src < 2 ^ 32" and ok: "gm_ok (pu_sessionMap p)"
    and sems: "sem_ok p (pu_semPush p)" "sem_ok p (pu_semPull p)"
    and b: "SafeMap_Get (pu_blockMap p) bn = Some b" "holds m b src S" "length (b_segmentList b) = j"
    using core unfolding dl_core_def by (elim exE conjE) (rule that; assumption)
  note sel = chan_recv_buf [OF recv sem_of_ok [OF sems]]
  obtain q s where q: "blockRequest C t bn (of_nat (length src)) (of_nat (j * m * 1024)) (of_nat j) p
      = Some (Inr (Some (BlockRequest t bn (of_nat (length src))
                     (of_nat (min (Suc j * m * 1024) (length src))) (of_nat (Suc j))), q))"
    "q = (with_sem t c p)\<lparr>pu_blockMap := SafeMap_Set bn (PushSegment (next_segment C m src bn j) b)
           (pu_blockMap p), pu_sessionMap := pu_sessionMap q\<rparr>"
    "map fst (pu_sessionMap q) = map fst (pu_sessionMap p)"
    and s: "gm_get (pu_sessionMap p) selected = Some s"
      "gm_get (pu_sessionMap q) selected = Some (asked bn (of_nat (j * m)) (of_nat (j * m) +
         ceil_div (of_nat (length (seg_bytes m src j))) PAYLOAD - 1) 0 0 s)"
    using blockRequest_round [OF C len more ok b(1) recv conjunct1 [OF sel, unfolded keys_def]]
    by (elim exE conjE) (rule that; assumption)
  have k: "keys q = keys p" using q(3) by (simp add: keys_def)
  have sl: "pu_blockMap q = SafeMap_Set bn (PushSegment (next_segment C m src bn j) b) (pu_blockMap p)"
    "pu_semPush q = pu_semPush (with_sem t c p)" "pu_semPull q = pu_semPull (with_sem t c p)"
    "pu_tasks q = pu_tasks p" by (subst q(2), simp)+
  have "holds m (PushSegment (next_segment C m src bn j) b) src S"
    unfolding next_segment_def Let_def by (rule holds_add_segment [OF C b(2) b(3) [symmetric] more len])
  moreover have "length (b_segmentList (PushSegment (next_segment C m src bn j) b)) = Suc j"
    using b(3) by (simp add: PushSegment_def)
  moreover have "gm_ok (pu_sessionMap q)" using ok q(3) by (simp add: gm_ok_def)
  ultimately have "dl_core C m bn src q S (Suc j)"
    unfolding dl_core_def sem_ok_keys [OF k] sl(1-3)
    using C len with_sem_ok [OF conjunct2 [OF sel] sems, of t] by auto
  then show ?thesis using q(1) k sl(2,4) s by blast
qed

lemma resume_sel [simp]:
  "keys (resume t p) = keys p" "pu_tasks (resume t p) = pu_tasks p @ (case t of None \<Rightarrow> [] | Some t \<Rightarrow> [t])"
  "dl_core C m bn src (resume t p) S j = dl_core C m bn src p S j"
  by (simp_all add: resume_def)

lemma tasks_ok_next:
  assumes "tasks_ok m bn src p j (ts @ BlockRequest t b bs off idx # us)" and "keys q = keys p"
  shows "tasks_ok m bn src q (Suc j) (ts @ us @ [BlockRequest t' bn (of_nat (length src))
           (of_nat (min (Suc j * m * 1024) (length src))) (of_nat (Suc j))])"
  using tasks_ok_without [OF assms(1)] tasks_ok_ends [of "ts @ us" m bn src p j _ "Suc j"]
  unfolding tasks_ok_keys [OF assms(2)]
  by (auto simp: tasks_ok_def simp del: of_nat_Suc of_nat_mult mult_Suc)

lemma tasks_ok_drop:
  assumes "tasks_ok m bn src p j (ts @ BlockRequest t b bs off idx # us)" and "length src \<le> j * m * 1024"
  shows "tasks_ok m bn src p j (ts @ us)"
  using tasks_ok_without [OF assms(1)] assms(2) by (auto simp: tasks_ok_def)

lemma tasks_ok_drop_end: "tasks_ok m bn src p j (ts @ EndSegment sid # us) \<Longrightarrow> tasks_ok m bn src p j (ts @ us)"
  unfolding tasks_ok_perm by (auto simp: tasks_ok_def)

lemma endSegment_ok:
  assumes core: "dl_core C m bn src p S j" and sid: "sid \<in> keys p" and run: "endSegment sid p = Some r"
  shows "\<exists>q. r = Inr (None, q) \<and> dl_core C m bn src q S j \<and> keys q = keys p \<and> pu_tasks q = pu_tasks p"
proof -
  obtain s where s: "gm_get (pu_sessionMap p) sid = Some s" using gm_get_key [OF sid [unfolded keys_def]] by blast
  have sems: "sem_ok p (pu_semPush p)" "sem_ok p (pu_semPull p)" using core by (simp_all add: dl_core_def)
  define t where "t = (if ps_sessionType s = PUSH_SESSION then PUSH_SESSION else PULL_SESSION)"
  obtain c where c: "nil_send sid (sem_of t p) = Some c"
    and r: "r = go_bind (on_session sid (\<lambda>s. s\<lparr>ps_blockReceiving := False\<rparr>) (with_sem t c p)) (\<lambda>p. Inr (None, p))"
    using run s by (auto simp: endSegment_def t_def sem_of_def with_sem_def PUSH_SESSION_def PULL_SESSION_def split: if_splits)
  have kw: "keys (with_sem t c p) = keys p" by (simp add: keys_def)
  obtain q where q: "on_session sid (\<lambda>s. s\<lparr>ps_blockReceiving := False\<rparr>) (with_sem t c p) = Inr q"
    "q = (with_sem t c p)\<lparr>pu_sessionMap := pu_sessionMap q\<rparr>" "map fst (pu_sessionMap q) = map fst (pu_sessionMap p)"
    using on_session_keeps [OF sid [folded kw], of "\<lambda>s. s\<lparr>ps_blockReceiving := False\<rparr>"]
    unfolding with_sem_sel by (elim exE conjE) (rule that; assumption)
  have k: "keys q = keys p" using q(3) by (simp add: keys_def)
  have sl: "pu_blockMap q = pu_blockMap p" "pu_semPush q = pu_semPush (with_sem t c p)"
    "pu_semPull q = pu_semPull (with_sem t c p)" "pu_tasks q = pu_tasks p" by (subst q(2), simp)+
  have "set (ch_buf c) \<subseteq> keys p"
    using chan_send_buf [OF c sem_of_ok [OF sems] sid] by (simp add: sem_ok_def)
  then have "dl_core C m bn src q S j"
    using core with_sem_ok [OF _ sems, of c t] q(3)
    unfolding dl_core_def sem_ok_keys [OF k] sl(1-3) gm_ok_def by simp
  then show ?thesis using r q(1) k sl(4) by simp
qed

text \<open>The abstract download: the data numbers received, and the number of segments requested. A data
  number is received only after its segment has been requested.\<close>

inductive dl_spec :: "nat \<Rightarrow> nat \<Rightarrow> nat set \<times> nat \<Rightarrow> nat set \<times> nat \<Rightarrow> bool" for m n :: nat where
  spec_receive: "d < n \<Longrightarrow> d div m < j \<Longrightarrow> dl_spec m n (S, j) (insert d S, j)"
| spec_request: "j * m < n \<Longrightarrow> dl_spec m n (S, j) (S, Suc j)"

definition dl_rel :: "Config \<Rightarrow> nat \<Rightarrow> u32 \<Rightarrow> bytes \<Rightarrow> PuCtrl \<Rightarrow> nat set \<times> nat \<Rightarrow> bool" where
  "dl_rel C m bn src p a \<longleftrightarrow>
     dl_core C m bn src p (fst a) (snd a) \<and> tasks_ok m bn src p (snd a) (pu_tasks p)"

lemma blockRequest_recv:
  assumes "off < bs" and "blockRequest C t bn bs off idx p = Some res"
  shows "\<exists>selected c. nil_recv (sem_of t p) = Some (selected, c)"
proof (cases "nil_recv (sem_of t p)")
  case None
  then show ?thesis using assms unfolding blockRequest_def sem_of_def [symmetric] by simp
next
  case (Some x)
  then show ?thesis by (cases x) simp
qed

lemma dl_rel_more:
  assumes core: "dl_core C m bn src p S j" and more: "j * m * 1024 < length src"
    and tasks: "tasks_ok m bn src p j (ts @ BlockRequest t bn bs off idx # us)" and ts: "pu_tasks p = ts @ us"
    and run: "blockRequest C t bn (of_nat (length src)) (of_nat (j * m * 1024)) (of_nat j) p = Some res"
  shows "\<exists>t' q. res = Inr (t', q) \<and> dl_rel C m bn src (resume t' q) (S, Suc j)"
proof -
  have C: "conf_ok C m" and len: "length src < 2 ^ 32" using core by (simp_all add: dl_core_def)
  have "(of_nat (j * m * 1024) :: u32) < of_nat (length src)"
    by (rule range_at_offset(1) [OF C len more refl])
  from blockRequest_recv [OF this run] obtain selected c where
    recv: "nil_recv (sem_of t p) = Some (selected, c)" by blast
  let ?t = "BlockRequest t bn (of_nat (length src)) (of_nat (min (Suc j * m * 1024) (length src))) (of_nat (Suc j))"
  obtain q where q: "blockRequest C t bn (of_nat (length src)) (of_nat (j * m * 1024)) (of_nat j) p = Some (Inr (Some ?t, q))"
    "dl_core C m bn src q S (Suc j)" "keys q = keys p" "pu_tasks q = pu_tasks p"
    using request_more [OF core more recv] by (elim exE conjE) (rule that; assumption)
  have k: "keys (resume (Some ?t) q) = keys p" unfolding resume_sel(1) q(3) ..
  have "tasks_ok m bn src (resume (Some ?t) q) (Suc j) (ts @ us @ [?t])"
    by (rule tasks_ok_next [OF tasks k])
  then have "dl_rel C m bn src (resume (Some ?t) q) (S, Suc j)"
    using q(2) unfolding dl_rel_def fst_conv snd_conv resume_sel q(4) ts by simp
  moreover have "res = Inr (Some ?t, q)" using run q(1) by simp
  ultimately show ?thesis by blast
qed

text \<open>An iteration of any goroutine does not panic, and is a step of the abstract download or none.\<close>

lemma goroutine_ok:
  assumes rel: "dl_rel C m bn src p (S, j)" and ts: "pu_tasks p = ts @ t # us"
    and run: "run_task F C r t (p\<lparr>pu_tasks := ts @ us\<rparr>) = Some res"
  shows "\<exists>t' q a. res = Inr (t', q) \<and> (dl_spec m (num_chunks (length src)))\<^sup>*\<^sup>* (S, j) a \<and>
    dl_rel C m bn src (resume t' q) a"
proof -
  let ?p = "p\<lparr>pu_tasks := ts @ us\<rparr>"
  have core: "dl_core C m bn src ?p S j" and tasks: "tasks_ok m bn src p j (ts @ t # us)"
    using rel ts by (simp_all add: dl_rel_def)
  have t: "task_ok m bn src p j t" using tasks by (simp add: tasks_ok_def)
  show ?thesis
  proof (cases t)
    case (EndSegment sid)
    then obtain q where q: "res = Inr (None, q)" "dl_core C m bn src q S j" "keys q = keys p"
      "pu_tasks q = ts @ us"
      using endSegment_ok [OF core, of sid res] t run by auto
    have "tasks_ok m bn src q j (ts @ us)"
      unfolding tasks_ok_keys [OF q(3)] using tasks_ok_drop_end tasks unfolding EndSegment by blast
    then have "dl_rel C m bn src (resume None q) (S, j)"
      using q(2,4) tasks_ok_keys [of "resume None q" q] by (simp add: dl_rel_def)
    then show ?thesis using q(1) by blast
  next
    case (BlockRequest st b bs off idx)
    then have args: "b = bn" "bs = of_nat (length src)" "off = of_nat (min (j * m * 1024) (length src))" "idx = of_nat j"
      using t by simp_all
    have len: "length src < 2 ^ 32" using core by (simp add: dl_core_def)
    show ?thesis
    proof (cases "j * m * 1024 < length src")
      case True
      then have off: "off = of_nat (j * m * 1024)" using args(3) by (simp add: min_def del: of_nat_mult)
      have "blockRequest C st bn (of_nat (length src)) (of_nat (j * m * 1024)) (of_nat j) ?p = Some res"
        using run unfolding BlockRequest args(1,2,4) off by simp
      from dl_rel_more [OF core True _ _ this, where ts = ts and us = us and bs = bs and off = off and idx = idx] obtain t' q where
        "res = Inr (t', q)" "dl_rel C m bn src (resume t' q) (S, Suc j)"
        using tasks tasks_ok_keys [of ?p p] unfolding BlockRequest args(1) by auto
      moreover have "dl_spec m (num_chunks (length src)) (S, j) (S, Suc j)"
        using True by (intro spec_request) (simp add: num_chunks_iff)
      ultimately show ?thesis by blast
    next
      case False
      then have "off = bs" using args by (simp add: min_def)
      then have res: "res = Inr (None, ?p)" using run unfolding BlockRequest by (simp add: blockRequest_def)
      have "tasks_ok m bn src p j (ts @ us)"
        using tasks_ok_drop [of m bn src p j ts] tasks False unfolding BlockRequest by simp
      then have "dl_rel C m bn src (resume None ?p) (S, j)"
        using core tasks_ok_keys [of "resume None ?p" p] by (simp add: dl_rel_def)
      then show ?thesis using res by blast
    qed
  qed (use t in simp_all)
qed

interpretation download: refinement "recv_step F C bn src" "dl_spec m (num_chunks (length src))" "dl_rel C m bn src"
  for F C bn src m
proof
  fix p q a assume rel: "dl_rel C m bn src p a" and step: "recv_step F C bn src p q"
  obtain S j where a: "a = (S, j)" by (cases a)
  note rel' = rel [unfolded a]
  from step show "\<exists>a'. (dl_spec m (num_chunks (length src)))\<^sup>*\<^sup>* a a' \<and> dl_rel C m bn src q a'"
  proof (cases rule: recv_step.cases)
    case (arrive pkt d sid)
    obtain q' S' where q': "handleBlockDataPacket F C sid pkt p = Inr q'" "S' = S \<or> S' = insert d S \<and> d div m < j"
      "dl_core C m bn src q' S' j" "tasks_ok m bn src q' j (pu_tasks q')"
      using arrive_ok [of C m bn src p S j pkt d sid F] rel' arrive(1,2) unfolding dl_rel_def by auto
    have "d < num_chunks (length src)" using arrive(1) by (simp add: arrival_def)
    then have "(dl_spec m (num_chunks (length src)))\<^sup>*\<^sup>* a (S', j)"
      using q'(2) unfolding a by (auto intro: spec_receive)
    moreover have "dl_rel C m bn src q (S', j)" using q' arrive(3) by (simp add: dl_rel_def)
    ultimately show ?thesis by blast
  next
    case (goroutine ts t us r t' q')
    from goroutine_ok [OF rel' goroutine(2,3)] goroutine(1) show ?thesis unfolding a by auto
  qed
qed

text \<open>A controller that learns of the block over a push session.\<close>

definition fresh_download :: "Config \<Rightarrow> nat \<Rightarrow> u32 \<Rightarrow> bytes \<Rightarrow> u32 \<Rightarrow> PuCtrl \<Rightarrow> bool" where
  "fresh_download C m bn src sid p \<longleftrightarrow>
     conf_ok C m \<and> length src < 2 ^ 32 \<and> gm_ok (pu_sessionMap p) \<and> sem_ok p (pu_semPull p) \<and>
     pu_tasks p = [] \<and> SafeMap_Get (pu_blockMap p) bn = None \<and>
     (\<exists>s. gm_get (pu_sessionMap p) sid = Some s \<and> ps_sessionType s = PUSH_SESSION)"

lemma download_starts:
  assumes "fresh_download C m bn src sid p"
    and "binfo_BlockNumber pkt = bn" and "binfo_BlockSize pkt = of_nat (length src)"
  shows "\<exists>q. handleBlockInfoPacket C sid pkt p = Inr q \<and> dl_rel C m bn src q ({}, 0) \<and>
    pu_tasks q = [BlockRequest PUSH_SESSION bn (of_nat (length src)) 0 0] \<and>
    pu_semPush q = Some \<lparr>ch_cap = 1, ch_buf = [sid]\<rparr> \<and>
    (\<exists>s. gm_get (pu_sessionMap q) sid = Some s \<and> ps_sessionType s = PUSH_SESSION \<and> ps_blockNumber s = bn)"
proof -
  obtain s where s: "gm_get (pu_sessionMap p) sid = Some s" "ps_sessionType s = PUSH_SESSION"
    using assms(1) unfolding fresh_download_def by blast
  have m: "0 < m" using assms(1) by (simp add: fresh_download_def conf_ok_def)
  let ?s = "s\<lparr>ps_blockNumber := binfo_BlockNumber pkt, ps_blockStatus := binfo_Status pkt\<rparr>"
  let ?p = "p\<lparr>pu_sessionMap := gm_put (pu_sessionMap p) sid ?s\<rparr>"
  let ?q = "SendBlockRequest C PUSH_SESSION sid pkt ?p"
  have map_q: "pu_sessionMap ?q = gm_put (pu_sessionMap p) sid ?s"
    by (simp add: SendBlockRequest_def Let_def go_task_def)
  have "map fst (pu_sessionMap ?q) = map fst (pu_sessionMap p)"
    unfolding map_q using gm_put_keys [of sid "pu_sessionMap p" ?s] gm_key_get [OF s(1)] by simp
  then have k: "keys ?q = keys p" and ok: "gm_ok (pu_sessionMap ?q)"
    using assms(1) by (simp_all add: keys_def gm_ok_def fresh_download_def)
  have sid: "sid \<in> keys p" using gm_key_get [OF s(1)] by (simp add: keys_def)
  have sl: "pu_tasks ?q = [BlockRequest PUSH_SESSION bn (of_nat (length src)) 0 0]"
    "pu_semPush ?q = Some \<lparr>ch_cap = 1, ch_buf = [sid]\<rparr>" "pu_semPull ?q = pu_semPull p"
    "SafeMap_Get (pu_blockMap ?q) bn = Some (CreateBlockBuffer bn (of_nat (length src)))"
    using assms by (simp_all add: SendBlockRequest_def Let_def go_task_def fresh_download_def
        CreateBlockBuffer_def)
  have "unat (of_nat (length src) :: u32) = length src"
    using assms(1) by (simp add: fresh_download_def unat_of_nat_lt)
  then have "holds m (CreateBlockBuffer bn (of_nat (length src))) src {}"
    using m by (intro holds_empty) simp_all
  then have "dl_core C m bn src ?q {} 0"
    unfolding dl_core_def sem_ok_keys [OF k] sl ok
    using assms(1) sid ok by (auto simp: fresh_download_def sem_ok_def CreateBlockBuffer_def)
  moreover have "tasks_ok m bn src ?q 0 (pu_tasks ?q)"
    unfolding sl by (simp add: tasks_ok_def)
  ultimately have "dl_rel C m bn src ?q ({}, 0)" by (simp add: dl_rel_def)
  moreover have "handleBlockInfoPacket C sid pkt p = Inr ?q"
    using s by (simp add: handleBlockInfoPacket_def on_session_def of_session_def)
  moreover have "gm_get (pu_sessionMap ?q) sid = Some ?s" unfolding map_q by simp
  ultimately show ?thesis using s(2) sl(1,2) assms(2) by auto
qed

lemma all_received:
  assumes h: "holds m b src S" and full: "b_receivedBytes b = b_blockSize b"
  shows "S = {..<num_chunks (length src)}"
proof (rule ccontr)
  let ?n = "num_chunks (length src)"
  have S: "S \<subseteq> {..<?n}" and bs: "length src = unat (b_blockSize b)" using h unfolding holds_def by blast+
  have len: "length src < 2 ^ 32" using unat_u32_lt [of "b_blockSize b"] bs by simp
  assume "S \<noteq> {..<?n}"
  then obtain d where d: "d < ?n" "d \<notin> S" using S by auto
  have fin: "finite S" using S finite_subset by blast
  have pos: "0 < length (chunk src d)" using d(1) by (simp add: num_chunks_iff length_chunk)
  have "(\<Sum>x \<in> insert d S. length (chunk src x)) \<le> length src" using S d by (intro sum_chunks_le) simp
  moreover have "(\<Sum>x \<in> insert d S. length (chunk src x)) = length (chunk src d) + (\<Sum>x \<in> S. length (chunk src x))"
    using d(2) fin by simp
  ultimately have lt: "(\<Sum>x \<in> S. length (chunk src x)) < length src" using pos by linarith
  have "unat (b_receivedBytes b) = (\<Sum>x \<in> S. length (chunk src x))"
    using h lt len by (simp add: holds_def unat_of_nat_lt del: of_nat_sum)
  then show False using lt full bs by simp
qed

lemma reads_back:
  assumes C: "conf_ok C m" and h: "holds m b src S" and full: "b_receivedBytes b = b_blockSize b"
    and "d < num_chunks (length src)" and "length buf = 1024"
  shows "\<exists>eos. ReadBlockDataByDataNumber C (of_nat d) buf b
           = Some (Inr (int (length (chunk src d)), eos, chunk src d @ drop (length (chunk src d)) buf))"
  using ReadBlockDataByDataNumber_ok [OF C h, of d buf] all_received [OF h full] assms(4,5) by auto

text \<open>A download of five bytes.\<close>

lemma fresh_demo: "fresh_download tiny_config 2 1 [1, 2, 3, 4, 5] 7 demo_recv"
  using conf_tiny demo_recv_ok
  by (simp add: fresh_download_def demo_recv_def CreatePuCtrl_def sem_ok_def gm_get_def demo_session_def
      CreatePuSession_def)

end
