(* ===== verification/Pu_Complete.thy ===== *)
theory Pu_Complete
  imports Pu_Recv_Props
begin

text \<open>
  A download ends: from the announcement of a block over a push session there is a run in which the
  packets of the file arrive in order, the request loop asks for segment after segment, and the
  block is complete when the loop has ended.
\<close>

section \<open>Where the request loop stands\<close>

definition session_ready :: "u32 \<Rightarrow> u32 \<Rightarrow> PuCtrl \<Rightarrow> bool" where
  "session_ready bn sid p \<longleftrightarrow>
     (\<exists>s. gm_get (pu_sessionMap p) sid = Some s \<and> ps_sessionType s = PUSH_SESSION \<and> ps_blockNumber s = bn)"

definition push_request :: "u32 \<Rightarrow> bytes \<Rightarrow> nat \<Rightarrow> nat \<Rightarrow> task" where
  "push_request bn src m j =
     BlockRequest PUSH_SESSION bn (of_nat (length src)) (of_nat (min (j * m * 1024) (length src))) (of_nat j)"

text \<open>\<open>tok\<close>: the session's ID is in the semaphore; \<open>ts\<close>: the ends of segments beside the loop.\<close>

definition loop_at ::
    "Config \<Rightarrow> nat \<Rightarrow> u32 \<Rightarrow> bytes \<Rightarrow> u32 \<Rightarrow> nat \<Rightarrow> nat \<Rightarrow> bool \<Rightarrow> task list \<Rightarrow> PuCtrl \<Rightarrow> bool" where
  "loop_at C m bn src sid d j tok ts p \<longleftrightarrow>
     dl_core C m bn src p {..<d} j \<and> session_ready bn sid p \<and>
     pu_tasks p = push_request bn src m j # ts \<and>
     pu_semPush p = Some \<lparr>ch_cap = 1, ch_buf = (if tok then [sid] else [])\<rparr>"

lemma session_ready_key: "session_ready bn sid p \<Longrightarrow> sid \<in> keys p"
  unfolding session_ready_def keys_def by (elim exE conjE) (rule gm_key_get)

lemma loop_starts:
  assumes "fresh_download C m bn src sid p"
    and "binfo_BlockNumber pkt = bn" and "binfo_BlockSize pkt = of_nat (length src)"
  shows "\<exists>q. handleBlockInfoPacket C sid pkt p = Inr q \<and> loop_at C m bn src sid 0 0 True [] q"
  using download_starts [OF assms]
  by (auto simp: loop_at_def dl_rel_def session_ready_def push_request_def lessThan_0)

section \<open>The steps of a round\<close>

lemma loop_request:
  assumes "loop_at C m bn src sid d j True [] p" and more: "j * m * 1024 < length src"
  shows "\<exists>q. recv_step F C bn src p q \<and> loop_at C m bn src sid d (Suc j) False [] q"
proof -
  let ?p = "p\<lparr>pu_tasks := []\<rparr>"
  have core: "dl_core C m bn src ?p {..<d} j" and sem: "pu_semPush p = Some \<lparr>ch_cap = 1, ch_buf = [sid]\<rparr>"
    and tasks: "pu_tasks p = [push_request bn src m j]" and sess: "session_ready bn sid p"
    using assms(1) by (simp_all add: loop_at_def)
  have recv: "nil_recv (sem_of PUSH_SESSION ?p) = Some (sid, \<lparr>ch_cap = 1, ch_buf = []\<rparr>)"
    using sem by (simp add: sem_of_def nil_recv_def chan_recv_def)
  have off: "push_request bn src m j
      = BlockRequest PUSH_SESSION bn (of_nat (length src)) (of_nat (j * m * 1024)) (of_nat j)"
    using more by (simp add: push_request_def min_def del: of_nat_mult)
  obtain q s e where q: "blockRequest C PUSH_SESSION bn (of_nat (length src)) (of_nat (j * m * 1024)) (of_nat j) ?p
      = Some (Inr (Some (push_request bn src m (Suc j)), q))"
    "dl_core C m bn src q {..<d} (Suc j)" "pu_tasks q = pu_tasks ?p"
    "pu_semPush q = pu_semPush (with_sem PUSH_SESSION \<lparr>ch_cap = 1, ch_buf = []\<rparr> ?p)"
    and s: "gm_get (pu_sessionMap ?p) sid = Some s"
      "gm_get (pu_sessionMap q) sid = Some (asked bn (of_nat (j * m)) e 0 0 s)"
    using request_more [OF core more recv, folded push_request_def]
    by (elim exE conjE) (rule that; assumption)
  have "recv_step F C bn src p (resume (Some (push_request bn src m (Suc j))) q)"
    by (rule goroutine [where ts = "[]" and us = "[]" and r = 0 and t = "push_request bn src m j"])
      (use tasks q(1) off in simp_all)
  moreover have "session_ready bn sid q"
    using sess s by (auto simp: session_ready_def asked_def)
  then have "loop_at C m bn src sid d (Suc j) False [] (resume (Some (push_request bn src m (Suc j))) q)"
    using q(2-4) by (simp add: loop_at_def session_ready_def with_sem_def resume_def)
  ultimately show ?thesis by blast
qed

lemma an_arrival:
  assumes "d < num_chunks (length src)"
  shows "\<exists>pkt. arrival bn src pkt d"
proof -
  let ?pkt = "\<lparr>bdata_Type = BLOCK_DATA_PACKET, bdata_Length = 1040, bdata_BlockNumber = bn,
    bdata_DataNumber = of_nat d, bdata_SessionID = 0, bdata_DataType = DATA_TYPE_SOURCE,
    bdata_Data = chunk src d @ replicate (1024 - length (chunk src d)) 0\<rparr>"
  have "arrival bn src ?pkt d" using assms length_chunk_le [of src d] by (simp add: arrival_def packet_for_def)
  then show ?thesis ..
qed

lemma loop_receive:
  assumes "loop_at C m bn src sid d j False [] p" and d: "d < num_chunks (length src)" "d div m < j"
  defines "eos \<equiv> d mod m + 1 = num_chunks (length (seg_bytes m src (d div m)))"
  shows "\<exists>q. recv_step F C bn src p q \<and>
    loop_at C m bn src sid (Suc d) j False (if eos then [EndSegment sid] else []) q"
proof -
  have core: "dl_core C m bn src p {..<d} j" and sess: "session_ready bn sid p"
    using assms(1) by (simp_all add: loop_at_def)
  obtain pkt where pkt: "arrival bn src pkt d" using an_arrival [OF d(1)] by blast
  obtain s where s: "gm_get (pu_sessionMap p) sid = Some s" "ps_sessionType s = PUSH_SESSION" "ps_blockNumber s = bn"
    using sess by (auto simp: session_ready_def)
  obtain q where q: "ReceiveBlockData F C sid pkt p = Inr q"
    "dl_core C m bn src q (if d div m < j then insert d {..<d} else {..<d}) j"
    "pu_tasks q = pu_tasks p @ (if d div m < j \<and> d \<notin> {..<d} \<and> d mod m + 1 = num_chunks (length (seg_bytes m src (d div m))) then [EndSegment sid] else [])"
    "pu_semPush q = pu_semPush p"
    "gm_get (pu_sessionMap q) sid = map_option (\<lambda>s. s\<lparr>ps_blockReceiving := True\<rparr>) (gm_get (pu_sessionMap p) sid)"
    using receive_ok [OF core pkt session_ready_key [OF sess], of F] by (elim exE conjE) (rule that; assumption)
  have "handleBlockDataPacket F C sid pkt p = Inr q"
    using s q(1) core by (auto simp: handleBlockDataPacket_def of_session_def dl_core_def)
  then have "recv_step F C bn src p q" by (rule arrive [OF pkt session_ready_key [OF sess]])
  moreover have "insert d {..<d} = {..<Suc d}" by auto
  then have "loop_at C m bn src sid (Suc d) j False (if eos then [EndSegment sid] else []) q"
    using assms(1) q(2-5) s d(2) by (simp add: loop_at_def session_ready_def eos_def)
  ultimately show ?thesis by blast
qed

lemma loop_end_segment:
  assumes "loop_at C m bn src sid d j False [EndSegment sid] p"
  shows "\<exists>q. recv_step F C bn src p q \<and> loop_at C m bn src sid d j True [] q"
proof -
  let ?p = "p\<lparr>pu_tasks := [push_request bn src m j]\<rparr>"
  have core: "dl_core C m bn src ?p {..<d} j" and sess: "session_ready bn sid p"
    and sem: "pu_semPush p = Some \<lparr>ch_cap = 1, ch_buf = []\<rparr>"
    and tasks: "pu_tasks p = [push_request bn src m j, EndSegment sid]"
    using assms(1) by (simp_all add: loop_at_def)
  have sid: "sid \<in> keys ?p" using session_ready_key [OF sess] by simp
  obtain s where s: "gm_get (pu_sessionMap p) sid = Some s" "ps_sessionType s = PUSH_SESSION" "ps_blockNumber s = bn"
    using sess by (auto simp: session_ready_def)
  let ?q = "?p\<lparr>pu_semPush := Some \<lparr>ch_cap = 1, ch_buf = [sid]\<rparr>,
    pu_sessionMap := gm_put (pu_sessionMap p) sid (s\<lparr>ps_blockReceiving := False\<rparr>)\<rparr>"
  have run: "endSegment sid ?p = Some (Inr (None, ?q))"
    using s sem by (simp add: endSegment_def nil_send_def chan_send_def on_session_def)
  then have core': "dl_core C m bn src ?q {..<d} j"
    using endSegment_ok [OF core sid run] by simp
  have "recv_step F C bn src p (resume None ?q)"
    by (rule goroutine [where ts = "[push_request bn src m j]" and us = "[]" and r = 0 and t = "EndSegment sid"])
      (use tasks run in simp_all)
  moreover have "loop_at C m bn src sid d j True [] (resume None ?q)"
    unfolding loop_at_def resume_sel(3)
    by (intro conjI, rule core') (use s in \<open>simp_all add: session_ready_def resume_def\<close>)
  ultimately show ?thesis by blast
qed

section \<open>A segment, and the block\<close>

text \<open>The last data number of a segment is the one that ends it.\<close>

lemma segment_last:
  assumes "0 < m" and "d div m = j" and "d < num_chunks (length src)"
  shows "d mod m + 1 = num_chunks (length (seg_bytes m src (d div m))) \<longleftrightarrow>
         Suc d = min (Suc j * m) (num_chunks (length src))"
proof -
  have jm: "d = j * m + d mod m" using assms(2) by auto
  have r: "d mod m < m" using assms(1) by simp
  have "num_chunks (length (seg_bytes m src j)) = min (Suc j * m) (num_chunks (length src)) - j * m"
  proof -
    have "k < num_chunks (length (seg_bytes m src j)) \<longleftrightarrow> k < min (Suc j * m) (num_chunks (length src)) - j * m" for k
      unfolding num_chunks_seg by auto
    then show ?thesis by (metis less_irrefl_nat linorder_neqE_nat)
  qed
  moreover have "d mod m + 1 = min (Suc j * m) n - j * m \<longleftrightarrow> Suc d = min (Suc j * m) n" if "d < n" for n
    using jm r that by (simp add: min_def) linarith
  ultimately show ?thesis using assms(2,3) by simp
qed

lemma loop_segment:
  assumes m: "0 < m" and j: "j * m \<le> d" and d: "d < min (Suc j * m) (num_chunks (length src))"
    and "loop_at C m bn src sid d (Suc j) False [] p"
  shows "\<exists>q. (recv_step F C bn src)\<^sup>*\<^sup>* p q \<and>
    loop_at C m bn src sid (min (Suc j * m) (num_chunks (length src))) (Suc j) True [] q"
  using j d assms(4)
proof (induction "min (Suc j * m) (num_chunks (length src)) - d" arbitrary: d p rule: less_induct)
  case less
  let ?e = "min (Suc j * m) (num_chunks (length src))"
  have dj: "d div m = j"
    using less.prems(1,2) m by (intro div_nat_eqI) (auto simp: algebra_simps)
  have dn: "d < num_chunks (length src)" "d div m < Suc j" using less.prems(2) dj by simp_all
  from loop_receive [OF less.prems(3) dn, of F] obtain q where q: "recv_step F C bn src p q"
    "loop_at C m bn src sid (Suc d) (Suc j) False (if Suc d = ?e then [EndSegment sid] else []) q"
    unfolding segment_last [OF m dj dn(1)] by blast
  show ?case
  proof (cases "Suc d = ?e")
    case True
    then obtain r where "recv_step F C bn src q r" "loop_at C m bn src sid ?e (Suc j) True [] r"
      using loop_end_segment [of C m bn src sid "Suc d" "Suc j" q F] q(2) by auto
    then show ?thesis using q(1) by (meson converse_rtranclp_into_rtranclp r_into_rtranclp)
  next
    case False
    have "\<exists>r. (recv_step F C bn src)\<^sup>*\<^sup>* q r \<and> loop_at C m bn src sid ?e (Suc j) True [] r"
      using less.prems(1,2) False q(2) by (intro less.hyps [of "Suc d"]) auto
    then show ?thesis using q(1) by (meson converse_rtranclp_into_rtranclp)
  qed
qed

lemma loop_block:
  assumes m: "0 < m" and "loop_at C m bn src sid (min (j * m) (num_chunks (length src))) j True [] p"
    and "j * m < num_chunks (length src) + m"
  shows "\<exists>q i. (recv_step F C bn src)\<^sup>*\<^sup>* p q \<and> num_chunks (length src) \<le> i * m \<and>
    loop_at C m bn src sid (num_chunks (length src)) i True [] q"
  using assms(2,3)
proof (induction "num_chunks (length src) - j * m" arbitrary: j p rule: less_induct)
  case less
  let ?n = "num_chunks (length src)"
  show ?case
  proof (cases "j * m < ?n")
    case True
    then have jl: "j * m * 1024 < length src" by (simp add: num_chunks_iff)
    have at: "loop_at C m bn src sid (j * m) j True [] p" using less.prems(1) True by (simp add: min_def)
    obtain q where q: "recv_step F C bn src p q" "loop_at C m bn src sid (j * m) (Suc j) False [] q"
      using loop_request [OF at jl] by blast
    have lt: "j * m < min (Suc j * m) ?n" using True m by simp
    obtain r where r: "(recv_step F C bn src)\<^sup>*\<^sup>* q r"
      "loop_at C m bn src sid (min (Suc j * m) ?n) (Suc j) True [] r"
      using loop_segment [OF m le_refl lt q(2)] by blast
    have "?n - Suc j * m < ?n - j * m" "Suc j * m < ?n + m" using True m by auto
    from less.hyps [OF this(1) r(2) this(2)] show ?thesis
      using q(1) r(1) by (meson converse_rtranclp_into_rtranclp rtranclp_trans)
  next
    case False
    then have "min (j * m) ?n = ?n" by simp
    then show ?thesis using less.prems(1) False by (intro exI [of _ p] exI [of _ j]) simp
  qed
qed

lemma loop_ends:
  assumes "loop_at C m bn src sid (num_chunks (length src)) i True [] p" and "num_chunks (length src) \<le> i * m"
  shows "\<exists>q b. recv_step F C bn src p q \<and> pu_tasks q = [] \<and> SafeMap_Get (pu_blockMap q) bn = Some b \<and>
    holds_file m b src"
proof -
  let ?p = "p\<lparr>pu_tasks := []\<rparr>"
  have "\<not> i * m * 1024 < length src" using assms(2) num_chunks_iff [of "i * m" "length src"] by simp
  then have "run_task F C 0 (push_request bn src m i) ?p = Some (Inr (None, ?p))"
    by (simp add: push_request_def blockRequest_def min_def)
  moreover have "pu_tasks p = [push_request bn src m i]" using assms(1) by (simp add: loop_at_def)
  ultimately have "recv_step F C bn src p (resume None ?p)"
    by (intro goroutine [where ts = "[]" and us = "[]" and r = 0 and t = "push_request bn src m i"]) simp_all
  moreover obtain b where "SafeMap_Get (pu_blockMap p) bn = Some b" "holds m b src {..<num_chunks (length src)}"
    using assms(1) unfolding loop_at_def dl_core_def by blast
  ultimately show ?thesis
    by (intro exI [of _ "resume None ?p"] exI [of _ b]) (simp add: resume_def holds_file_def)
qed

lemma full_bytes: "holds_file m b src \<Longrightarrow> b_receivedBytes b = b_blockSize b"
proof -
  assume h: "holds_file m b src"
  have "(\<Sum>d < num_chunks (length src). length (chunk src d)) = length src"
    unfolding sum_chunks num_chunks_def by (rule min.absorb2) linarith
  then show ?thesis using h by (simp add: holds_file_def holds_def del: of_nat_sum)
qed

lemma complete_run:
  assumes "fresh_download C m bn src sid p"
    and "binfo_BlockNumber pkt = bn" and "binfo_BlockSize pkt = of_nat (length src)"
  shows "\<exists>p0 q b. handleBlockInfoPacket C sid pkt p = Inr p0 \<and> (recv_step F C bn src)\<^sup>*\<^sup>* p0 q \<and>
    pu_tasks q = [] \<and> SafeMap_Get (pu_blockMap q) bn = Some b \<and> holds_file m b src"
proof -
  have m: "0 < m" using assms(1) by (simp add: fresh_download_def conf_ok_def)
  obtain p0 where p0: "handleBlockInfoPacket C sid pkt p = Inr p0" "loop_at C m bn src sid 0 0 True [] p0"
    using loop_starts [OF assms] by blast
  then obtain q i where q: "(recv_step F C bn src)\<^sup>*\<^sup>* p0 q" "num_chunks (length src) \<le> i * m"
    "loop_at C m bn src sid (num_chunks (length src)) i True [] q"
    using loop_block [OF m, of C bn src sid 0 p0 F] m by auto
  obtain r b where r: "recv_step F C bn src q r" "pu_tasks r = []" "SafeMap_Get (pu_blockMap r) bn = Some b"
    "holds_file m b src" using loop_ends [OF q(3,2)] by blast
  have "(recv_step F C bn src)\<^sup>*\<^sup>* p0 r" using q(1) r(1) by simp
  then show ?thesis using p0(1) r(2-4) by blast
qed

text \<open>
  C7: A download over a push session can always be completed, so that the request loop, the semaphore
  and the ends of segments do not deadlock: from the announcement of any block there is a run (the
  packets arrive once each and in order, and the goroutines get their turns) after which no goroutine
  is left, every byte has been counted, and every data number reads back its chunk.
\<close>

theorem download_completes:
  assumes "fresh_download C m bn src sid p"
    and "binfo_BlockNumber pkt = bn" and "binfo_BlockSize pkt = of_nat (length src)"
  shows "\<exists>p0 q b. handleBlockInfoPacket C sid pkt p = Inr p0 \<and> (recv_step F C bn src)\<^sup>*\<^sup>* p0 q \<and>
    pu_tasks q = [] \<and> SafeMap_Get (pu_blockMap q) bn = Some b \<and> b_receivedBytes b = b_blockSize b \<and>
    (\<forall>d buf. d < num_chunks (length src) \<longrightarrow> length buf = 1024 \<longrightarrow>
      (\<exists>eos. ReadBlockDataByDataNumber C (of_nat d) buf b
         = Some (Inr (int (length (chunk src d)), eos, chunk src d @ drop (length (chunk src d)) buf))))"
proof -
  have C: "conf_ok C m" using assms(1) by (simp add: fresh_download_def)
  obtain p0 q b where r: "handleBlockInfoPacket C sid pkt p = Inr p0" "(recv_step F C bn src)\<^sup>*\<^sup>* p0 q"
    "pu_tasks q = []" "SafeMap_Get (pu_blockMap q) bn = Some b" and h: "holds_file m b src"
    using complete_run [OF assms] by blast
  show ?thesis using r full_bytes [OF h] reads_back [OF C h [unfolded holds_file_def] full_bytes [OF h]] by blast
qed

theorem download_completes_witness:
  "\<exists>p0 q b. handleBlockInfoPacket tiny_config 7 (CreateBlockInfoPacket 1 PEER_HAS_BLOCK 5) demo_recv = Inr p0 \<and>
    (recv_step no_fec tiny_config 1 [1, 2, 3, 4, 5])\<^sup>*\<^sup>* p0 q \<and>
    pu_tasks q = [] \<and> SafeMap_Get (pu_blockMap q) 1 = Some b \<and> b_receivedBytes b = b_blockSize b \<and>
    (\<forall>d buf. d < num_chunks (length [1, 2, 3, 4, 5 :: byte]) \<longrightarrow> length buf = 1024 \<longrightarrow>
      (\<exists>eos. ReadBlockDataByDataNumber tiny_config (of_nat d) buf b
         = Some (Inr (int (length (chunk [1, 2, 3, 4, 5] d)), eos,
             chunk [1, 2, 3, 4, 5] d @ drop (length (chunk [1, 2, 3, 4, 5] d)) buf))))"
  by (rule download_completes [OF fresh_demo]) (simp_all add: CreateBlockInfoPacket_def)

section \<open>Every run\<close>

text \<open>
  C8: A download implements the abstract one: when a block is announced over a push session, then
  whatever packets of it arrive (over any session, in any order, repeated or lost) and however the
  handlers and the goroutines interleave, what the block buffer holds is the set of data numbers, and
  its segment list the number of requested segments, of a run of the abstract download, in which a
  data number is received only after its segment was requested.
\<close>

theorem download_refines:
  assumes "fresh_download C m bn src sid p"
    and "binfo_BlockNumber pkt = bn" and "binfo_BlockSize pkt = of_nat (length src)"
  shows "\<exists>p0. handleBlockInfoPacket C sid pkt p = Inr p0 \<and>
    (\<forall>q. (recv_step F C bn src)\<^sup>*\<^sup>* p0 q \<longrightarrow>
       (\<exists>S j b. (dl_spec m (num_chunks (length src)))\<^sup>*\<^sup>* ({}, 0) (S, j) \<and>
          SafeMap_Get (pu_blockMap q) bn = Some b \<and> holds m b src S \<and> length (b_segmentList b) = j))"
proof -
  obtain p0 where p0: "handleBlockInfoPacket C sid pkt p = Inr p0" "dl_rel C m bn src p0 ({}, 0)"
    using download_starts [OF assms] by blast
  show ?thesis
    using p0(1) download.simulates_run [OF _ p0(2), of F]
    unfolding dl_rel_def dl_core_def by (intro exI [of _ p0]) fastforce
qed

theorem download_refines_witness:
  "\<exists>p0. handleBlockInfoPacket tiny_config 7 (CreateBlockInfoPacket 1 PEER_HAS_BLOCK 5) demo_recv = Inr p0 \<and>
    (\<forall>q. (recv_step no_fec tiny_config 1 [1, 2, 3, 4, 5])\<^sup>*\<^sup>* p0 q \<longrightarrow>
       (\<exists>S j b. (dl_spec 2 (num_chunks (length [1, 2, 3, 4, 5 :: byte])))\<^sup>*\<^sup>* ({}, 0) (S, j) \<and>
          SafeMap_Get (pu_blockMap q) 1 = Some b \<and> holds 2 b [1, 2, 3, 4, 5] S \<and> length (b_segmentList b) = j))"
  by (rule download_refines [OF fresh_demo]) (simp_all add: CreateBlockInfoPacket_def)

text \<open>The complete run of the five bytes.\<close>

lemma demo_run:
  obtains p0 q b where
    "handleBlockInfoPacket tiny_config 7 (CreateBlockInfoPacket 1 PEER_HAS_BLOCK 5) demo_recv = Inr p0"
    "(recv_step no_fec tiny_config 1 [1, 2, 3, 4, 5])\<^sup>*\<^sup>* p0 q"
    "SafeMap_Get (pu_blockMap q) 1 = Some b" "b_receivedBytes b = b_blockSize b"
proof -
  have "\<exists>p0 q b. handleBlockInfoPacket tiny_config 7 (CreateBlockInfoPacket 1 PEER_HAS_BLOCK 5) demo_recv = Inr p0 \<and>
    (recv_step no_fec tiny_config 1 [1, 2, 3, 4, 5])\<^sup>*\<^sup>* p0 q \<and>
    pu_tasks q = [] \<and> SafeMap_Get (pu_blockMap q) 1 = Some b \<and> holds_file 2 b [1, 2, 3, 4, 5]"
    by (rule complete_run [OF fresh_demo]) (simp_all add: CreateBlockInfoPacket_def)
  then show ?thesis using that full_bytes by blast
qed

text \<open>
  C6: A block that is downloaded over a push session and has counted as many bytes as it has, holds the block. The
  download is announced by a block info, with the block's number and size, on the push session of a controller whose sessions are entered once each and
  whose semaphores name sessions it has, that has no other transfer running and does not have the block; \<open>SEGMENT_SIZE\<close> is a multiple of 1024, and the block is below 2^32 bytes; what
  arrives of it are source packets of the peer, any of them, in any order and any number of times. Then, after any interleaving of
  the handlers with the request loop and the ends of segments, every data number reads back its chunk of the file.
  Pulling from several owners and packets of FEC, whose repair bytes are counted too, are not covered.
\<close>

theorem download_correct:
  assumes "fresh_download C m bn src sid p"
    and "binfo_BlockNumber pkt = bn" and "binfo_BlockSize pkt = of_nat (length src)"
    and "handleBlockInfoPacket C sid pkt p = Inr p0" and "(recv_step F C bn src)\<^sup>*\<^sup>* p0 q"
  shows "\<exists>b. SafeMap_Get (pu_blockMap q) bn = Some b \<and>
    (b_receivedBytes b = b_blockSize b \<longrightarrow>
      (\<forall>d buf. d < num_chunks (length src) \<longrightarrow> length buf = 1024 \<longrightarrow>
        (\<exists>eos. ReadBlockDataByDataNumber C (of_nat d) buf b
           = Some (Inr (int (length (chunk src d)), eos, chunk src d @ drop (length (chunk src d)) buf)))))"
proof -
  have "dl_rel C m bn src p0 ({}, 0)" using download_starts [OF assms(1-3)] assms(4) by auto
  from download.simulates_run [OF assms(5) this] obtain a where "dl_rel C m bn src q a" by blast
  then obtain b where "SafeMap_Get (pu_blockMap q) bn = Some b" "conf_ok C m" "holds m b src (fst a)"
    unfolding dl_rel_def dl_core_def by blast
  then show ?thesis using reads_back by blast
qed

theorem download_correct_witness:
  "\<exists>p0 q b. handleBlockInfoPacket tiny_config 7 (CreateBlockInfoPacket 1 PEER_HAS_BLOCK 5) demo_recv = Inr p0 \<and>
    (recv_step no_fec tiny_config 1 [1, 2, 3, 4, 5])\<^sup>*\<^sup>* p0 q \<and>
    SafeMap_Get (pu_blockMap q) 1 = Some b \<and>
      (\<forall>d buf. d < num_chunks (length [1, 2, 3, 4, 5 :: byte]) \<longrightarrow> length buf = 1024 \<longrightarrow>
        (\<exists>eos. ReadBlockDataByDataNumber tiny_config (of_nat d) buf b
           = Some (Inr (int (length (chunk [1, 2, 3, 4, 5] d)), eos,
               chunk [1, 2, 3, 4, 5] d @ drop (length (chunk [1, 2, 3, 4, 5] d)) buf))))"
proof -
  obtain p0 q b where run: "handleBlockInfoPacket tiny_config 7 (CreateBlockInfoPacket 1 PEER_HAS_BLOCK 5) demo_recv = Inr p0"
    "(recv_step no_fec tiny_config 1 [1, 2, 3, 4, 5])\<^sup>*\<^sup>* p0 q"
    and b: "SafeMap_Get (pu_blockMap q) 1 = Some b" "b_receivedBytes b = b_blockSize b" by (rule demo_run)
  show ?thesis
    using download_correct [OF fresh_demo _ _ run] run b
    by (intro exI [of _ p0] exI [of _ q] exI [of _ b]) (simp add: CreateBlockInfoPacket_def)
qed

text \<open>
  C9: In a download over a push session (announced with its number and size to a controller without other transfers and without the block, whose
  sessions are entered once each and whose semaphores name sessions it has, with
  \<open>SEGMENT_SIZE\<close> a multiple of 1024 and a block below 2^32 bytes) no handler of a source packet of the block, on any session,
  and no iteration of the request loop or of the end of a segment panics, at any point of any interleaving of them. The
  panics of a pull from eight or more owners and of the FEC decoder lie outside.
\<close>

theorem download_never_panics:
  assumes "fresh_download C m bn src sid p"
    and "binfo_BlockNumber pkt = bn" and "binfo_BlockSize pkt = of_nat (length src)"
    and "handleBlockInfoPacket C sid pkt p = Inr p0" and "(recv_step F C bn src)\<^sup>*\<^sup>* p0 q"
  shows "(\<forall>data d i. arrival bn src data d \<longrightarrow> i \<in> keys q \<longrightarrow> (\<exists>q'. handleBlockDataPacket F C i data q = Inr q')) \<and>
    (\<forall>ts t us r res. pu_tasks q = ts @ t # us \<longrightarrow>
       run_task F C r t (q\<lparr>pu_tasks := ts @ us\<rparr>) = Some res \<longrightarrow> (\<exists>q'. res = Inr q'))"
proof -
  have "dl_rel C m bn src p0 ({}, 0)" using download_starts [OF assms(1-3)] assms(4) by auto
  from download.simulates_run [OF assms(5) this] obtain S j where rel: "dl_rel C m bn src q (S, j)" by auto
  have "\<exists>q'. handleBlockDataPacket F C i data q = Inr q'" if "arrival bn src data d" "i \<in> keys q" for data d i
    using arrive_ok [OF _ _ that, of C m S j F] rel by (auto simp: dl_rel_def)
  moreover have "\<exists>q'. res = Inr q'" if "pu_tasks q = ts @ t # us"
    "run_task F C r t (q\<lparr>pu_tasks := ts @ us\<rparr>) = Some res" for ts t us r res
    using goroutine_ok [OF rel that] by blast
  ultimately show ?thesis by blast
qed


theorem download_never_panics_witness:
  "\<exists>p0 q. handleBlockInfoPacket tiny_config 7 (CreateBlockInfoPacket 1 PEER_HAS_BLOCK 5) demo_recv = Inr p0 \<and>
    (recv_step no_fec tiny_config 1 [1, 2, 3, 4, 5])\<^sup>*\<^sup>* p0 q \<and>
    (\<forall>data d i. arrival 1 [1, 2, 3, 4, 5] data d \<longrightarrow> i \<in> keys q \<longrightarrow>
       (\<exists>q'. handleBlockDataPacket no_fec tiny_config i data q = Inr q')) \<and>
    (\<forall>ts t us r res. pu_tasks q = ts @ t # us \<longrightarrow>
       run_task no_fec tiny_config r t (q\<lparr>pu_tasks := ts @ us\<rparr>) = Some res \<longrightarrow> (\<exists>q'. res = Inr q'))"
proof -
  obtain p0 q b where run: "handleBlockInfoPacket tiny_config 7 (CreateBlockInfoPacket 1 PEER_HAS_BLOCK 5) demo_recv = Inr p0"
    "(recv_step no_fec tiny_config 1 [1, 2, 3, 4, 5])\<^sup>*\<^sup>* p0 q" by (rule demo_run)
  show ?thesis
    using download_never_panics [OF fresh_demo _ _ run] run
    by (intro exI [of _ p0] exI [of _ q] conjI) (simp_all add: CreateBlockInfoPacket_def)
qed

end
