(* ===== verification/Pu_Resume.thy ===== *)
theory Pu_Resume
  imports Pu_Complete
begin

text \<open>
  The request loop after a change from push to pull, which goes on in the middle of a segment, and
  what the sender makes of its request.
\<close>

section \<open>A transmission that ends has read every number\<close>

lemma send_number_blockMap:
  assumes "send_number C sid bn d p = Some (Inr q)"
  shows "pu_blockMap q = pu_blockMap p"
  using assms by (auto simp: send_number_def send_data_def on_session_go_def split: option.splits)

lemma SP_reads:
  assumes "run_n F C r k (SendSP sid pkt (of_nat d)) p = Some (Inr (None, q))"
    and "d \<le> e" and "breq_EndDataNumber pkt = of_nat e" and "e < 2 ^ 32"
  shows "\<exists>p'. pu_blockMap p' = pu_blockMap p \<and> send_number C sid (breq_BlockNumber pkt) (of_nat e) p' \<noteq> None"
  using assms(1,2)
proof (induction k arbitrary: d p)
  case (Suc k)
  have "(of_nat d :: u32) \<le> of_nat e"
    using Suc.prems(2) assms(4) by (simp add: word_le_nat_alt unat_of_nat_lt)
  then have run: "run_task F C r (SendSP sid pkt (of_nat d)) p
      = map_option (\<lambda>x. go_bind x (\<lambda>p. Inr (Some (SendSP sid pkt (of_nat d + 1)), p)))
          (send_number C sid (breq_BlockNumber pkt) (of_nat d) p)"
    by (simp add: sendBlockDataSP_def assms(3))
  obtain p1 where p1: "send_number C sid (breq_BlockNumber pkt) (of_nat d) p = Some (Inr p1)"
    "run_n F C r k (SendSP sid pkt (of_nat d + 1)) p1 = Some (Inr (None, q))"
    using Suc.prems(1) unfolding run_n.simps run
    by (auto split: option.splits sum.splits)
  show ?case
  proof (cases "d = e")
    case True
    then show ?thesis using p1(1) by blast
  next
    case False
    have "(of_nat d :: u32) + 1 = of_nat (Suc d)" by simp
    then have "run_n F C r k (SendSP sid pkt (of_nat (Suc d))) p1 = Some (Inr (None, q))"
      using p1(2) by (simp add: add.commute)
    from Suc.IH [OF this] False Suc.prems(2) show ?thesis using send_number_blockMap [OF p1(1)] by auto
  qed
qed simp

text \<open>A number that starts behind the end of the block is never there: the subtraction of the offset
  wraps around.\<close>

lemma read_behind_end:
  assumes h: "holds m b src S" and "length src < e * 1024" and "e * 1024 + 1024 < 2 ^ 32"
  shows "ReadBlockDataByDataNumber C (of_nat e) buf b = None"
proof -
  have bs: "unat (b_blockSize b) = length src" using h by (simp add: holds_def)
  have "(\<Sum>x \<in> S. length (chunk src x)) \<le> length src"
    using h unfolding holds_def by (intro sum_chunks_le) blast
  then have rb: "unat (b_receivedBytes b) \<le> length src"
    using h assms(2,3) by (simp add: holds_def unat_of_nat_lt del: of_nat_sum)
  have so: "unat (of_nat e * PAYLOAD :: u32) = e * 1024"
  proof -
    have "(of_nat e * PAYLOAD :: u32) = of_nat (e * 1024)" by (simp add: PAYLOAD_def)
    then show ?thesis using assms(3) by (simp add: unat_of_nat_lt del: of_nat_mult)
  qed
  have P: "unat PAYLOAD = 1024" by (simp add: PAYLOAD_def)
  have eo: "unat (of_nat e * PAYLOAD + PAYLOAD :: u32) = e * 1024 + 1024"
    using assms(3) by (subst unat_word_ariths(1)) (simp add: so P)
  have "unat (b_blockSize b - of_nat e * PAYLOAD) = 2 ^ 32 + length src - e * 1024"
    using assms(2,3) bs so by (simp add: unat_sub_if_size word_size word_le_nat_alt)
  then have "PAYLOAD \<le> b_blockSize b - of_nat e * PAYLOAD"
    using assms(3) by (simp add: word_le_nat_alt P)
  moreover have "b_receivedBytes b < of_nat e * PAYLOAD + PAYLOAD"
    using rb assms(2) by (simp add: word_less_nat_alt eo)
  ultimately show ?thesis by (simp add: ReadBlockDataByDataNumber_def Let_def)
qed

lemma SP_stuck:
  assumes "SafeMap_Get (pu_blockMap p) (breq_BlockNumber pkt) = Some b" and "holds m b src S"
    and "length src < e * 1024" and "e * 1024 + 1024 < 2 ^ 32"
    and "breq_EndDataNumber pkt = of_nat e" and "d \<le> e"
  shows "\<not> finishes F C r (SendSP sid pkt (of_nat d)) p q"
proof
  assume "finishes F C r (SendSP sid pkt (of_nat d)) p q"
  then obtain k where "run_n F C r k (SendSP sid pkt (of_nat d)) p = Some (Inr (None, q))"
    unfolding finishes_def by blast
  from SP_reads [OF this assms(6,5)] obtain p' where "pu_blockMap p' = pu_blockMap p"
    "send_number C sid (breq_BlockNumber pkt) (of_nat e) p' \<noteq> None" using assms(4) by auto
  then show False
    using assms(1) read_behind_end [OF assms(2-4)] by (simp add: send_number_def)
qed

section \<open>The resumed request\<close>

definition resumed_end :: "nat \<Rightarrow> nat \<Rightarrow> nat" where
  "resumed_end m off = Suc (off div (m * 1024)) * m - 1"

lemma resumed_numbers:
  assumes C: "conf_ok C m" and off: "off mod 1024 = 0" "off mod (m * 1024) \<noteq> 0" and small: "off + m * 1024 < 2 ^ 32"
  defines "o32 \<equiv> of_nat off :: u32"
  shows "o32 mod SEGMENT_SIZE C \<noteq> 0" and "o32 div PAYLOAD = of_nat (off div 1024)"
    and "o32 div PAYLOAD + ceil_div (SEGMENT_SIZE C - o32 mod SEGMENT_SIZE C) PAYLOAD - 1 = of_nat (resumed_end m off)"
proof -
  have m: "0 < m" and seg: "unat (SEGMENT_SIZE C) = m * 1024" using C by (simp_all add: conf_ok_def)
  have uo: "unat o32 = off" unfolding o32_def using small by (intro unat_of_nat_lt) simp
  have um: "unat (o32 mod SEGMENT_SIZE C) = off mod (m * 1024)" by (simp add: unat_mod uo seg)
  show "o32 mod SEGMENT_SIZE C \<noteq> 0" using um off(2) by (metis unat_0)
  have "unat (o32 div PAYLOAD) = off div 1024" by (simp add: unat_div uo PAYLOAD_def)
  then show start: "o32 div PAYLOAD = of_nat (off div 1024)" by (rule word_of_unat)
  let ?r = "off mod (m * 1024)" and ?j = "off div (m * 1024)"
  have r: "?r < m * 1024" using m by simp
  obtain a where a: "?r = a * 1024"
  proof -
    have "1024 dvd off" using off(1) by auto
    then have "1024 dvd ?r" by (simp add: dvd_mod_iff)
    then show ?thesis using that by (auto simp: dvd_def mult.commute)
  qed
  have am: "a < m" using r a by simp
  have us: "unat (SEGMENT_SIZE C - o32 mod SEGMENT_SIZE C) = (m - a) * 1024"
    using r by (subst unat_sub) (simp_all add: word_le_nat_alt um seg a diff_mult_distrib)
  have "off = ?j * (m * 1024) + a * 1024" using a by (metis div_mult_mod_eq)
  then have "off div 1024 = ?j * m + a" by simp
  then have st: "o32 div PAYLOAD = of_nat (?j * m + a)" using start by simp
  have "ceil_div (SEGMENT_SIZE C - o32 mod SEGMENT_SIZE C) PAYLOAD = of_nat (m - a)"
    by (simp add: ceil_div_def us PAYLOAD_def)
  then have "o32 div PAYLOAD + ceil_div (SEGMENT_SIZE C - o32 mod SEGMENT_SIZE C) PAYLOAD
      = of_nat (?j * m + a + (m - a))" unfolding st by (simp only: of_nat_add)
  also have "?j * m + a + (m - a) = Suc ?j * m" using am by simp
  finally show "o32 div PAYLOAD + ceil_div (SEGMENT_SIZE C - o32 mod SEGMENT_SIZE C) PAYLOAD - 1
      = of_nat (resumed_end m off)"
    using m by (simp add: resumed_end_def of_nat_diff)
qed

text \<open>
  C32: After a change from push to pull in the middle of the last segment, the request for the rest of it
  goes on to the end of a full segment, behind the end of the block (the size is not cut down as it
  is for a fresh segment); and the transmission a peer starts for such a request, although it has
  the whole block, never ends: it waits for bytes that do not exist.
\<close>

theorem resumed_request_stuck:
  assumes "conf_ok C m" and "off < length src" and "off mod 1024 = 0" and "off mod (m * 1024) \<noteq> 0"
    and "length src < resumed_end m off * 1024" and "length src + m * 1024 < 2 ^ 32"
    and "pu_semPull p = Some \<lparr>ch_cap = n, ch_buf = sid # rest\<rparr>" and "gm_get (pu_sessionMap p) sid = Some s"
    and "SafeMap_Get (pu_blockMap p') bn = Some b" and "holds_file m b src"
  shows "\<exists>q s' t' pkt. blockRequest C PULL_SESSION bn (of_nat (length src)) (of_nat off) idx p = Some (Inr (t', q)) \<and>
    gm_get (pu_sessionMap q) sid = Some s' \<and> ps_stream s' = ps_stream s @ BlockRequestPacket_Write pkt [] \<and>
    pkt = CreateBlockRequestPacket bn (of_nat (off div 1024)) (of_nat (resumed_end m off)) 0 0 \<and>
    (\<exists>t. SendBlockData peer pkt p' = go_task t p' \<and> (\<forall>z. \<not> finishes F C r t p' z))"
proof -
  let ?e = "resumed_end m off"
  let ?pkt = "CreateBlockRequestPacket bn (of_nat (off div 1024)) (of_nat ?e) 0 0"
  have m: "0 < m" using assms(1) by (simp add: conf_ok_def)
  have e: "Suc ?e = Suc (off div (m * 1024)) * m" using m by (simp add: resumed_end_def)
  have j: "off div (m * 1024) * (m * 1024) \<le> off" by simp
  have "Suc ?e * 1024 = off div (m * 1024) * (m * 1024) + m * 1024" unfolding e by (simp add: algebra_simps)
  moreover have "off div (m * 1024) * (m * 1024) + m * 1024 < 2 ^ 32" using j assms(2,6) by linarith
  ultimately have e32: "?e * 1024 + 1024 < 2 ^ 32" by simp
  have de: "off div 1024 \<le> ?e" using assms(2,5) by (simp add: div_le_mono less_imp_le div_less_iff_less_mult flip: less_Suc_eq_le)
  have small: "off + m * 1024 < 2 ^ 32" using assms(2,6) by simp
  note nums = resumed_numbers [OF assms(1,3,4) small]
  have "unat (of_nat off :: u32) < unat (of_nat (length src) :: u32)"
    using assms(2,6) by (simp add: unat_of_nat_lt)
  then have lt: "(of_nat off :: u32) < of_nat (length src)" by (simp add: word_less_nat_alt)
  let ?s = "on_stream (SendBlockRequestPacket bn (of_nat (off div 1024)) (of_nat ?e) 0 0)
              (s\<lparr>ps_blockStatus := PEER_DOWNLOADING\<rparr>)"
  have "\<exists>q t'. blockRequest C PULL_SESSION bn (of_nat (length src)) (of_nat off) idx p = Some (Inr (t', q)) \<and>
      gm_get (pu_sessionMap q) sid = Some ?s"
    using lt assms(7,8) nums
    by (simp add: blockRequest_def Let_def nil_recv_def chan_recv_def on_session_def PUSH_SESSION_def PULL_SESSION_def)
  moreover have "ps_stream ?s = ps_stream s @ BlockRequestPacket_Write ?pkt []"
    by (simp add: on_stream_request asked_def request_packet_def)
  moreover have "SendBlockData peer ?pkt p' = go_task (SendSP peer ?pkt (of_nat (off div 1024))) p'"
    by (simp add: SendBlockData_def CreateBlockRequestPacket_def)
  moreover have "\<not> finishes F C r (SendSP peer ?pkt (of_nat (off div 1024))) p' z" for z
    using SP_stuck [of p' ?pkt b m src "{..<num_chunks (length src)}" ?e "off div 1024" F C r peer z] e32 de assms(5,9,10)
    by (simp add: holds_file_def CreateBlockRequestPacket_def)
  ultimately show ?thesis by blast
qed

text \<open>Segments of four chunks, a block of 1500 bytes, the first chunk of which has been received.\<close>

definition wide_config :: Config where
  "wide_config = tiny_config\<lparr>SEGMENT_SIZE := 4096\<rparr>"

definition wide_block :: Block where
  "wide_block = projr (FillBlockFromFile wide_config (replicate 1500 7) (CreateBlockBuffer 1 0))"

lemma wide_ok: "conf_ok wide_config 4" and wide_file: "holds_file 4 wide_block (replicate 1500 7)"
proof -
  show C: "conf_ok wide_config 4" by (simp add: wide_config_def conf_ok_def)
  show "holds_file 4 wide_block (replicate 1500 7)"
    using FillBlockFromFile_ok [OF C, of "replicate 1500 7" 1] by (auto simp: wide_block_def)
qed

theorem resumed_request_stuck_witness:
  "\<exists>q s' t' pkt. blockRequest wide_config PULL_SESSION 1 (of_nat (length (replicate 1500 (7 :: byte)))) (of_nat 1024) 0
      (demo_recv\<lparr>pu_semPull := Some \<lparr>ch_cap = 1, ch_buf = [8]\<rparr>\<rparr>) = Some (Inr (t', q)) \<and>
    gm_get (pu_sessionMap q) 8 = Some s' \<and>
    ps_stream s' = ps_stream (demo_session PULL_SESSION 8) @ BlockRequestPacket_Write pkt [] \<and>
    pkt = CreateBlockRequestPacket 1 (of_nat (1024 div 1024)) (of_nat (resumed_end 4 1024)) 0 0 \<and>
    (\<exists>t. SendBlockData 7 pkt (demo_ctrl\<lparr>pu_blockMap := SafeMap_Set 1 wide_block NewSafeMap\<rparr>)
        = go_task t (demo_ctrl\<lparr>pu_blockMap := SafeMap_Set 1 wide_block NewSafeMap\<rparr>) \<and>
      (\<forall>z. \<not> finishes no_fec wide_config 0 t (demo_ctrl\<lparr>pu_blockMap := SafeMap_Set 1 wide_block NewSafeMap\<rparr>) z))"
  by (rule resumed_request_stuck [where b = wide_block and n = 1 and rest = "[]" and s = "demo_session PULL_SESSION 8"])
    (use wide_ok wide_file in \<open>simp_all add: resumed_end_def demo_recv_def gm_get_def\<close>)

end
