(* ===== verification/Pu_Wf.thy ===== *)
theory Pu_Wf
  imports Pu_Complete
begin

text \<open>
  What the type of a controller means beyond its record: sessions are entered once and under their own
  ID, no channel holds more than its capacity, and stop channels are numbered as they are made. Every
  operation of the controller keeps it. The handler of a request from several owners, whose steps are not locked
  against each other, follows in \<open>Pu_Stop\<close>.
\<close>

section \<open>Results of computations that may panic\<close>

definition ensures :: "('a \<Rightarrow> bool) \<Rightarrow> 'a go \<Rightarrow> bool" where
  "ensures P r \<longleftrightarrow> (\<forall>x. r = Inr x \<longrightarrow> P x)"

lemma ensures_simps [simp]: "ensures P (Inr x) = P x" "ensures P (Inl e)"
  by (simp_all add: ensures_def)

lemma ensuresD: "ensures P r \<Longrightarrow> r = Inr x \<Longrightarrow> P x"
  by simp

lemma ensures_bind: "ensures P m \<Longrightarrow> (\<And>x. P x \<Longrightarrow> ensures Q (f x)) \<Longrightarrow> ensures Q (go_bind m f)"
  by (cases m) auto

lemma ensures_bind_any: "(\<And>x. m = Inr x \<Longrightarrow> ensures Q (f x)) \<Longrightarrow> ensures Q (go_bind m f)"
  by (cases m) auto

lemma ensures_fold: "P s \<Longrightarrow> (\<And>x s. P s \<Longrightarrow> ensures P (f x s)) \<Longrightarrow> ensures P (go_fold f xs s)"
  unfolding ensures_def by (metis go_fold_invariant)

section \<open>Well-formed controllers\<close>

definition chan_wf :: "nat \<Rightarrow> 'a chan \<Rightarrow> bool" where
  "chan_wf n c \<longleftrightarrow> ch_cap c = n \<and> length (ch_buf c) \<le> n"

definition sem_wf :: "u32 chan option \<Rightarrow> bool" where
  "sem_wf sem \<longleftrightarrow> (case sem of None \<Rightarrow> True | Some c \<Rightarrow> length (ch_buf c) \<le> ch_cap c)"

definition sessions_wf :: "(u32, PuSession) gomap \<Rightarrow> bool" where
  "sessions_wf m \<longleftrightarrow> gm_ok m \<and> (\<forall>(k, s) \<in> set m. ps_sessionID s = k)"

definition stop_wf :: "PuCtrl \<Rightarrow> bool" where
  "stop_wf p \<longleftrightarrow> (\<forall>c \<in> set (pu_stopped p). c < pu_nextStop p) \<and>
     (\<forall>c. pu_chStopTransmission p = Some c \<longrightarrow> c < pu_nextStop p)"

definition ctrl_wf :: "PuCtrl \<Rightarrow> bool" where
  "ctrl_wf p \<longleftrightarrow> sessions_wf (pu_sessionMap p) \<and> sem_wf (pu_semPush p) \<and> sem_wf (pu_semPull p) \<and>
     chan_wf 1 (pu_chFinReceived p) \<and> chan_wf 1 (pu_chFinAckReceived p) \<and>
     (\<forall>l \<in> set (pu_AuditBroadcaster p). chan_wf 10 l) \<and> stop_wf p"

named_theorems wf \<open>operations keep a controller well-formed\<close>

lemma chan_send_wf: "chan_send x c = Some c' \<Longrightarrow> chan_wf n c \<Longrightarrow> chan_wf n c'"
  by (auto simp: chan_send_def chan_wf_def split: if_splits)

lemma chan_recv_wf: "chan_recv c = Some (x, c') \<Longrightarrow> chan_wf n c \<Longrightarrow> chan_wf n c'"
  by (auto simp: chan_recv_def chan_wf_def split: list.splits)

lemma nil_send_wf: "nil_send x sem = Some c \<Longrightarrow> sem_wf (Some c)"
  by (auto simp: nil_send_def chan_send_def sem_wf_def bind_eq_Some_conv split: if_splits)

lemma nil_recv_wf: "nil_recv sem = Some (x, c) \<Longrightarrow> sem_wf sem \<Longrightarrow> sem_wf (Some c)"
proof -
  assume r: "nil_recv sem = Some (x, c)" and w: "sem_wf sem"
  obtain a where a: "sem = Some a" "chan_recv a = Some (x, c)"
    using r by (auto simp: nil_recv_def bind_eq_Some_conv)
  then show ?thesis using w by (cases "ch_buf a") (auto simp: chan_recv_def sem_wf_def)
qed

lemma ctrl_wf_updates [simp]:
  "ctrl_wf (p\<lparr>pu_tasks := ts\<rparr>) = ctrl_wf p" "ctrl_wf (p\<lparr>pu_blockMap := bm\<rparr>) = ctrl_wf p"
  "ctrl_wf (p\<lparr>pu_nodeInfo := ns\<rparr>) = ctrl_wf p" "ctrl_wf (p\<lparr>pu_commands := cs\<rparr>) = ctrl_wf p"
  "ctrl_wf (p\<lparr>pu_childAddr := as\<rparr>) = ctrl_wf p" "ctrl_wf (p\<lparr>pu_numSession := n\<rparr>) = ctrl_wf p"
  "ctrl_wf (p\<lparr>pu_numPullSession := k\<rparr>) = ctrl_wf p" "ctrl_wf (p\<lparr>pu_listening := b\<rparr>) = ctrl_wf p"
  "ctrl_wf (p\<lparr>pu_peerModeStatus := st\<rparr>) = ctrl_wf p" "ctrl_wf (p\<lparr>pu_expectedBlockNumber := e\<rparr>) = ctrl_wf p"
  "ctrl_wf (p\<lparr>pu_AuditMsgAckChan := acks\<rparr>) = ctrl_wf p"
  by (simp_all add: ctrl_wf_def stop_wf_def)

lemma ctrl_wf_sem [intro]:
  "ctrl_wf p \<Longrightarrow> sem_wf c \<Longrightarrow> ctrl_wf (p\<lparr>pu_semPush := c\<rparr>)"
  "ctrl_wf p \<Longrightarrow> sem_wf c \<Longrightarrow> ctrl_wf (p\<lparr>pu_semPull := c\<rparr>)"
  by (simp_all add: ctrl_wf_def stop_wf_def)

lemma ctrl_wf_sessions: "ctrl_wf p \<Longrightarrow> sessions_wf m \<Longrightarrow> ctrl_wf (p\<lparr>pu_sessionMap := m\<rparr>)"
  by (simp add: ctrl_wf_def stop_wf_def)

lemma sessions_wf_get: "sessions_wf m \<Longrightarrow> gm_get m k = Some s \<Longrightarrow> ps_sessionID s = k"
  by (auto simp: sessions_wf_def gm_get_def dest: map_of_SomeD)

lemma sessions_wf_put: "sessions_wf m \<Longrightarrow> ps_sessionID s = k \<Longrightarrow> sessions_wf (gm_put m k s)"
proof -
  assume m: "sessions_wf m" and s: "ps_sessionID s = k"
  have ok: "gm_ok (gm_put m k s)" using m by (intro go_map.inv_put) (simp add: sessions_wf_def)
  have "ps_sessionID v = i" if "(i, v) \<in> set (gm_put m k s)" for i v
  proof -
    have "gm_get (gm_put m k s) i = Some v" using that ok by (simp add: gm_get_def gm_ok_def)
    then show ?thesis using s sessions_wf_get [OF m, of i v] by (auto split: if_splits)
  qed
  then show ?thesis using ok by (auto simp: sessions_wf_def)
qed

lemma sessions_wf_del: "sessions_wf m \<Longrightarrow> sessions_wf (gm_del m k)"
  using go_map.inv_del [of m k] by (auto simp: sessions_wf_def gm_del_def AList.delete_eq)

section \<open>Sessions\<close>

lemma on_session_wf [wf]:
  assumes "ctrl_wf p" and "\<And>s. ps_sessionID (f s) = ps_sessionID s"
  shows "ensures ctrl_wf (on_session sid f p)"
proof (cases "gm_get (pu_sessionMap p) sid")
  case (Some s)
  have "sessions_wf (pu_sessionMap p)" using assms(1) by (simp add: ctrl_wf_def)
  then have "ctrl_wf (p\<lparr>pu_sessionMap := gm_put (pu_sessionMap p) sid (f s)\<rparr>)"
    using assms sessions_wf_get Some by (intro ctrl_wf_sessions sessions_wf_put) auto
  then show ?thesis using Some by (simp add: on_session_def)
qed (simp add: on_session_def)

lemma on_session_Inr_wf:
  "on_session sid f p = Inr q \<Longrightarrow> ctrl_wf p \<Longrightarrow> (\<And>s. ps_sessionID (f s) = ps_sessionID s) \<Longrightarrow> ctrl_wf q"
  using on_session_wf unfolding ensures_def by blast

lemma on_session_go_wf [wf]:
  assumes "ctrl_wf p" and "\<And>s s'. f s = Inr s' \<Longrightarrow> ps_sessionID s' = ps_sessionID s"
  shows "ensures ctrl_wf (on_session_go sid f p)"
proof (cases "gm_get (pu_sessionMap p) sid")
  case (Some s)
  have "sessions_wf (pu_sessionMap p)" using assms(1) by (simp add: ctrl_wf_def)
  then have "ctrl_wf (p\<lparr>pu_sessionMap := gm_put (pu_sessionMap p) sid s'\<rparr>)" if "f s = Inr s'" for s'
    using assms that sessions_wf_get Some by (intro ctrl_wf_sessions sessions_wf_put) auto
  then show ?thesis using Some by (auto simp: on_session_go_def intro: ensures_bind_any)
qed (simp add: on_session_go_def)

lemma on_stream_id [simp]: "ps_sessionID (on_stream f s) = ps_sessionID s"
  by (simp add: on_stream_def)

section \<open>Handlers and goroutines\<close>

lemma SendBlockInfo_wf [wf]: "ctrl_wf p \<Longrightarrow> ensures ctrl_wf (SendBlockInfo sid bn p)"
  unfolding SendBlockInfo_on_session by (rule on_session_wf) simp_all

lemma AddSegment_wf [simp]: "ctrl_wf (AddSegment C bn idx s e sz seed l p) = ctrl_wf p"
  by (simp add: AddSegment_def split: option.split)

lemma go_task_wf [simp]: "ctrl_wf (go_task t p) = ctrl_wf p"
  by (simp add: go_task_def)

text \<open>The result of an iteration that does not wait.\<close>

definition iterates_wf :: "(task option \<times> PuCtrl) go option \<Rightarrow> bool" where
  "iterates_wf r \<longleftrightarrow> (\<forall>x. r = Some x \<longrightarrow> ensures (\<lambda>(_, q). ctrl_wf q) x)"

lemma iterates_wf_simps [simp]:
  "iterates_wf None" "iterates_wf (Some x) = ensures (\<lambda>(_, q). ctrl_wf q) x"
  by (simp_all add: iterates_wf_def)

lemma iterates_wf_map:
  "(\<And>x. r = Some x \<Longrightarrow> ensures (\<lambda>(_, q). ctrl_wf q) (f x)) \<Longrightarrow> iterates_wf (map_option f r)"
  by (cases r) auto

lemma with_sem_wf:
  assumes "ctrl_wf p" and "nil_recv (sem_of t p) = Some (x, c)"
  shows "ctrl_wf (with_sem t c p)"
proof -
  have "sem_wf (sem_of t p)" using assms(1) by (simp add: sem_of_def ctrl_wf_def)
  then show ?thesis using assms(1) nil_recv_wf [OF assms(2)] by (auto simp: with_sem_def)
qed

lemma blockRequest_wf [wf]:
  assumes "ctrl_wf p"
  shows "iterates_wf (blockRequest C t bn bs off idx p)"
proof (cases "nil_recv (sem_of t p)")
  case None
  then show ?thesis using assms unfolding blockRequest_def sem_of_def [symmetric] by simp
next
  case (Some r)
  obtain selected c where r: "r = (selected, c)" by (cases r)
  note w = with_sem_wf [OF assms Some [unfolded r]]
  show ?thesis
    unfolding blockRequest_def Let_def sem_of_def [symmetric] with_sem_def [symmetric] Some r
    using assms w
    by (auto intro!: ensures_bind [where P = ctrl_wf] ensures_fold wf)
qed

lemma request_all_wf [wf]: "ctrl_wf p \<Longrightarrow> ensures ctrl_wf (request_all bn s e mp seed p)"
  unfolding request_all_def by (auto intro!: ensures_fold wf)

lemma blockRequestMP_wf [wf]:
  assumes "ctrl_wf p"
  shows "iterates_wf (blockRequestMP C rand t bn bs off idx n p)"
proof (cases "nil_recv (pu_semPull p)")
  case None
  then show ?thesis using assms by (simp add: blockRequestMP_def)
next
  case (Some r)
  obtain x c where r: "r = (x, c)" by (cases r)
  have "sem_wf (pu_semPull p)" using assms by (simp add: ctrl_wf_def)
  then have "ctrl_wf (p\<lparr>pu_semPull := Some c\<rparr>)" using assms nil_recv_wf [OF Some [unfolded r]] by auto
  then show ?thesis
    using assms unfolding blockRequestMP_def Let_def Some r
    by (auto intro!: ensures_bind [where P = ctrl_wf] wf)
qed

lemma send_data_wf [wf]: "ctrl_wf p \<Longrightarrow> ensures ctrl_wf (send_data sid bn d t data p)"
  unfolding send_data_def by (rule on_session_go_wf) auto

lemma send_data_Inr: "send_data sid bn d t data p = Inr q \<Longrightarrow> ctrl_wf p \<Longrightarrow> ctrl_wf q"
  using send_data_wf unfolding ensures_def by blast

lemma send_number_wf: "send_number C sid bn d p = Some r \<Longrightarrow> ctrl_wf p \<Longrightarrow> ensures ctrl_wf r"
  by (auto simp: send_number_def split: option.splits intro!: ensures_bind_any wf)

lemma send_tasks_wf [wf]:
  assumes "ctrl_wf p"
  shows "iterates_wf (sendBlockDataSP C sid pkt d p)" and "iterates_wf (sendBlockDataMP C sid pkt i d p)"
    and "iterates_wf (encodeFEC F C sid pkt stop p)"
    and "ensures (\<lambda>(_, q). ctrl_wf q) (sendBlockDataMPFEC C sid pkt i s e stop d p)"
proof -
  show "iterates_wf (sendBlockDataSP C sid pkt d p)"
    using assms by (auto simp: sendBlockDataSP_def intro!: iterates_wf_map ensures_bind [where P = ctrl_wf] send_number_wf)
  show "iterates_wf (sendBlockDataMP C sid pkt i d p)"
    using assms by (auto simp: sendBlockDataMP_def Let_def split: prod.split
        intro!: iterates_wf_map ensures_bind [where P = ctrl_wf] send_number_wf)
  show "iterates_wf (encodeFEC F C sid pkt stop p)"
    using assms by (auto simp: encodeFEC_def Let_def split: prod.split option.split
        intro!: iterates_wf_map ensures_bind_any)
  show "ensures (\<lambda>(_, q). ctrl_wf q) (sendBlockDataMPFEC C sid pkt i s e stop d p)"
    using assms by (auto simp: sendBlockDataMPFEC_def Let_def split: prod.split option.split
        intro!: ensures_bind [where P = ctrl_wf] ensures_bind_any dest: send_data_Inr)
qed

lemma endSegment_wf [wf]:
  assumes "ctrl_wf p"
  shows "iterates_wf (endSegment sid p)"
proof -
  have "ensures (\<lambda>(_, q). ctrl_wf q) (go_bind (on_session sid (\<lambda>s. s\<lparr>ps_blockReceiving := False\<rparr>) q) (\<lambda>p. Inr (None, p)))"
    if "ctrl_wf q" for q
    using that by (auto intro!: ensures_bind [where P = ctrl_wf] wf)
  moreover have "ctrl_wf (p\<lparr>pu_semPush := Some c\<rparr>)" "ctrl_wf (p\<lparr>pu_semPull := Some c\<rparr>)" if "nil_send x sem = Some c" for x sem c
    using assms nil_send_wf [OF that] by auto
  ultimately show ?thesis
    by (auto simp: endSegment_def split: option.split intro!: iterates_wf_map)
qed

lemma run_task_wf [wf]: "ctrl_wf p \<Longrightarrow> iterates_wf (run_task F C r t p)"
  by (cases t) (auto intro: wf)

text \<open>The pull semaphore gets the IDs of the owners, for which it has room.\<close>

definition owner_entry :: "(u32 \<times> PuSession) \<Rightarrow> bool" where
  "owner_entry = (\<lambda>(_, s). ps_sessionType s = PULL_SESSION \<and> ps_blockStatus s = PEER_HAS_BLOCK)"

lemma count_owners: "snd (count_infos p) = of_nat (length (filter owner_entry (pu_sessionMap p)))"
proof -
  let ?f = "\<lambda>(_, s) (received :: u16, owners :: u32).
         if ps_sessionType s = PULL_SESSION then
           if ps_blockStatus s = PEER_HAS_BLOCK then (received + 1, owners + 1)
           else if ps_blockStatus s = PEER_HAS_NO_BLOCK then (received + 1, owners)
           else (received, owners)
         else (received, owners)"
  have "snd (fold ?f m (a, b)) = b + of_nat (length (filter owner_entry m))" for m :: "(u32 \<times> PuSession) list" and a b
  proof (induction m arbitrary: a b)
    case (Cons x m)
    then show ?case by (cases x) (simp add: owner_entry_def)
  qed simp
  from this [of _ 0 0] show ?thesis unfolding count_infos_def by simp
qed

lemma few_keys: "distinct (xs :: u32 list) \<Longrightarrow> length xs \<le> 2 ^ 32"
proof -
  assume "distinct xs"
  then have "length xs = card (set xs)" by (simp add: distinct_card)
  also have "\<dots> \<le> card (UNIV :: u32 set)" by (intro card_mono) simp_all
  finally show ?thesis by (simp add: card_word)
qed

lemma owners_fit:
  assumes "gm_ok (pu_sessionMap p)" and "0 < snd (count_infos p)"
  shows "length (filter owner_entry (pu_sessionMap p)) \<le> unat (snd (count_infos p))"
proof -
  let ?n = "length (filter owner_entry (pu_sessionMap p))"
  have "distinct (map fst (filter owner_entry (pu_sessionMap p)))"
    using assms(1) by (simp add: gm_ok_def distinct_map_filterI)
  from few_keys [OF this] have "?n \<le> 2 ^ 32" by simp
  moreover have "?n \<noteq> 2 ^ 32" using assms(2) unfolding count_owners by auto
  ultimately show ?thesis unfolding count_owners by (simp add: unat_of_nat_lt)
qed

lemma SendBlockRequest_wf:
  assumes "ctrl_wf p"
  shows "ctrl_wf (SendBlockRequest C t sid pkt p)"
proof -
  define p' where "p' = (if pu_expectedBlockNumber p < binfo_BlockNumber pkt
            then p\<lparr>pu_expectedBlockNumber := binfo_BlockNumber pkt\<rparr> else p)"
  have p: "ctrl_wf p'" using assms by (simp add: p'_def)
  have ok: "gm_ok (pu_sessionMap p')" using p by (simp add: ctrl_wf_def sessions_wf_def)
  obtain r n where c: "count_infos p' = (r, n)" by (cases "count_infos p'")
  have fit: "length (filter owner_entry (pu_sessionMap p')) \<le> unat n" if "0 < n"
    using owners_fit [OF ok] that by (simp add: c)
  have owner: "(\<lambda>(_, s). ps_sessionType s = PULL_SESSION \<and> ps_blockStatus s = PEER_HAS_BLOCK) = owner_entry"
    by (simp add: owner_entry_def)
  have sem: "ctrl_wf q \<Longrightarrow> 0 < n \<Longrightarrow> ctrl_wf (q\<lparr>pu_semPull := Some \<lparr>ch_cap = unat n,
       ch_buf = map fst (filter owner_entry (pu_sessionMap p'))\<rparr>\<rparr>)"
    "ctrl_wf q \<Longrightarrow> ctrl_wf (q\<lparr>pu_semPull := Some \<lparr>ch_cap = 1, ch_buf = [x]\<rparr>\<rparr>)"
    "ctrl_wf q \<Longrightarrow> ctrl_wf (q\<lparr>pu_semPush := Some \<lparr>ch_cap = 1, ch_buf = [x]\<rparr>\<rparr>)" for q x
    using fit by (auto simp: sem_wf_def)
  show ?thesis
  proof (cases "t = PUSH_SESSION")
    case True
    then show ?thesis
      unfolding SendBlockRequest_def Let_def p'_def [symmetric]
      using p by (simp add: sem PUSH_SESSION_def PULL_SESSION_def del: One_nat_def)
  next
    case False
    show ?thesis
    proof (cases "t = PULL_SESSION \<and> 0 < n \<and> pu_numPullSession p' = r")
      case True
      then show ?thesis
        unfolding SendBlockRequest_def Let_def p'_def [symmetric]
        using p \<open>t \<noteq> PUSH_SESSION\<close> by (simp add: c owner sem del: One_nat_def)
    next
      case neg: False
      then show ?thesis
        unfolding SendBlockRequest_def Let_def p'_def [symmetric]
        using p False by (auto simp: c split: prod.split)
    qed
  qed
qed

lemma stop_existing_wf: "ctrl_wf p \<Longrightarrow> ctrl_wf (stop_existing p)"
  by (auto simp: ctrl_wf_def stop_wf_def stop_existing_def split: option.split)

lemma SendBlockData_wf: "ctrl_wf p \<Longrightarrow> ctrl_wf (SendBlockData sid pkt p)"
  using stop_existing_wf [of p] by (simp add: SendBlockData_def Let_def split: prod.split)

lemma ReceiveBlockData_wf [wf]: "ctrl_wf p \<Longrightarrow> ensures ctrl_wf (ReceiveBlockData F C sid pkt p)"
  by (auto simp: ReceiveBlockData_def Let_def split: option.split
      intro!: ensures_bind_any elim!: on_session_Inr_wf)

lemma block_handlers_wf [wf]:
  assumes "ctrl_wf p"
  shows "ensures ctrl_wf (handleBlockFindPacket sid bf p)" and "ensures ctrl_wf (handleBlockInfoPacket C sid bi p)"
    and "ctrl_wf (handleBlockRequestPacket sid br p)" and "ensures ctrl_wf (handleBlockDataPacket F C sid bd p)"
proof -
  show "ensures ctrl_wf (handleBlockFindPacket sid bf p)"
    unfolding handleBlockFindPacket_def using assms by (rule SendBlockInfo_wf)
  show "ensures ctrl_wf (handleBlockInfoPacket C sid bi p)"
    unfolding handleBlockInfoPacket_def using assms
    by (intro ensures_bind [where P = ctrl_wf] ensures_bind_any) (auto intro: wf SendBlockRequest_wf)
  show "ctrl_wf (handleBlockRequestPacket sid br p)"
    unfolding handleBlockRequestPacket_def using assms by (rule SendBlockData_wf)
  show "ensures ctrl_wf (handleBlockDataPacket F C sid bd p)"
    unfolding handleBlockDataPacket_def using assms
    by (auto intro!: ensures_bind_any wf split: option.split)
qed

section \<open>The tree, the application, closing\<close>

lemma run_cmd_wf [simp]: "ctrl_wf (run_cmd c p) = ctrl_wf p"
  by (simp add: run_cmd_def)

lemma fold_run_cmd_wf [simp]: "ctrl_wf (fold run_cmd cs p) = ctrl_wf p"
  by (induction cs arbitrary: p) simp_all

lemma EnablePacketForwarding_wf [wf]: "ctrl_wf p \<Longrightarrow> ensures ctrl_wf (EnablePacketForwarding run C i b p)"
  unfolding EnablePacketForwarding_def Let_def
  by (intro ensures_bind_any ensures_fold) auto

lemma RunEnhancedQuic_wf [wf]: "ctrl_wf p \<Longrightarrow> ensures ctrl_wf (RunEnhancedQuic C d r t i p)"
  unfolding RunEnhancedQuic_def by (intro ensures_bind_any) simp

lemma Listen_wf [wf]: "ctrl_wf p \<Longrightarrow> ensures ctrl_wf (Listen run C p)"
  unfolding Listen_def Let_def by (auto intro!: ensures_bind [where P = ctrl_wf] wf)

lemma new_session_wf:
  assumes "CreatePuSession C t sid owner p = (s, q)" and "ctrl_wf p" and "ps_sessionID s' = ps_sessionID s"
  shows "ctrl_wf (q\<lparr>pu_sessionMap := gm_put (pu_sessionMap q) sid s'\<rparr>)"
proof -
  have s: "ps_sessionID s = sid" "q = p\<lparr>pu_numSession := pu_numSession p + 1\<rparr>"
    using assms(1) by (auto simp: CreatePuSession_def)
  have "sessions_wf (pu_sessionMap p)" using assms(2) by (simp add: ctrl_wf_def)
  then show ?thesis unfolding s(2) using assms(2,3) s(1) by (intro ctrl_wf_sessions sessions_wf_put) simp_all
qed

lemma Connector_wf: "Connector C conn t p = (s, q) \<Longrightarrow> ctrl_wf p \<Longrightarrow> ctrl_wf q"
  by (auto simp: Connector_def Let_def split: option.splits prod.splits intro: new_session_wf)

lemma Accept_wf: "ctrl_wf p \<Longrightarrow> ctrl_wf (Accept C stream p)"
  by (auto simp: Accept_def Let_def split: prod.splits intro: new_session_wf)

lemma connected_wf:
  "ctrl_wf p \<Longrightarrow> ensures ctrl_wf (case Connector C conn t p of (None, p) \<Rightarrow> Inl NilDeref | (Some s, p) \<Rightarrow> Inr p)"
  by (cases "Connector C conn t p") (auto split: option.split dest: Connector_wf)

lemma connect_one_wf [wf]:
  assumes "ctrl_wf p"
  shows "ensures ctrl_wf (connect_one run dial C t addr p)"
proof -
  have "ensures ctrl_wf (if EQUIC_ENABLE C \<and> t = PUSH_SESSION
      then go_bind (EnablePacketForwarding run C i False q) (RunEnhancedQuic C d False t j) else Inr q)"
    if "ctrl_wf q" for q i j d
    using that by (auto intro!: ensures_bind [where P = ctrl_wf] wf)
  then show ?thesis
    unfolding connect_one_def Let_def using assms connected_wf
    by (intro ensures_bind_any ensures_bind [where P = ctrl_wf and m = "if b then m else m'" for b m m']) simp_all
qed

lemma Connect_wf [wf]: "ctrl_wf p \<Longrightarrow> ensures ctrl_wf (Connect run dial C ns t p)"
  unfolding Connect_def Let_def by (intro ensures_bind_any ensures_fold) (auto intro: wf)

lemma RegisterBlock_wf [wf]: "ctrl_wf p \<Longrightarrow> ensures ctrl_wf (RegisterBlock C file bn p)"
  unfolding RegisterBlock_def by (intro ensures_bind_any) simp

lemma Send_wf [wf]: "ctrl_wf p \<Longrightarrow> ensures ctrl_wf (Send C file bn p)"
  unfolding Send_def by (intro ensures_bind [where P = ctrl_wf] ensures_fold) (auto intro: wf)

lemma audit_sends_wf [wf]:
  assumes "ctrl_wf p"
  shows "ensures (\<lambda>(_, q). ctrl_wf q) (SendAuditMsg data p)"
    and "ensures (\<lambda>(_, q). ctrl_wf q) (SendAuditAckMsg data p)"
  unfolding SendAuditMsg_def SendAuditAckMsg_def SendAuditInfo_def SendAuditAckInfo_def
  by (auto intro!: ensures_bind [where P = ctrl_wf] ensures_fold wf assms)

lemma Receive_wf: "Receive buf p = Some (Inr (x, q)) \<Longrightarrow> ctrl_wf p \<Longrightarrow> ctrl_wf q"
  by (auto simp: Receive_def split: option.splits if_splits)

lemma FindBlock_wf [wf]: "ctrl_wf p \<Longrightarrow> ensures ctrl_wf (FindBlock bn p)"
  unfolding FindBlock_def SendBlockFind_def Let_def
  by (intro ensures_bind [where P = ctrl_wf] ensures_fold) (auto intro!: wf)

lemma PushToPull_wf [wf]: "ctrl_wf p \<Longrightarrow> ensures ctrl_wf (PushToPull run dial C p)"
  unfolding PushToPull_def
  by (intro ensures_bind_any ensures_bind [where P = ctrl_wf and m = "Connect a b c d e f" for a b c d e f])
    (auto intro: wf)

lemma closing_sessions_wf:
  assumes "ctrl_wf p"
  shows "ctrl_wf (CloseAllSessions p)" and "ctrl_wf (DisconnectFromChildren p)"
proof -
  show "ctrl_wf (CloseAllSessions p)"
    unfolding CloseAllSessions_def using assms by (rule ctrl_wf_sessions) (simp add: sessions_wf_def gm_ok_def)
  let ?f = "\<lambda>sid p. if pu_childAddr p = [] then p else p\<lparr>pu_sessionMap := gm_del (pu_sessionMap p) sid\<rparr>"
  have "ctrl_wf (fold ?f xs p)" if "ctrl_wf p" for xs p
    using that
  proof (induction xs arbitrary: p)
    case (Cons x xs)
    have "ctrl_wf (?f x p)"
      using Cons.prems ctrl_wf_sessions sessions_wf_del by (auto simp: ctrl_wf_def [of p])
    then show ?case using Cons.IH by simp
  qed simp
  then show "ctrl_wf (DisconnectFromChildren p)" unfolding DisconnectFromChildren_def using assms .
qed

lemma listeners_wf:
  "ctrl_wf p \<Longrightarrow> (\<forall>l \<in> set ls. chan_wf 10 l) \<Longrightarrow> ctrl_wf (p\<lparr>pu_AuditBroadcaster := ls\<rparr>)"
  by (simp add: ctrl_wf_def stop_wf_def)

lemma Register_wf: "ctrl_wf p \<Longrightarrow> ctrl_wf (snd (Register p))"
  unfolding Register_def snd_conv by (rule listeners_wf) (auto simp: ctrl_wf_def chan_wf_def make_chan_def)

lemma ReceiveAuditMsg_wf: "ctrl_wf p \<Longrightarrow> ctrl_wf (ReceiveAuditMsg pkt p)"
  unfolding ReceiveAuditMsg_def Broadcast_def
  by (rule listeners_wf) (auto simp: ctrl_wf_def split: option.split dest: chan_send_wf)

lemma fin_wf:
  assumes "ctrl_wf p" and "chan_wf 1 c"
  shows "ctrl_wf (p\<lparr>pu_chFinReceived := c\<rparr>)" and "ctrl_wf (p\<lparr>pu_chFinAckReceived := c\<rparr>)"
  using assms by (simp_all add: ctrl_wf_def stop_wf_def)

lemma fin_chans: "ctrl_wf p \<Longrightarrow> chan_wf 1 (pu_chFinReceived p) \<and> chan_wf 1 (pu_chFinAckReceived p)"
  by (simp add: ctrl_wf_def)

lemma fin_handlers_wf:
  "handleFinPacket fin p = Some q \<Longrightarrow> ctrl_wf p \<Longrightarrow> ctrl_wf q"
  "handleFinAckPacket ack p = Some q \<Longrightarrow> ctrl_wf p \<Longrightarrow> ctrl_wf q"
  unfolding handleFinPacket_def handleFinAckPacket_def
  using fin_chans [of p] chan_send_wf by (auto intro!: fin_wf)

lemma send_fins_wf [wf]:
  assumes "ctrl_wf p"
  shows "ensures ctrl_wf (send_fin bn sids p)" and "ensures ctrl_wf (send_fin_ack bn sids p)"
  unfolding send_fin_def send_fin_ack_def by (auto intro!: ensures_fold wf assms)

lemma Close_begin_wf: "ctrl_wf p \<Longrightarrow> ensures (\<lambda>(_, q). ctrl_wf q) (Close_begin bn p)"
  unfolding Close_begin_def Let_def by (auto intro!: ensures_bind [where P = ctrl_wf] wf)

lemma Close_step_wf:
  assumes "ctrl_wf p" and "Close_step st p = Some r"
  shows "ensures (\<lambda>(_, q). ctrl_wf q) r"
proof -
  have fins: "ctrl_wf (p\<lparr>pu_chFinReceived := c\<rparr>)" if "chan_recv (pu_chFinReceived p) = Some (x, c)" for x c
    using fin_wf(1) [OF assms(1) chan_recv_wf [OF that]] fin_chans [OF assms(1)] by blast
  have acks: "ctrl_wf (p\<lparr>pu_chFinAckReceived := c\<rparr>)" if "chan_recv (pu_chFinAckReceived p) = Some (x, c)" for x c
    using fin_wf(2) [OF assms(1) chan_recv_wf [OF that]] fin_chans [OF assms(1)] by blast
  have acked: "ensures (\<lambda>(_, q). ctrl_wf q) (go_bind (send_fin_ack b sids q) (\<lambda>p. Inr (Closed, p)))"
    if "ctrl_wf q" for b sids q using that by (auto intro!: ensures_bind [where P = ctrl_wf] wf)
  have sent: "ensures (\<lambda>(_, q). ctrl_wf q) (go_bind (send_fin b sids q) (\<lambda>p. Inr (AwaitAcks n par, p)))"
    if "ctrl_wf q" for b sids q n par using that by (auto intro!: ensures_bind [where P = ctrl_wf] wf)
  show ?thesis
  proof (cases "(st, p)" rule: Close_step.cases)
    case (1 n q)
    then show ?thesis using assms(2) fins acked sent by (auto simp: Let_def split: option.splits)
  next
    case (2 n par q)
    then show ?thesis using assms(2) acks by (auto split: option.splits)
  next
    case (3 par q)
    then show ?thesis using assms acked by (auto split: option.splits)
  next
    case (4 q)
    then show ?thesis using assms(2) by simp
  qed
qed

section \<open>Every operation\<close>

text \<open>A request that is served by several peers, for which the running transmission is stopped.\<close>

definition stops_transmission :: "incoming \<Rightarrow> bool" where
  "stops_transmission inc = (case inc of InBlockRequest pkt \<Rightarrow> breq_MpInfo pkt \<noteq> 0 | _ \<Rightarrow> False)"

text \<open>The operations of a controller, each run to its end: a packet of another kind is handled, a goroutine goes on, a peer connects, the
  application calls, a listener takes a message, or \<open>Close\<close> is entered or goes on.\<close>

inductive ctrl_step ::
    "(string \<Rightarrow> ip option) \<Rightarrow> (string \<Rightarrow> bool) \<Rightarrow> (string \<Rightarrow> string \<Rightarrow> u32 option) \<Rightarrow> fec_lib \<Rightarrow> Config \<Rightarrow>
     PuCtrl \<Rightarrow> PuCtrl \<Rightarrow> bool"
  for v6 run dial F C where
  handles: "\<not> stops_transmission inc \<Longrightarrow> handle v6 run dial F C ready sid inc p = Some (Inr q) \<Longrightarrow>
    ctrl_step v6 run dial F C p q"
| iterates: "pu_tasks p = ts @ t # us \<Longrightarrow> run_task F C r t (p\<lparr>pu_tasks := ts @ us\<rparr>) = Some (Inr (t', q)) \<Longrightarrow>
    ctrl_step v6 run dial F C p (resume t' q)"
| accepts: "ctrl_step v6 run dial F C p (Accept C stream p)"
| listens: "Listen run C p = Inr q \<Longrightarrow> ctrl_step v6 run dial F C p q"
| connects: "Connect run dial C ns t p = Inr q \<Longrightarrow> ctrl_step v6 run dial F C p q"
| registers_block: "RegisterBlock C file bn p = Inr q \<Longrightarrow> ctrl_step v6 run dial F C p q"
| sends: "Send C file bn p = Inr q \<Longrightarrow> ctrl_step v6 run dial F C p q"
| sends_audit: "SendAuditMsg data p = Inr (b, q) \<Longrightarrow> ctrl_step v6 run dial F C p q"
| sends_audit_ack: "SendAuditAckMsg data p = Inr (b, q) \<Longrightarrow> ctrl_step v6 run dial F C p q"
| receives: "Receive buf p = Some (Inr (x, q)) \<Longrightarrow> ctrl_step v6 run dial F C p q"
| finds_block: "FindBlock bn p = Inr q \<Longrightarrow> ctrl_step v6 run dial F C p q"
| sets_nodes: "ctrl_step v6 run dial F C p (SetNodeInfo ns p)"
| pulls: "PushToPull run dial C p = Inr q \<Longrightarrow> ctrl_step v6 run dial F C p q"
| closes_all: "ctrl_step v6 run dial F C p (CloseAllSessions p)"
| disconnects: "ctrl_step v6 run dial F C p (DisconnectFromChildren p)"
| registers: "ctrl_step v6 run dial F C p (snd (Register p))"
| listener_takes: "pu_AuditBroadcaster p = ls @ l # ls' \<Longrightarrow> chan_recv l = Some (x, l') \<Longrightarrow>
    ctrl_step v6 run dial F C p (p\<lparr>pu_AuditBroadcaster := ls @ l' # ls'\<rparr>)"
| closing: "Close_begin bn p = Inr (st, q) \<Longrightarrow> ctrl_step v6 run dial F C p q"
| closes: "Close_step st p = Some (Inr (st', q)) \<Longrightarrow> ctrl_step v6 run dial F C p q"

lemma handle_wf:
  assumes "handle v6 run dial F C ready sid inc p = Some (Inr q)" and "ctrl_wf p"
  shows "ctrl_wf q"
proof (cases inc)
  case (InNodeInfo pkt)
  have "ensures ctrl_wf (handleNodeInfoPacket run dial C pkt p)"
    unfolding handleNodeInfoPacket_def using assms(2) by (intro wf) (simp add: SetNodeInfo_def)
  then show ?thesis using InNodeInfo assms(1) by (simp add: ensures_def)
next
  case (InPathInfo pkt)
  have "ensures ctrl_wf (handlePathInfoPacket v6 C sid pkt p)"
    unfolding handlePathInfoPacket_def using assms(2) by (rule on_session_go_wf) (auto split: if_splits)
  then show ?thesis using InPathInfo assms(1) by (simp add: ensures_def)
next
  case (InAuditAck pkt)
  then show ?thesis using assms by (auto simp: ReceiveAuditMsgAck_def split: if_splits)
next
  case (InAudit pkt)
  then show ?thesis using assms ReceiveAuditMsg_wf by (auto simp: handleAuditMsgPacket_def)
next
  case (InBlockInfo pkt)
  then show ?thesis using assms block_handlers_wf(2) unfolding ensures_def by simp
next
  case (InBlockFind pkt)
  then show ?thesis using assms block_handlers_wf(1) unfolding ensures_def by simp
next
  case (InBlockData pkt)
  then show ?thesis using assms block_handlers_wf(4) unfolding ensures_def by simp
next
  case (InBlockRequest pkt)
  then show ?thesis using assms by (auto intro: block_handlers_wf(3))
qed (use assms fin_handlers_wf in auto)

lemmas operations_wf = Listen_wf [THEN ensuresD] Connect_wf [THEN ensuresD] RegisterBlock_wf [THEN ensuresD]
  Send_wf [THEN ensuresD] FindBlock_wf [THEN ensuresD] PushToPull_wf [THEN ensuresD]

interpretation controller: machine "ctrl_step v6 run dial F C" ctrl_wf for v6 run dial F C
proof
  fix p q assume wf: "ctrl_wf p" and "ctrl_step v6 run dial F C p q"
  from this(2) show "ctrl_wf q"
  proof cases
    case handles
    then show ?thesis using handle_wf wf by blast
  next
    case (iterates ts t us r t' q')
    have "iterates_wf (run_task F C r t (p\<lparr>pu_tasks := ts @ us\<rparr>))" using wf by (intro run_task_wf) simp
    then show ?thesis using iterates by (simp add: resume_def)
  next
    case (listener_takes ls l ls' x l')
    then show ?thesis using wf chan_recv_wf unfolding listener_takes(1)
      by (intro listeners_wf) (auto simp: ctrl_wf_def)
  next
    case sends_audit
    then show ?thesis using audit_sends_wf(1) [OF wf] unfolding ensures_def by fastforce
  next
    case sends_audit_ack
    then show ?thesis using audit_sends_wf(2) [OF wf] unfolding ensures_def by fastforce
  next
    case closing
    then show ?thesis using Close_begin_wf [OF wf] unfolding ensures_def by fastforce
  next
    case closes
    then show ?thesis using Close_step_wf [OF wf] unfolding ensures_def by fastforce
  next
    case receives
    then show ?thesis using Receive_wf wf by blast
  qed (use wf in \<open>auto simp: SetNodeInfo_def intro: Accept_wf closing_sessions_wf Register_wf
      dest: operations_wf\<close>)
qed

lemma CreatePuCtrl_wf: "ctrl_wf (CreatePuCtrl peerID)"
  by (simp add: ctrl_wf_def CreatePuCtrl_def sessions_wf_def gm_ok_def sem_wf_def chan_wf_def make_chan_def stop_wf_def)

end
