(* ===== verification/Pu_Tree_Props.thy ===== *)
theory Pu_Tree_Props
  imports Pu_Wf
begin

text \<open>
  The distribution tree: which nodes a controller connects to as children, and as ancestors after a
  change to pull; and the closing of the tree from the leaves to the root.
\<close>

section \<open>Children\<close>

lemma child_range_upt: "map unat (child_range i e) = [unat i ..< unat e]"
proof (induction i e rule: child_range.induct)
  case (1 i e)
  show ?case
  proof (cases "i < e")
    case True
    then have lt: "unat i < unat e" by (simp add: word_less_nat_alt)
    then have "unat (i + 1) = unat i + 1" using unat_byte [of e] by (simp add: unat_word_ariths)
    then show ?thesis using 1 True lt by (subst child_range.simps) (simp add: upt_conv_Cons)
  next
    case False
    then have "unat e \<le> unat i" by (simp add: word_less_nat_alt)
    then show ?thesis using False by (subst child_range.simps) simp
  qed
qed

definition peer_port :: "u32 \<Rightarrow> string" where
  "peer_port ip = Int2ip ip @ '':'' @ ''5000''"

text \<open>The addresses of the nodes from \<open>o\<close> on, \<open>n\<close> of them.\<close>

lemma child_addrs_range:
  assumes "my_info addr ns = me" and "node_OffsetOfChild me + node_NumOfChilds me = e"
    and "unat e \<le> length ns"
  shows "child_addrs addr ns = Inr (map (\<lambda>k. peer_port (node_IP (ns ! k))) [unat (node_OffsetOfChild me) ..< unat e])"
proof -
  let ?r = "child_range (node_OffsetOfChild me) e"
  have r: "map unat ?r = [unat (node_OffsetOfChild me) ..< unat e]" by (rule child_range_upt)
  have "unat i < length ns" if "i \<in> set ?r" for i
  proof -
    have "unat i \<in> set (map unat ?r)" using that by simp
    then show ?thesis unfolding r using assms(3) by simp
  qed
  then have "go_map (\<lambda>i. go_bind (go_index ns (unat i)) (\<lambda>n. Inr (Int2ip (node_IP n) @ '':'' @ ''5000''))) ?r
      = Inr (map (\<lambda>i. peer_port (node_IP (ns ! unat i))) ?r)"
    by (intro go_map_total) (simp add: peer_port_def)
  moreover have "map (\<lambda>i. peer_port (node_IP (ns ! unat i))) ?r = map (\<lambda>k. peer_port (node_IP (ns ! k))) (map unat ?r)"
    by simp
  ultimately show ?thesis unfolding child_addrs_def Let_def assms(1,2) unfolding r by simp
qed

lemma child_bounds:
  assumes "unat s + unat n < 256"
  shows "unat (s + n :: byte) = unat s + unat n"
  using assms by (simp add: unat_word_ariths)

lemma Int2ip_inj: "Int2ip x = Int2ip y \<longleftrightarrow> x = y"
proof
  assume "Int2ip x = Int2ip y"
  then have "Ip2int (\<lambda>_. None) (Int2ip x) = Ip2int (\<lambda>_. None) (Int2ip y)" by simp
  then show "x = y" unfolding Ip2int_Int2ip by simp
qed simp

lemma find_distinct:
  assumes "i < length xs" and "distinct (map f xs)"
  shows "find (\<lambda>x. f x = f (xs ! i)) xs = Some (xs ! i)"
  using assms
proof (induction xs arbitrary: i)
  case (Cons x xs)
  show ?case
  proof (cases i)
    case (Suc k)
    then have "f (xs ! k) \<in> set (map f xs)" using Cons.prems(1) by simp
    then have "f x \<noteq> f (xs ! k)" using Cons.prems(2) by auto
    then show ?thesis using Cons Suc by simp
  qed simp
qed simp

lemma GetNodeInfo_ok:
  assumes "\<forall>a \<in> set peers. \<exists>ip. pa_Addr a = Int2ip ip"
  shows "\<exists>ns. GetNodeInfo v6 C peers = Inr ns \<and> map (Int2ip \<circ> node_IP) ns = map pa_Addr peers \<and>
    map node_NumOfChilds ns = map pa_NumChild peers \<and> map node_OffsetOfChild ns = map pa_ChildOffset peers"
  using assms
proof (induction peers)
  case (Cons a peers)
  obtain ip where "pa_Addr a = Int2ip ip" using Cons.prems by auto
  moreover obtain ns where "GetNodeInfo v6 C peers = Inr ns"
    "map (Int2ip \<circ> node_IP) ns = map pa_Addr peers"
    "map node_NumOfChilds ns = map pa_NumChild peers" "map node_OffsetOfChild ns = map pa_ChildOffset peers"
    using Cons.IH Cons.prems by (elim meta_impE) (simp, blast)
  ultimately show ?case by (simp add: GetNodeInfo_def Ip2int_Int2ip comp_def)
qed (simp add: GetNodeInfo_def)

text \<open>
  C21: From a list of peers with distinct IPv4 addresses, the node whose address stands at position \<open>i\<close>
  connects to exactly the peers at the positions its child offset and number name, in their order, if
  they end before position 256; if they end there or later, the byte-wide loop bound wraps around and
  the node connects to no child at all.
\<close>

theorem tree_children:
  assumes "\<forall>a \<in> set peers. \<exists>ip. pa_Addr a = Int2ip ip" and "distinct (map pa_Addr peers)" and "i < length peers"
    and "unat (pa_ChildOffset (peers ! i)) + unat (pa_NumChild (peers ! i)) \<le> length peers"
  shows "\<exists>ns. GetNodeInfo v6 C peers = Inr ns \<and>
    child_addrs (pa_Addr (peers ! i)) ns =
      Inr (if unat (pa_ChildOffset (peers ! i)) + unat (pa_NumChild (peers ! i)) < 256
           then map (\<lambda>k. pa_Addr (peers ! k) @ '':5000'')
             [unat (pa_ChildOffset (peers ! i)) ..< unat (pa_ChildOffset (peers ! i)) + unat (pa_NumChild (peers ! i))]
           else [])"
proof -
  obtain ns where ns: "GetNodeInfo v6 C peers = Inr ns" "map (Int2ip \<circ> node_IP) ns = map pa_Addr peers"
    "map node_NumOfChilds ns = map pa_NumChild peers" "map node_OffsetOfChild ns = map pa_ChildOffset peers"
    using GetNodeInfo_ok [OF assms(1)] by blast
  have len: "length ns = length peers" using arg_cong [OF ns(2), of length] by simp
  have nth: "Int2ip (node_IP (ns ! k)) = pa_Addr (peers ! k)" "node_NumOfChilds (ns ! k) = pa_NumChild (peers ! k)"
    "node_OffsetOfChild (ns ! k) = pa_ChildOffset (peers ! k)" if "k < length peers" for k
    using that len ns(2-4) by (metis comp_apply nth_map)+
  have "find (\<lambda>n. Int2ip (node_IP n) = Int2ip (node_IP (ns ! i))) ns = Some (ns ! i)"
    using find_distinct [of i ns "Int2ip \<circ> node_IP"] assms(2,3) ns(2) len by simp
  then have me: "my_info (pa_Addr (peers ! i)) ns = ns ! i" using nth(1) [OF assms(3)] by (simp add: my_info_def)
  let ?o = "node_OffsetOfChild (ns ! i)" and ?n = "node_NumOfChilds (ns ! i)"
  note io = nth(2,3) [OF assms(3)]
  show ?thesis
  proof (cases "unat ?o + unat ?n < 256")
    case True
    have e: "unat (?o + ?n) = unat ?o + unat ?n" by (rule child_bounds [OF True])
    have "child_addrs (pa_Addr (peers ! i)) ns
        = Inr (map (\<lambda>k. peer_port (node_IP (ns ! k))) [unat ?o ..< unat ?o + unat ?n])"
      using child_addrs_range [OF me refl] e assms(4) len io by simp
    moreover have "map (\<lambda>k. peer_port (node_IP (ns ! k))) [unat ?o ..< unat ?o + unat ?n]
        = map (\<lambda>k. pa_Addr (peers ! k) @ '':5000'') [unat ?o ..< unat ?o + unat ?n]"
      using nth(1) assms(4) io by (simp add: peer_port_def)
    ultimately show ?thesis using ns(1) True io by simp
  next
    case False
    have lt: "unat ?o < 256" "unat ?n < 256" by (rule unat_byte)+
    then have "unat (?o + ?n) = unat ?o + unat ?n - 256" using False by (simp add: unat_word_ariths mod_nat_eqI)
    then have "unat (?o + ?n) \<le> unat ?o" "unat (?o + ?n) \<le> length ns" using lt assms(4) len io by simp_all
    then have "child_addrs (pa_Addr (peers ! i)) ns = Inr []"
      using child_addrs_range [OF me refl] by simp
    then show ?thesis using ns(1) False io by simp
  qed
qed

theorem tree_children_witness:
  "\<exists>ns. GetNodeInfo (\<lambda>_. None) tiny_config
        [\<lparr>pa_Addr = ''10.0.0.1'', pa_NumChild = 2, pa_ChildOffset = 1\<rparr>,
         \<lparr>pa_Addr = ''10.0.0.2'', pa_NumChild = 0, pa_ChildOffset = 0\<rparr>,
         \<lparr>pa_Addr = ''10.0.0.3'', pa_NumChild = 0, pa_ChildOffset = 0\<rparr>] = Inr ns \<and>
     child_addrs ''10.0.0.1'' ns = Inr [''10.0.0.2:5000'', ''10.0.0.3:5000'']"
proof -
  have ips: "''10.0.0.1'' = Int2ip 167772161" "''10.0.0.2'' = Int2ip 167772162" "''10.0.0.3'' = Int2ip 167772163"
    by code_simp+
  let ?peers = "[\<lparr>pa_Addr = ''10.0.0.1'', pa_NumChild = 2, pa_ChildOffset = 1\<rparr>,
         \<lparr>pa_Addr = ''10.0.0.2'', pa_NumChild = 0, pa_ChildOffset = 0\<rparr>,
         \<lparr>pa_Addr = ''10.0.0.3'', pa_NumChild = 0, pa_ChildOffset = 0\<rparr>] :: PeerAddr list"
  have "\<forall>a \<in> set ?peers. \<exists>ip. pa_Addr a = Int2ip ip" using ips by auto
  moreover have "distinct (map pa_Addr ?peers)" by simp
  moreover have "[1::nat..<3] = [1, 2]" by (simp add: upt_rec)
  ultimately show ?thesis
    using tree_children [of ?peers 0 "\<lambda>_. None" tiny_config] by simp
qed

section \<open>Ancestors\<close>

lemma my_index_nth:
  "i < length ns \<Longrightarrow> distinct (map node_IP ns) \<Longrightarrow> my_index (Int2ip (node_IP (ns ! i))) ns = i"
proof (induction ns arbitrary: i)
  case (Cons n ns)
  show ?case
  proof (cases i)
    case (Suc k)
    then have "node_IP (ns ! k) \<in> set (map node_IP ns)" using Cons.prems(1) by simp
    then have "node_IP n \<noteq> node_IP (ns ! k)" using Cons.prems(2) by auto
    then show ?thesis using Cons Suc by (simp add: Int2ip_inj)
  qed simp
qed simp

lemma filter_not_nth:
  assumes "distinct xs" and "q < length xs"
  shows "filter (\<lambda>x. xs ! q \<noteq> x) xs = map (\<lambda>k. xs ! k) (filter (\<lambda>k. k \<noteq> q) [0..<length xs])"
proof -
  have "filter (\<lambda>x. xs ! q \<noteq> x) (map (\<lambda>k. xs ! k) [0..<length xs])
      = map (\<lambda>k. xs ! k) (filter (\<lambda>k. xs ! q \<noteq> xs ! k) [0..<length xs])" by (simp add: filter_map comp_def)
  also have "filter (\<lambda>k. xs ! q \<noteq> xs ! k) [0..<length xs] = filter (\<lambda>k. k \<noteq> q) [0..<length xs]"
    using assms by (intro filter_cong) (auto simp: nth_eq_iff_index_eq)
  finally show ?thesis by (simp add: map_nth)
qed

text \<open>The positions of the nodes that become ancestors of node \<open>i\<close> with parent \<open>q\<close>.\<close>

definition other_ancestors :: "nat \<Rightarrow> nat \<Rightarrow> nat list" where
  "other_ancestors i q = filter (\<lambda>k. k \<noteq> q) [0..<i - 1]"

lemma length_other_ancestors: "0 < i \<Longrightarrow> length (other_ancestors i q) = (if q < i - 1 then i - 2 else i - 1)"
proof -
  have "length (filter (\<lambda>k. k \<noteq> q) [0..<n]) = (if q < n then n - 1 else n)" for n
    by (induction n) auto
  then show ?thesis by (auto simp: other_ancestors_def)
qed

definition parent_at :: "NodeInfo list \<Rightarrow> nat \<Rightarrow> nat \<Rightarrow> bool" where
  "parent_at ns i q \<longleftrightarrow> q < i \<and>
     (\<forall>j < i. node_OffsetOfChild (ns ! j) \<le> (of_nat i :: byte) \<and>
        (of_nat i :: byte) < node_OffsetOfChild (ns ! j) + node_NumOfChilds (ns ! j) \<longleftrightarrow> j = q)"

lemma parent_of_nth:
  assumes "parent_at ns i q" and "i < length ns"
  shows "parent_of i ns = ns ! q"
proof -
  let ?P = "\<lambda>n. node_OffsetOfChild n \<le> (of_nat i :: byte) \<and> (of_nat i :: byte) < node_OffsetOfChild n + node_NumOfChilds n"
  have q: "q < i" and P: "?P (ns ! j) \<longleftrightarrow> j = q" if "j < i" for j
    using assms(1) that by (auto simp: parent_at_def)
  have "q < i" using assms(1) by (simp add: parent_at_def)
  then have "find ?P (take i ns) = Some (ns ! q)"
    unfolding find_Some_iff using assms(2) P by (intro exI [of _ q]) auto
  then show ?thesis by (simp add: parent_of_def)
qed

text \<open>An entry of the result without its children, and the result.\<close>

abbreviation no_children :: "NodeInfo \<Rightarrow> NodeInfo" where
  "no_children n \<equiv> n\<lparr>node_NumOfChilds := 0, node_OffsetOfChild := 0\<rparr>"

lemma getAncestorInfo_ok:
  assumes addr: "MY_IP_ADDRS C = Int2ip (node_IP (pu_nodeInfo p ! i)) # rest"
    and i: "i < length (pu_nodeInfo p)" "2 \<le> i" and d: "distinct (map node_IP (pu_nodeInfo p))"
    and q: "parent_at (pu_nodeInfo p) i q"
  shows "getAncestorInfo C p = Inr ((pu_nodeInfo p ! i)\<lparr>node_NumOfChilds := of_nat (i - 1), node_OffsetOfChild := 1\<rparr>
    # map (\<lambda>k. no_children (pu_nodeInfo p ! k)) (other_ancestors i q) @ (if q < i - 1 then [zero_node] else []))"
proof -
  let ?ns = "pu_nodeInfo p" and ?addr = "Int2ip (node_IP (pu_nodeInfo p ! i))"
  have ip: "(if ?ns = [] then Inr [] else my_ip C 0) = Inr ?addr" using i(1) addr by (auto simp: my_ip_def)
  have ix: "my_index ?addr ?ns = i" by (rule my_index_nth [OF i(1) d])
  have "find (\<lambda>n. (Int2ip \<circ> node_IP) n = (Int2ip \<circ> node_IP) (?ns ! i)) ?ns = Some (?ns ! i)"
    using d by (intro find_distinct [OF i(1)]) (simp add: distinct_map inj_on_def Int2ip_inj)
  then have me: "my_info ?addr ?ns = ?ns ! i" by (simp add: my_info_def)
  have par: "parent_of i ?ns = ?ns ! q" by (rule parent_of_nth [OF q i(1)])
  have qi: "q < i" using q by (simp add: parent_at_def)
  have keep: "filter (\<lambda>n. node_IP (?ns ! q) \<noteq> node_IP n) (map (\<lambda>k. ?ns ! k) [0..<i - 1])
      = map (\<lambda>k. ?ns ! k) (other_ancestors i q)"
  proof -
    have "node_IP (?ns ! q) \<noteq> node_IP (?ns ! k) \<longleftrightarrow> k \<noteq> q" if "k < i - 1" for k
      using nth_eq_iff_index_eq [OF d, of q k] that qi i(1) by auto
    then have "filter (\<lambda>k. node_IP (?ns ! q) \<noteq> node_IP (?ns ! k)) [0..<i - 1] = other_ancestors i q"
      unfolding other_ancestors_def by (intro filter_cong) auto
    then show ?thesis by (simp add: filter_map comp_def)
  qed
  have "take (i - 1) ?ns = map (\<lambda>k. ?ns ! k) [0..<i - 1]" using i(1) by (simp add: list_eq_iff_nth_eq)
  then have others: "map no_children (filter (\<lambda>n. node_IP (?ns ! q) \<noteq> node_IP n) (take (i - 1) ?ns))
      = map (\<lambda>k. no_children (?ns ! k)) (other_ancestors i q)" using keep by simp
  have rest: "replicate (i - 1 - length (other_ancestors i q)) zero_node = (if q < i - 1 then [zero_node] else [])"
    using length_other_ancestors [of i q] i(2) by (auto simp: numeral_2_eq_2)
  have pos: "\<not> int i - 1 \<le> 0" using i(2) by simp
  show ?thesis
    unfolding getAncestorInfo_def Let_def ip go_bind.simps ix me par others
    using pos rest by simp
qed

lemma zero_address: "peer_port 0 = ''0.0.0.0:5000''"
  by code_simp

lemma ancestor_addresses:
  assumes i: "2 \<le> i" "i < 256" and l: "length ns = i - 1"
  shows "child_addrs (Int2ip (node_IP me)) (me\<lparr>node_NumOfChilds := of_nat (i - 1), node_OffsetOfChild := 1\<rparr> # ns)
    = Inr (map (peer_port \<circ> node_IP) ns)"
proof -
  let ?me = "me\<lparr>node_NumOfChilds := of_nat (i - 1), node_OffsetOfChild := 1\<rparr>"
  have "my_info (Int2ip (node_IP me)) (?me # ns) = ?me" by (simp add: my_info_def)
  moreover have "node_OffsetOfChild ?me + node_NumOfChilds ?me = of_nat i" using i by (simp add: of_nat_diff)
  moreover have ui: "unat (of_nat i :: byte) = i" using i(2) by (intro unat_of_nat_lt) simp
  ultimately have "child_addrs (Int2ip (node_IP me)) (?me # ns)
      = Inr (map (\<lambda>k. peer_port (node_IP ((?me # ns) ! k))) [1..<i])"
    using child_addrs_range [of "Int2ip (node_IP me)" "?me # ns" ?me "of_nat i"] l i by simp
  also have "map (\<lambda>k. peer_port (node_IP ((?me # ns) ! k))) [1..<i] = map (peer_port \<circ> node_IP) ns"
    using l i by (intro nth_equalityI) simp_all
  finally show ?thesis .
qed

text \<open>
  C25: A node that changes to pull connects to its ancestors. Let its address, the first of its configuration, be
  that of position \<open>i\<close> of the node list, with \<open>i\<close> below 256 and all addresses of the list
  different, and let its parent stand at position \<open>q\<close>. Then it connects to the nodes before position \<open>i - 1\<close>
  other than \<open>q\<close>; when \<open>q\<close> is below \<open>i - 1\<close>, the
  list has one entry too many, and the node also dials 0.0.0.0. The nodes at positions 0 and 1, the
  second of which is a child of the root, panic.
\<close>

theorem pull_ancestors:
  assumes "MY_IP_ADDRS C = Int2ip (node_IP (pu_nodeInfo p ! i)) # rest" and "i < length (pu_nodeInfo p)"
    and "i < 256" and "distinct (map node_IP (pu_nodeInfo p))"
  shows "(i \<le> 1 \<longrightarrow> getAncestorInfo C p = Inl (Explicit ''PuCtrl.PushToPull(): No parent node found!'')) \<and>
    (\<forall>q. 2 \<le> i \<longrightarrow> parent_at (pu_nodeInfo p) i q \<longrightarrow>
      (\<exists>ns. getAncestorInfo C p = Inr ns \<and>
        child_addrs (Int2ip (node_IP (pu_nodeInfo p ! i))) ns
          = Inr (map (\<lambda>k. Int2ip (node_IP (pu_nodeInfo p ! k)) @ '':5000'') (other_ancestors i q)
              @ (if q < i - 1 then [''0.0.0.0:5000''] else []))))"
proof (intro conjI allI impI)
  have ix: "my_index (Int2ip (node_IP (pu_nodeInfo p ! i))) (pu_nodeInfo p) = i"
    by (rule my_index_nth [OF assms(2,4)])
  assume "i \<le> 1"
  then show "getAncestorInfo C p = Inl (Explicit ''PuCtrl.PushToPull(): No parent node found!'')"
    using assms(1,2) ix by (auto simp: getAncestorInfo_def Let_def my_ip_def)
next
  fix q assume i: "2 \<le> i" and q: "parent_at (pu_nodeInfo p) i q"
  let ?ns = "pu_nodeInfo p"
  let ?anc = "map (\<lambda>k. no_children (?ns ! k)) (other_ancestors i q) @ (if q < i - 1 then [zero_node] else [])"
  have "length ?anc = i - 1" using length_other_ancestors [of i q] i by auto
  from ancestor_addresses [OF i assms(3) this, of "?ns ! i"]
  show "\<exists>ns. getAncestorInfo C p = Inr ns \<and> child_addrs (Int2ip (node_IP (?ns ! i))) ns
      = Inr (map (\<lambda>k. Int2ip (node_IP (?ns ! k)) @ '':5000'') (other_ancestors i q)
              @ (if q < i - 1 then [''0.0.0.0:5000''] else []))"
    using getAncestorInfo_ok [OF assms(1,2) i assms(4) q] zero_address
    by (simp add: peer_port_def zero_node_def)
qed

text \<open>A root with two children, the first of which has a child: the node itself, at position 3.\<close>

definition demo_tree :: PuCtrl where
  "demo_tree = (CreatePuCtrl 4)\<lparr>pu_nodeInfo :=
     [\<lparr>node_IP = 167772161, node_Port = 5000, node_NumOfChilds = 2, node_OffsetOfChild = 1\<rparr>,
      \<lparr>node_IP = 167772162, node_Port = 5000, node_NumOfChilds = 1, node_OffsetOfChild = 3\<rparr>,
      \<lparr>node_IP = 167772163, node_Port = 5000, node_NumOfChilds = 0, node_OffsetOfChild = 0\<rparr>,
      \<lparr>node_IP = 167772164, node_Port = 5000, node_NumOfChilds = 0, node_OffsetOfChild = 0\<rparr>]\<rparr>"

theorem pull_ancestors_witness:
  "\<exists>ns. getAncestorInfo (tiny_config\<lparr>MY_IP_ADDRS := [''10.0.0.4'']\<rparr>) demo_tree = Inr ns \<and>
     child_addrs ''10.0.0.4'' ns = Inr [''10.0.0.1:5000'', ''0.0.0.0:5000'']"
proof -
  let ?C = "tiny_config\<lparr>MY_IP_ADDRS := [''10.0.0.4'']\<rparr>"
  have ips: "Int2ip 167772164 = ''10.0.0.4''" "Int2ip 167772161 = ''10.0.0.1''" by code_simp+
  have "j < 3 \<longleftrightarrow> j = 0 \<or> j = 1 \<or> j = 2" for j :: nat by auto
  then have "parent_at (pu_nodeInfo demo_tree) 3 1"
    by (auto simp: parent_at_def demo_tree_def)
  then have "\<exists>ns. getAncestorInfo ?C demo_tree = Inr ns \<and>
      child_addrs (Int2ip (node_IP (pu_nodeInfo demo_tree ! 3))) ns
        = Inr (map (\<lambda>k. Int2ip (node_IP (pu_nodeInfo demo_tree ! k)) @ '':5000'') (other_ancestors 3 1)
            @ (if 1 < 3 - (1 :: nat) then [''0.0.0.0:5000''] else []))"
    using pull_ancestors [of ?C demo_tree 3 "[]", THEN conjunct2, THEN spec [of _ 1]] ips by (simp add: demo_tree_def)
  moreover have "other_ancestors 3 1 = [0]" by code_simp
  ultimately show ?thesis using ips by (simp add: demo_tree_def)
qed

section \<open>Closing\<close>

text \<open>\<open>Close\<close> beside the handlers of FIN and FIN ACK packets; the number counts the FIN ACKs handled.\<close>

inductive close_ev :: "close_state \<times> PuCtrl \<times> nat \<Rightarrow> close_state \<times> PuCtrl \<times> nat \<Rightarrow> bool" where
  fin_arrives: "handleFinPacket pkt p = Some q \<Longrightarrow> close_ev (st, p, a) (st, q, a)"
| ack_arrives: "handleFinAckPacket pkt' p = Some q \<Longrightarrow> close_ev (st, p, a) (st, q, Suc a)"
| close_goes_on: "Close_step st p = Some (Inr (st', q)) \<Longrightarrow> close_ev (st, p, a) (st', q, a)"

text \<open>The sessions to the parent are as they were.\<close>

definition foreign_kept :: "PuCtrl \<Rightarrow> PuCtrl \<Rightarrow> bool" where
  "foreign_kept p0 p \<longleftrightarrow> (\<forall>k s. gm_get (pu_sessionMap p0) k = Some s \<longrightarrow> \<not> ps_sessionOwner s \<longrightarrow>
     gm_get (pu_sessionMap p) k = Some s)"

fun close_inv :: "PuCtrl \<Rightarrow> close_state \<times> PuCtrl \<times> nat \<Rightarrow> bool" where
  "close_inv p0 (AwaitFin k, p, a) \<longleftrightarrow> gm_ok (pu_sessionMap p0) \<and> k = length (owned_ids p0) \<and>
     pu_sessionMap p = pu_sessionMap p0 \<and> a = length (ch_buf (pu_chFinAckReceived p))"
| "close_inv p0 (AwaitAcks k par, p, a) \<longleftrightarrow> foreign_kept p0 p \<and>
     k + a = length (owned_ids p0) + length (ch_buf (pu_chFinAckReceived p))"
| "close_inv p0 (Closed, p, a) \<longleftrightarrow> length (owned_ids p0) \<le> a"

lemma chan_lengths:
  "chan_send x c = Some c' \<Longrightarrow> length (ch_buf c') = Suc (length (ch_buf c))"
  "chan_recv c = Some (y, c') \<Longrightarrow> length (ch_buf c) = Suc (length (ch_buf c'))"
  by (auto simp: chan_send_def chan_recv_def split: if_splits list.splits)

lemma send_fin_foreign:
  assumes "gm_ok (pu_sessionMap p)" and "send_fin bn (owned_ids p) p = Inr q"
  shows "foreign_kept p q" and "pu_chFinAckReceived q = pu_chFinAckReceived p"
proof -
  have ids: "distinct (owned_ids p)" "set (owned_ids p) \<subseteq> set (map fst (pu_sessionMap p))"
    using assms(1) by (auto simp: owned_ids_def gm_ok_def distinct_map_filterI)
  let ?f = "\<lambda>s. on_stream (sendFinPacket (ps_sessionID s) bn) s"
  obtain q' where q': "send_fin bn (owned_ids p) p = Inr q'" "q' = p\<lparr>pu_sessionMap := pu_sessionMap q'\<rparr>"
    "\<forall>sid. gm_get (pu_sessionMap q') sid = (if sid \<in> set (owned_ids p)
       then map_option ?f (gm_get (pu_sessionMap p) sid) else gm_get (pu_sessionMap p) sid)"
    using fold_on_session_const [OF ids, of ?f, folded send_fin_def] by (elim exE conjE) (rule that; assumption)
  have q: "q' = q" using q'(1) assms(2) by simp
  show "pu_chFinAckReceived q = pu_chFinAckReceived p" unfolding q [symmetric] by (subst q'(2)) simp
  have "k \<notin> set (owned_ids p)" if "gm_get (pu_sessionMap p) k = Some s" "\<not> ps_sessionOwner s" for k s
    using that assms(1) by (auto simp: owned_ids_def gm_get_def gm_ok_def dest!: map_of_SomeD dest: eq_key_imp_eq_value)
  then show "foreign_kept p q" using q'(3) unfolding foreign_kept_def q by simp
qed

lemma foreign_kept_same: "pu_sessionMap p = pu_sessionMap p0 \<Longrightarrow> foreign_kept p0 p"
  by (simp add: foreign_kept_def)

lemma foreign_kept_cong: "pu_sessionMap q = pu_sessionMap p \<Longrightarrow> foreign_kept p0 q = foreign_kept p0 p"
  by (simp add: foreign_kept_def)

interpretation closing: machine close_ev "close_inv p0" for p0
proof
  fix x y assume inv: "close_inv p0 x" and "close_ev x y"
  from this(2) show "close_inv p0 y"
  proof cases
    case (fin_arrives pkt p q st a)
    have "pu_sessionMap q = pu_sessionMap p" "pu_chFinAckReceived q = pu_chFinAckReceived p"
      using fin_arrives(3) by (auto simp: handleFinPacket_def)
    then show ?thesis using inv fin_arrives(1,2) foreign_kept_cong [of q p p0] by (cases st) auto
  next
    case (ack_arrives pkt p q st a)
    have "pu_sessionMap q = pu_sessionMap p"
      "length (ch_buf (pu_chFinAckReceived q)) = Suc (length (ch_buf (pu_chFinAckReceived p)))"
      using ack_arrives(3) chan_lengths(1) by (auto simp: handleFinAckPacket_def)
    then show ?thesis using inv ack_arrives(1,2) foreign_kept_cong [of q p p0] by (cases st) auto
  next
    case (close_goes_on st p st' q a)
    show ?thesis
    proof (cases "(st, p)" rule: Close_step.cases)
      case (1 n p')
      then have p: "st = AwaitFin n" "p' = p" by simp_all
      obtain b c where c: "chan_recv (pu_chFinReceived p) = Some (b, c)"
        using close_goes_on(3) p by (cases "chan_recv (pu_chFinReceived p)") auto
      let ?p = "p\<lparr>pu_chFinReceived := c\<rparr>"
      have ok: "gm_ok (pu_sessionMap ?p)" "owned_ids ?p = owned_ids p0" "pu_sessionMap p = pu_sessionMap p0"
        using inv close_goes_on(1) p by (simp_all add: owned_ids_def)
      show ?thesis
      proof (cases "0 < n")
        case True
        then have q: "send_fin b (owned_ids ?p) ?p = Inr q" "st' = AwaitAcks n (Some b)"
          using close_goes_on(3) p c by (simp_all add: Let_def owned_ids_def)
        have "foreign_kept p0 q" using send_fin_foreign(1) [OF ok(1) q(1)] ok(3) by (simp add: foreign_kept_def)
        then show ?thesis
          using inv close_goes_on(1,2) p q(2) send_fin_foreign(2) [OF ok(1) q(1)] by simp
      next
        case False
        then show ?thesis using inv close_goes_on p c by (auto simp: Let_def)
      qed
    next
      case (2 n par p')
      then obtain b c where c: "chan_recv (pu_chFinAckReceived p) = Some (b, c)"
        using close_goes_on(3) by (cases "chan_recv (pu_chFinAckReceived p)") auto
      then show ?thesis
        using inv close_goes_on 2 chan_lengths(2) [OF c] by (auto simp: foreign_kept_def)
    next
      case (3 par p')
      then have "st' = Closed" using close_goes_on(3) by (auto split: option.splits)
      then show ?thesis using inv close_goes_on(1,2) 3 by simp
    qed (use close_goes_on(3) in simp)
  qed
qed

lemma close_begins:
  assumes "gm_ok (pu_sessionMap p)" and "ch_buf (pu_chFinAckReceived p) = []" and "Close_begin bn p = Inr (st, q)"
  shows "close_inv p (st, q, 0)"
proof -
  have le: "length (owned_ids p) \<le> length (pu_sessionMap p)" by (simp add: owned_ids_def)
  show ?thesis
  proof (cases "length (owned_ids p) = length (pu_sessionMap p)")
    case True
    then have "send_fin bn (owned_ids p) p = Inr q" "st = AwaitAcks (length (owned_ids p)) None"
      using assms(3) by (auto simp: Close_begin_def Let_def)
    then show ?thesis using send_fin_foreign [OF assms(1)] assms(2) by auto
  next
    case False
    then show ?thesis using assms le by (auto simp: Close_begin_def Let_def)
  qed
qed

text \<open>
  C22: A controller that is closed does not acknowledge its parent's FIN, and \<open>Close\<close> does not return,
  before as many FIN ACK packets have been handled as it has sessions to children, in whatever order
  FIN and FIN ACK packets arrive.
\<close>

theorem close_waits_for_children:
  assumes "gm_ok (pu_sessionMap p0)" and "ch_buf (pu_chFinAckReceived p0) = []"
    and "Close_begin bn p0 = Inr (st0, q0)" and "close_ev\<^sup>*\<^sup>* (st0, q0, 0) (st, q, acks)"
  shows "acks < length (owned_ids p0) \<longrightarrow> st \<noteq> Closed \<and>
    (\<forall>k s. gm_get (pu_sessionMap p0) k = Some s \<longrightarrow> \<not> ps_sessionOwner s \<longrightarrow>
       gm_get (pu_sessionMap q) k = Some s)"
proof -
  have "close_inv p0 (st, q, acks)"
    using closing.inv_steps [OF assms(4) close_begins [OF assms(1-3)]] .
  then show ?thesis by (cases st) (auto simp: foreign_kept_def)
qed

text \<open>A node with one child, over session 7, and its parent, over session 8.\<close>

definition demo_node :: PuCtrl where
  "demo_node = (CreatePuCtrl 1)\<lparr>pu_sessionMap := [(7, demo_session PUSH_SESSION 7),
     (8, (demo_session PUSH_SESSION 8)\<lparr>ps_sessionOwner := False\<rparr>)]\<rparr>"

theorem close_waits_for_children_witness:
  "\<exists>q. Close_begin 0 demo_node = Inr (AwaitFin 1, demo_node) \<and>
    close_ev\<^sup>*\<^sup>* (AwaitFin 1, demo_node, 0) (AwaitAcks 1 (Some 5), q, 0) \<and>
    gm_get (pu_sessionMap q) 7 \<noteq> gm_get (pu_sessionMap demo_node) 7 \<and>
    gm_get (pu_sessionMap q) 8 = gm_get (pu_sessionMap demo_node) 8 \<and>
    gm_get (pu_sessionMap demo_node) 8 \<noteq> None"
proof -
  have own: "ps_sessionOwner (demo_session PUSH_SESSION 7)" "ps_stream (demo_session PUSH_SESSION 7) = []"
    by (simp_all add: demo_session_def CreatePuSession_def)
  have ids: "owned_ids demo_node = [7]" by (simp add: owned_ids_def demo_node_def own)
  have beg: "Close_begin 0 demo_node = Inr (AwaitFin 1, demo_node)"
    unfolding Close_begin_def Let_def ids by (simp add: demo_node_def)
  let ?p = "demo_node\<lparr>pu_chFinReceived := \<lparr>ch_cap = 1, ch_buf = [5]\<rparr>\<rparr>"
  have fin: "handleFinPacket (CreateFinPacket 1 5) demo_node = Some ?p"
    by (simp add: handleFinPacket_def CreateFinPacket_def chan_send_def make_chan_def demo_node_def CreatePuCtrl_def)
  let ?s = "demo_session PUSH_SESSION 7"
  let ?q = "demo_node\<lparr>pu_chFinReceived := \<lparr>ch_cap = 1, ch_buf = []\<rparr>,
    pu_sessionMap := gm_put (pu_sessionMap demo_node) 7 (on_stream (sendFinPacket 7 5) ?s)\<rparr>"
  have "owned_ids (demo_node\<lparr>pu_chFinReceived := c\<rparr>) = [7]" for c using ids by (simp add: owned_ids_def)
  moreover have get7: "gm_get (pu_sessionMap demo_node) 7 = Some ?s" by (simp add: demo_node_def gm_get_def)
  ultimately have "Close_step (AwaitFin 1) ?p = Some (Inr (AwaitAcks 1 (Some 5), ?q))"
    by (simp add: chan_recv_def send_fin_def on_session_def)
  then have run: "close_ev\<^sup>*\<^sup>* (AwaitFin 1, demo_node, 0) (AwaitAcks 1 (Some 5), ?q, 0)"
    by (rule converse_rtranclp_into_rtranclp [OF fin_arrives [OF fin] r_into_rtranclp [of close_ev, OF close_goes_on]])
  have "gm_get (pu_sessionMap ?q) 7 \<noteq> gm_get (pu_sessionMap demo_node) 7"
    using get7 own(2) by (auto simp: on_stream_def sendFinPacket_def sendPacket_def CreateFinPacket_def
        FinPacket_Write_def WriteUint32_def dest!: arg_cong [where f = ps_stream])
  moreover have "gm_ok (pu_sessionMap demo_node)" "ch_buf (pu_chFinAckReceived demo_node) = []"
    by (simp_all add: demo_node_def gm_ok_def CreatePuCtrl_def make_chan_def)
  note close_waits_for_children [OF this beg run]
  moreover have "gm_get (pu_sessionMap demo_node) 8 = Some ((demo_session PUSH_SESSION 8)\<lparr>ps_sessionOwner := False\<rparr>)"
    by (simp add: demo_node_def gm_get_def)
  ultimately show ?thesis
    using beg run ids by (intro exI [of _ ?q]) simp
qed

end
