(* ===== verification/Sha256.thy ===== *)
theory Sha256
  imports Prelude
begin

unbundle bit_operations_syntax

text \<open>
  \<open>crypto/sha256.Sum256\<close> of Go's standard library, which the committee selection orders nodes by: the
  hash of FIPS 180-4 on byte lists, with one published test value.
\<close>

section \<open>Constants and the round\<close>

definition sha_K :: "u32 list" where
  "sha_K =
    [1116352408, 1899447441, 3049323471, 3921009573, 961987163, 1508970993, 2453635748, 2870763221,
     3624381080, 310598401, 607225278, 1426881987, 1925078388, 2162078206, 2614888103, 3248222580,
     3835390401, 4022224774, 264347078, 604807628, 770255983, 1249150122, 1555081692, 1996064986,
     2554220882, 2821834349, 2952996808, 3210313671, 3336571891, 3584528711, 113926993, 338241895,
     666307205, 773529912, 1294757372, 1396182291, 1695183700, 1986661051, 2177026350, 2456956037,
     2730485921, 2820302411, 3259730800, 3345764771, 3516065817, 3600352804, 4094571909, 275423344,
     430227734, 506948616, 659060556, 883997877, 958139571, 1322822218, 1537002063, 1747873779,
     1955562222, 2024104815, 2227730452, 2361852424, 2428436474, 2756734187, 3204031479, 3329325298]"

record sha_state = ha :: u32 hb :: u32 hc :: u32 hd' :: u32 he :: u32 hf :: u32 hg :: u32 hh :: u32

definition sha_init :: sha_state where
  "sha_init = \<lparr>ha = 0x6a09e667, hb = 0xbb67ae85, hc = 0x3c6ef372, hd' = 0xa54ff53a,
     he = 0x510e527f, hf = 0x9b05688c, hg = 0x1f83d9ab, hh = 0x5be0cd19\<rparr>"

definition big_sigma0 :: "u32 \<Rightarrow> u32" where "big_sigma0 x = word_rotr 2 x XOR word_rotr 13 x XOR word_rotr 22 x"

definition big_sigma1 :: "u32 \<Rightarrow> u32" where "big_sigma1 x = word_rotr 6 x XOR word_rotr 11 x XOR word_rotr 25 x"

definition small_sigma0 :: "u32 \<Rightarrow> u32" where "small_sigma0 x = word_rotr 7 x XOR word_rotr 18 x XOR drop_bit 3 x"

definition small_sigma1 :: "u32 \<Rightarrow> u32" where "small_sigma1 x = word_rotr 17 x XOR word_rotr 19 x XOR drop_bit 10 x"

text \<open>The last sixteen words, oldest first; \<open>k\<close> more are derived.\<close>

fun schedule_words :: "nat \<Rightarrow> u32 list \<Rightarrow> u32 list" where
  "schedule_words 0 w = []"
| "schedule_words (Suc k) w =
     (let x = small_sigma1 (w ! 14) + w ! 9 + small_sigma0 (w ! 1) + w ! 0
      in x # schedule_words k (tl w @ [x]))"

definition sha_round :: "u32 \<times> u32 \<Rightarrow> sha_state \<Rightarrow> sha_state" where
  "sha_round = (\<lambda>(k, w) s.
     let t1 = hh s + big_sigma1 (he s) + ((he s AND hf s) XOR (NOT (he s) AND hg s)) + k + w;
         t2 = big_sigma0 (ha s) + ((ha s AND hb s) XOR (ha s AND hc s) XOR (hb s AND hc s))
     in \<lparr>ha = t1 + t2, hb = ha s, hc = hb s, hd' = hc s, he = hd' s + t1, hf = he s, hg = hf s, hh = hg s\<rparr>)"

fun be_words :: "bytes \<Rightarrow> u32 list" where
  "be_words (a # b # c # d # xs) =
     (push_bit 24 (ucast a) OR push_bit 16 (ucast b) OR push_bit 8 (ucast c) OR ucast d) # be_words xs"
| "be_words _ = []"

section \<open>Blocks\<close>

definition sha_block :: "bytes \<Rightarrow> sha_state \<Rightarrow> sha_state" where
  "sha_block bs s =
     (let w = be_words bs; r = fold sha_round (zip sha_K (w @ schedule_words 48 w)) s
      in \<lparr>ha = ha s + ha r, hb = hb s + hb r, hc = hc s + hc r, hd' = hd' s + hd' r,
          he = he s + he r, hf = hf s + hf r, hg = hg s + hg r, hh = hh s + hh r\<rparr>)"

definition u32_bytes :: "u32 \<Rightarrow> bytes" where
  "u32_bytes x = [ucast (drop_bit 24 x), ucast (drop_bit 16 x), ucast (drop_bit 8 x), ucast x]"

definition sha_pad :: "bytes \<Rightarrow> bytes" where
  "sha_pad m = m @ [0x80] @ replicate ((119 - length m mod 64) mod 64) 0
     @ map (\<lambda>i. ucast (drop_bit (56 - 8 * i) (8 * of_nat (length m) :: 64 word))) [0..<8]"

function sha_blocks :: "bytes \<Rightarrow> sha_state \<Rightarrow> sha_state" where
  "sha_blocks bs s = (if length bs < 64 then s else sha_blocks (drop 64 bs) (sha_block (take 64 bs) s))"
  by pat_completeness auto
termination by (relation "measure (length \<circ> fst)") auto

definition Sum256 :: "bytes \<Rightarrow> bytes" where
  "Sum256 m = (let s = sha_blocks (sha_pad m) sha_init
     in concat (map u32_bytes [ha s, hb s, hc s, hd' s, he s, hf s, hg s, hh s]))"
declare sha_blocks.simps [simp del]

lemma length_Sum256 [simp]: "length (Sum256 m) = 32"
  by (simp add: Sum256_def Let_def u32_bytes_def)

text \<open>The hash of the three bytes of "abc".\<close>

lemma Sum256_abc:
  "Sum256 [0x61, 0x62, 0x63] =
     [0xba, 0x78, 0x16, 0xbf, 0x8f, 0x01, 0xcf, 0xea, 0x41, 0x41, 0x40, 0xde, 0x5d, 0xae, 0x22, 0x23,
      0xb0, 0x03, 0x61, 0xa3, 0x96, 0x17, 0x7a, 0x9c, 0xb4, 0x10, 0xff, 0x61, 0xf2, 0x00, 0x15, 0xad]"
  by code_simp

text \<open>Two messages of one byte.\<close>

lemma Sum256_2: "Sum256 [2] =
    [219, 193, 180, 201, 0, 255, 228, 141, 87, 91, 93, 165, 198, 56, 4, 1,
     37, 246, 93, 176, 254, 62, 36, 73, 75, 118, 234, 152, 100, 87, 217, 134]"
  by code_simp

lemma Sum256_3: "Sum256 [3] =
    [8, 79, 237, 8, 185, 120, 175, 77, 125, 25, 106, 116, 70, 168, 107, 88,
     0, 158, 99, 107, 97, 29, 177, 98, 17, 182, 90, 154, 173, 255, 41, 197]"
  by code_simp

end
