(* ===== verification/Membership.thy ===== *)
theory Membership
  imports Sha256 Safe_Map
begin

text \<open>
  The membership service of an s-node: \<open>s-node/membership/control.go\<close> (collecting requests and forming
  committees round by round) and the node list of \<open>s-node/validator/main.go\<close>. The signature library BLS
  is an argument. The global variables are the fields of one record; a critical section is one step,
  and a goroutine or a fired timer that waits for the lock is an element of \<open>ms_tasks\<close>. Clock readings
  are arguments, in nanoseconds; what is published goes to \<open>ms_sent\<close>.
\<close>

section \<open>Messages\<close>

record Node =
  n_NodeID :: string
  n_Addrs :: "string list"
  n_Port :: string
  n_Publickey :: bytes
  n_Seed :: string
  n_Proof :: bytes
  n_Value :: bytes

record Wnode =
  w_NodeID :: string
  w_Addrs :: "string list"
  w_Port :: string
  w_Publickey :: bytes
  w_Seed :: string
  w_Proof :: bytes
  w_Value :: bytes

record Shard =
  sh_ID :: string
  sh_LeaderID :: string
  sh_Member :: "Wnode list"

record CommitteeMsg =
  cm_Type :: u32
  cm_RoundNum :: u32
  cm_Shards :: "Shard list"

record RoundRequest =
  rq_Node :: Node
  rq_VRF :: nat

section \<open>Verification\<close>

text \<open>Deserialising gives nothing on an error; a signature is verified against the keys and the message.\<close>

record ('pk, 'sg) bls_lib =
  pk_Deserialize :: "bytes \<Rightarrow> 'pk option"
  sg_Deserialize :: "bytes \<Rightarrow> 'sg option"
  FastAggregateVerify :: "'sg \<Rightarrow> 'pk list \<Rightarrow> bytes \<Rightarrow> bool"

definition string_bytes :: "string \<Rightarrow> bytes" where
  "string_bytes s = map of_char s"

text \<open>\<open>big.Int.SetBytes\<close>: big endian.\<close>

definition SetBytes :: "bytes \<Rightarrow> nat" where
  "SetBytes bs = fold (\<lambda>b n. 256 * n + unat b) bs 0"

definition VerifyVRF :: "('pk, 'sg) bls_lib \<Rightarrow> string \<Rightarrow> bytes \<Rightarrow> 'pk \<Rightarrow> nat option" where
  "VerifyVRF B seed proof pubKey =
     (case sg_Deserialize B proof of
        None \<Rightarrow> None
      | Some sig \<Rightarrow>
          if FastAggregateVerify B sig [pubKey] (Sum256 (string_bytes seed))
          then Some (SetBytes (Sum256 proof)) else None)"

definition VRFHash :: "string \<Rightarrow> string \<Rightarrow> nat" where
  "VRFHash nodeID seed = SetBytes (Sum256 (string_bytes (nodeID @ seed)))"

section \<open>State\<close>

definition minCommitteeSize :: nat where "minCommitteeSize = 2"
definition maxCommitteeSize :: nat where "maxCommitteeSize = 20"

text \<open>\<open>Fired\<close>: a timer has run out and its function waits for the lock. \<open>Build\<close>, \<open>Publish\<close>, \<open>Finish\<close>:
  \<open>BuildCommittee\<close> before its first critical section, after it, and before its second.\<close>

datatype ms_task = Fired u32 | Build u32 | Publish u32 "RoundRequest list" | Finish

record Msp =
  ms_requestQueue :: "u32 \<rightharpoonup> RoundRequest list"
  ms_roundTimers :: "u32 \<rightharpoonup> nat"
  ms_roundTimerSet :: "u32 set"
  ms_roundCommitted :: "u32 set"
  ms_currentRound :: u32
  ms_roundActive :: bool
  ms_timers :: "(nat \<times> u32) list"
  ms_nextTimer :: nat
  ms_tasks :: "ms_task list"
  ms_sent :: "CommitteeMsg list"

text \<open>\<open>ms_timers\<close> are the timers that run, by number; \<open>ms_roundTimers\<close> has the latest of a round.\<close>

definition ms_init :: Msp where
  "ms_init = \<lparr>ms_requestQueue = Map.empty, ms_roundTimers = Map.empty, ms_roundTimerSet = {},
     ms_roundCommitted = {}, ms_currentRound = 0, ms_roundActive = False, ms_timers = [], ms_nextTimer = 0,
     ms_tasks = [], ms_sent = []\<rparr>"

definition queue :: "Msp \<Rightarrow> u32 \<Rightarrow> RoundRequest list" where
  "queue st r = (case ms_requestQueue st r of None \<Rightarrow> [] | Some reqs \<Rightarrow> reqs)"

text \<open>\<open>uint32(time.Now().UnixNano() / int64(time.Millisecond))\<close>.\<close>

definition round_of :: "nat \<Rightarrow> u32" where
  "round_of now = of_nat (now div 1000000)"

section \<open>Collecting requests\<close>

definition startCommitteeTimer :: "u32 \<Rightarrow> Msp \<Rightarrow> Msp" where
  "startCommitteeTimer r st =
     st\<lparr>ms_timers := ms_timers st @ [(ms_nextTimer st, r)],
        ms_roundTimers := (ms_roundTimers st)(r \<mapsto> ms_nextTimer st), ms_nextTimer := ms_nextTimer st + 1\<rparr>"

text \<open>The function of a fired timer.\<close>

definition timer_fired :: "u32 \<Rightarrow> Msp \<Rightarrow> Msp" where
  "timer_fired r st =
     (if r \<in> ms_roundCommitted st then st
      else if queue st r = [] then st\<lparr>ms_roundActive := False\<rparr>
      else st\<lparr>ms_tasks := ms_tasks st @ [Build r]\<rparr>)"

text \<open>One node of a request: skipped when it is in the round already, when its key does not parse or
  when its proof does not verify.\<close>

definition add_request :: "('pk, 'sg) bls_lib \<Rightarrow> Node \<Rightarrow> Msp \<times> string set \<Rightarrow> Msp \<times> string set" where
  "add_request B node = (\<lambda>(st, existing).
     if n_NodeID node \<in> existing then (st, existing)
     else case pk_Deserialize B (n_Publickey node) of
            None \<Rightarrow> (st, existing)
          | Some pubKey \<Rightarrow>
              (case VerifyVRF B (n_Seed node) (n_Proof node) pubKey of
                 None \<Rightarrow> (st, existing)
               | Some vrfVal \<Rightarrow>
                   (st\<lparr>ms_requestQueue := (ms_requestQueue st)(ms_currentRound st \<mapsto>
                      queue st (ms_currentRound st) @ [\<lparr>rq_Node = node, rq_VRF = vrfVal\<rparr>])\<rparr>,
                    insert (n_NodeID node) existing)))"

definition HandleMembershipRequest :: "('pk, 'sg) bls_lib \<Rightarrow> Node list \<Rightarrow> nat \<Rightarrow> Msp \<Rightarrow> Msp" where
  "HandleMembershipRequest B nodes now st =
     (let st = (if \<not> ms_roundActive st then st\<lparr>ms_currentRound := round_of now, ms_roundActive := True\<rparr> else st);
          existing = set (map (n_NodeID \<circ> rq_Node) (queue st (ms_currentRound st)));
          (st, existing) = fold (add_request B) nodes (st, existing)
      in if minCommitteeSize \<le> length (queue st (ms_currentRound st)) \<and>
            ms_currentRound st \<notin> ms_roundTimerSet st
         then (startCommitteeTimer (ms_currentRound st) st)
                \<lparr>ms_roundTimerSet := insert (ms_currentRound st) (ms_roundTimerSet st)\<rparr>
         else st)"

section \<open>Forming a committee\<close>

definition cancelRoundTimer :: "u32 \<Rightarrow> Msp \<Rightarrow> Msp" where
  "cancelRoundTimer r st =
     (let st = (case ms_roundTimers st r of
                  None \<Rightarrow> st
                | Some timer \<Rightarrow> st\<lparr>ms_timers := filter (\<lambda>(t, _). t \<noteq> timer) (ms_timers st),
                    ms_roundTimers := (ms_roundTimers st)(r := None)\<rparr>)
      in st\<lparr>ms_roundTimerSet := ms_roundTimerSet st - {r}\<rparr>)"

text \<open>\<open>BuildCommittee\<close> up to the first \<open>Unlock\<close>.\<close>

definition build_take :: "u32 \<Rightarrow> Msp \<Rightarrow> Msp" where
  "build_take r st =
     (if r \<in> ms_roundCommitted st then st
      else
        let st = st\<lparr>ms_roundCommitted := insert r (ms_roundCommitted st)\<rparr>;
            requests = queue st r;
            st = cancelRoundTimer r (st\<lparr>ms_requestQueue := (ms_requestQueue st)(r := None)\<rparr>)
        in if requests = [] then st else st\<lparr>ms_tasks := ms_tasks st @ [Publish r requests]\<rparr>)"

text \<open>\<open>sort.Slice\<close> by a key. The sort is not stable: the order of equal keys is the argument's.\<close>

definition sort_Slice :: "('a \<Rightarrow> nat) \<Rightarrow> ('a list \<Rightarrow> 'a list) \<Rightarrow> 'a list \<Rightarrow> 'a list" where
  "sort_Slice key ord xs =
     (if mset (ord xs) = mset xs \<and> sorted (map key (ord xs)) then ord xs else sort_key key xs)"

definition wnode_of :: "Node \<Rightarrow> Wnode" where
  "wnode_of n = \<lparr>w_NodeID = n_NodeID n, w_Addrs = n_Addrs n, w_Port = n_Port n, w_Publickey = n_Publickey n,
     w_Seed = n_Seed n, w_Proof = n_Proof n, w_Value = n_Value n\<rparr>"

definition committee_msg ::
    "(RoundRequest list \<Rightarrow> RoundRequest list) \<Rightarrow> u32 \<Rightarrow> RoundRequest list \<Rightarrow> string \<Rightarrow> CommitteeMsg go" where
  "committee_msg ord r requests topic =
     (let candidates = sort_Slice rq_VRF ord requests;
          limit = (if maxCommitteeSize < length candidates then maxCommitteeSize else length candidates)
      in go_bind (go_index candidates 0) (\<lambda>leader.
         go_bind (go_map (\<lambda>i. go_bind (go_index candidates i) (\<lambda>c. Inr (wnode_of (rq_Node c)))) [0..<limit]) (\<lambda>members.
           Inr \<lparr>cm_Type = 1, cm_RoundNum = r,
             cm_Shards = [\<lparr>sh_ID = topic, sh_LeaderID = n_NodeID (rq_Node leader), sh_Member = members\<rparr>]\<rparr>)))"

definition publish_committees ::
    "(RoundRequest list \<Rightarrow> RoundRequest list) \<Rightarrow> string list \<Rightarrow> u32 \<Rightarrow> RoundRequest list \<Rightarrow> Msp \<Rightarrow> Msp go" where
  "publish_committees ord topics r requests st =
     go_fold (\<lambda>topic st. go_bind (committee_msg ord r requests topic) (\<lambda>msg.
       Inr (st\<lparr>ms_sent := ms_sent st @ [msg]\<rparr>))) topics st"

text \<open>\<open>BuildCommittee\<close> from its second \<open>Lock\<close> on.\<close>

definition build_finish :: "nat \<Rightarrow> Msp \<Rightarrow> Msp" where
  "build_finish now st =
     (let st = startCommitteeTimer (round_of now) (st\<lparr>ms_currentRound := round_of now, ms_roundActive := True\<rparr>)
      in st\<lparr>ms_roundTimerSet := insert (ms_currentRound st) (ms_roundTimerSet st)\<rparr>)"

fun ms_run ::
    "(RoundRequest list \<Rightarrow> RoundRequest list) \<Rightarrow> string list \<Rightarrow> nat \<Rightarrow> ms_task \<Rightarrow> Msp \<Rightarrow> Msp go" where
  "ms_run ord topics now (Fired r) st = Inr (timer_fired r st)"
| "ms_run ord topics now (Build r) st = Inr (build_take r st)"
| "ms_run ord topics now (Publish r requests) st =
     go_bind (publish_committees ord topics r requests st) (\<lambda>st. Inr (st\<lparr>ms_tasks := ms_tasks st @ [Finish]\<rparr>))"
| "ms_run ord topics now Finish st = Inr (build_finish now st)"

text \<open>The steps of the service: a request arrives, a timer runs out, a task gets its turn. The topics are those of one
  run: \<open>WatchdogTopics\<close> gets new ones when a channel is opened, which the steps here leave out (see \<open>Channels\<close>).\<close>

inductive ms_step ::
    "('pk, 'sg) bls_lib \<Rightarrow> (RoundRequest list \<Rightarrow> RoundRequest list) \<Rightarrow> string list \<Rightarrow> Msp \<Rightarrow> Msp \<Rightarrow> bool"
  for B ord topics where
  request: "ms_step B ord topics st (HandleMembershipRequest B nodes now st)"
| expire: "ms_timers st = ts @ (i, r) # us \<Longrightarrow>
    ms_step B ord topics st (st\<lparr>ms_timers := ts @ us, ms_tasks := ms_tasks st @ [Fired r]\<rparr>)"
| task: "ms_tasks st = ts @ t # us \<Longrightarrow> ms_run ord topics now t (st\<lparr>ms_tasks := ts @ us\<rparr>) = Inr st' \<Longrightarrow>
    ms_step B ord topics st st'"

section \<open>The node list\<close>

record Validator =
  vd_Nodes :: "Node list"
  vd_NodeMetaMap :: "string \<rightharpoonup> nat"

definition nodeTimeout :: int where "nodeTimeout = 10 * 1000000000"

fun replace_node :: "Node \<Rightarrow> Node list \<Rightarrow> Node list option" where
  "replace_node node [] = None"
| "replace_node node (n # ns) =
     (if n_NodeID n = n_NodeID node then Some (node # ns) else map_option ((#) n) (replace_node node ns))"

definition UpdateNode :: "Node \<Rightarrow> nat \<Rightarrow> Validator \<Rightarrow> Validator" where
  "UpdateNode node now v =
     (case replace_node node (vd_Nodes v) of
        Some ns \<Rightarrow> v\<lparr>vd_Nodes := ns, vd_NodeMetaMap := (vd_NodeMetaMap v)(n_NodeID node \<mapsto> now)\<rparr>
      | None \<Rightarrow> v\<lparr>vd_Nodes := vd_Nodes v @ [node], vd_NodeMetaMap := (vd_NodeMetaMap v)(n_NodeID node \<mapsto> now)\<rparr>)"

definition IsNodeAlive :: "string \<Rightarrow> nat \<Rightarrow> Validator \<Rightarrow> bool" where
  "IsNodeAlive nodeID now v =
     (case vd_NodeMetaMap v nodeID of None \<Rightarrow> False | Some seen \<Rightarrow> int now - int seen \<le> nodeTimeout)"

text \<open>One tick of \<open>RemoveDeadNodes\<close>: the loop over the nodes, with the list of those alive.\<close>

definition sweep_node :: "nat \<Rightarrow> Node \<Rightarrow> Node list \<times> (string \<rightharpoonup> nat) \<Rightarrow> Node list \<times> (string \<rightharpoonup> nat)" where
  "sweep_node now node = (\<lambda>(alive, meta).
     case meta (n_NodeID node) of
       None \<Rightarrow> (alive, meta(n_NodeID node := None))
     | Some seen \<Rightarrow> if int now - int seen \<le> nodeTimeout then (alive @ [node], meta)
                    else (alive, meta(n_NodeID node := None)))"

definition RemoveDeadNodes :: "nat \<Rightarrow> Validator \<Rightarrow> Validator" where
  "RemoveDeadNodes now v =
     (let (alive, meta) = fold (sweep_node now) (vd_Nodes v) ([], vd_NodeMetaMap v)
      in v\<lparr>vd_Nodes := alive, vd_NodeMetaMap := meta\<rparr>)"

text \<open>The service call; \<open>Inl\<close> is its error. In the code it is three critical sections: the update of the list, the request
  (which is the step \<open>request\<close> of \<open>ms_step\<close>, interleaved there with all others) and the copy of the list. Here they run without
  another call between them: with one, the answer can have nodes that came in after the update.\<close>

definition GetMembership ::
    "('pk, 'sg) bls_lib \<Rightarrow> Node list \<Rightarrow> nat \<Rightarrow> nat \<Rightarrow> Validator \<times> Msp \<Rightarrow> (string + Node list) \<times> Validator \<times> Msp" where
  "GetMembership B nodes now now' = (\<lambda>(v, st).
     case nodes of
       [] \<Rightarrow> (Inl ''no node information received'', v, st)
     | node # _ \<Rightarrow>
         let v = UpdateNode node now v; st = HandleMembershipRequest B nodes now' st
         in (Inr (vd_Nodes v), v, st))"

end
