(* ===== verification/Membership_Props.thy ===== *)
theory Membership_Props
  imports Membership
begin

text \<open>
  Committees: who is in one, that a round has one committee per topic, and which requests are never
  considered; and the node list of the validator.
\<close>

section \<open>Requests\<close>

definition valid_req :: "('pk, 'sg) bls_lib \<Rightarrow> RoundRequest \<Rightarrow> bool" where
  "valid_req B x \<longleftrightarrow> (\<exists>pk. pk_Deserialize B (n_Publickey (rq_Node x)) = Some pk \<and>
     VerifyVRF B (n_Seed (rq_Node x)) (n_Proof (rq_Node x)) pk = Some (rq_VRF x))"

abbreviation req_id :: "RoundRequest \<Rightarrow> string" where
  "req_id x \<equiv> n_NodeID (rq_Node x)"

definition reqs_ok :: "('pk, 'sg) bls_lib \<Rightarrow> RoundRequest list \<Rightarrow> bool" where
  "reqs_ok B reqs \<longleftrightarrow> (\<forall>x \<in> set reqs. valid_req B x) \<and> distinct (map req_id reqs)"

lemma VerifyVRF_value: "VerifyVRF B seed proof pk = Some v \<Longrightarrow> v = SetBytes (Sum256 proof)"
  by (auto simp: VerifyVRF_def split: option.splits if_splits)

lemma valid_req_VRF: "valid_req B x \<Longrightarrow> rq_VRF x = SetBytes (Sum256 (n_Proof (rq_Node x)))"
  by (auto simp: valid_req_def dest: VerifyVRF_value)

section \<open>Sorting\<close>

lemma sort_Slice_sorted: "sorted (map key (sort_Slice key ord xs))"
  by (simp add: sort_Slice_def)

lemma sort_Slice_mset: "mset (sort_Slice key ord xs) = mset xs"
  by (simp add: sort_Slice_def)

lemma sort_Slice_set [simp]: "set (sort_Slice key ord xs) = set xs"
  using sort_Slice_mset by (rule mset_eq_setD)

lemma sort_Slice_length [simp]: "length (sort_Slice key ord xs) = length xs"
  using sort_Slice_mset by (rule mset_eq_length)

lemma sort_Slice_distinct: "distinct (map f (sort_Slice key ord xs)) = distinct (map f xs)"
  by (rule mset_eq_imp_distinct_iff) (simp add: sort_Slice_mset)

section \<open>A committee message\<close>

definition selected :: "(RoundRequest list \<Rightarrow> RoundRequest list) \<Rightarrow> RoundRequest list \<Rightarrow> RoundRequest list" where
  "selected ord reqs = take 20 (sort_Slice rq_VRF ord reqs)"

lemma committee_msg_ok:
  assumes "reqs \<noteq> []"
  shows "committee_msg ord r reqs topic = Inr \<lparr>cm_Type = 1, cm_RoundNum = r,
     cm_Shards = [\<lparr>sh_ID = topic, sh_LeaderID = req_id (hd (selected ord reqs)),
       sh_Member = map (wnode_of \<circ> rq_Node) (selected ord reqs)\<rparr>]\<rparr>"
proof -
  let ?c = "sort_Slice rq_VRF ord reqs"
  let ?limit = "if maxCommitteeSize < length ?c then maxCommitteeSize else length ?c"
  have ne: "?c \<noteq> []" using assms by (metis length_0_conv sort_Slice_length)
  have "go_map (\<lambda>i. go_bind (go_index ?c i) (\<lambda>c. Inr (wnode_of (rq_Node c)))) [0..<?limit]
      = Inr (map (\<lambda>i. wnode_of (rq_Node (?c ! i))) [0..<?limit])"
    by (intro go_map_total) (auto split: if_splits)
  also have "map (\<lambda>i. wnode_of (rq_Node (?c ! i))) [0..<?limit] = map (wnode_of \<circ> rq_Node) (selected ord reqs)"
    by (intro nth_equalityI) (auto simp: selected_def maxCommitteeSize_def split: if_splits)
  finally have members: "go_map (\<lambda>i. go_bind (go_index ?c i) (\<lambda>c. Inr (wnode_of (rq_Node c)))) [0..<?limit]
      = Inr (map (wnode_of \<circ> rq_Node) (selected ord reqs))" .
  have "go_index ?c 0 = Inr (hd (selected ord reqs))"
    using ne assms by (simp add: selected_def hd_conv_nth)
  then show ?thesis unfolding committee_msg_def Let_def members by simp
qed

lemma selected_lowest:
  assumes "x \<in> set (selected ord reqs)" and "y \<in> set reqs" and "y \<notin> set (selected ord reqs)"
  shows "rq_VRF x \<le> rq_VRF y"
proof -
  let ?c = "sort_Slice rq_VRF ord reqs"
  have split: "map rq_VRF ?c = map rq_VRF (selected ord reqs) @ map rq_VRF (drop 20 ?c)"
    unfolding selected_def map_append [symmetric] by simp
  have "y \<in> set ?c" using assms(2) by simp
  then have "y \<in> set (selected ord reqs) \<union> set (drop 20 ?c)"
    unfolding selected_def set_append [symmetric] by simp
  then have "y \<in> set (drop 20 ?c)" using assms(3) by simp
  then show ?thesis
    using sort_Slice_sorted [of rq_VRF ord reqs] assms(1) unfolding split sorted_append by auto
qed

definition demo_request :: "string \<Rightarrow> nat \<Rightarrow> RoundRequest" where
  "demo_request name v = \<lparr>rq_Node = \<lparr>n_NodeID = name, n_Addrs = [], n_Port = [], n_Publickey = [], n_Seed = [],
     n_Proof = [], n_Value = []\<rparr>, rq_VRF = v\<rparr>"

text \<open>
  The committee of a round is formed by the VRF values: its members are the requests with the lowest
  values, twenty of them or all when there are fewer, listed in the order of the values; the leader is
  the first; and nobody outside has a lower value than a member, however equal values are ordered.
\<close>

theorem committee_selects_lowest:
  assumes "reqs \<noteq> []"
  shows "\<exists>xs. committee_msg ord r reqs topic = Inr \<lparr>cm_Type = 1, cm_RoundNum = r,
       cm_Shards = [\<lparr>sh_ID = topic, sh_LeaderID = n_NodeID (rq_Node (hd xs)),
         sh_Member = map (\<lambda>x. wnode_of (rq_Node x)) xs\<rparr>]\<rparr> \<and>
     mset xs \<subseteq># mset reqs \<and> length xs = min 20 (length reqs) \<and> sorted (map rq_VRF xs) \<and>
     (\<forall>x \<in> set xs. \<forall>y \<in> set reqs - set xs. rq_VRF x \<le> rq_VRF y)"
proof -
  let ?xs = "selected ord reqs"
  have "mset ?xs \<subseteq># mset (sort_Slice rq_VRF ord reqs)"
    unfolding selected_def by (metis append_take_drop_id mset_append mset_subset_eq_add_left)
  moreover have "sorted (map rq_VRF ?xs)"
    using sort_Slice_sorted [of rq_VRF ord reqs] by (simp add: selected_def sorted_wrt_take flip: take_map)
  moreover have "length ?xs = min 20 (length reqs)" by (simp add: selected_def)
  ultimately show ?thesis
    using committee_msg_ok [OF assms, of ord r topic] selected_lowest sort_Slice_mset [of rq_VRF ord reqs]
    by (intro exI [of _ ?xs]) (auto simp: comp_def)
qed

abbreviation demo_requests :: "RoundRequest list" where
  "demo_requests \<equiv> [demo_request ''c'' 30, demo_request ''a'' 10, demo_request ''b'' 20]"

lemma committee_selects_lowest_witness:
  "\<exists>xs. committee_msg id 7 demo_requests ''audit'' = Inr \<lparr>cm_Type = 1, cm_RoundNum = 7,
       cm_Shards = [\<lparr>sh_ID = ''audit'', sh_LeaderID = n_NodeID (rq_Node (hd xs)),
         sh_Member = map (\<lambda>x. wnode_of (rq_Node x)) xs\<rparr>]\<rparr> \<and>
     mset xs \<subseteq># mset demo_requests \<and> length xs = 3 \<and> sorted (map rq_VRF xs)"
proof -
  have "demo_requests \<noteq> []" by simp
  from committee_selects_lowest [OF this, of id 7 "''audit''"] obtain xs where
    "committee_msg id 7 demo_requests ''audit'' = Inr \<lparr>cm_Type = 1, cm_RoundNum = 7,
       cm_Shards = [\<lparr>sh_ID = ''audit'', sh_LeaderID = n_NodeID (rq_Node (hd xs)),
         sh_Member = map (\<lambda>x. wnode_of (rq_Node x)) xs\<rparr>]\<rparr>"
    and "mset xs \<subseteq># mset demo_requests" and "length xs = min 20 (length demo_requests)"
    and "sorted (map rq_VRF xs)"
    by (elim exE conjE) (rule that; assumption)
  then show ?thesis by (intro exI [of _ xs] conjI) simp_all
qed

section \<open>The invariant of the service\<close>

fun publishing :: "ms_task \<Rightarrow> u32 list" where
  "publishing (Publish r reqs) = [r]"
| "publishing t = []"

text \<open>A committee message that a w-node may rely on.\<close>

definition committee_ok :: "('pk, 'sg) bls_lib \<Rightarrow> string list \<Rightarrow> CommitteeMsg \<Rightarrow> bool" where
  "committee_ok B topics m \<longleftrightarrow> cm_Type m = 1 \<and>
     (\<exists>topic \<in> set topics. \<exists>xs. xs \<noteq> [] \<and> length xs \<le> 20 \<and>
        (\<forall>x \<in> set xs. valid_req B x) \<and> distinct (map req_id xs) \<and> sorted (map rq_VRF xs) \<and>
        cm_Shards m = [\<lparr>sh_ID = topic, sh_LeaderID = req_id (hd xs), sh_Member = map (wnode_of \<circ> rq_Node) xs\<rparr>])"

definition msg_key :: "CommitteeMsg \<Rightarrow> u32 \<times> string list" where
  "msg_key m = (cm_RoundNum m, map sh_ID (cm_Shards m))"

definition task_ok :: "('pk, 'sg) bls_lib \<Rightarrow> u32 set \<Rightarrow> CommitteeMsg list \<Rightarrow> ms_task \<Rightarrow> bool" where
  "task_ok B committed sent t = (case t of
     Publish r reqs \<Rightarrow> reqs \<noteq> [] \<and> reqs_ok B reqs \<and> r \<in> committed \<and> (\<forall>m \<in> set sent. cm_RoundNum m \<noteq> r)
   | _ \<Rightarrow> True)"

definition ms_inv :: "('pk, 'sg) bls_lib \<Rightarrow> string list \<Rightarrow> Msp \<Rightarrow> bool" where
  "ms_inv B topics st \<longleftrightarrow>
     (\<forall>r. reqs_ok B (queue st r)) \<and>
     (\<forall>t \<in> set (ms_tasks st). task_ok B (ms_roundCommitted st) (ms_sent st) t) \<and>
     distinct (concat (map publishing (ms_tasks st))) \<and>
     (\<forall>m \<in> set (ms_sent st). committee_ok B topics m \<and> cm_RoundNum m \<in> ms_roundCommitted st) \<and>
     distinct (map msg_key (ms_sent st))"

lemma ms_inv_init: "ms_inv B topics ms_init"
  by (simp add: ms_inv_def ms_init_def queue_def reqs_ok_def)

text \<open>Steps that change only the queue of the current round, timers or the round number.\<close>

lemma ms_inv_same:
  assumes "ms_inv B topics st" and "\<And>r. reqs_ok B (queue st' r)"
    and "ms_tasks st' = ms_tasks st" and "ms_roundCommitted st' = ms_roundCommitted st" and "ms_sent st' = ms_sent st"
  shows "ms_inv B topics st'"
  using assms by (simp add: ms_inv_def)

lemma ms_inv_task:
  assumes "ms_inv B topics st" and "task_ok B (ms_roundCommitted st) (ms_sent st) t" and "publishing t = []"
  shows "ms_inv B topics (st\<lparr>ms_tasks := ms_tasks st @ [t]\<rparr>)"
  using assms by (auto simp: ms_inv_def queue_def)

subsection \<open>Requests\<close>

definition req_inv :: "('pk, 'sg) bls_lib \<Rightarrow> Msp \<Rightarrow> Msp \<times> string set \<Rightarrow> bool" where
  "req_inv B st0 = (\<lambda>(st, existing). (\<exists>q. st = st0\<lparr>ms_requestQueue := q\<rparr>) \<and> (\<forall>r. reqs_ok B (queue st r)) \<and>
     existing = req_id ` set (queue st (ms_currentRound st0)) \<and> (\<forall>r. \<exists>more. queue st r = queue st0 r @ more))"

lemma queue_upd [simp]:
  "queue (st\<lparr>ms_requestQueue := (ms_requestQueue st)(c \<mapsto> q)\<rparr>) r = (if r = c then q else queue st r)"
  by (simp add: queue_def)

lemma reqs_ok_snoc: "reqs_ok B (q @ [x]) \<longleftrightarrow> reqs_ok B q \<and> valid_req B x \<and> req_id x \<notin> req_id ` set q"
  by (auto simp: reqs_ok_def)

lemma req_inv_refl:
  "(\<And>r. reqs_ok B (queue st r)) \<Longrightarrow> c = ms_currentRound st \<Longrightarrow> req_inv B st (st, set (map req_id (queue st c)))"
  unfolding req_inv_def prod.case by (intro conjI exI [of _ "ms_requestQueue st"]) simp_all

text \<open>What one node of a request does: nothing, or its request is appended.\<close>

lemma add_request_cases:
  obtains "add_request B node (st, existing) = (st, existing)"
  | x where "n_NodeID node \<notin> existing" and "rq_Node x = node" and "valid_req B x"
    and "add_request B node (st, existing) =
      (st\<lparr>ms_requestQueue := (ms_requestQueue st)(ms_currentRound st \<mapsto> queue st (ms_currentRound st) @ [x])\<rparr>,
       insert (req_id x) existing)"
proof (cases "add_request B node (st, existing) = (st, existing)")
  case False
  then obtain pk v where "n_NodeID node \<notin> existing" "pk_Deserialize B (n_Publickey node) = Some pk"
    "VerifyVRF B (n_Seed node) (n_Proof node) pk = Some v"
    by (auto simp: add_request_def split: option.splits if_splits)
  then show thesis
    by (intro that(2) [of "\<lparr>rq_Node = node, rq_VRF = v\<rparr>"]) (auto simp: add_request_def valid_req_def)
qed (rule that)

lemma add_request_inv:
  assumes "req_inv B st0 s"
  shows "req_inv B st0 (add_request B node s)"
proof -
  obtain st existing where s: "s = (st, existing)" by (cases s)
  from assms obtain q where st: "st = st0\<lparr>ms_requestQueue := q\<rparr>" and ok: "\<forall>r. reqs_ok B (queue st r)"
    and ex: "existing = req_id ` set (queue st (ms_currentRound st0))"
    and more: "\<forall>r. \<exists>more. queue st r = queue st0 r @ more"
    unfolding s req_inv_def prod.case by (elim exE conjE) (rule that; assumption)
  have cur: "ms_currentRound st = ms_currentRound st0" by (simp add: st)
  show ?thesis
  proof (cases rule: add_request_cases [of B node st existing])
    case 1
    then show ?thesis using assms by (simp add: s)
  next
    case (2 x)
    let ?st = "st\<lparr>ms_requestQueue := (ms_requestQueue st)(ms_currentRound st \<mapsto> queue st (ms_currentRound st) @ [x])\<rparr>"
    have "\<exists>q. ?st = st0\<lparr>ms_requestQueue := q\<rparr>" by (auto simp: st)
    moreover have "\<forall>r. reqs_ok B (queue ?st r)" using 2 ok by (simp add: reqs_ok_snoc ex cur)
    moreover have "\<forall>r. \<exists>more. queue ?st r = queue st0 r @ more"
      using more by (metis append.assoc queue_upd)
    ultimately show ?thesis unfolding s 2(4) req_inv_def prod.case by (simp add: ex cur)
  qed
qed

lemma add_requests_inv: "req_inv B st0 s \<Longrightarrow> req_inv B st0 (fold (add_request B) nodes s)"
proof (induction nodes arbitrary: s)
  case (Cons node nodes)
  show ?case using Cons.IH [OF add_request_inv [OF Cons.prems]] by simp
qed simp

text \<open>
  What a request message does: the round may start, the queues only grow, a timer for the current round
  may start.
\<close>

lemma HandleMembershipRequest_effect:
  assumes ok: "\<And>r. reqs_ok B (queue st r)"
  obtains q' timers' next' rt' set' where
    "HandleMembershipRequest B nodes now st = st\<lparr>ms_requestQueue := q',
       ms_currentRound := (if ms_roundActive st then ms_currentRound st else round_of now), ms_roundActive := True,
       ms_timers := timers', ms_nextTimer := next', ms_roundTimers := rt', ms_roundTimerSet := set'\<rparr>"
    and "\<And>r. reqs_ok B (queue (HandleMembershipRequest B nodes now st) r)"
    and "\<And>r. \<exists>more. queue (HandleMembershipRequest B nodes now st) r = queue st r @ more"
    and "set (map snd timers') \<subseteq> insert (if ms_roundActive st then ms_currentRound st else round_of now)
           (set (map snd (ms_timers st)))"
proof -
  let ?r = "if ms_roundActive st then ms_currentRound st else round_of now"
  define st0 where "st0 = st\<lparr>ms_currentRound := ?r, ms_roundActive := True\<rparr>"
  have start: "(if \<not> ms_roundActive st then st\<lparr>ms_currentRound := round_of now, ms_roundActive := True\<rparr> else st) = st0"
    by (cases st) (simp add: st0_def)
  obtain st1 ex where f: "fold (add_request B) nodes (st0, set (map req_id (queue st0 ?r))) = (st1, ex)"
    by (cases "fold (add_request B) nodes (st0, set (map req_id (queue st0 ?r)))")
  have q0: "queue st0 r = queue st r" for r by (simp add: queue_def st0_def)
  have "req_inv B st0 (st0, set (map req_id (queue st0 ?r)))"
    by (rule req_inv_refl) (simp_all only: q0 ok, simp add: st0_def)
  from add_requests_inv [OF this, of nodes] obtain q where st1: "st1 = st0\<lparr>ms_requestQueue := q\<rparr>"
    and ok1: "\<forall>r. reqs_ok B (queue st1 r)" and more: "\<forall>r. \<exists>more. queue st1 r = queue st0 r @ more"
    unfolding f req_inv_def prod.case by (elim exE conjE) (rule that; assumption)
  have cur: "ms_currentRound st0 = ?r" "ms_currentRound st1 = ?r" by (simp_all add: st0_def st1)
  have eq: "HandleMembershipRequest B nodes now st =
      (if minCommitteeSize \<le> length (queue st1 ?r) \<and> ?r \<notin> ms_roundTimerSet st1
       then (startCommitteeTimer ?r st1)\<lparr>ms_roundTimerSet := insert ?r (ms_roundTimerSet st1)\<rparr> else st1)"
    using f unfolding HandleMembershipRequest_def start Let_def cur(1)
    by (simp add: cur(2) startCommitteeTimer_def comp_def)
  have queue: "queue (HandleMembershipRequest B nodes now st) r = queue st1 r" for r
    by (simp add: eq startCommitteeTimer_def queue_def)
  let ?s = "HandleMembershipRequest B nodes now st"
  show thesis
  proof (rule that [where q' = "ms_requestQueue ?s" and timers' = "ms_timers ?s"
      and next' = "ms_nextTimer ?s" and rt' = "ms_roundTimers ?s" and set' = "ms_roundTimerSet ?s"])
    show "?s = st\<lparr>ms_requestQueue := ms_requestQueue ?s, ms_currentRound := ?r, ms_roundActive := True,
       ms_timers := ms_timers ?s, ms_nextTimer := ms_nextTimer ?s, ms_roundTimers := ms_roundTimers ?s,
       ms_roundTimerSet := ms_roundTimerSet ?s\<rparr>"
      unfolding eq by (simp add: startCommitteeTimer_def st1 st0_def)
    show "reqs_ok B (queue ?s r)" for r using ok1 by (simp add: queue)
    show "\<exists>more. queue ?s r = queue st r @ more" for r using more by (simp add: queue q0)
    show "set (map snd (ms_timers ?s)) \<subseteq> insert ?r (set (map snd (ms_timers st)))"
      by (auto simp: eq startCommitteeTimer_def st1 st0_def)
  qed
qed

lemma ms_inv_request: "ms_inv B topics st \<Longrightarrow> ms_inv B topics (HandleMembershipRequest B nodes now st)"
proof (rule HandleMembershipRequest_effect [of B st nodes now])
  show "reqs_ok B (queue st r)" if "ms_inv B topics st" for r using that by (simp add: ms_inv_def)
qed (rule ms_inv_same [of B topics st]; simp)

subsection \<open>Tasks\<close>

lemma queue_other [simp]:
  "queue (st\<lparr>ms_tasks := ts\<rparr>) = queue st" "queue (st\<lparr>ms_sent := ms\<rparr>) = queue st"
  "queue (st\<lparr>ms_roundActive := a\<rparr>) = queue st" "queue (st\<lparr>ms_timers := us\<rparr>) = queue st"
  "queue (st\<lparr>ms_roundCommitted := c\<rparr>) = queue st"
  by (simp_all add: fun_eq_iff queue_def)

text \<open>Removing a task; what is known of a committee that is to be published.\<close>

lemma ms_inv_drop:
  assumes "ms_inv B topics st" and "ms_tasks st = ts @ t # us"
  shows "ms_inv B topics (st\<lparr>ms_tasks := ts @ us\<rparr>)"
  using assms by (auto simp: ms_inv_def)

lemma ms_inv_publish_only:
  assumes "ms_inv B topics st" and "ms_tasks st = ts @ Publish r reqs # us"
  shows "reqs \<noteq> [] \<and> reqs_ok B reqs \<and> r \<in> ms_roundCommitted st \<and> (\<forall>m \<in> set (ms_sent st). cm_RoundNum m \<noteq> r) \<and>
    (\<forall>t \<in> set (ts @ us). r \<notin> set (publishing t))"
  using assms by (auto simp: ms_inv_def task_ok_def)

text \<open>The message for a topic, and the messages of a round.\<close>

abbreviation msg_of :: "(RoundRequest list \<Rightarrow> RoundRequest list) \<Rightarrow> u32 \<Rightarrow> RoundRequest list \<Rightarrow> string \<Rightarrow> CommitteeMsg" where
  "msg_of ord r reqs topic \<equiv> \<lparr>cm_Type = 1, cm_RoundNum = r,
     cm_Shards = [\<lparr>sh_ID = topic, sh_LeaderID = req_id (hd (selected ord reqs)),
       sh_Member = map (wnode_of \<circ> rq_Node) (selected ord reqs)\<rparr>]\<rparr>"

lemma publish_committees_ok:
  "reqs \<noteq> [] \<Longrightarrow> publish_committees ord topics r reqs st =
     Inr (st\<lparr>ms_sent := ms_sent st @ map (msg_of ord r reqs) topics\<rparr>)"
  unfolding publish_committees_def
  by (induction topics arbitrary: st) (simp_all add: committee_msg_ok)

lemma msg_of_ok:
  assumes "reqs \<noteq> []" and "reqs_ok B reqs" and "topic \<in> set topics"
  shows "committee_ok B topics (msg_of ord r reqs topic)"
proof -
  let ?xs = "selected ord reqs"
  have "?xs \<noteq> []" using assms(1) by (simp add: selected_def) (metis length_0_conv sort_Slice_length)
  moreover have "length ?xs \<le> 20" by (simp add: selected_def)
  moreover have "\<forall>x \<in> set ?xs. valid_req B x"
    using assms(2) unfolding selected_def reqs_ok_def by (metis in_set_takeD sort_Slice_set)
  moreover have "distinct (map req_id ?xs)"
    using assms(2) sort_Slice_distinct [of req_id rq_VRF ord reqs] by (simp add: selected_def reqs_ok_def flip: take_map)
  moreover have "sorted (map rq_VRF ?xs)"
    using sort_Slice_sorted [of rq_VRF ord reqs] by (simp add: selected_def sorted_wrt_take flip: take_map)
  ultimately show ?thesis
    unfolding committee_ok_def using assms(3) by (intro conjI bexI [of _ topic] exI [of _ ?xs]) simp_all
qed

text \<open>\<open>BuildCommittee\<close>, first part: the round is committed and its requests leave the queue.\<close>

lemma build_take_effect:
  obtains "build_take r st = st" and "r \<in> ms_roundCommitted st"
  | q' timers' rt' set' where "r \<notin> ms_roundCommitted st" and "build_take r st = st\<lparr>ms_requestQueue := q',
       ms_roundCommitted := insert r (ms_roundCommitted st), ms_timers := timers', ms_roundTimers := rt',
       ms_roundTimerSet := set',
       ms_tasks := ms_tasks st @ (if queue st r = [] then [] else [Publish r (queue st r)])\<rparr>"
    and "queue (build_take r st) = (queue st)(r := [])" and "set timers' \<subseteq> set (ms_timers st)"
proof (cases "r \<in> ms_roundCommitted st")
  case True
  then show thesis by (intro that(1)) (simp_all add: build_take_def)
next
  case False
  let ?s = "build_take r st"
  show thesis
    by (rule that(2) [where q' = "ms_requestQueue ?s" and timers' = "ms_timers ?s"
        and rt' = "ms_roundTimers ?s" and set' = "ms_roundTimerSet ?s"])
      (use False in \<open>auto simp: build_take_def cancelRoundTimer_def Let_def queue_def fun_eq_iff split: option.splits\<close>)
qed

lemma ms_inv_take:
  assumes "ms_inv B topics st"
  shows "ms_inv B topics (build_take r st)"
proof (rule build_take_effect [of r st])
  fix q' timers' rt' set'
  assume new: "r \<notin> ms_roundCommitted st" and q: "queue (build_take r st) = (queue st)(r := [])"
    and eq: "build_take r st = st\<lparr>ms_requestQueue := q',
       ms_roundCommitted := insert r (ms_roundCommitted st), ms_timers := timers', ms_roundTimers := rt',
       ms_roundTimerSet := set',
       ms_tasks := ms_tasks st @ (if queue st r = [] then [] else [Publish r (queue st r)])\<rparr>"
  from assms have inv: "\<And>r. reqs_ok B (queue st r)"
    "\<And>t. t \<in> set (ms_tasks st) \<Longrightarrow> task_ok B (ms_roundCommitted st) (ms_sent st) t"
    "distinct (concat (map publishing (ms_tasks st)))"
    "\<And>m. m \<in> set (ms_sent st) \<Longrightarrow> committee_ok B topics m \<and> cm_RoundNum m \<in> ms_roundCommitted st"
    "distinct (map msg_key (ms_sent st))"
    by (simp_all add: ms_inv_def)
  have sub: "task_ok B (insert r (ms_roundCommitted st)) (ms_sent st) t" if "t \<in> set (ms_tasks st)" for t
    using inv(2) [OF that] by (auto simp: task_ok_def split: ms_task.splits)
  have fresh: "r \<notin> set (publishing t)" if "t \<in> set (ms_tasks st)" for t
    using inv(2) [OF that] new by (cases t) (auto simp: task_ok_def)
  have "task_ok B (insert r (ms_roundCommitted st)) (ms_sent st) (Publish r (queue st r))" if "queue st r \<noteq> []"
    using that inv(1) [of r] inv(4) new by (auto simp: task_ok_def)
  with sub have "\<forall>t \<in> set (ms_tasks (build_take r st)). task_ok B (insert r (ms_roundCommitted st)) (ms_sent st) t"
    by (auto simp: eq)
  moreover have "distinct (concat (map publishing (ms_tasks (build_take r st))))"
    using inv(3) fresh by (auto simp: eq)
  moreover have "reqs_ok B (queue (build_take r st) r')" for r'
    using inv(1) [of r'] by (simp add: q reqs_ok_def)
  ultimately show ?thesis using inv(4,5) unfolding ms_inv_def by (simp add: eq)
qed (use assms in simp)

text \<open>The committees of a round go out once, and only when none of the round has gone out.\<close>

lemma ms_inv_sent:
  assumes inv: "ms_inv B topics st" and tasks: "ms_tasks st = ts @ Publish r reqs # us" and "distinct topics"
  shows "ms_inv B topics (st\<lparr>ms_tasks := ts @ us, ms_sent := ms_sent st @ map (msg_of ord r reqs) topics\<rparr>)"
proof -
  note only = ms_inv_publish_only [OF inv tasks]
  from ms_inv_drop [OF inv tasks] have rest: "\<And>r. reqs_ok B (queue st r)"
    "\<And>t. t \<in> set (ts @ us) \<Longrightarrow> task_ok B (ms_roundCommitted st) (ms_sent st) t"
    "distinct (concat (map publishing (ts @ us)))"
    "\<And>m. m \<in> set (ms_sent st) \<Longrightarrow> committee_ok B topics m \<and> cm_RoundNum m \<in> ms_roundCommitted st"
    "distinct (map msg_key (ms_sent st))"
    unfolding ms_inv_def by simp_all
  have "task_ok B (ms_roundCommitted st) (ms_sent st @ map (msg_of ord r reqs) topics) t" if "t \<in> set (ts @ us)" for t
  proof -
    have "r \<notin> set (publishing t)" using only that by blast
    then show ?thesis using rest(2) [OF that] by (cases t) (auto simp: task_ok_def)
  qed
  moreover have "distinct (map msg_key (ms_sent st @ map (msg_of ord r reqs) topics))"
    using rest(5) only assms(3) by (auto simp: distinct_map msg_key_def intro!: inj_onI)
  moreover have "committee_ok B topics m \<and> cm_RoundNum m \<in> ms_roundCommitted st"
    if "m \<in> set (ms_sent st @ map (msg_of ord r reqs) topics)" for m
    using that rest(4) only by (auto intro: msg_of_ok)
  ultimately show ?thesis using rest(1,3) unfolding ms_inv_def by simp
qed

lemma ms_inv_finish:
  assumes "ms_inv B topics st"
  shows "ms_inv B topics (build_finish now st)"
proof (rule ms_inv_same [OF assms])
  show "reqs_ok B (queue (build_finish now st) r)" for r
    using assms by (simp add: build_finish_def startCommitteeTimer_def ms_inv_def Let_def queue_def)
qed (simp_all add: build_finish_def startCommitteeTimer_def Let_def)

lemma ms_inv_fired:
  assumes "ms_inv B topics st"
  shows "ms_inv B topics (timer_fired r st)"
proof -
  have "ms_inv B topics (st\<lparr>ms_roundActive := False\<rparr>)"
    using assms by (rule ms_inv_same) (use assms in \<open>simp_all add: ms_inv_def\<close>)
  moreover have "ms_inv B topics (st\<lparr>ms_tasks := ms_tasks st @ [Build r]\<rparr>)"
    using assms by (rule ms_inv_task) (simp_all add: task_ok_def)
  ultimately show ?thesis using assms by (simp add: timer_fired_def)
qed

text \<open>A task does its work, and none panics.\<close>

lemma ms_run_ok:
  assumes inv: "ms_inv B topics st" and tasks: "ms_tasks st = ts @ t # us" and "distinct topics"
  shows "\<exists>st'. ms_run ord topics now t (st\<lparr>ms_tasks := ts @ us\<rparr>) = Inr st' \<and> ms_inv B topics st'"
proof (cases t)
  case (Fired r)
  with ms_inv_fired [OF ms_inv_drop [OF inv tasks]] show ?thesis by simp
next
  case (Build r)
  with ms_inv_take [OF ms_inv_drop [OF inv tasks]] show ?thesis by simp
next
  case (Publish r reqs)
  let ?st = "st\<lparr>ms_tasks := ts @ us, ms_sent := ms_sent st @ map (msg_of ord r reqs) topics\<rparr>"
  have "ms_inv B topics (?st\<lparr>ms_tasks := ms_tasks ?st @ [Finish]\<rparr>)"
    using ms_inv_sent [OF inv tasks [unfolded Publish] assms(3)] by (rule ms_inv_task) (simp_all add: task_ok_def)
  then show ?thesis using ms_inv_publish_only [OF inv tasks [unfolded Publish]]
    by (simp add: Publish publish_committees_ok)
next
  case Finish
  with ms_inv_finish [OF ms_inv_drop [OF inv tasks]] show ?thesis by simp
qed

lemma ms_inv_step: "distinct topics \<Longrightarrow> ms_inv B topics st \<Longrightarrow> ms_step B ord topics st st' \<Longrightarrow> ms_inv B topics st'"
proof (erule ms_step.cases)
  fix st1 ts and i :: nat and r us
  assume "ms_inv B topics st" and "st = st1" "st' = st1\<lparr>ms_timers := ts @ us, ms_tasks := ms_tasks st1 @ [Fired r]\<rparr>"
  then show "ms_inv B topics st'" by (auto simp: ms_inv_def task_ok_def)
next
  fix st1 ts t us now st2
  assume "distinct topics" "ms_inv B topics st" "st = st1" "st' = st2" "ms_tasks st1 = ts @ t # us"
    "ms_run ord topics now t (st1\<lparr>ms_tasks := ts @ us\<rparr>) = Inr st2"
  then show "ms_inv B topics st'" using ms_run_ok [of B topics st1 ts t us ord now] by auto
qed (auto intro: ms_inv_request)

interpretation committees: machine "ms_step B ord topics" "\<lambda>st. ms_inv B topics st \<and> distinct topics"
  by unfold_locales (auto intro: ms_inv_step)

lemma ms_reachable: "distinct topics \<Longrightarrow> (ms_step B ord topics)\<^sup>*\<^sup>* ms_init st \<Longrightarrow> ms_inv B topics st"
  using committees.inv_steps [of B ord topics ms_init st] ms_inv_init by blast

lemma distinct_key_same: "distinct (map f xs) \<Longrightarrow> x \<in> set xs \<Longrightarrow> y \<in> set xs \<Longrightarrow> f x = f y \<Longrightarrow> x = y"
  by (simp add: distinct_map inj_on_def)

text \<open>
  C10: In every state the service reaches, whatever requests come and however timers and goroutines take
  turns: every committee message that was published is of type 1 and has one shard, for one of the
  topics, with between one and twenty members of distinct identities, each with a key that parses
  and a proof that was verified against its seed, in the order of the values of their proofs, the first
  one being the leader; two messages for the same round and topic are the same message; and the task that
  gets its turn never panics.
\<close>

theorem committees_valid:
  assumes "distinct topics" and "(ms_step B ord topics)\<^sup>*\<^sup>* ms_init st"
  shows "(\<forall>m \<in> set (ms_sent st). cm_Type m = 1 \<and> (\<exists>topic \<in> set topics. \<exists>ns vs.
       cm_Shards m = [\<lparr>sh_ID = topic, sh_LeaderID = n_NodeID (hd ns), sh_Member = map wnode_of ns\<rparr>] \<and>
       0 < length ns \<and> length ns \<le> 20 \<and> distinct (map n_NodeID ns) \<and> sorted vs \<and>
       list_all2 (\<lambda>n v. \<exists>pk. pk_Deserialize B (n_Publickey n) = Some pk \<and>
         VerifyVRF B (n_Seed n) (n_Proof n) pk = Some v) ns vs)) \<and>
     (\<forall>i < length (ms_sent st). \<forall>j < length (ms_sent st).
       cm_RoundNum (ms_sent st ! i) = cm_RoundNum (ms_sent st ! j) \<and>
       map sh_ID (cm_Shards (ms_sent st ! i)) = map sh_ID (cm_Shards (ms_sent st ! j)) \<longrightarrow> i = j) \<and>
     (\<forall>ts t us now. ms_tasks st = ts @ t # us \<longrightarrow> (\<exists>st'. ms_run ord topics now t (st\<lparr>ms_tasks := ts @ us\<rparr>) = Inr st'))"
proof (intro conjI ballI allI impI)
  note inv = ms_reachable [OF assms]
  fix m assume "m \<in> set (ms_sent st)"
  with inv have ok: "committee_ok B topics m" by (simp add: ms_inv_def)
  then show "cm_Type m = 1" by (simp add: committee_ok_def)
  from ok obtain topic xs where "topic \<in> set topics" "xs \<noteq> []" "length xs \<le> 20" "\<forall>x \<in> set xs. valid_req B x"
    "distinct (map req_id xs)" "sorted (map rq_VRF xs)"
    "cm_Shards m = [\<lparr>sh_ID = topic, sh_LeaderID = req_id (hd xs), sh_Member = map (wnode_of \<circ> rq_Node) xs\<rparr>]"
    unfolding committee_ok_def by blast
  then show "\<exists>topic \<in> set topics. \<exists>ns vs.
       cm_Shards m = [\<lparr>sh_ID = topic, sh_LeaderID = n_NodeID (hd ns), sh_Member = map wnode_of ns\<rparr>] \<and>
       0 < length ns \<and> length ns \<le> 20 \<and> distinct (map n_NodeID ns) \<and> sorted vs \<and>
       list_all2 (\<lambda>n v. \<exists>pk. pk_Deserialize B (n_Publickey n) = Some pk \<and>
         VerifyVRF B (n_Seed n) (n_Proof n) pk = Some v) ns vs"
    by (intro bexI [of _ topic] exI [of _ "map rq_Node xs"] exI [of _ "map rq_VRF xs"])
      (simp_all add: hd_map comp_def list.rel_map list_all2_same valid_req_def)
next
  note inv = ms_reachable [OF assms]
  fix i j assume "i < length (ms_sent st)" "j < length (ms_sent st)"
    "cm_RoundNum (ms_sent st ! i) = cm_RoundNum (ms_sent st ! j) \<and>
       map sh_ID (cm_Shards (ms_sent st ! i)) = map sh_ID (cm_Shards (ms_sent st ! j))"
  then show "i = j" using inv nth_eq_iff_index_eq [of "map msg_key (ms_sent st)" i j]
    by (simp add: ms_inv_def msg_key_def)
next
  fix ts t us now assume "ms_tasks st = ts @ t # us"
  then show "\<exists>st'. ms_run ord topics now t (st\<lparr>ms_tasks := ts @ us\<rparr>) = Inr st'"
    using ms_run_ok [OF ms_reachable [OF assms] _ assms(1)] by blast
qed

section \<open>Requests that come after the commit\<close>

text \<open>What cannot change for a round that is committed.\<close>

definition closed_round ::
    "(RoundRequest list \<Rightarrow> RoundRequest list) \<Rightarrow> string list \<Rightarrow> u32 \<Rightarrow> Msp \<Rightarrow> Msp \<Rightarrow> bool" where
  "closed_round ord topics r st st' \<longleftrightarrow> r \<in> ms_roundCommitted st' \<and>
     (\<forall>reqs. Publish r reqs \<in> set (ms_tasks st') \<longrightarrow> Publish r reqs \<in> set (ms_tasks st)) \<and>
     (\<forall>m \<in> set (ms_sent st'). cm_RoundNum m = r \<longrightarrow> m \<in> set (ms_sent st) \<or>
        (\<exists>reqs. \<exists>topic \<in> set topics. Publish r reqs \<in> set (ms_tasks st) \<and> m = msg_of ord r reqs topic)) \<and>
     (\<exists>more. queue st' r = queue st r @ more)"

lemma closed_round_refl: "r \<in> ms_roundCommitted st \<Longrightarrow> closed_round ord topics r st st"
  by (simp add: closed_round_def)

lemma closed_round_mono:
  assumes "closed_round ord topics r st0 st" and "ms_roundCommitted st \<subseteq> ms_roundCommitted st'"
    and "\<And>reqs. Publish r reqs \<in> set (ms_tasks st') \<Longrightarrow> Publish r reqs \<in> set (ms_tasks st)"
    and "ms_sent st' = ms_sent st" and "\<exists>more. queue st' r = queue st r @ more"
  shows "closed_round ord topics r st0 st'"
  using assms by (auto simp: closed_round_def)

lemma closed_round_run:
  assumes inv: "ms_inv B topics st" and tasks: "ms_tasks st = ts @ t # us" and closed: "closed_round ord topics r st0 st"
    and run: "ms_run ord topics now t (st\<lparr>ms_tasks := ts @ us\<rparr>) = Inr st'"
  shows "closed_round ord topics r st0 st'"
proof (cases t)
  case (Fired r')
  then have "st' = timer_fired r' (st\<lparr>ms_tasks := ts @ us\<rparr>)" using run by simp
  then show ?thesis using tasks by (intro closed_round_mono [OF closed]) (auto simp: timer_fired_def split: if_splits)
next
  case (Build r')
  then have st': "st' = build_take r' (st\<lparr>ms_tasks := ts @ us\<rparr>)" using run by simp
  show ?thesis
  proof (rule build_take_effect [of r' "st\<lparr>ms_tasks := ts @ us\<rparr>"], goal_cases)
    case 1
    then show ?case using tasks by (intro closed_round_mono [OF closed]) (auto simp: st')
  next
    case (2 q' timers' rt' set')
    have "r' \<noteq> r" using 2(1) closed by (auto simp: closed_round_def)
    moreover have "queue st' r = queue st r" using 2(3) \<open>r' \<noteq> r\<close> by (simp add: st')
    ultimately show ?case using tasks 2(2)
      by (intro closed_round_mono [OF closed]) (auto simp: st' split: if_splits)
  qed
next
  case (Publish r' reqs)
  have reqs: "reqs \<noteq> []" using ms_inv_publish_only [OF inv tasks [unfolded Publish]] by simp
  then have st': "st' = st\<lparr>ms_sent := ms_sent st @ map (msg_of ord r' reqs) topics, ms_tasks := ts @ us @ [Finish]\<rparr>"
    using run by (auto simp: Publish publish_committees_ok)
  note c = closed [unfolded closed_round_def]
  have old: "Publish r reqs \<in> set (ms_tasks st0)" if "r' = r"
    using c tasks that Publish by simp
  show ?thesis unfolding closed_round_def
  proof (intro conjI)
    show "\<forall>m \<in> set (ms_sent st'). cm_RoundNum m = r \<longrightarrow> m \<in> set (ms_sent st0) \<or>
        (\<exists>reqs. \<exists>topic \<in> set topics. Publish r reqs \<in> set (ms_tasks st0) \<and> m = msg_of ord r reqs topic)"
    proof (intro ballI impI)
      fix m assume m: "m \<in> set (ms_sent st')" "cm_RoundNum m = r"
      show "m \<in> set (ms_sent st0) \<or>
        (\<exists>reqs. \<exists>topic \<in> set topics. Publish r reqs \<in> set (ms_tasks st0) \<and> m = msg_of ord r reqs topic)"
      proof (cases "m \<in> set (ms_sent st)")
        case True
        then show ?thesis using c m(2) by blast
      next
        case False
        then obtain topic where "topic \<in> set topics" "m = msg_of ord r' reqs topic" using m(1) by (auto simp: st')
        then show ?thesis using old m(2) by auto
      qed
    qed
    show "\<forall>reqs. Publish r reqs \<in> set (ms_tasks st') \<longrightarrow> Publish r reqs \<in> set (ms_tasks st0)"
      using c tasks by (simp add: st')
  qed (use c in \<open>simp_all add: st'\<close>)
next
  case Finish
  then have "st' = build_finish now (st\<lparr>ms_tasks := ts @ us\<rparr>)" using run by simp
  then show ?thesis using tasks
    by (intro closed_round_mono [OF closed])
      (auto simp: build_finish_def startCommitteeTimer_def Let_def queue_def)
qed

lemma closed_round_step:
  assumes "distinct topics" and inv: "ms_inv B topics st" and closed: "closed_round ord topics r st0 st"
    and step: "ms_step B ord topics st st'"
  shows "closed_round ord topics r st0 st'"
  using step
proof cases
  case (request nodes now)
  have ok: "reqs_ok B (queue st r)" for r using inv by (simp add: ms_inv_def)
  show ?thesis
    by (rule HandleMembershipRequest_effect [OF ok, of nodes now])
      (rule closed_round_mono [OF closed]; simp add: request)
next
  case (expire ts i r' us)
  then show ?thesis by (intro closed_round_mono [OF closed]) auto
next
  case (task ts t us now)
  then show ?thesis by (intro closed_round_run [OF inv _ closed])
qed

interpretation closed: machine "ms_step B ord topics"
    "\<lambda>st. distinct topics \<and> ms_inv B topics st \<and> closed_round ord topics r st0 st"
  by unfold_locales (blast intro: closed_round_step ms_inv_step)

lemma closed_round_reachable:
  assumes "distinct topics" and "(ms_step B ord topics)\<^sup>*\<^sup>* ms_init st" and "r \<in> ms_roundCommitted st"
    and "(ms_step B ord topics)\<^sup>*\<^sup>* st st'"
  shows "closed_round ord topics r st st'"
  using closed.inv_steps [OF assms(4), of r st] ms_reachable [OF assms(1,2)] closed_round_refl [OF assms(3)] assms(1)
  by simp

text \<open>A request whose proof verifies, from a node that is not in the queue yet, is queued for the current round,
  whether that round is committed or not.\<close>

lemma active_request_queued:
  assumes "ms_roundActive st" and "ms_currentRound st = r" and "valid_req B x" and "req_id x \<notin> req_id ` set (queue st r)"
  shows "queue (HandleMembershipRequest B [rq_Node x] now st) r = queue st r @ [x]"
proof -
  let ?st = "st\<lparr>ms_requestQueue := (ms_requestQueue st)(r \<mapsto> queue st r @ [x])\<rparr>"
  have x: "\<lparr>rq_Node = rq_Node x, rq_VRF = rq_VRF x\<rparr> = x" by simp
  then have "add_request B (rq_Node x) (st, req_id ` set (queue st r)) = (?st, insert (req_id x) (req_id ` set (queue st r)))"
    using assms by (auto simp: add_request_def valid_req_def x)
  then show ?thesis
    using assms(1,2) by (simp add: HandleMembershipRequest_def startCommitteeTimer_def comp_def queue_def [of _ r])
qed

text \<open>
  C26: Once a round is committed, its committees are fixed: whatever is published for it later is formed from
  the requests that were taken at the commit. A valid request that arrives after the commit, while the
  committees are still being published and the round number has not moved on, is put into the queue of
  the committed round all the same, unless its node has one there: it is never taken out, and no committee of that round is formed from it.
\<close>

theorem late_requests_stranded:
  assumes "distinct topics" and "(ms_step B ord topics)\<^sup>*\<^sup>* ms_init st" and "r \<in> ms_roundCommitted st"
    and "(ms_step B ord topics)\<^sup>*\<^sup>* st st'"
  shows "(ms_roundActive st \<and> ms_currentRound st = r \<and> valid_req B x \<and> req_id x \<notin> req_id ` set (queue st r) \<longrightarrow>
       queue (HandleMembershipRequest B [rq_Node x] now st) r = queue st r @ [x]) \<and>
     (\<exists>more. queue st' r = queue st r @ more) \<and>
     (\<forall>m \<in> set (ms_sent st'). cm_RoundNum m = r \<longrightarrow> m \<in> set (ms_sent st) \<or>
        (\<exists>reqs. \<exists>topic \<in> set topics. Publish r reqs \<in> set (ms_tasks st) \<and> committee_msg ord r reqs topic = Inr m))"
proof -
  have "committee_msg ord r reqs topic = Inr (msg_of ord r reqs topic)" if task: "Publish r reqs \<in> set (ms_tasks st)" for reqs topic
  proof -
    from split_list [OF task] obtain ts us where "ms_tasks st = ts @ Publish r reqs # us" by blast
    from ms_inv_publish_only [OF ms_reachable [OF assms(1,2)] this] show ?thesis by (simp add: committee_msg_ok)
  qed
  with closed_round_reachable [OF assms] active_request_queued [of st r B x now] show ?thesis
    unfolding closed_round_def by metis
qed

section \<open>A round number that was used before\<close>

definition wedged :: "u32 \<Rightarrow> u32 set \<Rightarrow> CommitteeMsg list \<Rightarrow> Msp \<Rightarrow> bool" where
  "wedged r committed sent st \<longleftrightarrow> ms_roundActive st \<and> ms_currentRound st = r \<and> r \<in> committed \<and>
     ms_roundCommitted st = committed \<and> ms_sent st = sent \<and> snd ` set (ms_timers st) \<subseteq> committed \<and>
     set (ms_tasks st) \<subseteq> Fired ` committed"

lemma HandleMembershipRequest_wedged: "wedged r committed sent st \<Longrightarrow> wedged r committed sent (HandleMembershipRequest B nodes now st)"
proof -
  assume w: "wedged r committed sent st"
  have frame: "\<exists>q. fst (fold (add_request B) nodes s) = (fst s)\<lparr>ms_requestQueue := q\<rparr>" for s
  proof (induction nodes arbitrary: s)
    case Nil
    show ?case by (intro exI [of _ "ms_requestQueue (fst s)"]) simp
  next
    case (Cons node nodes)
    have "\<exists>q. fst (add_request B node s) = (fst s)\<lparr>ms_requestQueue := q\<rparr>"
      by (cases s, rule add_request_cases [of B node "fst s" "snd s"])
        (auto intro: exI [of _ "ms_requestQueue (fst s)"])
    with Cons [of "add_request B node s"] show ?case by auto
  qed
  obtain st1 ex where f: "fold (add_request B) nodes (st, set (map req_id (queue st (ms_currentRound st)))) = (st1, ex)"
    by (cases "fold (add_request B) nodes (st, set (map req_id (queue st (ms_currentRound st))))")
  with frame [of "(st, set (map req_id (queue st (ms_currentRound st))))"] obtain q where "st1 = st\<lparr>ms_requestQueue := q\<rparr>"
    by auto
  with w f show ?thesis
    by (auto simp: wedged_def HandleMembershipRequest_def startCommitteeTimer_def comp_def)
qed

lemma wedged_step:
  assumes w: "wedged r committed sent st" and step: "ms_step B ord topics st st'"
  shows "wedged r committed sent st'"
  using step
proof cases
  case (request nodes now)
  then show ?thesis using HandleMembershipRequest_wedged [OF w] by simp
next
  case (expire ts i r' us)
  then show ?thesis using w by (auto simp: wedged_def)
next
  case (task ts t us now)
  then obtain r' where "t = Fired r'" "r' \<in> committed" using w by (auto simp: wedged_def)
  with task w have "st' = st\<lparr>ms_tasks := ts @ us\<rparr>" by (simp add: wedged_def timer_fired_def)
  then show ?thesis using w task(1) by (simp add: wedged_def)
qed

interpretation wedge: machine "ms_step B ord topics" "wedged r committed sent"
  by unfold_locales (rule wedged_step)

text \<open>
  C27: Round numbers are milliseconds cut to 32 bits, and the set of committed rounds is never cleared. When a
  committee has been published, nothing else is under way, and the clock gives the number of a round that
  was committed before (it repeats after some fifty days), the service stops: whatever happens from then
  on, no committee is ever published again and the round number never changes.
\<close>

theorem reused_round_stops_service:
  assumes "ms_tasks st = []" and "snd ` set (ms_timers st) \<subseteq> ms_roundCommitted st"
    and "round_of now \<in> ms_roundCommitted st"
    and "(ms_step B ord topics)\<^sup>*\<^sup>* (build_finish now st) st'"
  shows "ms_sent st' = ms_sent st \<and> ms_currentRound st' = round_of now \<and> ms_roundActive st'"
proof -
  have "wedged (round_of now) (ms_roundCommitted st) (ms_sent st) (build_finish now st)"
    using assms(1-3) by (auto simp: wedged_def build_finish_def startCommitteeTimer_def Let_def)
  from wedge.inv_steps [OF assms(4) this] show ?thesis by (simp add: wedged_def)
qed

section \<open>A run\<close>

text \<open>A library that accepts every key and signature; two nodes ask, a third one after the commit.\<close>

definition demo_bls :: "(unit, unit) bls_lib" where
  "demo_bls = \<lparr>pk_Deserialize = (\<lambda>_. Some ()), sg_Deserialize = (\<lambda>_. Some ()), FastAggregateVerify = (\<lambda>_ _ _. True)\<rparr>"

definition demo_node :: "string \<Rightarrow> Node" where
  "demo_node name = \<lparr>n_NodeID = name, n_Addrs = [], n_Port = ''9000'', n_Publickey = [1], n_Seed = ''seed'',
     n_Proof = (if name = ''a'' then [3] else [2]), n_Value = []\<rparr>"

definition demo_rq :: "string \<Rightarrow> RoundRequest" where
  "demo_rq name = \<lparr>rq_Node = demo_node name, rq_VRF = SetBytes (Sum256 (n_Proof (demo_node name)))\<rparr>"

lemma demo_vrf: "SetBytes (Sum256 [3]) < SetBytes (Sum256 [2])"
  by (simp add: Sum256_2 Sum256_3 SetBytes_def)

lemma demo_verified: "add_request demo_bls (demo_node name) (st, existing) =
    (if name \<in> existing then (st, existing)
     else (st\<lparr>ms_requestQueue := (ms_requestQueue st)(ms_currentRound st \<mapsto> queue st (ms_currentRound st) @ [demo_rq name])\<rparr>,
           insert name existing))"
  by (simp add: add_request_def demo_bls_def demo_node_def VerifyVRF_def demo_rq_def)

definition demo_collected :: Msp where
  "demo_collected = ms_init\<lparr>ms_requestQueue := [0 \<mapsto> [demo_rq ''a'', demo_rq ''b'']], ms_roundActive := True,
     ms_timers := [(0, 0)], ms_roundTimers := [0 \<mapsto> 0], ms_nextTimer := 1, ms_roundTimerSet := {0}\<rparr>"

definition demo_taken :: Msp where
  "demo_taken = ms_init\<lparr>ms_roundActive := True, ms_nextTimer := 1, ms_roundCommitted := {0},
     ms_tasks := [Publish 0 [demo_rq ''a'', demo_rq ''b'']]\<rparr>"

definition demo_late :: Msp where
  "demo_late = demo_taken\<lparr>ms_requestQueue := [0 \<mapsto> [demo_rq ''c'']]\<rparr>"

definition demo_published :: Msp where
  "demo_published = demo_late\<lparr>ms_tasks := [Finish],
     ms_sent := [msg_of id 0 [demo_rq ''a'', demo_rq ''b''] ''audit'']\<rparr>"

lemma demo_collect: "HandleMembershipRequest demo_bls [demo_node ''a'', demo_node ''b''] 0 ms_init = demo_collected"
  by (simp add: HandleMembershipRequest_def demo_verified ms_init_def queue_def round_of_def startCommitteeTimer_def
      minCommitteeSize_def demo_collected_def)

lemma demo_late_request: "HandleMembershipRequest demo_bls [demo_node ''c''] 1 demo_taken = demo_late"
  by (simp add: HandleMembershipRequest_def demo_verified ms_init_def queue_def demo_taken_def demo_late_def
      minCommitteeSize_def)

lemma demo_run_taken: "(ms_step demo_bls id [''audit''])\<^sup>*\<^sup>* ms_init demo_taken"
proof -
  let ?step = "ms_step demo_bls id [''audit'']"
  let ?fired = "demo_collected\<lparr>ms_timers := [], ms_tasks := [Fired 0]\<rparr>"
  let ?build = "demo_collected\<lparr>ms_timers := [], ms_tasks := [Build 0]\<rparr>"
  have "?step ms_init demo_collected"
    using ms_step.request [of demo_bls id "[''audit'']" ms_init "[demo_node ''a'', demo_node ''b'']" 0]
    unfolding demo_collect .
  moreover have "?step demo_collected ?fired"
    using ms_step.expire [of demo_collected "[]" 0 0 "[]"] by (simp add: demo_collected_def ms_init_def)
  moreover have "?step ?fired ?build"
    by (rule ms_step.task [of _ "[]" "Fired 0" "[]" _ _ 0])
      (simp_all add: timer_fired_def demo_collected_def ms_init_def queue_def)
  moreover have "?step ?build demo_taken"
    by (rule ms_step.task [of _ "[]" "Build 0" "[]" _ _ 0])
      (simp_all add: build_take_def cancelRoundTimer_def demo_collected_def demo_taken_def ms_init_def queue_def)
  ultimately show ?thesis by (meson rtranclp.rtrancl_into_rtrancl rtranclp.rtrancl_refl)
qed

lemma demo_run_published: "(ms_step demo_bls id [''audit''])\<^sup>*\<^sup>* demo_late demo_published"
proof (rule r_into_rtranclp, rule ms_step.task [of _ "[]" "Publish 0 [demo_rq ''a'', demo_rq ''b'']" "[]" _ _ 0])
  show "ms_tasks demo_late = [] @ Publish 0 [demo_rq ''a'', demo_rq ''b''] # []"
    by (simp add: demo_late_def demo_taken_def)
qed (simp add: publish_committees_ok demo_published_def demo_late_def demo_taken_def ms_init_def)

lemma demo_run_late: "(ms_step demo_bls id [''audit''])\<^sup>*\<^sup>* ms_init demo_late"
  using demo_run_taken ms_step.request [of demo_bls id "[''audit'']" demo_taken "[demo_node ''c'']" 1]
  unfolding demo_late_request by (rule rtranclp.rtrancl_into_rtrancl)

lemma demo_members:
  "msg_of id 0 [demo_rq ''a'', demo_rq ''b''] ''audit'' = \<lparr>cm_Type = 1, cm_RoundNum = 0,
     cm_Shards = [\<lparr>sh_ID = ''audit'', sh_LeaderID = ''a'', sh_Member = [wnode_of (demo_node ''a''), wnode_of (demo_node ''b'')]\<rparr>]\<rparr>"
proof -
  have "sorted (map rq_VRF [demo_rq ''a'', demo_rq ''b''])"
    using demo_vrf by (simp add: demo_rq_def demo_node_def)
  then have "sort_Slice rq_VRF id [demo_rq ''a'', demo_rq ''b''] = [demo_rq ''a'', demo_rq ''b'']"
    by (simp add: sort_Slice_def)
  then show ?thesis by (simp add: selected_def) (simp add: demo_rq_def demo_node_def)
qed

lemma committees_valid_witness:
  "(ms_step demo_bls id [''audit''])\<^sup>*\<^sup>* ms_init demo_published \<and>
   length (sh_Member (hd (cm_Shards (hd (ms_sent demo_published))))) = 2 \<and>
   cm_Type (hd (ms_sent demo_published)) = 1"
proof -
  have run: "(ms_step demo_bls id [''audit''])\<^sup>*\<^sup>* ms_init demo_published"
    using demo_run_late demo_run_published by (rule rtranclp_trans)
  have sent: "ms_sent demo_published = [msg_of id 0 [demo_rq ''a'', demo_rq ''b''] ''audit'']"
    by (simp add: demo_published_def)
  have "\<forall>m \<in> set (ms_sent demo_published). cm_Type m = 1"
    using committees_valid [of "[''audit'']" demo_bls id demo_published, OF _ run] by simp
  with run show ?thesis unfolding sent demo_members by simp
qed

lemma late_requests_stranded_witness:
  "queue (HandleMembershipRequest demo_bls [demo_node ''c''] 1 demo_taken) 0 = [demo_rq ''c''] \<and>
   (\<exists>more. queue demo_published 0 = [demo_rq ''c''] @ more) \<and> ms_sent demo_late = [] \<and>
   (\<exists>reqs. Publish 0 reqs \<in> set (ms_tasks demo_late) \<and> demo_rq ''c'' \<notin> set reqs \<and>
      committee_msg id 0 reqs ''audit'' = Inr (hd (ms_sent demo_published)))"
proof -
  have r: "0 \<in> ms_roundCommitted demo_late" "queue demo_late 0 = [demo_rq ''c'']" "ms_sent demo_late = []"
    "ms_tasks demo_late = [Publish 0 [demo_rq ''a'', demo_rq ''b'']]"
    by (simp_all add: demo_late_def demo_taken_def queue_def ms_init_def)
  have sent: "ms_sent demo_published = [msg_of id 0 [demo_rq ''a'', demo_rq ''b''] ''audit'']"
    by (simp add: demo_published_def)
  have t: "0 \<in> ms_roundCommitted demo_taken" "queue demo_taken 0 = []" "ms_roundActive demo_taken" "ms_currentRound demo_taken = 0"
    by (simp_all add: demo_taken_def queue_def ms_init_def)
  have x: "valid_req demo_bls (demo_rq ''c'')" "rq_Node (demo_rq ''c'') = demo_node ''c''"
    by (simp_all add: valid_req_def demo_rq_def demo_node_def demo_bls_def VerifyVRF_def)
  have d: "distinct [''audit'']" by simp
  from late_requests_stranded [where x = "demo_rq ''c''" and now = 1, OF d demo_run_taken t(1) rtranclp.rtrancl_refl]
  have "queue (HandleMembershipRequest demo_bls [demo_node ''c''] 1 demo_taken) 0 = [demo_rq ''c'']"
    by (simp add: t x)
  moreover from late_requests_stranded [OF d demo_run_late r(1) demo_run_published]
  have "\<exists>more. queue demo_published 0 = queue demo_late 0 @ more"
    and "\<exists>reqs. Publish 0 reqs \<in> set (ms_tasks demo_late) \<and> committee_msg id 0 reqs ''audit'' = Inr (hd (ms_sent demo_published))"
    by (simp_all add: r(3) sent)
  ultimately show ?thesis by (auto simp: r demo_rq_def demo_node_def)
qed

lemma reused_round_stops_service_witness:
  "ms_sent (build_finish 0 (demo_published\<lparr>ms_tasks := []\<rparr>)) = ms_sent demo_published \<and>
   ms_currentRound (build_finish 4294967296000000 (demo_published\<lparr>ms_tasks := []\<rparr>)) = round_of 0"
proof -
  have r: "round_of 4294967296000000 = 0" "round_of 0 = 0" by (simp_all add: round_of_def)
  have "ms_tasks (demo_published\<lparr>ms_tasks := []\<rparr>) = []"
    "snd ` set (ms_timers (demo_published\<lparr>ms_tasks := []\<rparr>)) \<subseteq> ms_roundCommitted (demo_published\<lparr>ms_tasks := []\<rparr>)"
    "0 \<in> ms_roundCommitted (demo_published\<lparr>ms_tasks := []\<rparr>)"
    by (simp_all add: demo_published_def demo_late_def demo_taken_def ms_init_def)
  note stop = reused_round_stops_service [OF this(1,2), of _ demo_bls id "[''audit'']"]
  show ?thesis using stop [of 0, OF _ rtranclp.rtrancl_refl] stop [of 4294967296000000, OF _ rtranclp.rtrancl_refl]
    \<open>0 \<in> ms_roundCommitted (demo_published\<lparr>ms_tasks := []\<rparr>)\<close> by (simp add: r)
qed

section \<open>The node list\<close>

abbreviation node_ids :: "Node list \<Rightarrow> string list" where
  "node_ids ns \<equiv> map n_NodeID ns"

definition vd_empty :: Validator where
  "vd_empty = \<lparr>vd_Nodes = [], vd_NodeMetaMap = Map.empty\<rparr>"

text \<open>The nodes have distinct identities, and a time is kept for exactly these.\<close>

definition vd_ok :: "Validator \<Rightarrow> bool" where
  "vd_ok v \<longleftrightarrow> distinct (node_ids (vd_Nodes v)) \<and> dom (vd_NodeMetaMap v) = set (node_ids (vd_Nodes v))"

inductive vd_step :: "Validator \<Rightarrow> Validator \<Rightarrow> bool" where
  update: "vd_step v (UpdateNode node now v)"
| tick: "vd_step v (RemoveDeadNodes now v)"

lemma replace_node_None: "replace_node node ns = None \<longleftrightarrow> n_NodeID node \<notin> set (node_ids ns)"
  by (induction ns) auto

lemma replace_node_Some:
  "replace_node node ns = Some ns' \<Longrightarrow> distinct (node_ids ns) \<Longrightarrow>
     n_NodeID node \<in> set (node_ids ns) \<and> node_ids ns' = node_ids ns \<and>
     set ns' = insert node {n \<in> set ns. n_NodeID n \<noteq> n_NodeID node}"
proof (induction ns arbitrary: ns')
  case (Cons n ns)
  show ?case
  proof (cases "n_NodeID n = n_NodeID node")
    case True
    with Cons.prems have ns': "ns' = node # ns" by simp
    have "n_NodeID m \<noteq> n_NodeID node" if "m \<in> set ns" for m using Cons.prems(2) that
      unfolding True [symmetric] by (metis distinct.simps(2) image_eqI list.set_map list.simps(9))
    then show ?thesis using True by (auto simp: ns')
  next
    case False
    with Cons.prems obtain ms where "replace_node node ns = Some ms" "ns' = n # ms" by auto
    with Cons.IH [of ms] Cons.prems(2) False show ?thesis by auto
  qed
qed simp

lemma UpdateNode_effect:
  assumes "vd_ok v"
  shows "vd_ok (UpdateNode node now v) \<and>
     set (vd_Nodes (UpdateNode node now v)) = insert node {n \<in> set (vd_Nodes v). n_NodeID n \<noteq> n_NodeID node} \<and>
     vd_NodeMetaMap (UpdateNode node now v) = (vd_NodeMetaMap v)(n_NodeID node \<mapsto> now)"
proof (cases "replace_node node (vd_Nodes v)")
  case None
  then show ?thesis using assms replace_node_None [of node "vd_Nodes v"]
    by (auto simp: UpdateNode_def vd_ok_def image_iff)
next
  case (Some ns)
  note r = replace_node_Some [OF Some]
  have d: "distinct (node_ids (vd_Nodes v))" and dom: "dom (vd_NodeMetaMap v) = set (node_ids (vd_Nodes v))"
    using assms by (simp_all add: vd_ok_def)
  have "UpdateNode node now v = v\<lparr>vd_Nodes := ns, vd_NodeMetaMap := (vd_NodeMetaMap v)(n_NodeID node \<mapsto> now)\<rparr>"
    by (simp add: UpdateNode_def Some)
  moreover have "dom ((vd_NodeMetaMap v)(n_NodeID node \<mapsto> now)) = set (node_ids ns)"
    using r [OF d] dom by auto
  ultimately show ?thesis using r [OF d] d by (simp add: vd_ok_def)
qed

text \<open>A tick keeps the nodes that are alive, in their order.\<close>

definition live :: "nat \<Rightarrow> nat option \<Rightarrow> bool" where
  "live now x = (case x of None \<Rightarrow> False | Some seen \<Rightarrow> int now - int seen \<le> nodeTimeout)"

lemma sweep_node_live: "sweep_node now n (alive, meta) =
    (if live now (meta (n_NodeID n)) then (alive @ [n], meta) else (alive, meta(n_NodeID n := None)))"
  by (simp add: sweep_node_def live_def split: option.splits)

abbreviation dead_ids :: "nat \<Rightarrow> (string \<rightharpoonup> nat) \<Rightarrow> Node list \<Rightarrow> string set" where
  "dead_ids now meta ns \<equiv> n_NodeID ` set (filter (\<lambda>n. \<not> live now (meta (n_NodeID n))) ns)"

lemma sweep_fold:
  "distinct (node_ids ns) \<Longrightarrow> fold (sweep_node now) ns (alive, meta) =
     (alive @ filter (\<lambda>n. live now (meta (n_NodeID n))) ns,
      \<lambda>i. if i \<in> dead_ids now meta ns then None else meta i)"
proof (induction ns arbitrary: alive meta)
  case (Cons n ns)
  have other: "n_NodeID m \<noteq> n_NodeID n" if "m \<in> set ns" for m
    using Cons.prems that by (metis distinct.simps(2) image_eqI list.set_map list.simps(9))
  let ?meta = "meta(n_NodeID n := None)"
  have same: "filter (\<lambda>m. live now (?meta (n_NodeID m))) ns = filter (\<lambda>m. live now (meta (n_NodeID m))) ns"
    "filter (\<lambda>m. \<not> live now (?meta (n_NodeID m))) ns = filter (\<lambda>m. \<not> live now (meta (n_NodeID m))) ns"
    by (intro filter_cong refl; simp add: other)+
  have d: "distinct (node_ids ns)" using Cons.prems by simp
  show ?case
  proof (cases "live now (meta (n_NodeID n))")
    case True
    then show ?thesis using Cons.IH [OF d, of "alive @ [n]" meta] by (simp add: sweep_node_live)
  next
    case False
    have "fold (sweep_node now) (n # ns) (alive, meta) = fold (sweep_node now) ns (alive, ?meta)"
      using False by (simp add: sweep_node_live)
    also have "\<dots> = (alive @ filter (\<lambda>n. live now (meta (n_NodeID n))) ns,
        \<lambda>i. if i \<in> dead_ids now meta ns then None else ?meta i)"
      unfolding Cons.IH [OF d] same ..
    finally show ?thesis using False by (auto simp: fun_eq_iff)
  qed
qed (simp add: fun_eq_iff)

lemma RemoveDeadNodes_effect:
  assumes "vd_ok v"
  shows "vd_Nodes (RemoveDeadNodes now v) = filter (\<lambda>n. IsNodeAlive (n_NodeID n) now v) (vd_Nodes v) \<and>
     vd_ok (RemoveDeadNodes now v)"
proof -
  have d: "distinct (node_ids (vd_Nodes v))" and dom: "dom (vd_NodeMetaMap v) = set (node_ids (vd_Nodes v))"
    using assms by (simp_all add: vd_ok_def)
  let ?dead = "dead_ids now (vd_NodeMetaMap v) (vd_Nodes v)"
  have alive: "IsNodeAlive i now v = live now (vd_NodeMetaMap v i)" for i by (simp add: IsNodeAlive_def live_def)
  have eq: "RemoveDeadNodes now v = v\<lparr>vd_Nodes := filter (\<lambda>n. IsNodeAlive (n_NodeID n) now v) (vd_Nodes v),
      vd_NodeMetaMap := (\<lambda>i. if i \<in> ?dead then None else vd_NodeMetaMap v i)\<rparr>"
    unfolding RemoveDeadNodes_def sweep_fold [OF d] by (simp add: alive)
  have "dom (\<lambda>i. if i \<in> ?dead then None else vd_NodeMetaMap v i) = set (node_ids (vd_Nodes v)) - ?dead"
    using dom by (auto simp: dom_def)
  also have "\<dots> = set (node_ids (filter (\<lambda>n. IsNodeAlive (n_NodeID n) now v) (vd_Nodes v)))"
    by (auto simp: alive)
  finally show ?thesis using d by (simp add: vd_ok_def eq distinct_map_filter)
qed

interpretation node_list: machine vd_step vd_ok
  by unfold_locales (auto elim!: vd_step.cases simp: UpdateNode_effect RemoveDeadNodes_effect)

lemma vd_reachable: "vd_step\<^sup>*\<^sup>* vd_empty v \<Longrightarrow> vd_ok v"
  using node_list.inv_steps [of vd_empty v] by (simp add: vd_ok_def vd_empty_def)

text \<open>
  C28: The node list, after any calls and ticks: identities are distinct and a time is kept for exactly the
  nodes of the list. A call with a node answers with a list that has this node, with the details it sent,
  in place of any earlier entry of the same identity, and the other nodes as they were, and the node is
  alive at that time; only the first node of a call is listed. A tick keeps exactly the nodes that were
  seen within the last ten seconds, in their order.
\<close>

theorem node_list_correct:
  assumes "vd_step\<^sup>*\<^sup>* vd_empty v"
  shows "distinct (node_ids (vd_Nodes v)) \<and> dom (vd_NodeMetaMap v) = set (node_ids (vd_Nodes v)) \<and>
     (\<exists>answer v' st'. GetMembership B (node # nodes) now now' (v, st) = (Inr answer, v', st') \<and>
        answer = vd_Nodes v' \<and> set answer = insert node {n \<in> set (vd_Nodes v). n_NodeID n \<noteq> n_NodeID node} \<and>
        distinct (node_ids answer) \<and> IsNodeAlive (n_NodeID node) now v') \<and>
     vd_Nodes (RemoveDeadNodes now v) = filter (\<lambda>n. IsNodeAlive (n_NodeID n) now v) (vd_Nodes v)"
proof -
  note ok = vd_reachable [OF assms]
  have "int now - int now \<le> nodeTimeout" by (simp add: nodeTimeout_def)
  with UpdateNode_effect [OF ok, of node now] RemoveDeadNodes_effect [OF ok, of now] ok show ?thesis
    by (simp add: GetMembership_def vd_ok_def Let_def IsNodeAlive_def)
qed

lemma node_list_correct_witness:
  "vd_step\<^sup>*\<^sup>* vd_empty (UpdateNode (demo_node ''a'') 0 vd_empty) \<and>
   vd_Nodes (RemoveDeadNodes 10000000000 (UpdateNode (demo_node ''a'') 0 vd_empty)) = [demo_node ''a''] \<and>
   vd_Nodes (RemoveDeadNodes 10000000001 (UpdateNode (demo_node ''a'') 0 vd_empty)) = []"
proof -
  have run: "vd_step\<^sup>*\<^sup>* vd_empty (UpdateNode (demo_node ''a'') 0 vd_empty)"
    by (rule r_into_rtranclp) (rule vd_step.update)
  have "UpdateNode (demo_node ''a'') 0 vd_empty = \<lparr>vd_Nodes = [demo_node ''a''], vd_NodeMetaMap = [''a'' \<mapsto> 0]\<rparr>"
    by (simp add: UpdateNode_def vd_empty_def demo_node_def)
  moreover have "vd_Nodes (RemoveDeadNodes now (UpdateNode (demo_node ''a'') 0 vd_empty)) =
      filter (\<lambda>n. IsNodeAlive (n_NodeID n) now (UpdateNode (demo_node ''a'') 0 vd_empty))
        (vd_Nodes (UpdateNode (demo_node ''a'') 0 vd_empty))" for now
    using node_list_correct [OF run, of demo_bls "demo_node ''a''" "[]" now 0 ms_init] by simp
  ultimately show ?thesis using run by (simp add: IsNodeAlive_def nodeTimeout_def demo_node_def)
qed

end
