(* ===== verification/Consensus.thy ===== *)
theory Consensus
  imports Membership Pu_Handlers
begin

text \<open>
  A w-node: \<open>w-node/transceiver/node/main_integrated.go\<close>. It reports itself to the s-node, adopts the
  committees it is a member of, runs the two voting phases over the push/pull controller when it is the
  leader, and answers the leader's messages when it is not. The keys of the node and the signature
  library are arguments, as are JSON, gob, SHA-512 and the TOML decoder. \<open>verifying\<close> and what follows it
  run in goroutines: a packet taken from a channel is one step. A vote that arrives or the end of the
  waiting time is an element of a list.
\<close>

section \<open>Messages\<close>

definition AuditMsg_PHASE_UNSPECIFIED :: int where "AuditMsg_PHASE_UNSPECIFIED = 0"
definition AuditMsg_PREPARE :: int where "AuditMsg_PREPARE = 1"
definition AuditMsg_AGGREGATED_PREPARE :: int where "AuditMsg_AGGREGATED_PREPARE = 2"
definition AuditMsg_COMMIT :: int where "AuditMsg_COMMIT = 3"
definition AuditMsg_AGGREGATED_COMMIT :: int where "AuditMsg_AGGREGATED_COMMIT = 4"

record HonestAuditor =
  hon_Id :: string

text \<open>An auditor that is null in the JSON text is a nil pointer, \<open>None\<close>. The fields the code never sets
  are left out.\<close>

record AuditMsg =
  am_BlkNum :: u32
  am_PrevHash :: string
  am_MerkleRootHash :: string
  am_CurHash :: string
  am_LeaderID :: string
  am_Signature :: bytes
  am_HonestAuditors :: "HonestAuditor option list"
  am_PhaseNum :: int
  am_Aborttransactionnum :: "string \<rightharpoonup> u32"

record GossipMsg =
  gsp_Type :: u32
  gsp_Rndblk :: "AuditMsg option"
  gsp_StartConsensusTime :: int

definition empty_audit :: AuditMsg where
  "empty_audit = \<lparr>am_BlkNum = 0, am_PrevHash = [], am_MerkleRootHash = [], am_CurHash = [], am_LeaderID = [],
     am_Signature = [], am_HonestAuditors = [], am_PhaseNum = 0, am_Aborttransactionnum = Map.empty\<rparr>"

section \<open>Libraries\<close>

record ('pk, 'sg) bls_keys =
  sk_SignByte :: "bytes \<Rightarrow> 'sg"
  sg_Serialize :: "'sg \<Rightarrow> bytes"
  sg_Aggregate :: "'sg list \<Rightarrow> 'sg"
  pk_Serialize :: "'pk \<Rightarrow> bytes"
  pk_Own :: 'pk

text \<open>Decoding gives nothing on an error, and a nil message for the text \<open>null\<close>.\<close>

record audit_lib =
  js_Marshal :: "AuditMsg \<Rightarrow> bytes option"
  js_Unmarshal :: "bytes \<Rightarrow> AuditMsg option option"
  gob_Encode :: "AuditMsg \<Rightarrow> bytes"
  Sum512 :: "bytes \<Rightarrow> bytes"

definition EncodeToString :: "bytes \<Rightarrow> string" where
  "EncodeToString bs = concat (map (\<lambda>b. [''0123456789abcdef'' ! (unat b div 16), ''0123456789abcdef'' ! (unat b mod 16)]) bs)"

text \<open>\<open>big.Int.Bytes\<close>: big endian, without leading zeros.\<close>

fun big_Bytes :: "nat \<Rightarrow> bytes" where
  "big_Bytes n = (if n = 0 then [] else big_Bytes (n div 256) @ [of_nat (n mod 256)])"

declare big_Bytes.simps [simp del]

section \<open>State\<close>

record 'pk CONSENSUSNODE =
  cn_addresses :: "string list"
  cn_selfId :: string
  cn_roundIdx :: u32
  cn_members :: "Wnode list"
  cn_leader :: bool
  cn_channelID :: string
  cn_done :: "bool list"
  cn_pendingCommittee :: "CommitteeMsg option"
  cn_auditMsg :: AuditMsg
  cn_isRunning :: bool
  cn_publicKeyMap :: "string \<rightharpoonup> 'pk"
  cn_pubVec :: "'pk list"
  cn_pu :: PuCtrl
  cn_startConsensusTime :: int
  cn_gossip :: "GossipMsg list"

section \<open>Reporting\<close>

record VRFNode =
  vn_NodeID :: string
  vn_PubKey :: bytes
  vn_Seed :: string
  vn_Proof :: bytes
  vn_Value :: nat

definition GenerateVRF :: "('pk, 'sg) bls_keys \<Rightarrow> string \<Rightarrow> int \<Rightarrow> VRFNode" where
  "GenerateVRF K nodeID now =
     (let seed = Itoa now;
          proof = sg_Serialize K (sk_SignByte K (Sum256 (string_bytes seed)))
      in \<lparr>vn_NodeID = nodeID, vn_PubKey = pk_Serialize K (pk_Own K), vn_Seed = seed, vn_Proof = proof,
          vn_Value = SetBytes (Sum256 proof)\<rparr>)"

definition createSelfMembership :: "string \<Rightarrow> string list \<Rightarrow> string \<Rightarrow> VRFNode \<Rightarrow> Node list" where
  "createSelfMembership i addr port nodeinfo =
     [\<lparr>n_NodeID = i, n_Addrs = addr, n_Port = port, n_Publickey = vn_PubKey nodeinfo, n_Seed = vn_Seed nodeinfo,
       n_Proof = vn_Proof nodeinfo, n_Value = big_Bytes (vn_Value nodeinfo)\<rparr>]"

text \<open>The request of \<open>Reporting\<close>; the answer is only stored.\<close>

definition Reporting :: "('pk, 'sg) bls_keys \<Rightarrow> int \<Rightarrow> 'pk CONSENSUSNODE \<Rightarrow> Node list go" where
  "Reporting K now w = go_bind (go_index (cn_addresses w) 0) (\<lambda>addr.
     Inr (createSelfMembership (cn_selfId w) (cn_addresses w) ''11730'' (GenerateVRF K addr now)))"

section \<open>Adopting a committee\<close>

record VRFCandidate =
  vc_Node :: Wnode
  vc_VRF :: nat

text \<open>The loop over the members: their keys are kept up to the first that fails.\<close>

fun read_members ::
    "('pk, 'sg) bls_lib \<Rightarrow> Wnode list \<Rightarrow> (string \<rightharpoonup> 'pk) \<Rightarrow> (string \<rightharpoonup> 'pk) \<times> VRFCandidate list option" where
  "read_members B [] keys = (keys, Some [])"
| "read_members B (mem # ms) keys =
     (case pk_Deserialize B (w_Publickey mem) of
        None \<Rightarrow> (keys, None)
      | Some pubKey \<Rightarrow>
          let keys = keys(w_NodeID mem \<mapsto> pubKey)
          in case VerifyVRF B (w_Seed mem) (w_Proof mem) pubKey of
               None \<Rightarrow> (keys, None)
             | Some vrfVal \<Rightarrow>
                 let (keys, cs) = read_members B ms keys
                 in (keys, map_option ((#) \<lparr>vc_Node = mem, vc_VRF = vrfVal\<rparr>) cs))"

text \<open>The first shard that lists the node decides. The goroutine a leader starts clears \<open>isRunning\<close> and
  puts a value into \<open>done\<close>, which nothing reads.\<close>

fun apply_shards ::
    "('pk, 'sg) bls_lib \<Rightarrow> (VRFCandidate list \<Rightarrow> VRFCandidate list) \<Rightarrow> string \<Rightarrow> Shard list \<Rightarrow> 'pk CONSENSUSNODE \<Rightarrow>
     'pk CONSENSUSNODE go" where
  "apply_shards B ord leaderChan [] w = Inr w"
| "apply_shards B ord leaderChan (shard # shards) w =
     (if \<not> list_ex (\<lambda>mem. w_NodeID mem = cn_selfId w) (sh_Member shard) then apply_shards B ord leaderChan shards w
      else
        let (keys, cs) = read_members B (sh_Member shard) (cn_publicKeyMap w);
            w = w\<lparr>cn_publicKeyMap := keys\<rparr>
        in case cs of
             None \<Rightarrow> Inr w
           | Some cs \<Rightarrow>
               let candidates = sort_Slice vc_VRF ord cs
               in if \<not> list_all2 (\<lambda>mem c. w_NodeID mem = w_NodeID (vc_Node c)) (sh_Member shard) candidates then Inr w
                  else go_bind (go_index candidates 0) (\<lambda>first.
                    if sh_LeaderID shard \<noteq> w_NodeID (vc_Node first) then Inr w
                    else
                      let w = w\<lparr>cn_members := sh_Member shard, cn_leader := (sh_LeaderID shard = cn_selfId w),
                                cn_channelID := leaderChan\<rparr>
                      in Inr (if cn_leader w then w\<lparr>cn_isRunning := False, cn_done := [False]\<rparr> else w)))"

definition applyCommittee ::
    "('pk, 'sg) bls_lib \<Rightarrow> (VRFCandidate list \<Rightarrow> VRFCandidate list) \<Rightarrow> string \<Rightarrow> CommitteeMsg \<Rightarrow> 'pk CONSENSUSNODE \<Rightarrow>
     'pk CONSENSUSNODE go" where
  "applyCommittee B ord leaderChan msg w =
     apply_shards B ord leaderChan (cm_Shards msg) (w\<lparr>cn_done := [], cn_roundIdx := cm_RoundNum msg\<rparr>)"

text \<open>What one \<open>Read\<close> of at most 20000 bytes returns is the argument.\<close>

definition CommConnHandler ::
    "('pk, 'sg) bls_lib \<Rightarrow> (VRFCandidate list \<Rightarrow> VRFCandidate list) \<Rightarrow> string \<Rightarrow> (bytes \<Rightarrow> CommitteeMsg option) \<Rightarrow>
     bytes option \<Rightarrow> 'pk CONSENSUSNODE \<Rightarrow> 'pk CONSENSUSNODE go" where
  "CommConnHandler B ord leaderChan unmarshal recvBuf w =
     (case recvBuf of
        None \<Rightarrow> Inr w
      | Some buf \<Rightarrow>
          (case unmarshal buf of
             None \<Rightarrow> Inr w
           | Some recvMsg \<Rightarrow>
               if cn_isRunning w then Inr (w\<lparr>cn_pendingCommittee := Some recvMsg\<rparr>)
               else applyCommittee B ord leaderChan recvMsg w))"

section \<open>The abort counts of a batch\<close>

text \<open>\<open>User(\d+)\<close>: the digits of the leftmost match.\<close>

fun find_user :: "string \<Rightarrow> string option" where
  "find_user [] = None"
| "find_user (c # cs) =
     (let ds = takeWhile is_digit (drop 3 cs)
      in if take 4 (c # cs) = ''User'' \<and> ds \<noteq> [] then Some ds else find_user cs)"

text \<open>\<open>Sscanf\<close> with \<open>%d\<close> on digits; a number that does not fit leaves the variable zero.\<close>

definition scan_int :: "string \<Rightarrow> int" where
  "scan_int s = (case Atoi s of None \<Rightarrow> 0 | Some num \<Rightarrow> num)"

definition count_match :: "string \<Rightarrow> (string \<rightharpoonup> u32) \<Rightarrow> (string \<rightharpoonup> u32)" where
  "count_match text userCount =
     (case find_user text of
        None \<Rightarrow> userCount
      | Some ds \<Rightarrow>
          let userKey = ''User'' @ Itoa (scan_int ds)
          in userCount(userKey \<mapsto> (case userCount userKey of None \<Rightarrow> 0 | Some n \<Rightarrow> n) + 1))"

definition count_aborts :: "string list \<Rightarrow> (string \<rightharpoonup> u32)" where
  "count_aborts texts = fold count_match texts Map.empty"

section \<open>Voting\<close>

text \<open>A vote that \<open>MP2BTPSubmit\<close> hands over, or the end of the waiting time.\<close>

datatype vote_event = Vote "AuditMsg option" | Timeout

definition add_auditor :: "HonestAuditor option \<Rightarrow> string list \<Rightarrow> string list" where
  "add_auditor auditor ids =
     (case auditor of None \<Rightarrow> ids | Some a \<Rightarrow> if hon_Id a \<in> set ids then ids else ids @ [hon_Id a])"

definition aggregateAndSet ::
    "('pk, 'sg) bls_keys \<Rightarrow> AuditMsg \<Rightarrow> 'sg list \<Rightarrow> int \<Rightarrow> 'pk CONSENSUSNODE \<Rightarrow> 'pk CONSENSUSNODE" where
  "aggregateAndSet K cMsgs sigVec phase w =
     w\<lparr>cn_auditMsg := (cn_auditMsg w)\<lparr>am_BlkNum := am_BlkNum cMsgs, am_PrevHash := am_PrevHash cMsgs,
        am_CurHash := am_CurHash cMsgs, am_Signature := sg_Serialize K (sg_Aggregate K sigVec), am_PhaseNum := phase\<rparr>\<rparr>"

definition Multisinging ::
    "('pk, 'sg) bls_keys \<Rightarrow> AuditMsg \<Rightarrow> 'sg list \<Rightarrow> 'pk CONSENSUSNODE \<Rightarrow> 'pk CONSENSUSNODE" where
  "Multisinging K cMsgs sigVec w =
     (if am_PhaseNum cMsgs = AuditMsg_AGGREGATED_PREPARE then aggregateAndSet K cMsgs sigVec AuditMsg_COMMIT w
      else if am_PhaseNum cMsgs = AuditMsg_AGGREGATED_COMMIT then aggregateAndSet K cMsgs sigVec AuditMsg_AGGREGATED_COMMIT w
      else w)"

text \<open>The loop of \<open>waitForVotes\<close>, with \<open>sigVec\<close> and the keys of \<open>honestAuditorsSet\<close>; \<open>votes\<close> is the length of
  \<open>sigVec\<close>. The order in which the auditors are listed is the argument \<open>ord\<close>. \<open>None\<close>: it still waits.\<close>

fun waitForVotes ::
    "('pk, 'sg) bls_lib \<Rightarrow> ('pk, 'sg) bls_keys \<Rightarrow> (string list \<Rightarrow> string list) \<Rightarrow> nat \<Rightarrow> int \<Rightarrow> vote_event list \<Rightarrow>
     'sg list \<Rightarrow> string list \<Rightarrow> 'pk CONSENSUSNODE \<Rightarrow> (bool \<times> 'pk CONSENSUSNODE) option" where
  "waitForVotes B K ord quorum targetPhase [] sigVec ids w = None"
| "waitForVotes B K ord quorum targetPhase (Timeout # evs) sigVec ids w = Some (False, w)"
| "waitForVotes B K ord quorum targetPhase (Vote None # evs) sigVec ids w =
     waitForVotes B K ord quorum targetPhase evs sigVec ids w"
| "waitForVotes B K ord quorum targetPhase (Vote (Some msg) # evs) sigVec ids w =
     (if am_PhaseNum msg = AuditMsg_PHASE_UNSPECIFIED \<or> am_PhaseNum msg \<noteq> targetPhase
      then waitForVotes B K ord quorum targetPhase evs sigVec ids w
      else case sg_Deserialize B (am_Signature msg) of
             None \<Rightarrow> waitForVotes B K ord quorum targetPhase evs sigVec ids w
           | Some sig \<Rightarrow>
               let sigVec = sigVec @ [sig];
                   ids = fold add_auditor (am_HonestAuditors msg) ids;
                   w = w\<lparr>cn_auditMsg := (cn_auditMsg w)\<lparr>am_HonestAuditors :=
                     map (\<lambda>i. Some \<lparr>hon_Id = i\<rparr>) (in_order ord ids)\<rparr>\<rparr>
               in if length sigVec = quorum then Some (True, Multisinging K msg sigVec w)
                  else waitForVotes B K ord quorum targetPhase evs sigVec ids w)"

section \<open>Sending to the committee\<close>

definition makePadding :: "nat \<Rightarrow> string" where
  "makePadding n = replicate n CHR ''A''"

definition first_message ::
    "audit_lib \<Rightarrow> ('pk, 'sg) bls_keys \<Rightarrow> string option \<Rightarrow> (string \<rightharpoonup> u32) \<Rightarrow> 'pk CONSENSUSNODE \<Rightarrow> AuditMsg" where
  "first_message J K prev userCount w =
     (let m = \<lparr>am_BlkNum = cn_roundIdx w, am_PrevHash = (case prev of None \<Rightarrow> [] | Some h \<Rightarrow> h),
               am_MerkleRootHash = makePadding 10000, am_CurHash = [], am_LeaderID = cn_selfId w, am_Signature = [],
               am_HonestAuditors = [], am_PhaseNum = AuditMsg_PREPARE, am_Aborttransactionnum = userCount\<rparr>;
          m = m\<lparr>am_CurHash := EncodeToString (take 63 (Sum512 J (gob_Encode J m)))\<rparr>
      in m\<lparr>am_Signature := sg_Serialize K (sk_SignByte K (string_bytes (am_CurHash m)))\<rparr>)"

text \<open>The addresses of the members that have none of the node's own addresses.\<close>

definition other_addrs :: "'pk CONSENSUSNODE \<Rightarrow> string list" where
  "other_addrs w =
     concat (map w_Addrs (filter (\<lambda>m. \<not> list_ex (\<lambda>a. a \<in> set (cn_addresses w)) (w_Addrs m)) (cn_members w)))"

fun new_addrs :: "string list \<Rightarrow> string list \<Rightarrow> string list \<Rightarrow> string list" where
  "new_addrs self seen [] = []"
| "new_addrs self seen (addr # addrs) =
     (if addr \<in> set self \<or> addr \<in> set seen then new_addrs self seen addrs
      else addr # new_addrs self (addr # seen) addrs)"

definition line :: "string \<Rightarrow> string" where
  "line s = s @ [CHR 0x0A]"

definition quoted :: "string \<Rightarrow> string" where
  "quoted s = CHR 0x22 # s @ [CHR 0x22]"

definition baseleaderTomlConfig :: string where
  "baseleaderTomlConfig = concat (map line [
     [], ''LISTEN_PORT         = 4000'', ''BIND_PORT           = 5000'', ''EQUIC_ENABLE        = true'',
     ''EQUIC_PATH          = '' @ quoted ''./transceiver/node/fectun'', ''EQUIC_APP_SRC_PORT  = 6000'',
     ''EQUIC_APP_DST_PORT  = 5000'', ''EQUIC_TUN_SRC_PORT  = 7000'', ''EQUIC_TUN_DST_PORT  = 7000'',
     ''EQUIC_FEC_MODE      = false'', ''SEGMENT_SIZE        = 2097152'', ''FEC_SEGMENT_SIZE    = 2466816'',
     ''THROUGHPUT_PERIOD   = 0.1'', ''THROUGHPUT_WEIGHT   = 0.1'', ''MULTIPATH_THRESHOLD_THROUGHPUT = 100.0'',
     ''MULTIPATH_THRESHOLD_SEND_COMPLETE_TIME = 0.0000000001'', ''CLOSE_TIMEOUT_PERIOD = 200''])"

fun join :: "string \<Rightarrow> string list \<Rightarrow> string" where
  "join sep [] = []"
| "join sep [x] = x"
| "join sep (x # y # ys) = x @ sep @ join sep (y # ys)"

definition peer_entry :: "nat \<Rightarrow> string \<Rightarrow> nat \<Rightarrow> nat \<Rightarrow> string" where
  "peer_entry offset addr numChild childOffset =
     concat (map line [[], ''[[peer_addr]]  # Offset='' @ itoa_nat offset, ''Addr = '' @ quoted addr,
       ''NumChild = '' @ itoa_nat numChild, ''ChildOffset = '' @ itoa_nat childOffset])"

text \<open>The text \<open>WriteTomlFile\<close> writes.\<close>

definition WriteTomlFile :: "nat \<Rightarrow> string list \<Rightarrow> string list \<Rightarrow> string go" where
  "WriteTomlFile numMultipath myAddrs childAddrs =
     go_bind (go_index myAddrs 0) (\<lambda>me. Inr (
       line ''# MP2BTP Configurations'' @ line ''VERBOSE_MODE = true'' @
       line (''NUM_MULTIPATH = '' @ itoa_nat numMultipath) @
       line (''MY_IP_ADDRS = ['' @ join '', '' (map quoted myAddrs) @ '']'') @ baseleaderTomlConfig @
       peer_entry 0 me (length childAddrs) 1 @
       concat (map (\<lambda>(i, addr). peer_entry (i + 1) addr 0 0) (enumerate 0 childAddrs))))"

text \<open>The network, as the push/pull controller and the operating system provide it: the local addresses,
  whether the file can be written, and the peers that the TOML decoder reads back.\<close>

record net_lib =
  nl_v6 :: "string \<Rightarrow> ip option"
  nl_run :: "string \<Rightarrow> bool"
  nl_dial :: "string \<Rightarrow> string \<Rightarrow> u32 option"
  nl_ips :: "string list"
  nl_writable :: bool
  nl_toml :: "string \<Rightarrow> PeerAddr list option"

text \<open>The Boolean says whether the result is a controller and not nil. When the file cannot be written the code
  also sends into a channel with room for as many as the committee has members, that nobody reads: it would block on
  an empty committee only, and a leader is a member of its own.\<close>

definition MP2BTPRootOnce :: "net_lib \<Rightarrow> Config \<Rightarrow> string list \<Rightarrow> 'pk CONSENSUSNODE \<Rightarrow> (bool \<times> 'pk CONSENSUSNODE) go" where
  "MP2BTPRootOnce N C addrs w =
     go_bind (WriteTomlFile 2 (nl_ips N) (new_addrs (nl_ips N) [] addrs)) (\<lambda>text.
       if \<not> nl_writable N then Inr (False, w)
       else case nl_toml N text of
              None \<Rightarrow> Inl (Explicit ''toml'')
            | Some peers \<Rightarrow>
                go_bind (GetNodeInfo (nl_v6 N) C peers) (\<lambda>nodeInfo.
                go_bind (Connect (nl_run N) (nl_dial N) C nodeInfo PUSH_SESSION (cn_pu w)) (\<lambda>pu.
                  Inr (True, w\<lparr>cn_pu := pu\<rparr>))))"

text \<open>Sending the message of the current phase; its argument \<open>currentPhase\<close> is not used.\<close>

definition MP2BTPSubmit :: "audit_lib \<Rightarrow> bool \<Rightarrow> 'pk CONSENSUSNODE \<Rightarrow> 'pk CONSENSUSNODE go" where
  "MP2BTPSubmit J session w =
     (case js_Marshal J (cn_auditMsg w) of
        None \<Rightarrow> Inr w
      | Some sndBuf \<Rightarrow>
          if \<not> session then Inl NilDeref
          else go_bind (SendAuditMsg sndBuf (cn_pu w)) (\<lambda>(_, pu). Inr (w\<lparr>cn_pu := pu\<rparr>)))"

text \<open>The goroutine of \<open>MP2BTPSubmit\<close>: what it hands over for an acknowledgement that arrives.\<close>

definition forward_ack :: "audit_lib \<Rightarrow> int \<Rightarrow> AuditDataAckPacket option \<Rightarrow> vote_event list go" where
  "forward_ack J targetPhase pkt =
     (case pkt of
        None \<Rightarrow> Inl NilDeref
      | Some msg \<Rightarrow>
          (case js_Unmarshal J (audack_Data msg) of
             None \<Rightarrow> Inr []
           | Some None \<Rightarrow> Inl NilDeref
           | Some (Some auditMsg) \<Rightarrow> Inr (if am_PhaseNum auditMsg = targetPhase then [Vote (Some auditMsg)] else [])))"

section \<open>The two phases\<close>

text \<open>\<open>bftConsensus\<close> up to the first wait, and after the second. The Boolean is the session again.\<close>

definition bft_begin ::
    "audit_lib \<Rightarrow> ('pk, 'sg) bls_keys \<Rightarrow> net_lib \<Rightarrow> Config \<Rightarrow> string option \<Rightarrow> (string \<rightharpoonup> u32) \<Rightarrow> 'pk CONSENSUSNODE \<Rightarrow>
     (bool \<times> 'pk CONSENSUSNODE) go" where
  "bft_begin J K N C prev userCount w =
     (let w = w\<lparr>cn_auditMsg := first_message J K prev userCount w\<rparr>
      in go_bind (MP2BTPRootOnce N C (other_addrs w) w) (\<lambda>(session, w).
         go_bind (MP2BTPSubmit J session w) (\<lambda>w. Inr (session, w))))"

definition bft_end :: "bool \<Rightarrow> 'pk CONSENSUSNODE \<Rightarrow> 'pk CONSENSUSNODE go" where
  "bft_end session w =
     (let w = w\<lparr>cn_auditMsg := (cn_auditMsg w)\<lparr>am_MerkleRootHash := ''abcdefghijklnmop''\<rparr>\<rparr>;
          w = w\<lparr>cn_gossip := cn_gossip w @ [\<lparr>gsp_Type = 2, gsp_Rndblk = Some (cn_auditMsg w),
                gsp_StartConsensusTime = cn_startConsensusTime w\<rparr>]\<rparr>
      in if session then Inr (w\<lparr>cn_pu := CloseAllSessions (cn_pu w)\<rparr>) else Inl NilDeref)"

text \<open>The whole of it, for the votes of each phase; the results of \<open>waitForVotes\<close> are not looked at. A quorum
  of an empty committee is \<open>-1\<close>, which no number of votes reaches.\<close>

definition quorum_of :: "'pk CONSENSUSNODE \<Rightarrow> nat option" where
  "quorum_of w = (if cn_members w = [] then None else Some (length (cn_members w) - 1))"

definition wait_phase ::
    "('pk, 'sg) bls_lib \<Rightarrow> ('pk, 'sg) bls_keys \<Rightarrow> (string list \<Rightarrow> string list) \<Rightarrow> int \<Rightarrow> vote_event list \<Rightarrow>
     'pk CONSENSUSNODE \<Rightarrow> (bool \<times> 'pk CONSENSUSNODE) option" where
  "wait_phase B K ord targetPhase evs w =
     waitForVotes B K ord (case quorum_of w of None \<Rightarrow> 0 | Some q \<Rightarrow> q) targetPhase evs [] [] w"

definition bftConsensus ::
    "audit_lib \<Rightarrow> ('pk, 'sg) bls_lib \<Rightarrow> ('pk, 'sg) bls_keys \<Rightarrow> net_lib \<Rightarrow> Config \<Rightarrow> (string list \<Rightarrow> string list) \<Rightarrow>
     string option \<Rightarrow> (string \<rightharpoonup> u32) \<Rightarrow> vote_event list \<Rightarrow> vote_event list \<Rightarrow> 'pk CONSENSUSNODE \<Rightarrow>
     'pk CONSENSUSNODE go option" where
  "bftConsensus J B K N C ord prev userCount prepares commits w =
     (case bft_begin J K N C prev userCount w of
        Inl e \<Rightarrow> Some (Inl e)
      | Inr (session, w) \<Rightarrow>
          (case wait_phase B K ord AuditMsg_AGGREGATED_PREPARE prepares w of
             None \<Rightarrow> None
           | Some (_, w) \<Rightarrow>
               (case MP2BTPSubmit J session w of
                  Inl e \<Rightarrow> Some (Inl e)
                | Inr w \<Rightarrow> map_option (\<lambda>(_, w). bft_end session w)
                    (wait_phase B K ord AuditMsg_AGGREGATED_COMMIT commits w))))"

text \<open>One batch of \<open>KafkaListener\<close>: its time and the texts of its transactions, when they decode.\<close>

definition KafkaListener ::
    "audit_lib \<Rightarrow> ('pk, 'sg) bls_lib \<Rightarrow> ('pk, 'sg) bls_keys \<Rightarrow> net_lib \<Rightarrow> Config \<Rightarrow> (string list \<Rightarrow> string list) \<Rightarrow>
     string option \<Rightarrow> (int \<times> string list) option \<Rightarrow> vote_event list \<Rightarrow> vote_event list \<Rightarrow> 'pk CONSENSUSNODE \<Rightarrow>
     'pk CONSENSUSNODE go option" where
  "KafkaListener J B K N C ord prev payload prepares commits w =
     (if \<not> cn_leader w then Some (Inr w)
      else case payload of
             None \<Rightarrow> Some (Inr w)
           | Some (timestamp, texts) \<Rightarrow>
               bftConsensus J B K N C ord prev (count_aborts texts) prepares commits
                 (w\<lparr>cn_startConsensusTime := timestamp, cn_auditMsg := empty_audit\<rparr>))"

section \<open>Answering the leader\<close>

text \<open>Nil auditors are dropped, and the node's own entry is appended when there is none.\<close>

definition updateAuditFields :: "string \<Rightarrow> AuditMsg \<Rightarrow> AuditMsg" where
  "updateAuditFields selfId msg =
     (let auditors = filter (\<lambda>a. a \<noteq> None) (am_HonestAuditors msg);
          already = list_ex (\<lambda>a. map_option hon_Id a = Some selfId) auditors
      in msg\<lparr>am_HonestAuditors := if already then auditors else auditors @ [Some \<lparr>hon_Id = selfId\<rparr>]\<rparr>)"

definition response :: "('pk, 'sg) bls_keys \<Rightarrow> int \<Rightarrow> AuditMsg \<Rightarrow> string \<Rightarrow> AuditMsg" where
  "response K targetPhase cMsg selfId =
     updateAuditFields selfId
       (cMsg\<lparr>am_Signature := sg_Serialize K (sk_SignByte K (string_bytes (am_CurHash cMsg))), am_PhaseNum := targetPhase\<rparr>)"

definition sendMP2BTPResponse ::
    "audit_lib \<Rightarrow> ('pk, 'sg) bls_keys \<Rightarrow> int \<Rightarrow> AuditMsg \<Rightarrow> 'pk CONSENSUSNODE \<Rightarrow> 'pk CONSENSUSNODE go" where
  "sendMP2BTPResponse J K targetPhase cMsg w =
     (case js_Marshal J (response K targetPhase cMsg (cn_selfId w)) of
        None \<Rightarrow> Inl (Explicit ''json'')
      | Some sndBuf \<Rightarrow> go_bind (SendAuditAckMsg sndBuf (cn_pu w)) (\<lambda>(_, pu). Inr (w\<lparr>cn_pu := pu\<rparr>)))"

text \<open>The keys of the auditors that are known, each once. The identity of a nil auditor is read.\<close>

fun collect_keys ::
    "('pk, 'sg) bls_keys \<Rightarrow> (string \<rightharpoonup> 'pk) \<Rightarrow> HonestAuditor option list \<Rightarrow> bytes list \<Rightarrow> 'pk list go" where
  "collect_keys K keys [] seenKeys = Inr []"
| "collect_keys K keys (None # auditors) seenKeys = Inl NilDeref"
| "collect_keys K keys (Some honestID # auditors) seenKeys =
     (case keys (hon_Id honestID) of
        None \<Rightarrow> collect_keys K keys auditors seenKeys
      | Some pk \<Rightarrow>
          if pk_Serialize K pk \<in> set seenKeys then collect_keys K keys auditors seenKeys
          else go_bind (collect_keys K keys auditors (pk_Serialize K pk # seenKeys)) (\<lambda>pks. Inr (pk # pks)))"

text \<open>The call of \<open>FastAggregateVerify\<close> is commented out in the code.\<close>

definition verifying ::
    "('pk, 'sg) bls_lib \<Rightarrow> ('pk, 'sg) bls_keys \<Rightarrow> AuditMsg \<Rightarrow> 'pk CONSENSUSNODE \<Rightarrow> (bool \<times> 'pk CONSENSUSNODE) go" where
  "verifying B K cMsg w =
     go_bind (collect_keys K (cn_publicKeyMap w) (am_HonestAuditors cMsg) []) (\<lambda>pubVec.
       let w = w\<lparr>cn_pubVec := pubVec\<rparr>
       in case sg_Deserialize B (am_Signature cMsg) of
            None \<Rightarrow> Inr (False, w)
          | Some decSign \<Rightarrow> Inr (am_PhaseNum cMsg = AuditMsg_COMMIT, w))"

text \<open>The body of the loop of \<open>MP2BTPConsensusListening\<close>.\<close>

definition MP2BTPConsensusListening ::
    "audit_lib \<Rightarrow> ('pk, 'sg) bls_lib \<Rightarrow> ('pk, 'sg) bls_keys \<Rightarrow> AuditDataPacket option \<Rightarrow> 'pk CONSENSUSNODE \<Rightarrow>
     'pk CONSENSUSNODE go" where
  "MP2BTPConsensusListening J B K pkt w =
     (case pkt of
        None \<Rightarrow> Inl NilDeref
      | Some msg \<Rightarrow>
          (case js_Unmarshal J (aud_Data msg) of
             None \<Rightarrow> Inr w
           | Some None \<Rightarrow> Inl NilDeref
           | Some (Some auditMsg) \<Rightarrow>
               if am_PhaseNum auditMsg = AuditMsg_PREPARE
               then sendMP2BTPResponse J K AuditMsg_AGGREGATED_PREPARE auditMsg w
               else if am_PhaseNum auditMsg = AuditMsg_COMMIT
               then go_bind (verifying B K auditMsg w) (\<lambda>(ok, w).
                      sendMP2BTPResponse J K (if ok then AuditMsg_AGGREGATED_COMMIT else AuditMsg_PHASE_UNSPECIFIED)
                        auditMsg w)
               else Inr w))"

end
