(* ===== verification/Consensus_Props.thy ===== *)
theory Consensus_Props
  imports Consensus Membership_Props Pu_Wf
begin

text \<open>
  W-nodes together with the s-node: a node's report is accepted, the committee it is put into is the one
  it adopts, and a forged one is not adopted; what the two voting phases collect, and what is published.
\<close>

section \<open>Reporting\<close>

lemma SetBytes_append: "SetBytes (xs @ [b]) = 256 * SetBytes xs + unat b"
  by (simp add: SetBytes_def)

lemma SetBytes_big_Bytes [simp]: "SetBytes (big_Bytes n) = n"
proof (induction n rule: big_Bytes.induct)
  case (1 n)
  have "unat (of_nat (n mod 256) :: byte) = n mod 256" by (intro unat_of_nat_lt) simp
  then show ?case using 1 by (subst big_Bytes.simps) (simp add: SetBytes_append, simp add: SetBytes_def)
qed

text \<open>What the signature library promises for the node's own keys.\<close>

definition own_keys_ok :: "('pk, 'sg) bls_lib \<Rightarrow> ('pk, 'sg) bls_keys \<Rightarrow> bool" where
  "own_keys_ok B K \<longleftrightarrow> pk_Deserialize B (pk_Serialize K (pk_Own K)) = Some (pk_Own K) \<and>
     (\<forall>m. sg_Deserialize B (sg_Serialize K (sk_SignByte K m)) = Some (sk_SignByte K m) \<and>
          FastAggregateVerify B (sk_SignByte K m) [pk_Own K] m)"

lemma own_report_valid:
  assumes "own_keys_ok B K" and "Reporting K now w = Inr nodes"
  obtains node where "nodes = [node]" and "n_NodeID node = cn_selfId w" and "n_Addrs node = cn_addresses w"
    and "valid_req B \<lparr>rq_Node = node, rq_VRF = SetBytes (n_Value node)\<rparr>"
proof (rule that [of "hd nodes"])
  have "nodes = createSelfMembership (cn_selfId w) (cn_addresses w) ''11730'' (GenerateVRF K (cn_addresses w ! 0) now)"
    using assms(2) by (auto simp: Reporting_def go_index_Inr_iff)
  then show "nodes = [hd nodes]" "n_NodeID (hd nodes) = cn_selfId w" "n_Addrs (hd nodes) = cn_addresses w"
    "valid_req B \<lparr>rq_Node = hd nodes, rq_VRF = SetBytes (n_Value (hd nodes))\<rparr>"
    using assms(1) by (simp_all add: createSelfMembership_def GenerateVRF_def Let_def valid_req_def VerifyVRF_def own_keys_ok_def)
qed

lemma add_request_valid:
  assumes "valid_req B \<lparr>rq_Node = node, rq_VRF = v\<rparr>" and "n_NodeID node \<notin> existing"
  shows "add_request B node (st, existing) =
    (st\<lparr>ms_requestQueue := (ms_requestQueue st)(ms_currentRound st \<mapsto>
       queue st (ms_currentRound st) @ [\<lparr>rq_Node = node, rq_VRF = v\<rparr>])\<rparr>, insert (n_NodeID node) existing)"
  using assms by (auto simp: add_request_def valid_req_def)

lemma HandleMembershipRequest_one:
  assumes "valid_req B \<lparr>rq_Node = node, rq_VRF = v\<rparr>"
  shows "n_NodeID node \<in> req_id ` set (queue (HandleMembershipRequest B [node] now st)
           (ms_currentRound (HandleMembershipRequest B [node] now st)))"
proof -
  define st0 where "st0 = (if \<not> ms_roundActive st then st\<lparr>ms_currentRound := round_of now, ms_roundActive := True\<rparr> else st)"
  define ex where "ex = set (map req_id (queue st0 (ms_currentRound st0)))"
  obtain st1 ex1 where f: "add_request B node (st0, ex) = (st1, ex1)" by (cases "add_request B node (st0, ex)")
  have in1: "n_NodeID node \<in> req_id ` set (queue st1 (ms_currentRound st0))" and cur: "ms_currentRound st1 = ms_currentRound st0"
  proof -
    show "n_NodeID node \<in> req_id ` set (queue st1 (ms_currentRound st0))"
    proof (cases "n_NodeID node \<in> ex")
      case True
      then have "st1 = st0" using f by (simp add: add_request_def)
      then show ?thesis using True by (simp add: ex_def)
    next
      case False
      then show ?thesis using f add_request_valid [OF assms False, of st0] by auto
    qed
    show "ms_currentRound st1 = ms_currentRound st0"
      using f by (auto simp: add_request_def split: if_splits option.splits)
  qed
  have "HandleMembershipRequest B [node] now st =
      (if minCommitteeSize \<le> length (queue st1 (ms_currentRound st1)) \<and> ms_currentRound st1 \<notin> ms_roundTimerSet st1
       then (startCommitteeTimer (ms_currentRound st1) st1)\<lparr>ms_roundTimerSet := insert (ms_currentRound st1) (ms_roundTimerSet st1)\<rparr>
       else st1)"
    using f unfolding HandleMembershipRequest_def st0_def [symmetric] Let_def ex_def by (simp add: comp_def)
  then show ?thesis using in1 cur by (simp add: startCommitteeTimer_def queue_def)
qed

text \<open>
  A w-node's report is accepted: the s-node verifies the proof that the node made from its clock, with
  the value the node computed itself, and after the call the node is among those who ask for the
  current round, in whatever state the s-node was.
\<close>

theorem own_report_accepted:
  assumes "own_keys_ok B K" and "Reporting K now w = Inr nodes"
  shows "\<exists>node pk. nodes = [node] \<and> n_NodeID node = cn_selfId w \<and> n_Addrs node = cn_addresses w \<and>
     pk_Deserialize B (n_Publickey node) = Some pk \<and>
     VerifyVRF B (n_Seed node) (n_Proof node) pk = Some (SetBytes (n_Value node)) \<and>
     (\<forall>now' st. cn_selfId w \<in> (\<lambda>x. n_NodeID (rq_Node x)) ` set (queue (HandleMembershipRequest B nodes now' st)
        (ms_currentRound (HandleMembershipRequest B nodes now' st))))"
proof (rule own_report_valid [OF assms])
  fix node
  assume n: "nodes = [node]" "n_NodeID node = cn_selfId w" "n_Addrs node = cn_addresses w"
    "valid_req B \<lparr>rq_Node = node, rq_VRF = SetBytes (n_Value node)\<rparr>"
  from n(4) obtain pk where "pk_Deserialize B (n_Publickey node) = Some pk"
    "VerifyVRF B (n_Seed node) (n_Proof node) pk = Some (SetBytes (n_Value node))" by (auto simp: valid_req_def)
  with n HandleMembershipRequest_one [OF n(4)] show ?thesis by (intro exI [of _ node] exI [of _ pk]) simp
qed

section \<open>A committee of one\<close>

text \<open>
  The least size of a committee holds for the first round only: \<open>BuildCommittee\<close> itself starts the timer of the
  round after, so that the request of a single node is enough for a committee, in which it is alone.
\<close>

theorem later_round_of_one:
  assumes valid: "valid_req B \<lparr>rq_Node = node, rq_VRF = v\<rparr>" and idle: "ms_tasks st = []"
    and fresh: "round_of now \<notin> ms_roundCommitted st" "queue st (round_of now) = []"
  shows "\<exists>st'. (ms_step B ord topics)\<^sup>*\<^sup>* (build_finish now st) st' \<and>
     ms_sent st' = ms_sent st @ map (\<lambda>topic. \<lparr>cm_Type = 1, cm_RoundNum = round_of now,
       cm_Shards = [\<lparr>sh_ID = topic, sh_LeaderID = n_NodeID node, sh_Member = [wnode_of node]\<rparr>]\<rparr>) topics"
proof -
  let ?step = "ms_step B ord topics" and ?r = "round_of now" and ?rq = "\<lparr>rq_Node = node, rq_VRF = v\<rparr>"
  let ?st1 = "build_finish now st"
  let ?st2 = "?st1\<lparr>ms_requestQueue := (ms_requestQueue ?st1)(?r \<mapsto> [?rq])\<rparr>"
  let ?st3 = "\<lambda>t. ?st2\<lparr>ms_timers := ms_timers st, ms_tasks := t\<rparr>"
  note defs = build_finish_def startCommitteeTimer_def Let_def queue_def
  have cur: "ms_currentRound ?st1 = ?r" "queue ?st1 ?r = []" using fresh(2) by (simp_all add: defs)
  have "HandleMembershipRequest B [node] now ?st1 = ?st2"
    using add_request_valid [OF valid, of "{}" ?st1] cur fresh(2)
    by (simp add: HandleMembershipRequest_def minCommitteeSize_def) (simp add: defs)
  then have "?step ?st1 ?st2" using ms_step.request [of B ord topics ?st1 "[node]" now] by simp
  moreover have "?step ?st2 (?st3 [Fired ?r])"
    using ms_step.expire [of ?st2 "ms_timers st" "ms_nextTimer st" ?r "[]" B ord topics] idle by (simp add: defs)
  moreover have "?step (?st3 [Fired ?r]) (?st3 [Build ?r])"
    by (rule ms_step.task [of _ "[]" "Fired ?r" "[]" _ _ 0]) (use fresh in \<open>simp_all add: timer_fired_def defs\<close>)
  moreover define st4 where "st4 = build_take ?r (?st3 [])"
  have st4: "ms_tasks st4 = [Publish ?r [?rq]]" "ms_sent st4 = ms_sent st"
    using fresh by (auto simp: st4_def build_take_def cancelRoundTimer_def defs split: option.splits)
  have "?step (?st3 [Build ?r]) st4"
    by (rule ms_step.task [of _ "[]" "Build ?r" "[]" _ _ 0]) (simp_all add: st4_def)
  moreover have "?step st4 (st4\<lparr>ms_tasks := [Finish], ms_sent := ms_sent st @ map (msg_of ord ?r [?rq]) topics\<rparr>)"
    by (rule ms_step.task [of _ "[]" "Publish ?r [?rq]" "[]" _ _ 0]) (simp_all add: st4 publish_committees_ok)
  ultimately have run: "?step\<^sup>*\<^sup>* ?st1 (st4\<lparr>ms_tasks := [Finish], ms_sent := ms_sent st @ map (msg_of ord ?r [?rq]) topics\<rparr>)"
    by (meson rtranclp.rtrancl_into_rtrancl rtranclp.rtrancl_refl)
  have "mset (sort_Slice rq_VRF ord [?rq]) = mset [?rq]" by (rule sort_Slice_mset)
  then have sel: "selected ord [?rq] = [?rq]" by (simp add: selected_def)
  show ?thesis by (rule exI, rule conjI [OF run]) (simp add: sel)
qed

section \<open>Committees\<close>

text \<open>A member as the w-nodes check it.\<close>

definition verified :: "('pk, 'sg) bls_lib \<Rightarrow> Wnode \<Rightarrow> bool" where
  "verified B mem \<longleftrightarrow> (\<exists>pk v. pk_Deserialize B (w_Publickey mem) = Some pk \<and> VerifyVRF B (w_Seed mem) (w_Proof mem) pk = Some v)"

definition vrf_of :: "Wnode \<Rightarrow> nat" where
  "vrf_of mem = SetBytes (Sum256 (w_Proof mem))"

lemma verified_wnode: "valid_req B x \<Longrightarrow> verified B (wnode_of (rq_Node x)) \<and> vrf_of (wnode_of (rq_Node x)) = rq_VRF x"
  using valid_req_VRF [of B x] by (auto simp: valid_req_def verified_def vrf_of_def wnode_of_def)

lemma read_members_Some:
  "read_members B ms km = (km', Some cs) \<Longrightarrow>
     (\<forall>mem \<in> set ms. verified B mem) \<and> map vc_Node cs = ms \<and> map vc_VRF cs = map vrf_of ms"
proof (induction ms arbitrary: km cs)
  case (Cons mem ms)
  then obtain pk v ds where pk: "pk_Deserialize B (w_Publickey mem) = Some pk"
    and v: "VerifyVRF B (w_Seed mem) (w_Proof mem) pk = Some v"
    and r: "read_members B ms (km(w_NodeID mem \<mapsto> pk)) = (km', Some ds)" and cs: "cs = \<lparr>vc_Node = mem, vc_VRF = v\<rparr> # ds"
    by (auto simp: Let_def split: option.splits prod.splits)
  have "vrf_of mem = v" using VerifyVRF_value [OF v] by (simp add: vrf_of_def)
  then show ?case using Cons.IH [OF r] pk v by (auto simp: cs verified_def)
qed simp

lemma read_members_keys:
  "read_members B ms km = (km', cs) \<Longrightarrow> i \<notin> set (map w_NodeID ms) \<Longrightarrow> km' i = km i"
proof (induction ms arbitrary: km cs)
  case (Cons mem ms)
  then show ?case
    by (auto simp: Let_def split: option.splits prod.splits)
qed simp

lemma read_members_verified:
  "\<forall>mem \<in> set ms. verified B mem \<Longrightarrow> distinct (map w_NodeID ms) \<Longrightarrow>
   \<exists>km' cs. read_members B ms km = (km', Some cs) \<and>
     (\<forall>mem \<in> set ms. km' (w_NodeID mem) = pk_Deserialize B (w_Publickey mem))"
proof (induction ms arbitrary: km)
  case (Cons mem ms)
  from Cons.prems(1) obtain pk v where pk: "pk_Deserialize B (w_Publickey mem) = Some pk"
    "VerifyVRF B (w_Seed mem) (w_Proof mem) pk = Some v" by (auto simp: verified_def)
  from Cons.prems have "\<forall>mem \<in> set ms. verified B mem" "distinct (map w_NodeID ms)" by simp_all
  from Cons.IH [OF this, of "km(w_NodeID mem \<mapsto> pk)"] obtain km' cs where
    r: "read_members B ms (km(w_NodeID mem \<mapsto> pk)) = (km', Some cs)"
    "\<forall>mem \<in> set ms. km' (w_NodeID mem) = pk_Deserialize B (w_Publickey mem)" by (elim exE conjE) (rule that)
  moreover have "km' (w_NodeID mem) = Some pk" using read_members_keys [OF r(1)] Cons.prems(2) by simp
  ultimately show ?case using pk by simp
qed simp

text \<open>A list that is sorted already, by different km, is what any sorting makes of it.\<close>

lemma sort_Slice_id:
  assumes "sorted (map key xs)" and "distinct (map key xs)"
  shows "sort_Slice key ord xs = xs"
proof -
  let ?ys = "sort_Slice key ord xs"
  have i: "inj_on key (set ?ys \<union> set xs)"
    using assms(2) by (auto simp: distinct_map)
  show ?thesis
    by (rule map_sorted_distinct_set_unique [OF i sort_Slice_sorted _ assms])
      (simp_all add: sort_Slice_distinct assms(2))
qed

lemma apply_shards_adopt:
  assumes listed: "\<exists>mem \<in> set (sh_Member shard). w_NodeID mem = cn_selfId w"
    and ver: "\<forall>mem \<in> set (sh_Member shard). verified B mem" and ids: "distinct (map w_NodeID (sh_Member shard))"
    and sorted: "sorted (map vrf_of (sh_Member shard))" and vrfs: "distinct (map vrf_of (sh_Member shard))"
    and leader: "sh_LeaderID shard = w_NodeID (hd (sh_Member shard))"
  shows "\<exists>w'. apply_shards B ord chan (shard # shards) w = Inr w' \<and> cn_members w' = sh_Member shard \<and>
     (cn_leader w' \<longleftrightarrow> sh_LeaderID shard = cn_selfId w) \<and> cn_channelID w' = chan \<and> cn_roundIdx w' = cn_roundIdx w \<and>
     (\<forall>mem \<in> set (sh_Member shard). cn_publicKeyMap w' (w_NodeID mem) = pk_Deserialize B (w_Publickey mem))"
proof -
  let ?ms = "sh_Member shard"
  have ne: "?ms \<noteq> []" using listed by auto
  obtain km cs where r: "read_members B ?ms (cn_publicKeyMap w) = (km, Some cs)"
    and kms: "\<forall>mem \<in> set ?ms. km (w_NodeID mem) = pk_Deserialize B (w_Publickey mem)"
    using read_members_verified [OF ver ids] by blast
  from read_members_Some [OF r] have cs: "map vc_Node cs = ?ms" "map vc_VRF cs = map vrf_of ?ms" by simp_all
  have s: "sort_Slice vc_VRF ord cs = cs" using sorted vrfs by (intro sort_Slice_id) (simp_all add: cs(2))
  have "cs \<noteq> []" using cs(1) ne by auto
  then have "vc_Node (cs ! 0) = hd ?ms" by (simp add: hd_conv_nth flip: cs(1))
  moreover have "list_all2 (\<lambda>mem c. w_NodeID mem = w_NodeID (vc_Node c)) ?ms cs"
    by (simp add: list.rel_map list_all2_same flip: cs(1))
  moreover have "list_ex (\<lambda>mem. w_NodeID mem = cn_selfId w) ?ms" using listed by (simp add: list_ex_iff)
  ultimately show ?thesis using kms leader \<open>cs \<noteq> []\<close> by (simp add: r s Let_def)
qed

text \<open>
  The committee that the s-node publishes is the one its members adopt: whatever state the s-node has
  reached, a w-node with the same signature library that is listed in a published message, and receives it,
  takes over its round, its members and their keys, and is the leader exactly when it comes first,
  provided that no two members have the same VRF value.
\<close>

theorem published_committee_adopted:
  assumes "distinct topics" and "(ms_step B ord topics)\<^sup>*\<^sup>* ms_init st" and "m \<in> set (ms_sent st)"
    and "\<exists>shard \<in> set (cm_Shards m). cn_selfId w \<in> w_NodeID ` set (sh_Member shard)"
    and "\<forall>shard \<in> set (cm_Shards m). distinct (map (\<lambda>mem. SetBytes (Sum256 (w_Proof mem))) (sh_Member shard))"
  shows "\<exists>w' shard. applyCommittee B ord' chan m w = Inr w' \<and> cm_Shards m = [shard] \<and> cn_roundIdx w' = cm_RoundNum m \<and>
     cn_members w' = sh_Member shard \<and> (cn_leader w' \<longleftrightarrow> cn_selfId w = w_NodeID (hd (sh_Member shard))) \<and>
     (\<forall>mem \<in> set (sh_Member shard). \<exists>pk. pk_Deserialize B (w_Publickey mem) = Some pk \<and>
        cn_publicKeyMap w' (w_NodeID mem) = Some pk)"
proof -
  from ms_reachable [OF assms(1,2)] assms(3) have "committee_ok B topics m" by (simp add: ms_inv_def)
  then obtain topic xs where xs: "xs \<noteq> []" "\<forall>x \<in> set xs. valid_req B x" "distinct (map req_id xs)" "sorted (map rq_VRF xs)"
    and m: "cm_Shards m = [\<lparr>sh_ID = topic, sh_LeaderID = req_id (hd xs), sh_Member = map (wnode_of \<circ> rq_Node) xs\<rparr>]"
    unfolding committee_ok_def by (elim conjE bexE exE) (rule that; assumption)
  let ?ms = "map (wnode_of \<circ> rq_Node) xs" and ?w = "w\<lparr>cn_done := [], cn_roundIdx := cm_RoundNum m\<rparr>"
  let ?shard = "\<lparr>sh_ID = topic, sh_LeaderID = req_id (hd xs), sh_Member = ?ms\<rparr>"
  have vrfs: "map vrf_of ?ms = map rq_VRF xs" using xs(2) verified_wnode by auto
  have ver: "\<forall>mem \<in> set ?ms. verified B mem" using xs(2) verified_wnode by auto
  have ids: "map w_NodeID ?ms = map req_id xs" by (simp add: wnode_of_def)
  have lead: "req_id (hd xs) = w_NodeID (hd ?ms)" using xs(1) by (simp add: hd_map wnode_of_def)
  have "\<exists>w'. apply_shards B ord' chan [?shard] ?w = Inr w' \<and> cn_members w' = sh_Member ?shard \<and>
     (cn_leader w' \<longleftrightarrow> sh_LeaderID ?shard = cn_selfId ?w) \<and> cn_channelID w' = chan \<and> cn_roundIdx w' = cn_roundIdx ?w \<and>
     (\<forall>mem \<in> set (sh_Member ?shard). cn_publicKeyMap w' (w_NodeID mem) = pk_Deserialize B (w_Publickey mem))"
  proof (rule apply_shards_adopt)
    show "distinct (map vrf_of (sh_Member ?shard))" using assms(5) by (simp add: m vrf_of_def comp_def)
    show "sorted (map vrf_of (sh_Member ?shard))" using xs(4) by (simp only: vrfs Shard.select_convs)
    show "distinct (map w_NodeID (sh_Member ?shard))" using xs(3) by (simp only: ids Shard.select_convs)
    show "\<forall>mem \<in> set (sh_Member ?shard). verified B mem" using ver by simp
    show "sh_LeaderID ?shard = w_NodeID (hd (sh_Member ?shard))" using lead by simp
    show "\<exists>mem \<in> set (sh_Member ?shard). w_NodeID mem = cn_selfId ?w" using assms(4) by (auto simp: m)
  qed
  then obtain w' where w': "apply_shards B ord' chan [?shard] ?w = Inr w'" "cn_members w' = ?ms"
    "cn_leader w' \<longleftrightarrow> req_id (hd xs) = cn_selfId w" "cn_roundIdx w' = cm_RoundNum m"
    "\<forall>mem \<in> set ?ms. cn_publicKeyMap w' (w_NodeID mem) = pk_Deserialize B (w_Publickey mem)"
    by (elim exE conjE) (rule that; simp)
  have "\<forall>mem \<in> set ?ms. \<exists>pk. pk_Deserialize B (w_Publickey mem) = Some pk \<and> cn_publicKeyMap w' (w_NodeID mem) = Some pk"
  proof
    fix mem assume mem: "mem \<in> set ?ms"
    then have "verified B mem" using ver by blast
    then obtain pk where "pk_Deserialize B (w_Publickey mem) = Some pk" unfolding verified_def by blast
    then show "\<exists>pk. pk_Deserialize B (w_Publickey mem) = Some pk \<and> cn_publicKeyMap w' (w_NodeID mem) = Some pk"
      using w'(5) [rule_format, OF mem] by (intro exI [of _ pk]) simp
  qed
  then show ?thesis using w'(1-4) lead
    by (intro exI [of _ w'] exI [of _ ?shard]) (auto simp: applyCommittee_def m)
qed

text \<open>A shard that passes every check of \<open>applyCommittee\<close>.\<close>

definition genuine :: "('pk, 'sg) bls_lib \<Rightarrow> string \<Rightarrow> Shard \<Rightarrow> bool" where
  "genuine B self shard \<longleftrightarrow> self \<in> w_NodeID ` set (sh_Member shard) \<and> (\<forall>mem \<in> set (sh_Member shard). verified B mem) \<and>
     (\<exists>cs. mset cs = mset (sh_Member shard) \<and> sorted (map vrf_of cs) \<and> map w_NodeID cs = map w_NodeID (sh_Member shard)) \<and>
     sh_LeaderID shard = w_NodeID (hd (sh_Member shard))"

lemma apply_shards_cases:
  "\<exists>w'. apply_shards B ord chan shards w = Inr w' \<and> cn_roundIdx w' = cn_roundIdx w \<and> cn_selfId w' = cn_selfId w \<and>
     ((cn_members w' = cn_members w \<and> cn_leader w' = cn_leader w \<and> cn_channelID w' = cn_channelID w) \<or>
      (\<exists>shard \<in> set shards. genuine B (cn_selfId w) shard \<and> cn_members w' = sh_Member shard \<and>
         (cn_leader w' \<longleftrightarrow> cn_selfId w = w_NodeID (hd (sh_Member shard)))))"
proof (induction shards arbitrary: w)
  case (Cons shard shards)
  let ?ms = "sh_Member shard"
  show ?case
  proof (cases "list_ex (\<lambda>mem. w_NodeID mem = cn_selfId w) ?ms")
    case False
    with Cons [of w] show ?thesis by auto
  next
    case listed: True
    obtain km cs where r: "read_members B ?ms (cn_publicKeyMap w) = (km, cs)" by (cases "read_members B ?ms (cn_publicKeyMap w)")
    show ?thesis
    proof (cases cs)
      case None
      then show ?thesis using listed r by simp
    next
      case (Some cands)
      let ?s = "sort_Slice vc_VRF ord cands"
      from read_members_Some [OF r [unfolded Some]] have cs: "map vc_Node cands = ?ms" "map vc_VRF cands = map vrf_of ?ms"
        "\<forall>mem \<in> set ?ms. verified B mem" by simp_all
      have "?ms \<noteq> []" using listed by auto
      then have cne: "cands \<noteq> []" using cs(1) by auto
      then have ne: "?s \<noteq> []" by (metis length_0_conv sort_Slice_length)
      have "vc_VRF c = vrf_of (vc_Node c)" if "c \<in> set cands" for c
        using that cs(1,2) by (metis (no_types, lifting) list.map_comp map_eq_conv comp_apply)
      then have v: "map vrf_of (map vc_Node ?s) = map vc_VRF ?s" by simp
      have eq: "w_NodeID (hd ?ms) = w_NodeID (vc_Node (?s ! 0))"
        if "list_all2 (\<lambda>mem c. w_NodeID mem = w_NodeID (vc_Node c)) ?ms ?s"
        using that ne by (cases ?ms; cases ?s; simp)
      have "genuine B (cn_selfId w) shard"
        if same: "list_all2 (\<lambda>mem c. w_NodeID mem = w_NodeID (vc_Node c)) ?ms ?s"
          and "sh_LeaderID shard = w_NodeID (vc_Node (?s ! 0))"
        unfolding genuine_def
      proof (intro conjI exI [of _ "map vc_Node ?s"])
        show "cn_selfId w \<in> w_NodeID ` set ?ms" using listed unfolding list_ex_iff by (metis image_eqI)
        show "mset (map vc_Node ?s) = mset ?ms" unfolding cs(1) [symmetric] by (simp add: sort_Slice_mset)
        show "sorted (map vrf_of (map vc_Node ?s))" unfolding v by (rule sort_Slice_sorted)
        show "map w_NodeID (map vc_Node ?s) = map w_NodeID ?ms"
          using same by (induction rule: list_all2_induct) simp_all
        show "sh_LeaderID shard = w_NodeID (hd ?ms)" using that eq by simp
      qed (rule cs(3))
      moreover have idx: "go_index ?s 0 = Inr (?s ! 0)" using ne cne by (simp add: go_index_def)
      moreover let ?same = "list_all2 (\<lambda>mem c. w_NodeID mem = w_NodeID (vc_Node c)) ?ms ?s"
      let ?w = "w\<lparr>cn_publicKeyMap := km\<rparr>"
      have run: "apply_shards B ord chan (shard # shards) w =
        (if \<not> ?same then Inr ?w else if sh_LeaderID shard \<noteq> w_NodeID (vc_Node (?s ! 0)) then Inr ?w
         else let w = ?w\<lparr>cn_members := ?ms, cn_leader := (sh_LeaderID shard = cn_selfId ?w), cn_channelID := chan\<rparr>
              in Inr (if cn_leader w then w\<lparr>cn_isRunning := False, cn_done := [False]\<rparr> else w))"
        using listed r Some idx by (simp add: Let_def del: sort_Slice_length)
      show ?thesis
      proof (cases "?same \<and> sh_LeaderID shard = w_NodeID (vc_Node (?s ! 0))")
        case True
        then have "genuine B (cn_selfId w) shard" "sh_LeaderID shard = w_NodeID (hd ?ms)" using calculation eq by auto
        then show ?thesis using True unfolding run by (simp add: Let_def)
      next
        case False
        then have "apply_shards B ord chan (shard # shards) w = Inr ?w" unfolding run by auto
        then show ?thesis by simp
      qed
    qed
  qed
qed simp

text \<open>
  A w-node is not made to follow a forged committee: whatever message it is sent, \<open>applyCommittee\<close> ends, and
  either leaves members and leadership as they were, or takes them from a shard that lists the node,
  in which every member's proof verifies against its seed and key, the identities stand in the order of the
  values of the proofs, and the leader is the first. The round number, though, is taken over in any case.
\<close>

theorem forged_committee_ignored:
  "\<exists>w'. applyCommittee B ord chan msg w = Inr w' \<and> cn_roundIdx w' = cm_RoundNum msg \<and>
     ((cn_members w' = cn_members w \<and> cn_leader w' = cn_leader w) \<or>
      (\<exists>shard \<in> set (cm_Shards msg). cn_selfId w \<in> w_NodeID ` set (sh_Member shard) \<and>
         (\<forall>mem \<in> set (sh_Member shard). \<exists>pk v. pk_Deserialize B (w_Publickey mem) = Some pk \<and>
            VerifyVRF B (w_Seed mem) (w_Proof mem) pk = Some v) \<and>
         (\<exists>cs. mset cs = mset (sh_Member shard) \<and> map w_NodeID cs = map w_NodeID (sh_Member shard) \<and>
            sorted (map (\<lambda>mem. SetBytes (Sum256 (w_Proof mem))) cs)) \<and>
         sh_LeaderID shard = w_NodeID (hd (sh_Member shard)) \<and> cn_members w' = sh_Member shard \<and>
         (cn_leader w' \<longleftrightarrow> cn_selfId w = sh_LeaderID shard)))"
proof -
  let ?w = "w\<lparr>cn_done := [], cn_roundIdx := cm_RoundNum msg\<rparr>"
  from apply_shards_cases [of B ord chan "cm_Shards msg" ?w] obtain w' where
    w': "apply_shards B ord chan (cm_Shards msg) ?w = Inr w'" "cn_roundIdx w' = cm_RoundNum msg"
    and c: "(cn_members w' = cn_members w \<and> cn_leader w' = cn_leader w) \<or>
      (\<exists>shard \<in> set (cm_Shards msg). genuine B (cn_selfId w) shard \<and> cn_members w' = sh_Member shard \<and>
         (cn_leader w' \<longleftrightarrow> cn_selfId w = w_NodeID (hd (sh_Member shard))))"
    by auto
  from c show ?thesis
  proof
    assume "\<exists>shard \<in> set (cm_Shards msg). genuine B (cn_selfId w) shard \<and> cn_members w' = sh_Member shard \<and>
         (cn_leader w' \<longleftrightarrow> cn_selfId w = w_NodeID (hd (sh_Member shard)))"
    then obtain shard where s: "shard \<in> set (cm_Shards msg)" "genuine B (cn_selfId w) shard" "cn_members w' = sh_Member shard"
      "cn_leader w' \<longleftrightarrow> cn_selfId w = w_NodeID (hd (sh_Member shard))" by blast
    have vrf: "map vrf_of cs = map (\<lambda>mem. SetBytes (Sum256 (w_Proof mem))) cs" for cs by (simp add: vrf_of_def)
    show ?thesis using w' s unfolding applyCommittee_def genuine_def verified_def vrf
      by (intro exI [of _ w'] conjI disjI2 bexI [of _ shard]) auto
  qed (use w' in \<open>simp add: applyCommittee_def\<close>)
qed

section \<open>Votes\<close>

text \<open>A vote that counts: of the phase waited for, with a signature that parses.\<close>

fun counted :: "('pk, 'sg) bls_lib \<Rightarrow> int \<Rightarrow> vote_event \<Rightarrow> ('sg \<times> AuditMsg) list" where
  "counted B targetPhase (Vote (Some msg)) =
     (if am_PhaseNum msg = targetPhase
      then case sg_Deserialize B (am_Signature msg) of None \<Rightarrow> [] | Some sig \<Rightarrow> [(sig, msg)] else [])"
| "counted B targetPhase ev = []"

definition votes_in_time :: "('pk, 'sg) bls_lib \<Rightarrow> int \<Rightarrow> vote_event list \<Rightarrow> ('sg \<times> AuditMsg) list" where
  "votes_in_time B targetPhase evs = concat (map (counted B targetPhase) (takeWhile (\<lambda>ev. ev \<noteq> Timeout) evs))"

lemma votes_in_time_simps [simp]:
  "votes_in_time B t [] = []" "votes_in_time B t (Timeout # evs) = []"
  "votes_in_time B t (Vote v # evs) = counted B t (Vote v) @ votes_in_time B t evs"
  by (simp_all add: votes_in_time_def)

lemma votes_in_time_phase:
  assumes "x \<in> set (votes_in_time B t evs)"
  shows "am_PhaseNum (snd x) = t"
proof -
  obtain ev where ev: "x \<in> set (counted B t ev)" using assms by (auto simp: votes_in_time_def)
  show ?thesis
  proof (cases ev)
    case (Vote v)
    show ?thesis
    proof (cases v)
      case (Some m)
      show ?thesis
        by (cases "am_PhaseNum m = t"; cases "sg_Deserialize B (am_Signature m)") (use ev Vote Some in simp_all)
    qed (use ev Vote in simp)
  qed (use ev in simp)
qed

definition voters :: "AuditMsg list \<Rightarrow> string set" where
  "voters ms = {i. \<exists>m \<in> set ms. Some \<lparr>hon_Id = i\<rparr> \<in> set (am_HonestAuditors m)}"

lemma HonestAuditor_eq [simp]: "\<lparr>hon_Id = hon_Id a\<rparr> = (a :: HonestAuditor)"
  by (cases a) simp

lemma add_auditors: "set (fold add_auditor as ids) = set ids \<union> {i. Some \<lparr>hon_Id = i\<rparr> \<in> set as} \<and>
    (distinct ids \<longrightarrow> distinct (fold add_auditor as ids))"
proof (induction as arbitrary: ids)
  case (Cons a as)
  show ?case
  proof (cases a)
    case None
    then show ?thesis using Cons.IH [of ids] by (simp add: add_auditor_def)
  next
    case (Some x)
    have "set (add_auditor a ids) = insert (hon_Id x) (set ids)" "distinct ids \<Longrightarrow> distinct (add_auditor a ids)"
      by (auto simp: Some add_auditor_def)
    moreover have "{i. Some \<lparr>hon_Id = i\<rparr> \<in> set (a # as)} = insert (hon_Id x) {i. Some \<lparr>hon_Id = i\<rparr> \<in> set as}"
      by (auto simp: Some)
    ultimately show ?thesis using Cons.IH [of "add_auditor a ids"] by auto
  qed
qed simp

definition auditor_list :: "string list \<Rightarrow> HonestAuditor option list" where
  "auditor_list ids = map (\<lambda>i. Some \<lparr>hon_Id = i\<rparr>) ids"

text \<open>The loop, from the votes it has so far on.\<close>

lemma Multisinging_fields:
  assumes "t = AuditMsg_AGGREGATED_PREPARE \<or> t = AuditMsg_AGGREGATED_COMMIT" and "am_PhaseNum m = t"
  shows "am_Signature (cn_auditMsg (Multisinging K m sigs w)) = sg_Serialize K (sg_Aggregate K sigs)"
    and "am_HonestAuditors (cn_auditMsg (Multisinging K m sigs w)) = am_HonestAuditors (cn_auditMsg w)"
    and "am_CurHash (cn_auditMsg (Multisinging K m sigs w)) = am_CurHash m"
    and "am_PhaseNum (cn_auditMsg (Multisinging K m sigs w)) =
      (if t = AuditMsg_AGGREGATED_PREPARE then AuditMsg_COMMIT else AuditMsg_AGGREGATED_COMMIT)"
  using assms by (auto simp: Multisinging_def aggregateAndSet_def AuditMsg_AGGREGATED_PREPARE_def AuditMsg_AGGREGATED_COMMIT_def)

lemma waitForVotes_counted:
  assumes "counted B targetPhase (Vote v) = []"
  shows "waitForVotes B K ord quorum targetPhase (Vote v # evs) sigVec ids w =
    waitForVotes B K ord quorum targetPhase evs sigVec ids w"
  using assms by (cases v) (auto split: if_splits option.splits)

lemma waitForVotes_vote:
  assumes "counted B targetPhase (Vote v) = [(sig, msg)]" and "targetPhase \<noteq> AuditMsg_PHASE_UNSPECIFIED"
  shows "waitForVotes B K ord quorum targetPhase (Vote v # evs) sigVec ids w =
    (let ids = fold add_auditor (am_HonestAuditors msg) ids;
         w = w\<lparr>cn_auditMsg := (cn_auditMsg w)\<lparr>am_HonestAuditors := auditor_list (in_order ord ids)\<rparr>\<rparr>
     in if length sigVec + 1 = quorum then Some (True, Multisinging K msg (sigVec @ [sig]) w)
        else waitForVotes B K ord quorum targetPhase evs (sigVec @ [sig]) ids w)"
  using assms by (cases v) (auto simp: auditor_list_def Let_def split: if_splits option.splits)

lemma counted_cases:
  obtains "counted B targetPhase (Vote v) = []"
  | sig msg where "counted B targetPhase (Vote v) = [(sig, msg)]"
proof (cases v)
  case None
  then show thesis by (intro that(1)) simp
next
  case (Some m)
  then show thesis using that
    by (cases "am_PhaseNum m = targetPhase"; cases "sg_Deserialize B (am_Signature m)") simp_all
qed

lemma waitForVotes_votes:
  assumes target: "targetPhase \<noteq> AuditMsg_PHASE_UNSPECIFIED" and "distinct ids"
    and "length sigVec < quorum" and "quorum \<le> length sigVec + length (votes_in_time B targetPhase evs)"
  shows "\<exists>ids'. let vs = take (quorum - length sigVec) (votes_in_time B targetPhase evs) in
     distinct ids' \<and> set ids' = set ids \<union> voters (map snd vs) \<and>
     waitForVotes B K ord quorum targetPhase evs sigVec ids w = Some (True, Multisinging K (snd (last vs)) (sigVec @ map fst vs)
        (w\<lparr>cn_auditMsg := (cn_auditMsg w)\<lparr>am_HonestAuditors := auditor_list (in_order ord ids')\<rparr>\<rparr>))"
  using assms(2-4)
proof (induction evs arbitrary: sigVec ids w)
  case (Cons ev evs)
  obtain v where ev: "ev = Vote v" using Cons.prems by (cases ev) auto
  show ?case
  proof (cases rule: counted_cases [of B targetPhase v])
    case 1
    then show ?thesis using Cons.IH [OF Cons.prems(1,2), of w] Cons.prems(3) by (simp add: ev waitForVotes_counted)
  next
    case (2 sig msg)
    let ?ids = "fold add_auditor (am_HonestAuditors msg) ids" and ?V = "votes_in_time B targetPhase evs"
    let ?w = "w\<lparr>cn_auditMsg := (cn_auditMsg w)\<lparr>am_HonestAuditors := auditor_list (in_order ord ?ids)\<rparr>\<rparr>"
    have ids: "distinct ?ids" "set ?ids = set ids \<union> voters [msg]"
      using add_auditors [of "am_HonestAuditors msg" ids] Cons.prems(1) by (simp_all add: voters_def)
    have vs: "take (quorum - length sigVec) (votes_in_time B targetPhase (ev # evs)) = (sig, msg) # take (quorum - (length sigVec + 1)) ?V"
    proof -
      have "quorum - length sigVec = Suc (quorum - (length sigVec + 1))" using Cons.prems(2) by simp
      then show ?thesis by (simp add: ev 2)
    qed
    show ?thesis
    proof (cases "length sigVec + 1 = quorum")
      case True
      then show ?thesis unfolding vs using ids
        by (intro exI [of _ ?ids]) (simp add: ev waitForVotes_vote [OF 2 target])
    next
      case False
      then have "length (sigVec @ [sig]) < quorum" "quorum \<le> length (sigVec @ [sig]) + length ?V"
        using Cons.prems(2,3) by (simp_all add: ev 2)
      from Cons.IH [OF ids(1) this, of ?w] obtain ids' where i: "distinct ids'"
        "set ids' = set ?ids \<union> voters (map snd (take (quorum - (length sigVec + 1)) ?V))"
        "waitForVotes B K ord quorum targetPhase evs (sigVec @ [sig]) ?ids ?w = Some (True,
           Multisinging K (snd (last (take (quorum - (length sigVec + 1)) ?V))) ((sigVec @ [sig]) @ map fst (take (quorum - (length sigVec + 1)) ?V))
           (?w\<lparr>cn_auditMsg := (cn_auditMsg ?w)\<lparr>am_HonestAuditors := auditor_list (in_order ord ids')\<rparr>\<rparr>))"
        by (auto simp: Let_def)
      have "take (quorum - (length sigVec + 1)) ?V \<noteq> []" using False Cons.prems(2,3) by (auto simp: ev 2)
      with i False show ?thesis unfolding vs
        by (intro exI [of _ ids']) (auto simp: ev waitForVotes_vote [OF 2 target] ids(2) voters_def)
    qed
  qed
qed simp

lemma waitForVotes_few:
  assumes target: "targetPhase \<noteq> AuditMsg_PHASE_UNSPECIFIED"
    and "length sigVec + length (votes_in_time B targetPhase evs) < quorum \<or> quorum \<le> length sigVec"
  shows "if Timeout \<in> set evs
     then \<exists>as. waitForVotes B K ord quorum targetPhase evs sigVec ids w =
       Some (False, w\<lparr>cn_auditMsg := (cn_auditMsg w)\<lparr>am_HonestAuditors := as\<rparr>\<rparr>)
     else waitForVotes B K ord quorum targetPhase evs sigVec ids w = None"
  using assms(2)
proof (induction evs arbitrary: sigVec ids w)
  case (Cons ev evs)
  show ?case
  proof (cases ev)
    case Timeout
    then show ?thesis by (auto intro: exI [of _ "am_HonestAuditors (cn_auditMsg w)"])
  next
    case (Vote v)
    show ?thesis
    proof (cases rule: counted_cases [of B targetPhase v])
      case 1
      then show ?thesis using Cons.IH [of sigVec ids w] Cons.prems by (simp add: Vote waitForVotes_counted)
    next
      case (2 sig msg)
      let ?ids = "fold add_auditor (am_HonestAuditors msg) ids"
      let ?w = "w\<lparr>cn_auditMsg := (cn_auditMsg w)\<lparr>am_HonestAuditors := auditor_list (in_order ord ?ids)\<rparr>\<rparr>"
      have ne: "length sigVec + 1 \<noteq> quorum" using Cons.prems by (auto simp: Vote 2)
      have "if Timeout \<in> set evs
         then \<exists>as. waitForVotes B K ord quorum targetPhase evs (sigVec @ [sig]) ?ids ?w =
           Some (False, ?w\<lparr>cn_auditMsg := (cn_auditMsg ?w)\<lparr>am_HonestAuditors := as\<rparr>\<rparr>)
         else waitForVotes B K ord quorum targetPhase evs (sigVec @ [sig]) ?ids ?w = None"
        using Cons.prems by (intro Cons.IH) (auto simp: Vote 2)
      then show ?thesis using ne by (auto simp: Vote waitForVotes_vote [OF 2 target] split: if_splits)
    qed
  qed
qed simp

text \<open>
  What a phase collects: with a quorum of at least one, \<open>waitForVotes\<close> succeeds exactly when as many votes
  of the phase, with signatures that parse, arrive before the time is up; it then stores the aggregate of
  their signatures, in the order of arrival, lists the identities the votes named, each once, and takes the
  hash of the last vote. Fewer votes and the end of the time give failure, with the signature and
  the phase as they were; without the end of the time it waits. Votes are counted, not voters, and a
  quorum of zero is never reached.
\<close>

theorem phase_collects_votes:
  assumes target: "targetPhase = AuditMsg_AGGREGATED_PREPARE \<or> targetPhase = AuditMsg_AGGREGATED_COMMIT"
  shows "let vs = votes_in_time B targetPhase evs; result = waitForVotes B K ord quorum targetPhase evs [] [] w in
     (0 < quorum \<and> quorum \<le> length vs \<longrightarrow> (\<exists>w' ids. result = Some (True, w') \<and>
       am_Signature (cn_auditMsg w') = sg_Serialize K (sg_Aggregate K (map fst (take quorum vs))) \<and>
       am_HonestAuditors (cn_auditMsg w') = map (\<lambda>i. Some \<lparr>hon_Id = i\<rparr>) ids \<and> distinct ids \<and>
       set ids = voters (map snd (take quorum vs)) \<and>
       am_CurHash (cn_auditMsg w') = am_CurHash (snd (vs ! (quorum - 1))) \<and>
       am_PhaseNum (cn_auditMsg w') =
         (if targetPhase = AuditMsg_AGGREGATED_PREPARE then AuditMsg_COMMIT else AuditMsg_AGGREGATED_COMMIT))) \<and>
     (quorum = 0 \<or> length vs < quorum \<longrightarrow>
       (if Timeout \<in> set evs
        then \<exists>auditors. result = Some (False, w\<lparr>cn_auditMsg := (cn_auditMsg w)\<lparr>am_HonestAuditors := auditors\<rparr>\<rparr>)
        else result = None))"
  unfolding Let_def
proof (intro conjI impI)
  let ?vs = "votes_in_time B targetPhase evs" and ?result = "waitForVotes B K ord quorum targetPhase evs [] [] w"
  note phases = AuditMsg_PHASE_UNSPECIFIED_def AuditMsg_AGGREGATED_PREPARE_def AuditMsg_AGGREGATED_COMMIT_def
  have t: "targetPhase \<noteq> AuditMsg_PHASE_UNSPECIFIED" using target by (auto simp: phases)
  {
    assume q: "0 < quorum \<and> quorum \<le> length ?vs"
    from waitForVotes_votes [OF t, of "[]" "[]" quorum B evs K ord w] q obtain ids' where ids': "distinct ids'"
      "set ids' = voters (map snd (take quorum ?vs))"
      "?result = Some (True, Multisinging K (snd (last (take quorum ?vs))) (map fst (take quorum ?vs))
        (w\<lparr>cn_auditMsg := (cn_auditMsg w)\<lparr>am_HonestAuditors := auditor_list (in_order ord ids')\<rparr>\<rparr>))"
      by (auto simp: Let_def)
    have last: "last (take quorum ?vs) = ?vs ! (quorum - 1)" using q by (subst last_conv_nth) auto
    have "?vs ! (quorum - 1) \<in> set ?vs" using conjunct1 [OF q] conjunct2 [OF q] by (intro nth_mem) arith
    then have ph: "am_PhaseNum (snd (?vs ! (quorum - 1))) = targetPhase"
      by (rule votes_in_time_phase)
    let ?w = "Multisinging K (snd (?vs ! (quorum - 1))) (map fst (take quorum ?vs))
        (w\<lparr>cn_auditMsg := (cn_auditMsg w)\<lparr>am_HonestAuditors := auditor_list (in_order ord ids')\<rparr>\<rparr>)"
    have "distinct (in_order ord ids')" "set (in_order ord ids') = voters (map snd (take quorum ?vs))"
      using ids'(1,2) map_in_order_distinct [of id ord ids'] by simp_all
    moreover have "am_HonestAuditors (cn_auditMsg ?w) = map (\<lambda>i. Some \<lparr>hon_Id = i\<rparr>) (in_order ord ids')"
      unfolding Multisinging_fields(2) [OF target ph] by (simp add: auditor_list_def)
    ultimately show "\<exists>w' ids. ?result = Some (True, w') \<and>
       am_Signature (cn_auditMsg w') = sg_Serialize K (sg_Aggregate K (map fst (take quorum ?vs))) \<and>
       am_HonestAuditors (cn_auditMsg w') = map (\<lambda>i. Some \<lparr>hon_Id = i\<rparr>) ids \<and> distinct ids \<and>
       set ids = voters (map snd (take quorum ?vs)) \<and>
       am_CurHash (cn_auditMsg w') = am_CurHash (snd (?vs ! (quorum - 1))) \<and>
       am_PhaseNum (cn_auditMsg w') =
         (if targetPhase = AuditMsg_AGGREGATED_PREPARE then AuditMsg_COMMIT else AuditMsg_AGGREGATED_COMMIT)"
      using ids'(3) unfolding last
      by (intro exI [of _ ?w] exI [of _ "in_order ord ids'"] conjI)
        (assumption | rule Multisinging_fields [OF target ph])+
  next
    assume "quorum = 0 \<or> length ?vs < quorum"
    then show "if Timeout \<in> set evs
        then \<exists>auditors. ?result = Some (False, w\<lparr>cn_auditMsg := (cn_auditMsg w)\<lparr>am_HonestAuditors := auditors\<rparr>\<rparr>)
        else ?result = None"
      by (intro waitForVotes_few [OF t]) auto
  }
qed

section \<open>A phase with honest members\<close>

definition keys_of :: "(string \<times> ('pk, 'sg) bls_keys) list \<Rightarrow> 'pk list" where
  "keys_of fs = map (pk_Own \<circ> snd) fs"

text \<open>What the library promises of aggregation: an aggregate of signatures of one message verifies under the
  keys of the signers, in any order.\<close>

definition aggregation_ok :: "('pk, 'sg) bls_lib \<Rightarrow> ('pk, 'sg) bls_keys \<Rightarrow> ('pk, 'sg) bls_keys set \<Rightarrow> bool" where
  "aggregation_ok B K signers \<longleftrightarrow>
     (\<forall>k \<in> signers. \<forall>m. sg_Deserialize B (sg_Serialize k (sk_SignByte k m)) = Some (sk_SignByte k m)) \<and>
     (\<forall>ks m pks. ks \<noteq> [] \<and> set ks \<subseteq> signers \<and> mset pks = mset (map pk_Own ks) \<longrightarrow>
        (let sig = sg_Aggregate K (map (\<lambda>k. sk_SignByte k m) ks)
         in sg_Deserialize B (sg_Serialize K sig) = Some sig \<and> FastAggregateVerify B sig pks m))"

lemma aggregation_use:
  "aggregation_ok B K signers \<Longrightarrow> ks \<noteq> [] \<Longrightarrow> set ks \<subseteq> signers \<Longrightarrow> mset pks = mset (map pk_Own ks) \<Longrightarrow>
     sg_Deserialize B (sg_Serialize K (sg_Aggregate K (map (\<lambda>k. sk_SignByte k m) ks))) =
       Some (sg_Aggregate K (map (\<lambda>k. sk_SignByte k m) ks)) \<and>
     FastAggregateVerify B (sg_Aggregate K (map (\<lambda>k. sk_SignByte k m) ks)) pks m"
  unfolding aggregation_ok_def Let_def by metis

lemma collect_keys_all:
  assumes "\<forall>i \<in> set ids. \<exists>pk. km i = Some pk" and "distinct (map (pk_Serialize K \<circ> the \<circ> km) ids)"
    and "set seen \<inter> set (map (pk_Serialize K \<circ> the \<circ> km) ids) = {}"
  shows "collect_keys K km (auditor_list ids) seen = Inr (map (the \<circ> km) ids)"
  using assms
proof (induction ids arbitrary: seen)
  case (Cons i ids)
  then obtain pk where pk: "km i = Some pk" by auto
  have "collect_keys K km (auditor_list ids) (pk_Serialize K pk # seen) = Inr (map (the \<circ> km) ids)"
    using Cons.prems pk by (intro Cons.IH) auto
  moreover have "pk_Serialize K pk \<notin> set seen" using Cons.prems(3) pk by auto
  ultimately show ?case using pk by (simp add: auditor_list_def)
qed (simp add: auditor_list_def)

lemma response_fields [simp]:
  "am_CurHash (response k t M i) = am_CurHash M" "am_PhaseNum (response k t M i) = t"
  "am_Signature (response k t M i) = sg_Serialize k (sk_SignByte k (string_bytes (am_CurHash M)))"
  by (simp_all add: response_def updateAuditFields_def Let_def)

lemma response_voters:
  "voters [response k t M i] = insert i (voters [M])"
  by (auto simp: voters_def response_def updateAuditFields_def Let_def list_ex_iff)

definition answers :: "int \<Rightarrow> AuditMsg \<Rightarrow> (string \<times> ('pk, 'sg) bls_keys) list \<Rightarrow> vote_event list" where
  "answers t M fs = map (\<lambda>(i, k). Vote (Some (response k t M i))) fs"

lemma answers_count:
  assumes "aggregation_ok B K signers" and "snd ` set fs \<subseteq> signers"
  shows "votes_in_time B t (answers t M fs @ evs) =
    map (\<lambda>(i, k). (sk_SignByte k (string_bytes (am_CurHash M)), response k t M i)) fs @ votes_in_time B t evs"
  using assms(2)
proof (induction fs)
  case (Cons f fs)
  obtain i k where f: "f = (i, k)" by (cases f)
  have "sg_Deserialize B (sg_Serialize k (sk_SignByte k m)) = Some (sk_SignByte k m)" for m
    using assms(1) Cons.prems by (auto simp: aggregation_ok_def f)
  then show ?case using Cons by (simp add: answers_def f)
qed (simp add: answers_def)

lemma answers_voters:
  assumes "fs \<noteq> []"
  shows "voters (map (\<lambda>(i, k). response k t M i) fs) = fst ` set fs \<union> voters [M]"
proof -
  have "voters (map (\<lambda>(i, k). response k t M i) fs) = (\<Union>f \<in> set fs. voters [response (snd f) t M (fst f)])"
    by (auto simp: voters_def split: prod.splits)
  also have "\<dots> = fst ` set fs \<union> voters [M]" using assms by (cases fs) (auto simp: response_voters)
  finally show ?thesis .
qed

lemma voters_known:
  "voters [M] \<subseteq> I \<Longrightarrow> voters [M] \<union> I = I" by auto

text \<open>
  C12: A phase whose members are honest ends with a certificate: when every member asked answers the leader's
  message, in whatever order and whatever comes afterwards, the phase succeeds, and the signature that
  the leader stores verifies for the hash of the message under the keys that any node which has adopted the
  committee collects for the auditors listed.
\<close>

theorem honest_phase_certifies:
  assumes target: "targetPhase = AuditMsg_AGGREGATED_PREPARE \<or> targetPhase = AuditMsg_AGGREGATED_COMMIT"
    and fs: "fs \<noteq> []" "distinct (map fst fs)" and laws: "aggregation_ok B K (snd ` set fs)"
    and known: "\<forall>(i, k) \<in> set fs. cn_publicKeyMap x i = Some (pk_Own k)"
    and keys: "distinct (map (pk_Serialize K' \<circ> pk_Own \<circ> snd) fs)"
    and M: "voters [M] \<subseteq> fst ` set fs"
  shows "\<exists>w' pks sig. waitForVotes B K ord (length fs) targetPhase (answers targetPhase M fs @ evs) [] [] w = Some (True, w') \<and>
     am_CurHash (cn_auditMsg w') = am_CurHash M \<and>
     collect_keys K' (cn_publicKeyMap x) (am_HonestAuditors (cn_auditMsg w')) [] = Inr pks \<and> mset pks = mset (keys_of fs) \<and>
     sg_Deserialize B (am_Signature (cn_auditMsg w')) = Some sig \<and>
     FastAggregateVerify B sig pks (string_bytes (am_CurHash (cn_auditMsg w')))"
proof -
  let ?h = "string_bytes (am_CurHash M)"
  let ?vs = "map (\<lambda>(i, k). (sk_SignByte k ?h, response k targetPhase M i)) fs"
  have t: "targetPhase \<noteq> AuditMsg_PHASE_UNSPECIFIED"
    using target by (auto simp: AuditMsg_PHASE_UNSPECIFIED_def AuditMsg_AGGREGATED_PREPARE_def AuditMsg_AGGREGATED_COMMIT_def)
  have votes: "votes_in_time B targetPhase (answers targetPhase M fs @ evs) = ?vs @ votes_in_time B targetPhase evs"
    by (rule answers_count [OF laws]) simp
  have sigs: "map fst ?vs = map (\<lambda>k. sk_SignByte k ?h) (map snd fs)" and msgs: "map snd ?vs = map (\<lambda>(i, k). response k targetPhase M i) fs"
    by (auto simp: split_beta)
  from waitForVotes_votes [OF t, of "[]" "[]" "length fs" B "answers targetPhase M fs @ evs" K ord w] fs(1)
  obtain ids where ids: "distinct ids" "set ids = voters (map snd ?vs)"
    and run: "waitForVotes B K ord (length fs) targetPhase (answers targetPhase M fs @ evs) [] [] w = Some (True,
      Multisinging K (snd (last ?vs)) (map fst ?vs)
        (w\<lparr>cn_auditMsg := (cn_auditMsg w)\<lparr>am_HonestAuditors := auditor_list (in_order ord ids)\<rparr>\<rparr>))"
    unfolding votes by (auto simp: Let_def)
  have set_ids: "set ids = fst ` set fs" using ids(2) M unfolding msgs answers_voters [OF fs(1)] by auto
  have last: "snd (last ?vs) \<in> set (map snd ?vs)" using fs(1) by (intro last_in_set [THEN imageI [of _ _ snd], simplified image_set]) simp
  then have hash: "am_CurHash (snd (last ?vs)) = am_CurHash M" and phase: "am_PhaseNum (snd (last ?vs)) = targetPhase"
    unfolding msgs by auto
  let ?w = "Multisinging K (snd (last ?vs)) (map fst ?vs)
        (w\<lparr>cn_auditMsg := (cn_auditMsg w)\<lparr>am_HonestAuditors := auditor_list (in_order ord ids)\<rparr>\<rparr>)"
  have w: "am_CurHash (cn_auditMsg ?w) = am_CurHash M"
    "am_Signature (cn_auditMsg ?w) = sg_Serialize K (sg_Aggregate K (map (\<lambda>k. sk_SignByte k ?h) (map snd fs)))"
    "am_HonestAuditors (cn_auditMsg ?w) = auditor_list (in_order ord ids)"
    by (simp_all only: Multisinging_fields [OF target phase] hash sigs) simp
  let ?ids = "in_order ord ids" and ?pks = "map (the \<circ> cn_publicKeyMap x) (in_order ord ids)"
  have "set ids = set (map fst fs)" using set_ids by simp
  then have perm: "mset ?ids = mset (map fst fs)"
    using set_eq_iff_mset_eq_distinct [OF ids(1) fs(2)] by (simp only: mset_in_order)
  have known': "the (cn_publicKeyMap x i) = pk_Own k" if "(i, k) \<in> set fs" for i k using known that by auto
  have "mset ?pks = mset (map (the \<circ> cn_publicKeyMap x) (map fst fs))" using perm by (metis mset_map)
  also have "map (the \<circ> cn_publicKeyMap x) (map fst fs) = keys_of fs"
    using known' by (auto simp: keys_of_def)
  finally have pks: "mset ?pks = mset (keys_of fs)" .
  have "mset (map (pk_Serialize K' \<circ> the \<circ> cn_publicKeyMap x) ?ids) = mset (map (pk_Serialize K' \<circ> pk_Own \<circ> snd) fs)"
  proof -
    have "map (pk_Serialize K') (keys_of fs) = map (pk_Serialize K' \<circ> pk_Own \<circ> snd) fs" by (auto simp: keys_of_def)
    then show ?thesis using pks by (metis (no_types, lifting) List.map.compositionality comp_assoc mset_map)
  qed
  then have "distinct (map (pk_Serialize K' \<circ> the \<circ> cn_publicKeyMap x) ?ids)" using keys by (metis mset_eq_imp_distinct_iff)
  then have "collect_keys K' (cn_publicKeyMap x) (auditor_list ?ids) [] = Inr ?pks"
    using known set_ids by (intro collect_keys_all) auto
  moreover have "mset ?pks = mset (map pk_Own (map snd fs))" using pks by (simp add: keys_of_def)
  then have "sg_Deserialize B (sg_Serialize K (sg_Aggregate K (map (\<lambda>k. sk_SignByte k ?h) (map snd fs)))) =
      Some (sg_Aggregate K (map (\<lambda>k. sk_SignByte k ?h) (map snd fs))) \<and>
    FastAggregateVerify B (sg_Aggregate K (map (\<lambda>k. sk_SignByte k ?h) (map snd fs))) ?pks ?h"
    by (intro aggregation_use [OF laws]) (use fs(1) in auto)
  ultimately show ?thesis using run w pks by (intro exI [of _ ?w] exI [of _ ?pks] exI) auto
qed

section \<open>A round without votes\<close>

lemma SendAuditMsg_sends:
  assumes "gm_ok (pu_sessionMap p)"
  shows "\<exists>q. SendAuditMsg data p = Inr (session_ids PUSH_SESSION p \<noteq> [], q) \<and> map fst (pu_sessionMap q) = map fst (pu_sessionMap p)"
proof -
  from fold_on_session_const [OF distinct_session_ids [OF assms, of PUSH_SESSION] session_ids_keys,
      of "\<lambda>s. on_stream (sendAuditDataPacket (ps_sessionID s) data) s"]
  show ?thesis by (auto simp: SendAuditMsg_def SendAuditInfo_def)
qed

lemma ctrl_wf_gm_ok: "ctrl_wf p \<Longrightarrow> gm_ok (pu_sessionMap p)"
  by (simp add: ctrl_wf_def sessions_wf_def)

lemma MP2BTPSubmit_effect:
  assumes "ctrl_wf (cn_pu w)" and "session"
  shows "\<exists>pu. MP2BTPSubmit J session w = Inr (w\<lparr>cn_pu := pu\<rparr>) \<and> ctrl_wf pu"
proof (cases "js_Marshal J (cn_auditMsg w)")
  case None
  then show ?thesis using assms by (intro exI [of _ "cn_pu w"]) (simp add: MP2BTPSubmit_def)
next
  case (Some buf)
  from SendAuditMsg_sends [OF ctrl_wf_gm_ok [OF assms(1)], of buf] obtain q b where q: "SendAuditMsg buf (cn_pu w) = Inr (b, q)" by blast
  then have "ctrl_wf q" using audit_sends_wf(1) [OF assms(1), of buf] by (simp add: ensures_def)
  then show ?thesis using Some q assms(2) by (intro exI [of _ q]) (simp add: MP2BTPSubmit_def)
qed

lemma MP2BTPRootOnce_effect:
  assumes "ctrl_wf (cn_pu w)" and "MP2BTPRootOnce N C addrs w = Inr (session, w')"
  shows "\<exists>pu. w' = w\<lparr>cn_pu := pu\<rparr> \<and> ctrl_wf pu"
proof (cases "nl_writable N")
  case False
  then show ?thesis using assms by (intro exI [of _ "cn_pu w"]) (auto simp: MP2BTPRootOnce_def)
next
  case True
  then obtain ns pu where "Connect (nl_run N) (nl_dial N) C ns PUSH_SESSION (cn_pu w) = Inr pu" "w' = w\<lparr>cn_pu := pu\<rparr>"
    using assms(2) by (auto simp: MP2BTPRootOnce_def split: option.splits)
  then show ?thesis using Connect_wf [OF assms(1), of "nl_run N" "nl_dial N" C ns PUSH_SESSION] by (auto simp: ensures_def)
qed

lemma bft_begin_effect:
  assumes "ctrl_wf (cn_pu w)" and "bft_begin J K N C prev userCount w = Inr (True, w')"
  shows "\<exists>pu. w' = w\<lparr>cn_auditMsg := first_message J K prev userCount w, cn_pu := pu\<rparr> \<and> ctrl_wf pu"
proof -
  let ?w = "w\<lparr>cn_auditMsg := first_message J K prev userCount w\<rparr>"
  from assms(2) obtain w1 where w1: "MP2BTPRootOnce N C (other_addrs ?w) ?w = Inr (True, w1)" "MP2BTPSubmit J True w1 = Inr w'"
    by (auto simp: bft_begin_def Let_def)
  from MP2BTPRootOnce_effect [OF _ w1(1)] assms(1) obtain pu where pu: "w1 = ?w\<lparr>cn_pu := pu\<rparr>" "ctrl_wf pu" by auto
  from MP2BTPSubmit_effect [of w1 True J] pu w1(2) show ?thesis by auto
qed

text \<open>
  C14: The outcome of the two phases is not looked at: when the leader, with a well-formed controller, could set up the round and the time is up in both
  phases before any vote has come, it publishes the block all the same, with its own signature only, with no auditor,
  and still marked as PREPARE.
\<close>

theorem block_published_without_votes:
  assumes "ctrl_wf (cn_pu w)" and "bft_begin J K N C prev userCount w = Inr (True, w1)"
  shows "\<exists>w'. bftConsensus J B K N C ord prev userCount (Timeout # prepares) (Timeout # commits) w = Some (Inr w') \<and>
     cn_gossip w' = cn_gossip w @ [\<lparr>gsp_Type = 2, gsp_Rndblk = Some (cn_auditMsg w'),
       gsp_StartConsensusTime = cn_startConsensusTime w\<rparr>] \<and>
     am_HonestAuditors (cn_auditMsg w') = [] \<and> am_PhaseNum (cn_auditMsg w') = AuditMsg_PREPARE \<and>
     am_CurHash (cn_auditMsg w') = am_CurHash (first_message J K prev userCount w) \<and>
     am_Signature (cn_auditMsg w') = sg_Serialize K (sk_SignByte K (string_bytes (am_CurHash (cn_auditMsg w'))))"
proof -
  let ?m = "first_message J K prev userCount w"
  from bft_begin_effect [OF assms] obtain pu where w1: "w1 = w\<lparr>cn_auditMsg := ?m, cn_pu := pu\<rparr>" and pu: "ctrl_wf pu" by blast
  from MP2BTPSubmit_effect [of w1 True J] pu obtain pu' where s: "MP2BTPSubmit J True w1 = Inr (w1\<lparr>cn_pu := pu'\<rparr>)"
    by (auto simp: w1)
  have wait: "wait_phase B K ord t (Timeout # evs) x = Some (False, x)" for t evs x by (simp add: wait_phase_def)
  have "bftConsensus J B K N C ord prev userCount (Timeout # prepares) (Timeout # commits) w
      = Some (bft_end True (w1\<lparr>cn_pu := pu'\<rparr>))"
    unfolding bftConsensus_def assms(2) by (simp add: wait s)
  then show ?thesis by (simp add: bft_end_def Let_def w1 first_message_def)
qed

section \<open>Commit messages\<close>

lemma collect_keys_total:
  "None \<notin> set as \<Longrightarrow> \<exists>pks. collect_keys K km as seen = Inr pks"
proof (induction as arbitrary: seen)
  case (Cons a as)
  then obtain h where a: "a = Some h" by (cases a) auto
  from Cons have "\<exists>pks. collect_keys K km as seen = Inr pks" for seen by simp
  then show ?case by (auto simp: a split: option.splits)
qed simp

lemma collect_keys_nil: "None \<in> set as \<Longrightarrow> collect_keys K km as seen = Inl NilDeref"
proof (induction as arbitrary: seen)
  case (Cons a as)
  show ?case
  proof (cases a)
    case (Some h)
    then have "collect_keys K km as seen = Inl NilDeref" for seen using Cons by simp
    then show ?thesis by (simp add: Some split: option.splits)
  qed simp
qed simp

text \<open>
  A member commits to anything: the check of the aggregated signature is commented out, so that a member
  answers every COMMIT message whose signature merely parses with its own signature in an
  AGGREGATED_COMMIT, whoever the auditors are and whatever was signed; and a message with a null
  auditor makes it panic.
\<close>

theorem commit_not_verified:
  assumes "js_Unmarshal J (aud_Data pkt) = Some (Some M)" and "am_PhaseNum M = AuditMsg_COMMIT"
  shows "(None \<notin> set (am_HonestAuditors M) \<and> sg_Deserialize B (am_Signature M) \<noteq> None \<longrightarrow>
      (\<exists>pks. MP2BTPConsensusListening J B K (Some pkt) w =
         sendMP2BTPResponse J K AuditMsg_AGGREGATED_COMMIT M (w\<lparr>cn_pubVec := pks\<rparr>))) \<and>
     am_Signature (response K AuditMsg_AGGREGATED_COMMIT M (cn_selfId w)) =
       sg_Serialize K (sk_SignByte K (string_bytes (am_CurHash M))) \<and>
     (None \<in> set (am_HonestAuditors M) \<longrightarrow> MP2BTPConsensusListening J B K (Some pkt) w = Inl NilDeref)"
proof (intro conjI impI)
  have ph: "am_PhaseNum M \<noteq> AuditMsg_PREPARE" using assms(2) by (simp add: AuditMsg_COMMIT_def AuditMsg_PREPARE_def)
  show "\<exists>pks. MP2BTPConsensusListening J B K (Some pkt) w =
      sendMP2BTPResponse J K AuditMsg_AGGREGATED_COMMIT M (w\<lparr>cn_pubVec := pks\<rparr>)"
    if "None \<notin> set (am_HonestAuditors M) \<and> sg_Deserialize B (am_Signature M) \<noteq> None"
  proof -
    from that collect_keys_total [of "am_HonestAuditors M" K "cn_publicKeyMap w" "[]"]
    obtain pks sig where "collect_keys K (cn_publicKeyMap w) (am_HonestAuditors M) [] = Inr pks"
      "sg_Deserialize B (am_Signature M) = Some sig" by auto
    then show ?thesis using assms ph
      by (intro exI [of _ pks]) (simp add: MP2BTPConsensusListening_def verifying_def Let_def)
  qed
  show "MP2BTPConsensusListening J B K (Some pkt) w = Inl NilDeref" if "None \<in> set (am_HonestAuditors M)"
    using collect_keys_nil [OF that, of K "cn_publicKeyMap w" "[]"] assms ph
    by (simp add: MP2BTPConsensusListening_def verifying_def)
qed simp

section \<open>Concrete nodes\<close>

text \<open>A library in which a key is a byte and a signature the list of its signers.\<close>

definition toy_bls :: "(byte, bytes) bls_lib" where
  "toy_bls = \<lparr>pk_Deserialize = (\<lambda>bs. case bs of [b] \<Rightarrow> Some b | _ \<Rightarrow> None), sg_Deserialize = Some,
     FastAggregateVerify = (\<lambda>sig pks m. mset sig = mset pks)\<rparr>"

definition toy_keys :: "byte \<Rightarrow> (byte, bytes) bls_keys" where
  "toy_keys b = \<lparr>sk_SignByte = (\<lambda>m. [b]), sg_Serialize = id, sg_Aggregate = concat, pk_Serialize = (\<lambda>pk. [pk]),
     pk_Own = b\<rparr>"

definition toy_node :: "string \<Rightarrow> (string \<rightharpoonup> 'pk) \<Rightarrow> 'pk CONSENSUSNODE" where
  "toy_node name km = \<lparr>cn_addresses = [''10.0.0.1''], cn_selfId = name, cn_roundIdx = 7, cn_members = [], cn_leader = True,
     cn_channelID = [], cn_done = [], cn_pendingCommittee = None, cn_auditMsg = empty_audit, cn_isRunning = False,
     cn_publicKeyMap = km, cn_pubVec = [], cn_pu = CreatePuCtrl 1, cn_startConsensusTime = 0, cn_gossip = []\<rparr>"

lemma toy_node_selfId [simp]: "cn_selfId (toy_node name km) = name"
  by (simp add: toy_node_def)

lemma toy_own: "own_keys_ok toy_bls (toy_keys b)"
  by (simp add: own_keys_ok_def toy_bls_def toy_keys_def)

lemma toy_aggregation: "aggregation_ok toy_bls (toy_keys a) (range toy_keys)"
proof -
  have "mset (concat (map (\<lambda>k. sk_SignByte k m) ks)) = mset (map pk_Own ks)" if "set ks \<subseteq> range toy_keys" for ks m
    using that by (induction ks) (auto simp: toy_keys_def)
  then show ?thesis by (auto simp: aggregation_ok_def Let_def toy_bls_def toy_keys_def)
qed

lemma aggregation_ok_mono: "aggregation_ok B K S \<Longrightarrow> S' \<subseteq> S \<Longrightarrow> aggregation_ok B K S'"
  unfolding aggregation_ok_def Let_def by (meson subset_iff subset_trans)

lemma own_report_accepted_witness:
  "\<exists>node pk. Reporting (toy_keys 5) 1700000000000 (toy_node ''w1'' Map.empty) = Inr [node] \<and> n_NodeID node = ''w1'' \<and>
     VerifyVRF toy_bls (n_Seed node) (n_Proof node) pk = Some (SetBytes (n_Value node)) \<and>
     ''w1'' \<in> (\<lambda>x. n_NodeID (rq_Node x)) ` set (queue (HandleMembershipRequest toy_bls [node] 9 ms_init)
        (ms_currentRound (HandleMembershipRequest toy_bls [node] 9 ms_init)))"
proof -
  obtain nodes where r: "Reporting (toy_keys 5) 1700000000000 (toy_node ''w1'' Map.empty) = Inr nodes"
    by (simp add: Reporting_def toy_node_def)
  from own_report_accepted [OF toy_own r] show ?thesis by (auto simp: r)
qed

lemma published_committee_adopted_witness:
  "\<exists>w'. applyCommittee demo_bls id ''mychannel'' (hd (ms_sent demo_published)) (toy_node ''b'' Map.empty) = Inr w' \<and>
     cn_members w' = [wnode_of (demo_node ''a''), wnode_of (demo_node ''b'')] \<and> \<not> cn_leader w'"
proof -
  have run: "(ms_step demo_bls id [''audit''])\<^sup>*\<^sup>* ms_init demo_published"
    using demo_run_late demo_run_published by (rule rtranclp_trans)
  let ?shard = "\<lparr>sh_ID = ''audit'', sh_LeaderID = ''a'', sh_Member = [wnode_of (demo_node ''a''), wnode_of (demo_node ''b'')]\<rparr>"
  let ?m = "\<lparr>cm_Type = 1, cm_RoundNum = 0, cm_Shards = [?shard]\<rparr>"
  have sent: "ms_sent demo_published = [?m]" unfolding demo_members [symmetric] by (simp add: demo_published_def)
  have m: "distinct [''audit'']" "?m \<in> set (ms_sent demo_published)"
    "\<exists>shard \<in> set (cm_Shards ?m). cn_selfId (toy_node ''b'' (Map.empty :: string \<rightharpoonup> unit)) \<in> w_NodeID ` set (sh_Member shard)"
    "\<forall>shard \<in> set (cm_Shards ?m). distinct (map (\<lambda>mem. SetBytes (Sum256 (w_Proof mem))) (sh_Member shard))"
    using demo_vrf by (simp_all add: sent wnode_of_def demo_node_def)
  from published_committee_adopted [OF m(1) run m(2-4), of id "''mychannel''"] show ?thesis
    by (auto simp: sent) (auto simp: wnode_of_def demo_node_def)
qed

lemma forged_committee_ignored_witness:
  "\<exists>w'. applyCommittee (demo_bls\<lparr>FastAggregateVerify := \<lambda>_ _ _. False\<rparr>) id ''mychannel''
       \<lparr>cm_Type = 1, cm_RoundNum = 9, cm_Shards = [\<lparr>sh_ID = ''audit'', sh_LeaderID = ''b'', sh_Member = [wnode_of (demo_node ''b'')]\<rparr>]\<rparr>
       (toy_node ''b'' Map.empty) = Inr w' \<and> cn_members w' = [] \<and> cn_roundIdx w' = 9"
proof -
  let ?B = "demo_bls\<lparr>FastAggregateVerify := \<lambda>_ _ _. False\<rparr>"
  have no: "VerifyVRF ?B s p k = None" for s p k by (simp add: VerifyVRF_def split: option.splits)
  show ?thesis
    using forged_committee_ignored [of ?B id "''mychannel''"
      "\<lparr>cm_Type = 1, cm_RoundNum = 9, cm_Shards = [\<lparr>sh_ID = ''audit'', sh_LeaderID = ''b'', sh_Member = [wnode_of (demo_node ''b'')]\<rparr>]\<rparr>"
      "toy_node ''b'' Map.empty"]
    by (auto simp: no toy_node_def)
qed

definition toy_members :: "(string \<times> (byte, bytes) bls_keys) list" where
  "toy_members = [(''b'', toy_keys 2), (''c'', toy_keys 3)]"

definition toy_message :: AuditMsg where
  "toy_message = empty_audit\<lparr>am_CurHash := ''5e'', am_PhaseNum := AuditMsg_PREPARE\<rparr>"

lemma phase_collects_votes_witness:
  "(\<exists>w'. waitForVotes toy_bls (toy_keys 1) rev 2 AuditMsg_AGGREGATED_PREPARE
       (answers AuditMsg_AGGREGATED_PREPARE toy_message toy_members) [] [] (toy_node ''a'' Map.empty) = Some (True, w') \<and>
       am_Signature (cn_auditMsg w') = [2, 3]) \<and>
   (\<exists>w'. waitForVotes toy_bls (toy_keys 1) rev 3 AuditMsg_AGGREGATED_PREPARE
       (answers AuditMsg_AGGREGATED_PREPARE toy_message toy_members @ [Timeout]) [] [] (toy_node ''a'' Map.empty) = Some (False, w') \<and>
       am_Signature (cn_auditMsg w') = [])"
proof -
  let ?t = AuditMsg_AGGREGATED_PREPARE
  have v: "votes_in_time toy_bls ?t (answers ?t toy_message toy_members @ evs) =
      map (\<lambda>(i, k). (sk_SignByte k (string_bytes (am_CurHash toy_message)), response k ?t toy_message i)) toy_members @
      votes_in_time toy_bls ?t evs" for evs
    by (rule answers_count [OF toy_aggregation [of 1]]) (auto simp: toy_members_def)
  have sigs: "map fst (map (\<lambda>(i, k). (sk_SignByte k (string_bytes (am_CurHash toy_message)), response k ?t toy_message i)) toy_members) = [[2], [3]]"
    "length toy_members = 2" by (simp_all add: toy_members_def toy_keys_def)
  have agg: "sg_Serialize (toy_keys 1) (sg_Aggregate (toy_keys 1) [[2], [3]]) = [2, 3]" by (simp add: toy_keys_def)
  have "Timeout \<in> set (answers ?t toy_message toy_members @ [Timeout])" by simp
  then show ?thesis
    using phase_collects_votes [of ?t toy_bls "answers ?t toy_message toy_members" "toy_keys 1" rev 2 "toy_node ''a'' Map.empty"]
      phase_collects_votes [of ?t toy_bls "answers ?t toy_message toy_members @ [Timeout]" "toy_keys 1" rev 3 "toy_node ''a'' Map.empty"]
      v [of "[]"] v [of "[Timeout]"] sigs agg
    by (auto simp: Let_def toy_node_def empty_audit_def)
qed

lemma honest_phase_certifies_witness:
  "\<exists>w' pks sig. waitForVotes toy_bls (toy_keys 1) rev 2 AuditMsg_AGGREGATED_PREPARE
       (answers AuditMsg_AGGREGATED_PREPARE toy_message toy_members @ [Timeout]) [] [] (toy_node ''a'' Map.empty) = Some (True, w') \<and>
     collect_keys (toy_keys 2) [''b'' \<mapsto> 2, ''c'' \<mapsto> 3] (am_HonestAuditors (cn_auditMsg w')) [] = Inr pks \<and> mset pks = {#2, 3#} \<and>
     sg_Deserialize toy_bls (am_Signature (cn_auditMsg w')) = Some sig \<and>
     FastAggregateVerify toy_bls sig pks (string_bytes ''5e'')"
proof -
  have "voters [toy_message] \<subseteq> fst ` set toy_members" by (simp add: voters_def toy_message_def empty_audit_def)
  moreover have "aggregation_ok toy_bls (toy_keys 1) (snd ` set toy_members)"
    by (rule aggregation_ok_mono [OF toy_aggregation]) (auto simp: toy_members_def)
  ultimately have "\<exists>w' pks sig. waitForVotes toy_bls (toy_keys 1) rev (length toy_members) AuditMsg_AGGREGATED_PREPARE
       (answers AuditMsg_AGGREGATED_PREPARE toy_message toy_members @ [Timeout]) [] [] (toy_node ''a'' Map.empty) = Some (True, w') \<and>
     am_CurHash (cn_auditMsg w') = am_CurHash toy_message \<and>
     collect_keys (toy_keys 2) (cn_publicKeyMap (toy_node ''b'' [''b'' \<mapsto> 2, ''c'' \<mapsto> 3])) (am_HonestAuditors (cn_auditMsg w')) [] = Inr pks \<and>
     mset pks = mset (keys_of toy_members) \<and>
     sg_Deserialize toy_bls (am_Signature (cn_auditMsg w')) = Some sig \<and>
     FastAggregateVerify toy_bls sig pks (string_bytes (am_CurHash (cn_auditMsg w')))"
    by (intro honest_phase_certifies) (simp_all add: toy_members_def toy_keys_def toy_node_def)
  moreover have "length toy_members = 2" "mset (keys_of toy_members) = {#2, 3#}" "am_CurHash toy_message = ''5e''"
    "cn_publicKeyMap (toy_node ''b'' [''b'' \<mapsto> 2, ''c'' \<mapsto> 3]) = [''b'' \<mapsto> (2 :: byte), ''c'' \<mapsto> 3]"
    by (simp_all add: toy_members_def keys_of_def toy_keys_def toy_message_def toy_node_def)
  ultimately show ?thesis by (metis (no_types, lifting))
qed

definition toy_json :: audit_lib where
  "toy_json = \<lparr>js_Marshal = (\<lambda>m. Some (am_Signature m)),
     js_Unmarshal = (\<lambda>bs. Some (Some (toy_message\<lparr>am_PhaseNum := AuditMsg_COMMIT, am_Signature := bs\<rparr>))),
     gob_Encode = (\<lambda>_. []), Sum512 = (\<lambda>_. replicate 64 0)\<rparr>"

text \<open>A network in which the leader reaches one other node.\<close>

definition toy_peers :: "PeerAddr list" where
  "toy_peers = [\<lparr>pa_Addr = ''10.0.0.1'', pa_NumChild = 1, pa_ChildOffset = 1\<rparr>,
     \<lparr>pa_Addr = ''10.0.0.2'', pa_NumChild = 0, pa_ChildOffset = 0\<rparr>]"

definition toy_net :: net_lib where
  "toy_net = \<lparr>nl_v6 = (\<lambda>_. None), nl_run = (\<lambda>_. True), nl_dial = (\<lambda>_ _. Some 77), nl_ips = [''10.0.0.1''], nl_writable = True,
     nl_toml = (\<lambda>_. Some toy_peers)\<rparr>"

lemma toy_ips: "Int2ip 167772161 = ''10.0.0.1''" "Int2ip 167772162 = ''10.0.0.2''"
  by code_simp+

definition toy_nodes :: "NodeInfo list" where
  "toy_nodes = [\<lparr>node_IP = 167772161, node_Port = 5000, node_NumOfChilds = 1, node_OffsetOfChild = 1\<rparr>,
     \<lparr>node_IP = 167772162, node_Port = 5000, node_NumOfChilds = 0, node_OffsetOfChild = 0\<rparr>]"

lemma toy_infos: "GetNodeInfo (nl_v6 toy_net) tiny_config toy_peers = Inr toy_nodes"
  using Ip2int_Int2ip [of "\<lambda>_. None" 167772161] Ip2int_Int2ip [of "\<lambda>_. None" 167772162]
  by (simp add: GetNodeInfo_def toy_net_def toy_peers_def toy_nodes_def toy_ips tiny_config_def)

lemma toy_children: "child_addrs ''10.0.0.1'' toy_nodes = Inr [''10.0.0.2:5000'']"
proof -
  have "child_range 1 2 = [1]" by (simp add: child_range.simps)
  then show ?thesis by (simp add: child_addrs_def my_info_def toy_nodes_def toy_ips)
qed

lemma toy_connect:
  "\<exists>p. Connect (nl_run toy_net) (nl_dial toy_net) tiny_config toy_nodes PUSH_SESSION (CreatePuCtrl 1) = Inr p \<and>
     map fst (pu_sessionMap p) = [77]"
proof -
  have "my_ip tiny_config 0 = Inr ''10.0.0.1''" "toy_nodes \<noteq> []" "nl_dial toy_net a b = Some 77" for a b
    by (simp_all add: my_ip_def tiny_config_def toy_nodes_def toy_net_def)
  moreover have "\<not> EQUIC_ENABLE tiny_config" "NUM_PEERS tiny_config = 0" by (simp_all add: tiny_config_def)
  ultimately show ?thesis
    by (simp add: Connect_def toy_children Let_def connect_one_def Connector_def CreatePuSession_def CreatePuCtrl_def gm_put_def)
qed

lemma toy_begin:
  "\<exists>w1. bft_begin toy_json (toy_keys 1) toy_net tiny_config prev Map.empty ((toy_node ''a'' Map.empty)\<lparr>cn_members := ms\<rparr>) =
     Inr (True, w1) \<and> map fst (pu_sessionMap (cn_pu w1)) = [77]"
proof -
  let ?u = "(toy_node ''a'' (Map.empty :: string \<rightharpoonup> byte))\<lparr>cn_members := ms\<rparr>"
  let ?w = "?u\<lparr>cn_auditMsg := first_message toy_json (toy_keys 1) prev Map.empty ?u\<rparr>"
  obtain p where p: "Connect (nl_run toy_net) (nl_dial toy_net) tiny_config toy_nodes PUSH_SESSION (CreatePuCtrl 1) = Inr p"
    "map fst (pu_sessionMap p) = [77]"
    using toy_connect by (elim exE conjE) (rule that; assumption)
  have toml: "nl_toml toy_net content = Some toy_peers" for content by (simp add: toy_net_def)
  have pu: "cn_pu ?w = CreatePuCtrl 1" by (simp add: toy_node_def)
  have root: "MP2BTPRootOnce toy_net tiny_config addrs ?w = Inr (True, ?w\<lparr>cn_pu := p\<rparr>)" for addrs
  proof -
    obtain content where content: "WriteTomlFile 2 (nl_ips toy_net) (new_addrs (nl_ips toy_net) [] addrs) = Inr content"
      by (auto simp: WriteTomlFile_def toy_net_def)
    have "nl_writable toy_net" by (simp add: toy_net_def)
    then show ?thesis unfolding MP2BTPRootOnce_def content go_bind.simps toml option.case toy_infos pu p(1) by simp
  qed
  have "gm_ok (pu_sessionMap p)" using p(2) by (simp add: gm_ok_def)
  from SendAuditMsg_sends [OF this] obtain q b where "SendAuditMsg (am_Signature (cn_auditMsg ?w)) p = Inr (b, q)" "map fst (pu_sessionMap q) = [77]"
    using p(2) by metis
  then show ?thesis unfolding bft_begin_def Let_def root by (simp add: MP2BTPSubmit_def toy_json_def)
qed

lemma block_published_without_votes_witness:
  "\<exists>w' :: byte CONSENSUSNODE. bftConsensus toy_json toy_bls (toy_keys 1) toy_net tiny_config id None Map.empty [Timeout] [Timeout]
       (toy_node ''a'' Map.empty) = Some (Inr w') \<and> length (cn_gossip w') = 1 \<and>
     am_HonestAuditors (the (gsp_Rndblk (hd (cn_gossip w')))) = [] \<and> am_Signature (the (gsp_Rndblk (hd (cn_gossip w')))) = [1]"
proof -
  obtain w1 where b: "bft_begin toy_json (toy_keys 1) toy_net tiny_config None Map.empty (toy_node ''a'' Map.empty) = Inr (True, w1)"
    using toy_begin [of None "[]"] by (auto simp: toy_node_def)
  have "ctrl_wf (cn_pu (toy_node ''a'' (Map.empty :: string \<rightharpoonup> byte)))" using CreatePuCtrl_wf by (simp add: toy_node_def)
  from block_published_without_votes [OF this b, of toy_bls id "[]" "[]"] obtain w' where
    "bftConsensus toy_json toy_bls (toy_keys 1) toy_net tiny_config id None Map.empty [Timeout] [Timeout]
       (toy_node ''a'' Map.empty) = Some (Inr w')"
    "cn_gossip w' = cn_gossip (toy_node ''a'' (Map.empty :: string \<rightharpoonup> byte)) @ [\<lparr>gsp_Type = 2, gsp_Rndblk = Some (cn_auditMsg w'),
       gsp_StartConsensusTime = cn_startConsensusTime (toy_node ''a'' (Map.empty :: string \<rightharpoonup> byte))\<rparr>]"
    "am_HonestAuditors (cn_auditMsg w') = []"
    "am_Signature (cn_auditMsg w') = sg_Serialize (toy_keys 1) (sk_SignByte (toy_keys 1) (string_bytes (am_CurHash (cn_auditMsg w'))))"
    by (elim exE conjE) (rule that; assumption)
  then show ?thesis by (intro exI [of _ w'] conjI) (simp_all add: toy_keys_def toy_node_def)
qed

lemma commit_not_verified_witness:
  "\<exists>pks. MP2BTPConsensusListening toy_json toy_bls (toy_keys 2) (Some (CreateAuditDataPacket 3 [99])) (toy_node ''b'' Map.empty) =
     sendMP2BTPResponse toy_json (toy_keys 2) AuditMsg_AGGREGATED_COMMIT
       (toy_message\<lparr>am_PhaseNum := AuditMsg_COMMIT, am_Signature := [99]\<rparr>) (toy_node ''b'' Map.empty\<lparr>cn_pubVec := pks\<rparr>)"
proof -
  let ?M = "toy_message\<lparr>am_PhaseNum := AuditMsg_COMMIT, am_Signature := [99]\<rparr>"
  have "js_Unmarshal toy_json (aud_Data (CreateAuditDataPacket 3 [99])) = Some (Some ?M)" "am_PhaseNum ?M = AuditMsg_COMMIT"
    by (simp_all add: toy_json_def CreateAuditDataPacket_def)
  from commit_not_verified [OF this, of toy_bls "toy_keys 2" "toy_node ''b'' Map.empty"] show ?thesis
    by (simp add: toy_bls_def toy_message_def empty_audit_def)
qed

end
