(* ===== verification/Channels.thy ===== *)
theory Channels
  imports Go_Strings
begin

text \<open>
  How a channel becomes known: \<open>kafka/contribution/contribution.go\<close> keeps a document for each channel it
  hears of, \<open>kafka/http/server.go\<close> lists them, and \<open>s-node/wp2p/wp2p.go\<close> opens a topic for each. The
  MongoDB collection is the argument \<open>co\<close>, of which the theorems assume \<open>documented\<close>. Numbers are stored
  the way the driver encodes an \<open>int\<close>: in 32 bits where they fit, in 64 otherwise.
\<close>

section \<open>Documents\<close>

type_synonym int64 = "64 word"

datatype bson_int = BInt32 "32 word" | BInt64 int64

definition bson_of_int :: "int64 \<Rightarrow> bson_int" where
  "bson_of_int n = (if - (2 ^ 31) \<le> sint n \<and> sint n < 2 ^ 31 then BInt32 (scast n) else BInt64 n)"

record PeerAttribution =
  pa_Id :: string
  pa_Sent :: int64

record FabricChannel =
  fc_Type :: int64
  fc_ChannelId :: string
  fc_BlockNumber :: int64
  fc_Transactions :: int64
  fc_Members :: int64
  fc_FabricPeers :: "PeerAttribution list"

record peer_doc =
  pd_id :: string
  pd_sent :: bson_int

record chan_doc =
  cd_ChannelId :: string
  cd_BlockNumber :: bson_int
  cd_Transactions :: bson_int
  cd_Members :: bson_int
  cd_FabricPeers :: "peer_doc list"

definition peer_doc_of :: "PeerAttribution \<Rightarrow> peer_doc" where
  "peer_doc_of p = \<lparr>pd_id = pa_Id p, pd_sent = bson_of_int (pa_Sent p)\<rparr>"

section \<open>The collection\<close>

text \<open>What \<open>FindOne\<close> and \<open>Decode\<close> report, and the updates the code makes. \<open>None\<close> as the result of
  \<open>InsertOne\<close> is an error; an error of \<open>UpdateOne\<close> is not looked at, and an empty update is one.\<close>

datatype 'd found = Found 'd | NoDocuments | FindError

datatype doc_update =
    SetBlock bson_int bson_int
  | SetMembers bson_int
  | PushPeer peer_doc
  | SetSent bson_int

record 'c collection =
  co_FindOne :: "string \<Rightarrow> 'c \<Rightarrow> chan_doc found"
  co_InsertOne :: "chan_doc \<Rightarrow> 'c \<Rightarrow> 'c option"
  co_UpdateOne :: "string \<Rightarrow> string option \<Rightarrow> doc_update option \<Rightarrow> 'c \<Rightarrow> 'c"
  co_Find :: "'c \<Rightarrow> chan_doc list"

text \<open>The positional operator changes the first peer that the filter matches.\<close>

fun set_sent :: "string option \<Rightarrow> bson_int \<Rightarrow> peer_doc list \<Rightarrow> peer_doc list" where
  "set_sent i n [] = []"
| "set_sent i n (p # ps) = (if i = Some (pd_id p) then p\<lparr>pd_sent := n\<rparr> # ps else p # set_sent i n ps)"

definition apply_update :: "string option \<Rightarrow> doc_update \<Rightarrow> chan_doc \<Rightarrow> chan_doc" where
  "apply_update i u d =
     (case u of
        SetBlock b t \<Rightarrow> d\<lparr>cd_BlockNumber := b, cd_Transactions := t\<rparr>
      | SetMembers n \<Rightarrow> d\<lparr>cd_Members := n\<rparr>
      | PushPeer p \<Rightarrow> d\<lparr>cd_FabricPeers := cd_FabricPeers d @ [p]\<rparr>
      | SetSent n \<Rightarrow> d\<lparr>cd_FabricPeers := set_sent i n (cd_FabricPeers d)\<rparr>)"

definition selects :: "string \<Rightarrow> string option \<Rightarrow> chan_doc \<Rightarrow> bool" where
  "selects channel i d \<longleftrightarrow>
     cd_ChannelId d = channel \<and> (case i of None \<Rightarrow> True | Some i \<Rightarrow> i \<in> pd_id ` set (cd_FabricPeers d))"

text \<open>What MongoDB documents of the operations while it can be reached.\<close>

definition find_law :: "'c collection \<Rightarrow> bool" where
  "find_law co \<longleftrightarrow> (\<forall>channel c. case co_FindOne co channel c of
     Found d \<Rightarrow> d \<in> set (co_Find co c) \<and> cd_ChannelId d = channel
   | NoDocuments \<Rightarrow> channel \<notin> cd_ChannelId ` set (co_Find co c)
   | FindError \<Rightarrow> False)"

definition insert_law :: "'c collection \<Rightarrow> bool" where
  "insert_law co \<longleftrightarrow> (\<forall>d c. \<exists>c'. co_InsertOne co d c = Some c' \<and>
     mset (co_Find co c') = add_mset d (mset (co_Find co c)))"

definition update_law :: "'c collection \<Rightarrow> bool" where
  "update_law co \<longleftrightarrow> (\<forall>channel i u c.
     let ds = co_Find co c; ds' = co_Find co (co_UpdateOne co channel i u c)
     in case u of
          None \<Rightarrow> mset ds' = mset ds
        | Some u \<Rightarrow>
            if list_ex (selects channel i) ds
            then \<exists>d \<in> set ds. selects channel i d \<and> mset ds' = add_mset (apply_update i u d) (mset ds - {#d#})
            else mset ds' = mset ds)"

definition documented :: "'c collection \<Rightarrow> bool" where
  "documented co \<longleftrightarrow> find_law co \<and> insert_law co \<and> update_law co"

section \<open>Contributions\<close>

definition IsChannelExist :: "chan_doc found \<Rightarrow> chan_doc option" where
  "IsChannelExist r = (case r of Found d \<Rightarrow> Some d | _ \<Rightarrow> None)"

definition insertChannel :: "'c collection \<Rightarrow> FabricChannel \<Rightarrow> 'c \<Rightarrow> 'c go" where
  "insertChannel co recvInfo c =
     (case co_InsertOne co \<lparr>cd_ChannelId = fc_ChannelId recvInfo, cd_BlockNumber = bson_of_int (fc_BlockNumber recvInfo),
             cd_Transactions = bson_of_int (fc_Transactions recvInfo), cd_Members = bson_of_int (fc_Members recvInfo),
             cd_FabricPeers = map peer_doc_of (fc_FabricPeers recvInfo)\<rparr> c of
        None \<Rightarrow> Inl NilDeref
      | Some c \<Rightarrow> Inr c)"

definition as_int32 :: "bson_int \<Rightarrow> int64 go" where
  "as_int32 b = (case b of BInt32 n \<Rightarrow> Inr (scast n) | BInt64 _ \<Rightarrow> Inl TypeAssertion)"

definition updateChannel :: "'c collection \<Rightarrow> FabricChannel \<Rightarrow> 'c \<Rightarrow> 'c go" where
  "updateChannel co recvInfo c =
     (let channel = fc_ChannelId recvInfo
      in case co_FindOne co channel c of
           Found bsonObj \<Rightarrow>
             if fc_Type recvInfo = 1 then
               go_bind (as_int32 (cd_Transactions bsonObj)) (\<lambda>n.
                 Inr (co_UpdateOne co channel None
                   (Some (SetBlock (bson_of_int (fc_BlockNumber recvInfo)) (bson_of_int (n + fc_Transactions recvInfo)))) c))
             else if fc_Type recvInfo = 2 then
               Inr (co_UpdateOne co channel None (Some (SetMembers (bson_of_int (fc_Members recvInfo)))) c)
             else if fc_Type recvInfo = 3 then
               go_bind (go_index (fc_FabricPeers recvInfo) 0) (\<lambda>p.
                 Inr (co_UpdateOne co channel None (Some (PushPeer (peer_doc_of p))) c))
             else if fc_Type recvInfo = 4 then
               go_bind (go_index (fc_FabricPeers recvInfo) 0) (\<lambda>p.
                 Inr (co_UpdateOne co channel (Some (pa_Id p)) (Some (SetSent (bson_of_int (pa_Sent p)))) c))
             else Inr (co_UpdateOne co channel None None c)
         | _ \<Rightarrow> Inr c)"


text \<open>A message of goka: what its dynamic type may be.\<close>

record SymbolBundleData =
  sb_Channel :: string
  sb_Id :: string
  sb_Symbols :: nat

datatype go_any = AnyBytes bytes | AnyString string | AnyBundle SymbolBundleData | AnyOther

definition as_string :: "go_any \<Rightarrow> string go" where
  "as_string msg = (case msg of AnyString s \<Rightarrow> Inr s | _ \<Rightarrow> Inl TypeAssertion)"

definition as_bundle :: "go_any \<Rightarrow> SymbolBundleData go" where
  "as_bundle msg = (case msg of AnyBundle b \<Rightarrow> Inr b | _ \<Rightarrow> Inl TypeAssertion)"

definition no_channel :: FabricChannel where
  "no_channel = \<lparr>fc_Type = 0, fc_ChannelId = [], fc_BlockNumber = 0, fc_Transactions = 0, fc_Members = 0,
     fc_FabricPeers = []\<rparr>"

text \<open>The loop over the peers of a known channel: the update when one is contained in the sender's name.\<close>

fun peer_update :: "go_any \<Rightarrow> peer_doc list \<Rightarrow> FabricChannel option go" where
  "peer_update msg [] = Inr None"
| "peer_update msg (j # js) = go_bind (as_bundle msg) (\<lambda>b.
     if strings_Contains (sb_Id b) (pd_id j)
     then go_bind (as_int32 (pd_sent j)) (\<lambda>n.
       Inr (Some (no_channel\<lparr>fc_Type := 4, fc_ChannelId := sb_Channel b,
         fc_FabricPeers := [\<lparr>pa_Id = sb_Id b, pa_Sent = n + of_nat (sb_Symbols b)\<rparr>]\<rparr>)))
     else peer_update msg js)"

definition Record :: "'c collection \<Rightarrow> go_any \<Rightarrow> 'c \<Rightarrow> 'c go" where
  "Record co msg c =
     (case msg of
        AnyBytes data \<Rightarrow> go_bind (as_string msg) (\<lambda>channel.
          (case IsChannelExist (co_FindOne co channel c) of
             Some r \<Rightarrow> go_bind (peer_update msg (cd_FabricPeers r)) (\<lambda>known.
               (case known of
                  Some recvInfo \<Rightarrow> updateChannel co recvInfo c
                | None \<Rightarrow> updateChannel co
                    (no_channel\<lparr>fc_Type := 3, fc_FabricPeers := [\<lparr>pa_Id = [], pa_Sent = 0\<rparr>]\<rparr>) c))
           | None \<Rightarrow> insertChannel co (no_channel\<lparr>fc_Type := 3, fc_FabricPeers := [\<lparr>pa_Id = [], pa_Sent = 1\<rparr>]\<rparr>) c))
      | _ \<Rightarrow> Inr c)"

text \<open>One message of \<open>consumer\<close>: what \<open>Unmarshal\<close> left in \<open>recvInfo\<close>, and whether the look-up fails because the
  database cannot be reached. The second component are the goroutines that wait to send a new channel to
  \<open>ChannelTrigger\<close>.\<close>

definition consume :: "'c collection \<Rightarrow> bool \<times> FabricChannel \<Rightarrow> 'c \<times> string list \<Rightarrow> ('c \<times> string list) go" where
  "consume co msg st =
     (let (failed, recvInfo) = msg; (c, triggers) = st;
          recvInfo = recvInfo\<lparr>fc_FabricPeers := []\<rparr>; channel = fc_ChannelId recvInfo
      in case IsChannelExist (if failed then FindError else co_FindOne co channel c) of
           Some _ \<Rightarrow> go_bind (updateChannel co recvInfo c) (\<lambda>c. Inr (c, triggers))
         | None \<Rightarrow> go_bind (insertChannel co recvInfo c) (\<lambda>c. Inr (c, triggers @ [channel])))"

definition consumer :: "'c collection \<Rightarrow> (bool \<times> FabricChannel) list \<Rightarrow> 'c \<Rightarrow> ('c \<times> string list) go" where
  "consumer co msgs c = go_fold (consume co) msgs (c, [])"

text \<open>The answer to \<open>/fabric/channels\<close>.\<close>

definition fabric_channels :: "'c collection \<Rightarrow> 'c \<Rightarrow> string list" where
  "fabric_channels co c = map cd_ChannelId (co_Find co c)"

section \<open>Topics\<close>

text \<open>A topic that could not be joined is nil.\<close>

record 't WatchdogTopic =
  wt_ID :: string
  wt_Topic :: "'t option"

record 't wp2p_state =
  wp_JoinedChannels :: "string list"
  wp_WatchdogTopics :: "'t WatchdogTopic list"

definition wp2p_init :: "'t wp2p_state" where
  "wp2p_init = \<lparr>wp_JoinedChannels = [], wp_WatchdogTopics = []\<rparr>"

definition existChannel :: "string \<Rightarrow> 't wp2p_state \<Rightarrow> bool \<times> 't wp2p_state" where
  "existChannel channel st =
     (if channel \<in> set (wp_JoinedChannels st) then (True, st)
      else (False, st\<lparr>wp_JoinedChannels := wp_JoinedChannels st @ [channel]\<rparr>))"

definition open_channel :: "(string \<Rightarrow> 't option) \<Rightarrow> string \<Rightarrow> 't wp2p_state \<Rightarrow> 't wp2p_state" where
  "open_channel joinNetwork nc st =
     (let (known, st) = existChannel nc st
      in if known then st
         else st\<lparr>wp_WatchdogTopics := wp_WatchdogTopics st @
                  [\<lparr>wt_ID = nc, wt_Topic = joinNetwork (''watchdog/'' @ nc)\<rparr>]\<rparr>)"

definition openPubsubNetwork :: "(string \<Rightarrow> 't option) \<Rightarrow> string list \<Rightarrow> 't wp2p_state \<Rightarrow> 't wp2p_state" where
  "openPubsubNetwork joinNetwork newChannels = fold (open_channel joinNetwork) newChannels"

text \<open>One iteration of the loop of \<open>Start\<close>: the channels of the answer, when either request got one.\<close>

definition poll :: "(string \<Rightarrow> 't option) \<Rightarrow> string list option \<Rightarrow> 't wp2p_state \<Rightarrow> 't wp2p_state" where
  "poll joinNetwork resp st = (case resp of None \<Rightarrow> st | Some newChannels \<Rightarrow> openPubsubNetwork joinNetwork newChannels st)"

end
