(* ===== verification/Channels_Props.thy ===== *)
theory Channels_Props
  imports Channels Membership_Props
begin

text \<open>
  What the contribution collection holds after a sequence of messages, which messages stop the consumer,
  and that each channel that was heard of gets one topic, as the membership service requires.
\<close>

section \<open>The collection as a map from channels\<close>

definition one_doc :: "chan_doc list \<Rightarrow> bool" where
  "one_doc ds \<longleftrightarrow> distinct (map cd_ChannelId ds)"

definition doc_map :: "chan_doc list \<Rightarrow> string \<rightharpoonup> chan_doc" where
  "doc_map ds = map_of (map (\<lambda>d. (cd_ChannelId d, d)) ds)"

lemma doc_map_Some: "one_doc ds \<Longrightarrow> doc_map ds channel = Some d \<longleftrightarrow> d \<in> set ds \<and> cd_ChannelId d = channel"
  by (subst doc_map_def, subst map_of_eq_Some_iff) (auto simp: one_doc_def comp_def)

lemma doc_map_None: "doc_map ds channel = None \<longleftrightarrow> channel \<notin> cd_ChannelId ` set ds"
  by (simp add: doc_map_def map_of_eq_None_iff image_image)

lemma doc_map_dom: "dom (doc_map ds) = cd_ChannelId ` set ds"
  by (simp add: doc_map_def dom_map_of_conv_image_fst image_image)

lemma one_doc_mset: "image_mset cd_ChannelId (mset ds) = image_mset cd_ChannelId (mset ds') \<Longrightarrow> one_doc ds \<longleftrightarrow> one_doc ds'"
  unfolding one_doc_def by (intro mset_eq_imp_distinct_iff) simp

lemma option_eqI: "(\<And>d. x = Some d \<longleftrightarrow> y = Some d) \<Longrightarrow> x = y"
  by (cases x; cases y) auto

lemma only_one: "(\<And>d. d \<in> S \<and> f d = k \<longleftrightarrow> d = x) \<Longrightarrow> (\<exists>d \<in> S. f d = k \<and> P d) \<longleftrightarrow> P x"
  by (simp add: Bex_def conj_assoc [symmetric])

lemma doc_map_eqI: "one_doc ds \<Longrightarrow> one_doc ds' \<Longrightarrow> set ds = set ds' \<Longrightarrow> doc_map ds = doc_map ds'"
  by (intro ext option_eqI) (simp add: doc_map_Some)

lemma doc_map_replace:
  assumes "one_doc ds" "d \<in> set ds" "mset ds' = add_mset d' (mset ds - {#d#})" "cd_ChannelId d' = cd_ChannelId d"
  shows "one_doc ds' \<and> doc_map ds' = (doc_map ds)(cd_ChannelId d \<mapsto> d')"
proof -
  from assms(2) obtain M where M: "mset ds = add_mset d M" by (metis in_multiset_in_set multi_member_split)
  then have ids: "image_mset cd_ChannelId (mset ds') = image_mset cd_ChannelId (mset ds)" using assms(3,4) by simp
  then have one: "one_doc ds'" using assms(1) one_doc_mset by blast
  have other: "\<forall>x \<in># M. cd_ChannelId x \<noteq> cd_ChannelId d"
  proof
    fix x assume "x \<in># M"
    then obtain M' where "M = add_mset x M'" by (metis multi_member_split)
    with M have "mset (map cd_ChannelId ds) = add_mset (cd_ChannelId d) (add_mset (cd_ChannelId x) (image_mset cd_ChannelId M'))"
      by simp
    moreover have "count (mset (map cd_ChannelId ds)) (cd_ChannelId d) \<le> 1"
      using assms(1) distinct_count_atmost_1 [of "map cd_ChannelId ds"] unfolding one_doc_def by (metis count_mset_0_iff le_numeral_extra(4) zero_le_one)
    ultimately show "cd_ChannelId x \<noteq> cd_ChannelId d" by auto
  qed
  have sets: "set ds' = insert d' (set_mset M)" using arg_cong [OF assms(3), of set_mset] by (simp add: M)
  moreover have "set ds = insert d (set_mset M)" using arg_cong [OF M, of set_mset] by simp
  ultimately have sets: "set ds' = insert d' (set_mset M)" "set ds = insert d (set_mset M)" by blast+
  have "doc_map ds' channel = ((doc_map ds)(cd_ChannelId d \<mapsto> d')) channel" for channel
    by (rule option_eqI) (use one other assms(1,4) sets in \<open>auto simp: doc_map_Some\<close>)
  with one show ?thesis by blast
qed

lemma doc_map_insert:
  assumes "one_doc ds" "doc_map ds (cd_ChannelId d) = None" "mset ds' = add_mset d (mset ds)"
  shows "one_doc ds' \<and> doc_map ds' = (doc_map ds)(cd_ChannelId d \<mapsto> d)"
proof -
  have "one_doc (d # ds)" using assms(1,2) by (simp add: one_doc_def doc_map_None)
  moreover have "mset ds' = mset (d # ds)" using assms(3) by simp
  ultimately have "one_doc ds'" "set ds' = set (d # ds)" using one_doc_mset mset_eq_setD by (metis, metis)
  then have "doc_map ds' = doc_map (d # ds)" using \<open>one_doc (d # ds)\<close> by (intro doc_map_eqI)
  then show ?thesis using \<open>one_doc ds'\<close> by (simp add: doc_map_def)
qed

section \<open>One message\<close>

abbreviation known :: "'c collection \<Rightarrow> 'c \<Rightarrow> string \<rightharpoonup> chan_doc" where
  "known co c \<equiv> doc_map (co_Find co c)"

lemma find_law_use:
  assumes "find_law co"
  shows "(co_FindOne co channel c = Found d \<longrightarrow> d \<in> set (co_Find co c) \<and> cd_ChannelId d = channel) \<and>
    (co_FindOne co channel c = NoDocuments \<longrightarrow> channel \<notin> cd_ChannelId ` set (co_Find co c)) \<and>
    co_FindOne co channel c \<noteq> FindError"
proof -
  from assms have "case co_FindOne co channel c of
     Found d \<Rightarrow> d \<in> set (co_Find co c) \<and> cd_ChannelId d = channel
   | NoDocuments \<Rightarrow> channel \<notin> cd_ChannelId ` set (co_Find co c)
   | FindError \<Rightarrow> False" unfolding find_law_def by blast
  then show ?thesis by (auto split: found.splits)
qed

lemma FindOne_known:
  assumes "find_law co" "one_doc (co_Find co c)"
  shows "co_FindOne co channel c = (case known co c channel of None \<Rightarrow> NoDocuments | Some d \<Rightarrow> Found d)"
  using find_law_use [OF assms(1), of channel c]
proof (cases "co_FindOne co channel c")
  case (Found d)
  with find_law_use [OF assms(1), of channel c d] have "known co c channel = Some d" using assms(2) by (simp add: doc_map_Some)
  with Found show ?thesis by simp
next
  case NoDocuments
  with find_law_use [OF assms(1), of channel c] have "known co c channel = None" by (simp add: doc_map_None)
  with NoDocuments show ?thesis by simp
qed simp

lemma update_law_use:
  assumes "update_law co"
  shows "mset (co_Find co (co_UpdateOne co channel i None c)) = mset (co_Find co c) \<and>
    (if list_ex (selects channel i) (co_Find co c)
     then \<exists>d \<in> set (co_Find co c). selects channel i d \<and> mset (co_Find co (co_UpdateOne co channel i (Some u) c)) =
          add_mset (apply_update i u d) (mset (co_Find co c) - {#d#})
     else mset (co_Find co (co_UpdateOne co channel i (Some u) c)) = mset (co_Find co c))"
proof -
  have "case v of
      None \<Rightarrow> mset (co_Find co (co_UpdateOne co channel i v c)) = mset (co_Find co c)
    | Some u \<Rightarrow>
        if list_ex (selects channel i) (co_Find co c)
        then \<exists>d \<in> set (co_Find co c). selects channel i d \<and>
          mset (co_Find co (co_UpdateOne co channel i v c)) = add_mset (apply_update i u d) (mset (co_Find co c) - {#d#})
        else mset (co_Find co (co_UpdateOne co channel i v c)) = mset (co_Find co c)" for v
    using assms unfolding update_law_def Let_def by blast
  from this [of None] this [of "Some u"] show ?thesis by simp
qed

lemma UpdateOne_known:
  assumes "update_law co" "one_doc (co_Find co c)" "known co c channel = Some d" "cd_ChannelId (apply_update None u d) = cd_ChannelId d"
  shows "one_doc (co_Find co (co_UpdateOne co channel None (Some u) c)) \<and>
     known co (co_UpdateOne co channel None (Some u) c) = (known co c)(channel \<mapsto> apply_update None u d)"
proof -
  from assms(2,3) have d: "d \<in> set (co_Find co c)" "cd_ChannelId d = channel" by (simp_all add: doc_map_Some)
  then have "list_ex (selects channel None) (co_Find co c)" by (auto simp: list_ex_iff selects_def)
  then obtain x where x: "x \<in> set (co_Find co c)" "selects channel None x"
    "mset (co_Find co (co_UpdateOne co channel None (Some u) c)) =
       add_mset (apply_update None u x) (mset (co_Find co c) - {#x#})"
    using update_law_use [OF assms(1), of channel None c u] by (simp only: if_True) blast
  from x(1,2) have "known co c channel = Some x" using assms(2) by (simp add: doc_map_Some selects_def)
  with assms(3) have "x = d" by simp
  with doc_map_replace [OF assms(2) d(1), of "co_Find co (co_UpdateOne co channel None (Some u) c)" "apply_update None u d"]
    x(3) assms(4) d(2) show ?thesis by simp
qed

lemma UpdateOne_empty:
  assumes "update_law co" "one_doc (co_Find co c)"
  shows "one_doc (co_Find co (co_UpdateOne co channel i None c)) \<and> known co (co_UpdateOne co channel i None c) = known co c"
proof -
  have m: "mset (co_Find co (co_UpdateOne co channel i None c)) = mset (co_Find co c)"
    using update_law_use [OF assms(1)] by blast
  then have "one_doc (co_Find co (co_UpdateOne co channel i None c))" using assms(2) one_doc_mset by metis
  then show ?thesis using assms(2) doc_map_eqI mset_eq_setD [OF m] by blast
qed

text \<open>The contract: what a message makes of the document of its channel.\<close>

definition tally :: "FabricChannel \<Rightarrow> chan_doc option \<Rightarrow> chan_doc go" where
  "tally m old =
     (case old of
        None \<Rightarrow> Inr \<lparr>cd_ChannelId = fc_ChannelId m, cd_BlockNumber = bson_of_int (fc_BlockNumber m),
          cd_Transactions = bson_of_int (fc_Transactions m), cd_Members = bson_of_int (fc_Members m), cd_FabricPeers = []\<rparr>
      | Some d \<Rightarrow>
          if fc_Type m = 1 then go_bind (as_int32 (cd_Transactions d)) (\<lambda>n.
            Inr (d\<lparr>cd_BlockNumber := bson_of_int (fc_BlockNumber m), cd_Transactions := bson_of_int (n + fc_Transactions m)\<rparr>))
          else if fc_Type m = 2 then Inr (d\<lparr>cd_Members := bson_of_int (fc_Members m)\<rparr>)
          else if fc_Type m = 3 \<or> fc_Type m = 4 then Inl Bounds
          else Inr d)"

lemma consume_new:
  assumes "documented co" "one_doc (co_Find co c)" "known co c (fc_ChannelId m) = None" "tally m None = Inr d"
  shows "\<exists>c'. consume co (False, m) (c, tr) = Inr (c', tr @ [fc_ChannelId m]) \<and> one_doc (co_Find co c') \<and>
     known co c' = (known co c)(fc_ChannelId m \<mapsto> d)"
proof -
  from assms(1) obtain c' where c': "co_InsertOne co d c = Some c'"
    "mset (co_Find co c') = add_mset d (mset (co_Find co c))" unfolding documented_def insert_law_def by blast
  have d: "d = \<lparr>cd_ChannelId = fc_ChannelId m, cd_BlockNumber = bson_of_int (fc_BlockNumber m),
          cd_Transactions = bson_of_int (fc_Transactions m), cd_Members = bson_of_int (fc_Members m), cd_FabricPeers = []\<rparr>"
    using assms(4) by (simp add: tally_def)
  then have "cd_ChannelId d = fc_ChannelId m" by simp
  with doc_map_insert [OF assms(2) _ c'(2)] assms(3)
  have "one_doc (co_Find co c') \<and> known co c' = (known co c)(fc_ChannelId m \<mapsto> d)" by simp
  moreover have "consume co (False, m) (c, tr) = Inr (c', tr @ [fc_ChannelId m])"
    using assms(1,2,3) c'(1) unfolding d
    by (simp add: consume_def IsChannelExist_def FindOne_known documented_def insertChannel_def)
  ultimately show ?thesis by blast
qed

lemma consume_old:
  assumes "documented co" "one_doc (co_Find co c)" "known co c (fc_ChannelId m) = Some old"
  shows "(\<exists>e. tally m (Some old) = Inl e \<and> consume co (False, m) (c, tr) = Inl e) \<or>
    (\<exists>d c'. tally m (Some old) = Inr d \<and> consume co (False, m) (c, tr) = Inr (c', tr) \<and> one_doc (co_Find co c') \<and>
       known co c' = (known co c)(fc_ChannelId m \<mapsto> d))"
proof -
  let ?m = "m\<lparr>fc_FabricPeers := []\<rparr>"
  from assms(1) have laws: "find_law co" "update_law co" by (simp_all add: documented_def)
  have c: "consume co (False, m) (c, tr) = go_bind (updateChannel co ?m c) (\<lambda>c. Inr (c, tr))"
    using assms(2,3) laws(1) by (simp add: consume_def IsChannelExist_def FindOne_known)
  have f: "co_FindOne co (fc_ChannelId m) c = Found old" using assms(2,3) laws(1) by (simp add: FindOne_known)
  note up = UpdateOne_known [OF laws(2) assms(2,3)]
  consider (n) n where "fc_Type m = 1" "as_int32 (cd_Transactions old) = Inr n"
    | (p) e where "fc_Type m = 1" "as_int32 (cd_Transactions old) = Inl e"
    | (two) "fc_Type m = 2" | (push) "fc_Type m = 3 \<or> fc_Type m = 4"
    | (other) "fc_Type m \<noteq> 1" "fc_Type m \<noteq> 2" "fc_Type m \<noteq> 3" "fc_Type m \<noteq> 4"
    by (cases "as_int32 (cd_Transactions old)") blast+
  then show ?thesis
  proof cases
    case n
    with up [of "SetBlock (bson_of_int (fc_BlockNumber m)) (bson_of_int (n + fc_Transactions m))"]
    show ?thesis by (simp add: c f updateChannel_def tally_def apply_update_def)
  next
    case two
    with up [of "SetMembers (bson_of_int (fc_Members m))"]
    show ?thesis by (simp add: c f updateChannel_def tally_def apply_update_def)
  next
    case other
    with UpdateOne_empty [OF laws(2) assms(2), of "fc_ChannelId m" None] assms(3)
    show ?thesis by (simp add: c f updateChannel_def tally_def map_upd_triv)
  qed (auto simp: c f updateChannel_def tally_def)
qed

section \<open>A sequence of messages\<close>

text \<open>The messages of one channel that count for its transactions, and what its document shows.\<close>

definition counted :: "FabricChannel list \<Rightarrow> FabricChannel list" where
  "counted ms = (case ms of [] \<Rightarrow> [] | m # ms \<Rightarrow> m # filter (\<lambda>x. fc_Type x = 1) ms)"

definition member_reports :: "FabricChannel list \<Rightarrow> FabricChannel list" where
  "member_reports ms = (case ms of [] \<Rightarrow> [] | m # ms \<Rightarrow> m # filter (\<lambda>x. fc_Type x = 2) ms)"

definition total :: "FabricChannel list \<Rightarrow> int" where
  "total ms = sum_list (map (\<lambda>m. sint (fc_Transactions m)) (counted ms))"

definition summary :: "FabricChannel list \<Rightarrow> chan_doc" where
  "summary ms = \<lparr>cd_ChannelId = fc_ChannelId (hd ms), cd_BlockNumber = bson_of_int (fc_BlockNumber (last (counted ms))),
     cd_Transactions = bson_of_int (word_of_int (total ms)), cd_Members = bson_of_int (fc_Members (last (member_reports ms))),
     cd_FabricPeers = []\<rparr>"

definition of_channel :: "string \<Rightarrow> FabricChannel list \<Rightarrow> FabricChannel list" where
  "of_channel channel ms = filter (\<lambda>m. fc_ChannelId m = channel) ms"

definition fits_int32 :: "int \<Rightarrow> bool" where
  "fits_int32 n \<longleftrightarrow> - (2 ^ 31) \<le> n \<and> n < 2 ^ 31"

lemma counted_snoc: "ms \<noteq> [] \<Longrightarrow> counted (ms @ [m]) = counted ms @ (if fc_Type m = 1 then [m] else [])"
  by (cases ms) (simp_all add: counted_def)

lemma member_reports_snoc:
  "ms \<noteq> [] \<Longrightarrow> member_reports (ms @ [m]) = member_reports ms @ (if fc_Type m = 2 then [m] else [])"
  by (cases ms) (simp_all add: member_reports_def)

lemma counted_nonempty [simp]: "counted ms = [] \<longleftrightarrow> ms = []" "member_reports ms = [] \<longleftrightarrow> ms = []"
  by (cases ms; simp add: counted_def member_reports_def)+

lemma total_snoc: "ms \<noteq> [] \<Longrightarrow> total (ms @ [m]) = total ms + (if fc_Type m = 1 then sint (fc_Transactions m) else 0)"
  by (simp add: total_def counted_snoc)

lemma sint_of_int_fits:
  "fits_int32 n \<Longrightarrow> sint (word_of_int n :: int64) = n" "fits_int32 n \<Longrightarrow> sint (word_of_int n :: 32 word) = n"
  by (simp_all only: sint_sbintrunc', rule signed_take_bit_int_eq_self; simp add: fits_int32_def)+

lemma as_int32_fits: "fits_int32 n \<Longrightarrow> as_int32 (bson_of_int (word_of_int n)) = Inr (word_of_int n)"
  by (simp add: as_int32_def bson_of_int_def scast_eq sint_of_int_fits) (simp add: fits_int32_def)

lemma as_int32_out: "\<not> fits_int32 (sint n) \<Longrightarrow> as_int32 (bson_of_int n) = Inl TypeAssertion"
  by (auto simp: as_int32_def bson_of_int_def fits_int32_def)

lemma tally_first: "tally m None = Inr (summary [m])"
  by (simp add: tally_def summary_def counted_def member_reports_def total_def)

lemma tally_summary:
  assumes "ms \<noteq> []" "fits_int32 (total ms)" "fc_Type m \<noteq> 3" "fc_Type m \<noteq> 4"
  shows "tally m (Some (summary ms)) = Inr (summary (ms @ [m]))"
  using assms
  by (cases "fc_Type m = 1"; cases "fc_Type m = 2")
    (simp_all add: tally_def summary_def as_int32_fits total_snoc counted_snoc member_reports_snoc)

text \<open>The messages the consumer can take: none about a single peer, and totals that 32 bits hold.\<close>

definition acceptable :: "FabricChannel list \<Rightarrow> bool" where
  "acceptable ms \<longleftrightarrow> (\<forall>m \<in> set ms. fc_Type m \<noteq> 3 \<and> fc_Type m \<noteq> 4) \<and>
     (\<forall>n < length ms. \<forall>m \<in> set ms. fits_int32 (total (of_channel (fc_ChannelId m) (take n ms))))"

lemma acceptable_snoc:
  assumes "acceptable (ms @ [m])"
  shows "acceptable ms" "fc_Type m \<noteq> 3" "fc_Type m \<noteq> 4" "fits_int32 (total (of_channel (fc_ChannelId m) ms))"
proof -
  from assms have *: "fits_int32 (total (of_channel (fc_ChannelId x) (take n (ms @ [m]))))"
    if "n < length (ms @ [m])" "x \<in> set (ms @ [m])" for n x using that unfolding acceptable_def by blast
  from * [of "length ms" m] show "fits_int32 (total (of_channel (fc_ChannelId m) ms))" by simp
  have "fits_int32 (total (of_channel (fc_ChannelId x) (take n ms)))" if "n < length ms" "x \<in> set ms" for n x
    using * [of n x] that by simp
  with assms show "acceptable ms" "fc_Type m \<noteq> 3" "fc_Type m \<noteq> 4" by (simp_all add: acceptable_def)
qed

lemma consumer_snoc: "consumer co (ms @ [m]) c = go_bind (consumer co ms c) (consume co m)"
proof (cases "consumer co ms c")
  case (Inr st)
  then show ?thesis by (cases "consume co m st") (simp_all add: consumer_def go_fold_append)
qed (simp add: consumer_def go_fold_append)

lemma consumer_known:
  assumes "documented co" "co_Find co c = []" "acceptable ms"
  shows "\<exists>c' tr. consumer co (map (Pair False) ms) c = Inr (c', tr) \<and> one_doc (co_Find co c') \<and>
     known co c' = (\<lambda>ch. if of_channel ch ms = [] then None else Some (summary (of_channel ch ms))) \<and>
     distinct tr \<and> set tr = fc_ChannelId ` set ms"
  using assms(3)
proof (induction ms rule: rev_induct)
  case Nil
  then show ?case using assms(2) by (simp add: consumer_def one_doc_def doc_map_def of_channel_def)
next
  case (snoc m ms)
  let ?ch = "fc_ChannelId m"
  note ok = acceptable_snoc [OF snoc.prems]
  from snoc.IH [OF ok(1)] obtain c' tr where IH:
    "consumer co (map (Pair False) ms) c = Inr (c', tr)" "one_doc (co_Find co c')"
    "known co c' = (\<lambda>ch. if of_channel ch ms = [] then None else Some (summary (of_channel ch ms)))"
    "distinct tr" "set tr = fc_ChannelId ` set ms" by blast
  have run: "consumer co (map (Pair False) (ms @ [m])) c = consume co (False, m) (c', tr)"
    using IH(1) by (simp add: consumer_snoc)
  have of_ch: "of_channel ch (ms @ [m]) = of_channel ch ms @ (if ?ch = ch then [m] else [])" for ch
    by (simp add: of_channel_def)
  have step: "(known co c')(?ch \<mapsto> summary (of_channel ?ch ms @ [m])) =
      (\<lambda>ch. if of_channel ch (ms @ [m]) = [] then None else Some (summary (of_channel ch (ms @ [m]))))"
    by (rule ext) (simp add: IH(3) of_ch)
  have seen: "of_channel ?ch ms = [] \<longleftrightarrow> ?ch \<notin> set tr"
    unfolding of_channel_def IH(5) filter_empty_conv image_iff by metis
  show ?case
  proof (cases "of_channel ?ch ms = []")
    case True
    then have "known co c' ?ch = None" by (simp add: IH(3))
    with consume_new [OF assms(1) IH(2) this tally_first, of tr] obtain c'' where
      "consume co (False, m) (c', tr) = Inr (c'', tr @ [?ch])" "one_doc (co_Find co c'')"
      "known co c'' = (known co c')(?ch \<mapsto> summary [m])" by blast
    with step True seen IH(4,5) show ?thesis unfolding run by simp
  next
    case False
    then have k: "known co c' ?ch = Some (summary (of_channel ?ch ms))" by (simp add: IH(3))
    have "tally m (Some (summary (of_channel ?ch ms))) = Inr (summary (of_channel ?ch ms @ [m]))"
      using ok False by (intro tally_summary)
    with consume_old [OF assms(1) IH(2) k, of tr] obtain c'' where
      "consume co (False, m) (c', tr) = Inr (c'', tr)" "one_doc (co_Find co c'')"
      "known co c'' = (known co c')(?ch \<mapsto> summary (of_channel ?ch ms @ [m]))" by auto
    with step False seen IH(4,5) show ?thesis unfolding run by (auto simp: insert_absorb)
  qed
qed

text \<open>
  The contribution collection is the tally of what was reported: for messages that the consumer can take
  (none about a single peer, no total that leaves 32 bits) it does not stop, and afterwards there is exactly one
  document for each channel; its transactions are those of the channel's first message and of all its
  reports of a block, its block number that of the last of these, its members those of the last report
  of members. Each channel was announced once.
\<close>

theorem contributions_recorded:
  assumes "documented co" and "co_Find co c = []" and "acceptable ms"
  shows "\<exists>c' announced. consumer co (map (Pair False) ms) c = Inr (c', announced) \<and>
     distinct (map cd_ChannelId (co_Find co c')) \<and>
     set (co_Find co c') = (\<lambda>channel. summary (of_channel channel ms)) ` fc_ChannelId ` set ms \<and>
     distinct announced \<and> set announced = fc_ChannelId ` set ms"
proof -
  from consumer_known [OF assms] obtain c' tr where c: "consumer co (map (Pair False) ms) c = Inr (c', tr)"
    and one: "one_doc (co_Find co c')" and tr: "distinct tr" "set tr = fc_ChannelId ` set ms"
    and k: "known co c' = (\<lambda>ch. if of_channel ch ms = [] then None else Some (summary (of_channel ch ms)))" by blast
  have "set (co_Find co c') = (\<lambda>channel. summary (of_channel channel ms)) ` fc_ChannelId ` set ms"
  proof (intro set_eqI)
    fix d
    have "d \<in> set (co_Find co c') \<longleftrightarrow> (\<exists>ch. known co c' ch = Some d)" using one by (simp add: doc_map_Some)
    also have "\<dots> \<longleftrightarrow> (\<exists>ch. of_channel ch ms \<noteq> [] \<and> d = summary (of_channel ch ms))" by (auto simp: k)
    also have "\<dots> \<longleftrightarrow> d \<in> (\<lambda>channel. summary (of_channel channel ms)) ` fc_ChannelId ` set ms"
      by (auto simp: of_channel_def filter_empty_conv)
    finally show "d \<in> set (co_Find co c') \<longleftrightarrow> d \<in> (\<lambda>channel. summary (of_channel channel ms)) ` fc_ChannelId ` set ms" .
  qed
  with c one tr show ?thesis unfolding one_doc_def by blast
qed

section \<open>What stops the consumer\<close>

text \<open>
  What can go wrong with a message: while the database answers, the consumer panics exactly when the channel
  is known and the message either reports a single peer (the list it takes the peer from has been emptied) or
  reports a block of a channel whose total has grown into 64 bits. When the look-up fails although the channel
  is known, the channel is inserted a second time.
\<close>

theorem consumer_faults:
  assumes "documented co" and "distinct (map cd_ChannelId (co_Find co c))"
  shows "(consume co (False, m) (c, tr) = Inl e \<longleftrightarrow>
       (\<exists>d \<in> set (co_Find co c). cd_ChannelId d = fc_ChannelId m \<and>
          (fc_Type m \<in> {3, 4} \<and> e = Bounds \<or>
           fc_Type m = 1 \<and> e = TypeAssertion \<and> (\<exists>n. cd_Transactions d = BInt64 n)))) \<and>
     (fc_ChannelId m \<in> cd_ChannelId ` set (co_Find co c) \<longrightarrow>
       (\<exists>c'. consume co (True, m) (c, tr) = Inr (c', tr @ [fc_ChannelId m]) \<and>
          count (mset (map cd_ChannelId (co_Find co c'))) (fc_ChannelId m) = 2))"
proof (intro conjI impI)
  from assms(2) have one: "one_doc (co_Find co c)" by (simp add: one_doc_def)
  show "consume co (False, m) (c, tr) = Inl e \<longleftrightarrow>
       (\<exists>d \<in> set (co_Find co c). cd_ChannelId d = fc_ChannelId m \<and>
          (fc_Type m \<in> {3, 4} \<and> e = Bounds \<or>
           fc_Type m = 1 \<and> e = TypeAssertion \<and> (\<exists>n. cd_Transactions d = BInt64 n)))"
  proof (cases "known co c (fc_ChannelId m)")
    case None
    then have "\<forall>d \<in> set (co_Find co c). cd_ChannelId d \<noteq> fc_ChannelId m" unfolding doc_map_None by (metis imageI)
    with consume_new [OF assms(1) one None tally_first, of tr] show ?thesis by auto
  next
    case (Some old)
    have u: "d \<in> set (co_Find co c) \<and> cd_ChannelId d = fc_ChannelId m \<longleftrightarrow> d = old" for d
      using Some unfolding doc_map_Some [OF one, symmetric] by auto
    have "consume co (False, m) (c, tr) = Inl e \<longleftrightarrow> tally m (Some old) = Inl e"
      using consume_old [OF assms(1) one Some, of tr] by auto
    also have "\<dots> \<longleftrightarrow> fc_Type m \<in> {3, 4} \<and> e = Bounds \<or>
        fc_Type m = 1 \<and> e = TypeAssertion \<and> (\<exists>n. cd_Transactions old = BInt64 n)"
      by (auto simp: tally_def as_int32_def go_bind_Inl_iff split: bson_int.splits)
    also have "\<dots> \<longleftrightarrow> (\<exists>d \<in> set (co_Find co c). cd_ChannelId d = fc_ChannelId m \<and>
          (fc_Type m \<in> {3, 4} \<and> e = Bounds \<or>
           fc_Type m = 1 \<and> e = TypeAssertion \<and> (\<exists>n. cd_Transactions d = BInt64 n)))"
      by (rule only_one [OF u, symmetric])
    finally show ?thesis .
  qed
  assume k: "fc_ChannelId m \<in> cd_ChannelId ` set (co_Find co c)"
  let ?d = "\<lparr>cd_ChannelId = fc_ChannelId m, cd_BlockNumber = bson_of_int (fc_BlockNumber m),
      cd_Transactions = bson_of_int (fc_Transactions m), cd_Members = bson_of_int (fc_Members m), cd_FabricPeers = []\<rparr>"
  from assms(1) obtain c' where c': "co_InsertOne co ?d c = Some c'"
    "mset (co_Find co c') = add_mset ?d (mset (co_Find co c))" unfolding documented_def insert_law_def by blast
  have "count (mset (map cd_ChannelId (co_Find co c))) (fc_ChannelId m) = 1"
    using distinct_count_atmost_1 [of "map cd_ChannelId (co_Find co c)"] assms(2) k by simp
  then have "count (mset (map cd_ChannelId (co_Find co c'))) (fc_ChannelId m) = 2" using c'(2) by simp
  then show "\<exists>c'. consume co (True, m) (c, tr) = Inr (c', tr @ [fc_ChannelId m]) \<and>
      count (mset (map cd_ChannelId (co_Find co c'))) (fc_ChannelId m) = 2"
    using c'(1) by (intro exI [of _ c']) (simp add: consume_def IsChannelExist_def insertChannel_def)
qed

section \<open>Topics\<close>

lemma ids_update:
  assumes "update_law co"
  shows "cd_ChannelId ` set (co_Find co (co_UpdateOne co channel i u c)) = cd_ChannelId ` set (co_Find co c)"
proof -
  have a: "cd_ChannelId (apply_update i v d) = cd_ChannelId d" for v d by (cases v) (simp_all add: apply_update_def)
  have "image_mset cd_ChannelId (mset (co_Find co (co_UpdateOne co channel i u c))) = image_mset cd_ChannelId (mset (co_Find co c))"
  proof (cases u)
    case None
    then show ?thesis using update_law_use [OF assms, of channel i c] by simp
  next
    case (Some v)
    show ?thesis
    proof (cases "list_ex (selects channel i) (co_Find co c)")
      case True
      then obtain d where "d \<in># mset (co_Find co c)" "mset (co_Find co (co_UpdateOne co channel i u c)) =
          add_mset (apply_update i v d) (mset (co_Find co c) - {#d#})"
        using update_law_use [OF assms, of channel i c v] Some by (auto split: if_splits)
      then show ?thesis using a by (metis image_mset_add_mset insert_DiffM)
    qed (use update_law_use [OF assms, of channel i c v] Some in simp)
  qed
  then show ?thesis by (metis mset_map set_map set_mset_mset)
qed

lemma updateChannel_shape:
  "updateChannel co m c = Inr c' \<Longrightarrow> c' = c \<or> (\<exists>i u. c' = co_UpdateOne co (fc_ChannelId m) i u c)"
  by (auto simp: updateChannel_def Let_def split: found.splits if_splits)

lemma updateChannel_ids:
  "update_law co \<Longrightarrow> updateChannel co m c = Inr c' \<Longrightarrow> cd_ChannelId ` set (co_Find co c') = cd_ChannelId ` set (co_Find co c)"
  by (elim updateChannel_shape [elim_format] disjE exE) (simp_all only: ids_update)

text \<open>Also when look-ups fail, the channels of the collection are those heard of.\<close>

lemma consume_ids:
  assumes "documented co" "consume co (failed, m) (c, tr) = Inr (c', tr')"
  shows "cd_ChannelId ` set (co_Find co c') = insert (fc_ChannelId m) (cd_ChannelId ` set (co_Find co c))"
proof (cases "IsChannelExist (if failed then FindError else co_FindOne co (fc_ChannelId m) c)")
  case None
  let ?d = "\<lparr>cd_ChannelId = fc_ChannelId m, cd_BlockNumber = bson_of_int (fc_BlockNumber m),
      cd_Transactions = bson_of_int (fc_Transactions m), cd_Members = bson_of_int (fc_Members m), cd_FabricPeers = []\<rparr>"
  from assms(1) obtain c1 where c1: "co_InsertOne co ?d c = Some c1"
    "mset (co_Find co c1) = add_mset ?d (mset (co_Find co c))" unfolding documented_def insert_law_def by blast
  from None assms(2) c1(1) have "c' = c1" by (simp add: consume_def insertChannel_def)
  moreover from arg_cong [OF c1(2), of set_mset] have "set (co_Find co c1) = insert ?d (set (co_Find co c))" by simp
  ultimately show ?thesis by simp
next
  case (Some d)
  then have f: "co_FindOne co (fc_ChannelId m) c = Found d" by (auto simp: IsChannelExist_def split: found.splits if_splits)
  from assms(1) have "find_law co" "update_law co" by (simp_all add: documented_def)
  with find_law_use [OF this(1), of "fc_ChannelId m" c d] f have "fc_ChannelId m \<in> cd_ChannelId ` set (co_Find co c)"
    by (metis imageI)
  moreover from Some assms(2) have "updateChannel co (m\<lparr>fc_FabricPeers := []\<rparr>) c = Inr c'" by (auto simp: consume_def)
  ultimately show ?thesis using updateChannel_ids [OF \<open>update_law co\<close>] by auto
qed

lemma consumer_ids:
  assumes "documented co" "co_Find co c = []"
  shows "consumer co msgs c = Inr (c', tr) \<Longrightarrow> cd_ChannelId ` set (co_Find co c') = fc_ChannelId ` snd ` set msgs"
proof (induction msgs arbitrary: c' tr rule: rev_induct)
  case Nil
  then show ?case using assms(2) by (simp add: consumer_def)
next
  case (snoc x xs)
  then obtain c1 tr1 where c1: "consumer co xs c = Inr (c1, tr1)" "consume co (fst x, snd x) (c1, tr1) = Inr (c', tr)"
    by (auto simp: consumer_snoc)
  from snoc.IH [OF c1(1)] consume_ids [OF assms(1) c1(2)] show ?case by simp
qed

text \<open>Every topic has a joined channel of its own.\<close>

definition topics_ok :: "'t wp2p_state \<Rightarrow> bool" where
  "topics_ok st \<longleftrightarrow> wp_JoinedChannels st = map wt_ID (wp_WatchdogTopics st) \<and> distinct (wp_JoinedChannels st)"

inductive poll_step :: "'t wp2p_state \<Rightarrow> 't wp2p_state \<Rightarrow> bool" where
  "poll_step st (poll joinNetwork resp st)"

lemma open_channel_known: "nc \<in> set (wp_JoinedChannels st) \<Longrightarrow> open_channel joinNetwork nc st = st"
  by (simp add: open_channel_def existChannel_def)

lemma open_channel_new: "nc \<notin> set (wp_JoinedChannels st) \<Longrightarrow> open_channel joinNetwork nc st =
    \<lparr>wp_JoinedChannels = wp_JoinedChannels st @ [nc],
     wp_WatchdogTopics = wp_WatchdogTopics st @ [\<lparr>wt_ID = nc, wt_Topic = joinNetwork (''watchdog/'' @ nc)\<rparr>]\<rparr>"
  by (simp add: open_channel_def existChannel_def)

lemma openPubsubNetwork_topics:
  "topics_ok st \<Longrightarrow> topics_ok (openPubsubNetwork joinNetwork ncs st) \<and>
     (\<exists>new. wp_WatchdogTopics (openPubsubNetwork joinNetwork ncs st) = wp_WatchdogTopics st @ new \<and>
        (\<forall>t \<in> set new. wt_ID t \<in> set ncs \<and> wt_Topic t = joinNetwork (''watchdog/'' @ wt_ID t))) \<and>
     set (wp_JoinedChannels (openPubsubNetwork joinNetwork ncs st)) = set (wp_JoinedChannels st) \<union> set ncs"
proof (induction ncs arbitrary: st)
  case (Cons nc ncs)
  show ?case
  proof (cases "nc \<in> set (wp_JoinedChannels st)")
    case True
    with Cons.IH [OF Cons.prems] show ?thesis by (auto simp: openPubsubNetwork_def open_channel_known)
  next
    case False
    let ?t = "\<lparr>wt_ID = nc, wt_Topic = joinNetwork (''watchdog/'' @ nc)\<rparr>"
    let ?st = "\<lparr>wp_JoinedChannels = wp_JoinedChannels st @ [nc], wp_WatchdogTopics = wp_WatchdogTopics st @ [?t]\<rparr>"
    have "topics_ok ?st" using Cons.prems False by (auto simp: topics_ok_def)
    from Cons.IH [OF this] obtain new where new:
      "wp_WatchdogTopics (openPubsubNetwork joinNetwork ncs ?st) = wp_WatchdogTopics st @ ?t # new"
      "\<forall>t \<in> set new. wt_ID t \<in> set ncs \<and> wt_Topic t = joinNetwork (''watchdog/'' @ wt_ID t)" by auto
    have run: "openPubsubNetwork joinNetwork (nc # ncs) st = openPubsubNetwork joinNetwork ncs ?st"
      using False by (simp add: openPubsubNetwork_def open_channel_new)
    have "\<exists>more. wp_WatchdogTopics (openPubsubNetwork joinNetwork ncs ?st) = wp_WatchdogTopics st @ more \<and>
        (\<forall>t \<in> set more. wt_ID t \<in> set (nc # ncs) \<and> wt_Topic t = joinNetwork (''watchdog/'' @ wt_ID t))"
      using new by (intro exI [of _ "?t # new"]) simp
    with Cons.IH [OF \<open>topics_ok ?st\<close>] show ?thesis unfolding run by simp
  qed
qed (simp add: openPubsubNetwork_def)

interpretation topic_list: machine poll_step topics_ok
  by unfold_locales (auto simp: poll_def openPubsubNetwork_topics split: option.splits elim!: poll_step.cases)

text \<open>
  C31: Every channel gets one topic: whatever messages the consumer has taken, failed look-ups included, and
  however often the s-node has polled before, after a poll each channel that was heard of has exactly one entry
  in the list of topics, which has no duplicates, as the formation of committees requires; new entries carry
  what joining \<open>watchdog/<channel>\<close> gave. Old entries stay as they are, also one whose joining failed: it is not
  tried again.
\<close>

theorem channels_joined:
  assumes "documented co" and "co_Find co c = []" and "consumer co msgs c = Inr (c', announced)"
    and "poll_step\<^sup>*\<^sup>* wp2p_init st"
  shows "let st' = poll joinNetwork (Some (fabric_channels co c')) st in
     distinct (map wt_ID (wp_WatchdogTopics st')) \<and>
     (\<forall>(failed, m) \<in> set msgs. \<exists>!t. t \<in> set (wp_WatchdogTopics st') \<and> wt_ID t = fc_ChannelId m) \<and>
     (\<exists>new. wp_WatchdogTopics st' = wp_WatchdogTopics st @ new \<and>
        (\<forall>t \<in> set new. wt_ID t \<in> fc_ChannelId ` snd ` set msgs \<and> wt_Topic t = joinNetwork (''watchdog/'' @ wt_ID t)))"
proof -
  have "topics_ok st" by (rule topic_list.inv_steps [OF assms(4)]) (simp add: topics_ok_def wp2p_init_def)
  let ?st = "poll joinNetwork (Some (fabric_channels co c')) st"
  have ids: "set (fabric_channels co c') = fc_ChannelId ` snd ` set msgs"
    using consumer_ids [OF assms(1-3)] by (simp add: fabric_channels_def)
  note opened = openPubsubNetwork_topics [OF \<open>topics_ok st\<close>, of joinNetwork "fabric_channels co c'", unfolded ids]
  then have d: "distinct (map wt_ID (wp_WatchdogTopics ?st))" by (auto simp: poll_def topics_ok_def)
  have "\<exists>!t. t \<in> set (wp_WatchdogTopics ?st) \<and> wt_ID t = fc_ChannelId m" if "(failed, m) \<in> set msgs" for failed m
  proof -
    have "fc_ChannelId m \<in> fc_ChannelId ` snd ` set msgs" using that by force
    then have "fc_ChannelId m \<in> set (wp_JoinedChannels ?st)" using opened unfolding poll_def option.case by blast
    moreover have "wp_JoinedChannels ?st = map wt_ID (wp_WatchdogTopics ?st)"
      using opened [THEN conjunct1] by (simp add: poll_def topics_ok_def)
    ultimately have "fc_ChannelId m \<in> wt_ID ` set (wp_WatchdogTopics ?st)" by simp
    then obtain t where "t \<in> set (wp_WatchdogTopics ?st)" "wt_ID t = fc_ChannelId m" by (elim imageE) simp
    moreover have "inj_on wt_ID (set (wp_WatchdogTopics ?st))" using d by (simp add: distinct_map)
    ultimately show ?thesis by (metis inj_onD)
  qed
  then have u: "\<forall>(failed, m) \<in> set msgs. \<exists>!t. t \<in> set (wp_WatchdogTopics ?st) \<and> wt_ID t = fc_ChannelId m" by blast
  have "\<exists>new. wp_WatchdogTopics ?st = wp_WatchdogTopics st @ new \<and>
      (\<forall>t \<in> set new. wt_ID t \<in> fc_ChannelId ` snd ` set msgs \<and> wt_Topic t = joinNetwork (''watchdog/'' @ wt_ID t))"
    using opened [THEN conjunct2, THEN conjunct1] by (simp add: poll_def)
  with d u show ?thesis unfolding Let_def by blast
qed

section \<open>Witnesses\<close>

fun update_first :: "(chan_doc \<Rightarrow> bool) \<Rightarrow> (chan_doc \<Rightarrow> chan_doc) \<Rightarrow> chan_doc list \<Rightarrow> chan_doc list" where
  "update_first P f [] = []"
| "update_first P f (d # ds) = (if P d then f d # ds else d # update_first P f ds)"

text \<open>A collection that is the list of its documents.\<close>

definition list_collection :: "chan_doc list collection" where
  "list_collection = \<lparr>
     co_FindOne = (\<lambda>channel c. case find (\<lambda>d. cd_ChannelId d = channel) c of None \<Rightarrow> NoDocuments | Some d \<Rightarrow> Found d),
     co_InsertOne = (\<lambda>d c. Some (c @ [d])),
     co_UpdateOne = (\<lambda>channel i u c. case u of None \<Rightarrow> c | Some u \<Rightarrow> update_first (selects channel i) (apply_update i u) c),
     co_Find = id\<rparr>"

lemma update_first_mset:
  "if list_ex P ds then \<exists>d \<in> set ds. P d \<and> mset (update_first P f ds) = add_mset (f d) (mset ds - {#d#})
   else update_first P f ds = ds"
proof (induction ds)
  case (Cons x ds)
  show ?case
  proof (cases "P x")
    case False
    with Cons show ?thesis by (auto split: if_splits)
  qed auto
qed simp

lemma list_documented: "documented list_collection"
  unfolding documented_def find_law_def insert_law_def update_law_def list_collection_def Let_def
  using update_first_mset by (auto simp: find_None_iff find_Some_iff split: option.splits)

definition demo_report :: "int64 \<Rightarrow> string \<Rightarrow> int64 \<Rightarrow> FabricChannel" where
  "demo_report t channel n = \<lparr>fc_Type = t, fc_ChannelId = channel, fc_BlockNumber = n, fc_Transactions = n,
     fc_Members = n, fc_FabricPeers = []\<rparr>"

definition demo_reports :: "FabricChannel list" where
  "demo_reports = [demo_report 0 ''a'' 5, demo_report 1 ''a'' 7, demo_report 0 ''b'' 1, demo_report 2 ''a'' 3]"

lemma contributions_recorded_witness:
  "\<exists>c' announced. consumer list_collection (map (Pair False) demo_reports) [] = Inr (c', announced) \<and>
     distinct (map cd_ChannelId (co_Find list_collection c')) \<and>
     set (co_Find list_collection c') =
       (\<lambda>channel. summary (of_channel channel demo_reports)) ` fc_ChannelId ` set demo_reports \<and>
     distinct announced \<and> set announced = fc_ChannelId ` set demo_reports"
proof (rule contributions_recorded [OF list_documented])
  show "co_Find list_collection [] = []" by code_simp
  have "fits_int32 (total (of_channel (fc_ChannelId m) (take n demo_reports)))"
    if "n < length demo_reports" "m \<in> set demo_reports" for n m
  proof -
    have "n = 0 \<or> n = 1 \<or> n = 2 \<or> n = 3" "fc_ChannelId m = ''a'' \<or> fc_ChannelId m = ''b''"
      using that by (auto simp: demo_reports_def demo_report_def)
    then show ?thesis
      by (elim disjE)
        (simp_all add: demo_reports_def demo_report_def of_channel_def total_def counted_def fits_int32_def)
  qed
  moreover have "\<forall>m \<in> set demo_reports. fc_Type m \<noteq> 3 \<and> fc_Type m \<noteq> 4" by (simp add: demo_reports_def demo_report_def)
  ultimately show "acceptable demo_reports" unfolding acceptable_def by blast
qed

definition demo_doc :: chan_doc where
  "demo_doc = \<lparr>cd_ChannelId = ''a'', cd_BlockNumber = BInt32 1, cd_Transactions = BInt64 (2 ^ 31),
     cd_Members = BInt32 2, cd_FabricPeers = []\<rparr>"

lemma consumer_faults_witness:
  "(consume list_collection (False, demo_report 1 ''a'' 1) ([demo_doc], []) = Inl TypeAssertion \<longleftrightarrow>
     (\<exists>d \<in> set (co_Find list_collection [demo_doc]). cd_ChannelId d = fc_ChannelId (demo_report 1 ''a'' 1) \<and>
        (fc_Type (demo_report 1 ''a'' 1) \<in> {3, 4} \<and> TypeAssertion = Bounds \<or>
         fc_Type (demo_report 1 ''a'' 1) = 1 \<and> TypeAssertion = TypeAssertion \<and> (\<exists>n. cd_Transactions d = BInt64 n)))) \<and>
   consume list_collection (False, demo_report 1 ''a'' 1) ([demo_doc], []) = Inl TypeAssertion"
proof (intro conjI)
  have d: "distinct (map cd_ChannelId (co_Find list_collection [demo_doc]))" by code_simp
  from consumer_faults [OF list_documented d, of "demo_report 1 ''a'' 1" "[]" TypeAssertion, THEN conjunct1]
  show "consume list_collection (False, demo_report 1 ''a'' 1) ([demo_doc], []) = Inl TypeAssertion \<longleftrightarrow>
     (\<exists>d \<in> set (co_Find list_collection [demo_doc]). cd_ChannelId d = fc_ChannelId (demo_report 1 ''a'' 1) \<and>
        (fc_Type (demo_report 1 ''a'' 1) \<in> {3, 4} \<and> TypeAssertion = Bounds \<or>
         fc_Type (demo_report 1 ''a'' 1) = 1 \<and> TypeAssertion = TypeAssertion \<and> (\<exists>n. cd_Transactions d = BInt64 n)))" .
  show "consume list_collection (False, demo_report 1 ''a'' 1) ([demo_doc], []) = Inl TypeAssertion" by code_simp
qed

lemma channels_joined_witness:
  "\<exists>c' announced. consumer list_collection [(False, demo_report 0 ''a'' 5), (True, demo_report 1 ''a'' 7)] [] = Inr (c', announced) \<and>
     distinct (map wt_ID (wp_WatchdogTopics (poll Some (Some (fabric_channels list_collection c')) wp2p_init))) \<and>
     wp_WatchdogTopics (poll Some (Some (fabric_channels list_collection c')) wp2p_init) =
       [\<lparr>wt_ID = ''a'', wt_Topic = Some ''watchdog/a''\<rparr>]"
proof -
  let ?msgs = "[(False, demo_report 0 ''a'' 5), (True, demo_report 1 ''a'' 7)]"
  let ?c = "[summary [demo_report 0 ''a'' 5], summary [demo_report 0 ''a'' 7]]"
  have run: "consumer list_collection ?msgs [] = Inr (?c, [''a'', ''a''])" by code_simp
  have e: "co_Find list_collection [] = []" by code_simp
  have "distinct (map wt_ID (wp_WatchdogTopics (poll Some (Some (fabric_channels list_collection ?c)) wp2p_init)))"
    using channels_joined [OF list_documented e run rtranclp.rtrancl_refl, of Some] by (simp add: Let_def)
  moreover have "wp_WatchdogTopics (poll Some (Some (fabric_channels list_collection ?c)) wp2p_init) =
       [\<lparr>wt_ID = ''a'', wt_Topic = Some ''watchdog/a''\<rparr>]" by code_simp
  ultimately show ?thesis using run by blast
qed

end
