(* ===== verification/Gossip.thy ===== *)
theory Gossip
  imports Consensus Channels
begin

text \<open>
  How messages travel between nodes, and what becomes of a published block: \<open>protocol.go\<close> and \<open>pubsub.go\<close>
  of \<open>s-node/wp2p\<close> and \<open>w-node/wp2p\<close>, \<open>w-node/ledger/blk.go\<close>, and the ends of \<open>main_integrated.go\<close> that read
  the two TCP ports. A w-node subscribes to a topic three times; the goroutine of each subscription handles
  every message, and an iteration of its loop is one step. Protocol buffers, JSON, libp2p and MongoDB are
  arguments. \<open>json.Unmarshal\<close> into a global variable keeps what the text does not mention, so that it is a
  function of the old value.
\<close>

section \<open>Requests\<close>

datatype Request_Type = Request_SEND_MESSAGE | Request_UPDATE_PEER

record SendMessage =
  snd_Data :: bytes
  snd_Created :: int
  snd_Id :: bytes

record UpdatePeer =
  up_UserHandle :: bytes

text \<open>The type is required, the two messages are optional.\<close>

record Request =
  wr_Type :: Request_Type
  wr_SendMessage :: "SendMessage option"
  wr_UpdatePeer :: "UpdatePeer option"

record wire_lib =
  pb_Marshal :: "Request \<Rightarrow> bytes option"
  pb_Unmarshal :: "bytes \<Rightarrow> Request option"
  cj_Marshal :: "CommitteeMsg \<Rightarrow> bytes option"
  cj_Unmarshal :: "bytes \<Rightarrow> CommitteeMsg \<Rightarrow> CommitteeMsg"
  gj_Marshal :: "GossipMsg \<Rightarrow> bytes option"
  gj_Unmarshal :: "bytes \<Rightarrow> GossipMsg \<Rightarrow> GossipMsg"

text \<open>The bytes handed to \<open>Publish\<close>, if any; \<open>msgId\<close> is what the random source gave.\<close>

definition send_request :: "wire_lib \<Rightarrow> bytes \<Rightarrow> bytes option \<Rightarrow> int \<Rightarrow> bytes option" where
  "send_request W msg msgId now =
     (case msgId of
        None \<Rightarrow> None
      | Some i \<Rightarrow> pb_Marshal W \<lparr>wr_Type = Request_SEND_MESSAGE,
          wr_SendMessage = Some \<lparr>snd_Data = msg, snd_Created = now, snd_Id = i\<rparr>, wr_UpdatePeer = None\<rparr>)"

definition WDNMessage :: "wire_lib \<Rightarrow> GossipMsg \<Rightarrow> bytes option \<Rightarrow> int \<Rightarrow> bytes option go" where
  "WDNMessage W data msgId now =
     (case gj_Marshal W data of
        None \<Rightarrow> Inl (Explicit ''json'')
      | Some msg \<Rightarrow> Inr (send_request W msg msgId now))"

definition CommitteeMessage :: "wire_lib \<Rightarrow> CommitteeMsg \<Rightarrow> bytes option \<Rightarrow> int \<Rightarrow> bytes option go" where
  "CommitteeMessage W data msgId now =
     (case cj_Marshal W data of
        None \<Rightarrow> Inl (Explicit ''json'')
      | Some msg \<Rightarrow> Inr (send_request W msg msgId now))"

section \<open>Handlers\<close>

text \<open>The global variables of \<open>pubsub.go\<close>, and what has been written to local TCP ports.\<close>

record pubsub_state =
  ps_handles :: "string \<rightharpoonup> bytes"
  ps_GMsg :: GossipMsg
  ps_CMsg :: CommitteeMsg
  ps_written :: "(string \<times> bytes) list"

definition pubsub_init :: pubsub_state where
  "pubsub_init = \<lparr>ps_handles = Map.empty,
     ps_GMsg = \<lparr>gsp_Type = 0, gsp_Rndblk = None, gsp_StartConsensusTime = 0\<rparr>,
     ps_CMsg = \<lparr>cm_Type = 0, cm_RoundNum = 0, cm_Shards = []\<rparr>, ps_written = []\<rparr>"

definition updatePeer ::
    "wire_lib \<Rightarrow> string \<Rightarrow> bytes \<Rightarrow> pubsub_state \<Rightarrow> bytes option \<times> pubsub_state" where
  "updatePeer W i handle_name st =
     (pb_Marshal W \<lparr>wr_Type = Request_UPDATE_PEER, wr_SendMessage = None,
        wr_UpdatePeer = Some \<lparr>up_UserHandle = handle_name\<rparr>\<rparr>, st\<lparr>ps_handles := (ps_handles st)(i \<mapsto> handle_name)\<rparr>)"

definition pubsubMessageHandler :: "wire_lib \<Rightarrow> SendMessage option \<Rightarrow> pubsub_state \<Rightarrow> pubsub_state go" where
  "pubsubMessageHandler W msg st =
     (case msg of
        None \<Rightarrow> Inl NilDeref
      | Some msg \<Rightarrow> Inr (st\<lparr>ps_GMsg := gj_Unmarshal W (snd_Data msg) (ps_GMsg st)\<rparr>))"

definition pubsubUpdateHandler :: "string \<Rightarrow> UpdatePeer option \<Rightarrow> pubsub_state \<Rightarrow> pubsub_state go" where
  "pubsubUpdateHandler i msg st =
     (case msg of
        None \<Rightarrow> Inl NilDeref
      | Some msg \<Rightarrow> Inr (st\<lparr>ps_handles := (ps_handles st)(i \<mapsto> up_UserHandle msg)\<rparr>))"

definition pubsubHandler :: "wire_lib \<Rightarrow> string \<Rightarrow> bytes \<Rightarrow> pubsub_state \<Rightarrow> pubsub_state go" where
  "pubsubHandler W sender data st =
     (case pb_Unmarshal W data of
        None \<Rightarrow> Inr st
      | Some req \<Rightarrow>
          (case wr_Type req of
             Request_SEND_MESSAGE \<Rightarrow> pubsubMessageHandler W (wr_SendMessage req) st
           | Request_UPDATE_PEER \<Rightarrow> pubsubUpdateHandler sender (wr_UpdatePeer req) st))"

text \<open>Dialling is repeated until it succeeds; \<open>dial\<close> tells the ports where it ever does. \<open>None\<close>: for ever. A
  failure of \<open>Marshal\<close> is not looked at.\<close>

definition write_to :: "(string \<Rightarrow> bool) \<Rightarrow> string \<Rightarrow> bytes option \<Rightarrow> pubsub_state \<Rightarrow> pubsub_state option" where
  "write_to dial port sndBuf st =
     (if dial port then Some (st\<lparr>ps_written := ps_written st @ [(port, case sndBuf of None \<Rightarrow> [] | Some b \<Rightarrow> b)]\<rparr>)
      else None)"

definition committeeMessageHandler ::
    "wire_lib \<Rightarrow> (string \<Rightarrow> bool) \<Rightarrow> SendMessage option \<Rightarrow> pubsub_state \<Rightarrow> pubsub_state go option" where
  "committeeMessageHandler W dial msg st =
     (case msg of
        None \<Rightarrow> Some (Inl NilDeref)
      | Some msg \<Rightarrow>
          let st = st\<lparr>ps_CMsg := cj_Unmarshal W (snd_Data msg) (ps_CMsg st)\<rparr>
          in if cm_Type (ps_CMsg st) = 1
             then map_option Inr (write_to dial ''6262'' (cj_Marshal W (ps_CMsg st)) st)
             else Some (Inr st))"

definition blockMessageHandler ::
    "wire_lib \<Rightarrow> (string \<Rightarrow> bool) \<Rightarrow> SendMessage option \<Rightarrow> pubsub_state \<Rightarrow> pubsub_state go option" where
  "blockMessageHandler W dial msg st =
     (case msg of
        None \<Rightarrow> Some (Inl NilDeref)
      | Some msg \<Rightarrow>
          let st = st\<lparr>ps_GMsg := gj_Unmarshal W (snd_Data msg) (ps_GMsg st)\<rparr>
          in if gsp_Type (ps_GMsg st) = 2
             then map_option Inr (write_to dial ''5252'' (gj_Marshal W (ps_GMsg st)) st)
             else Some (Inr st))"

definition committeeHandler ::
    "wire_lib \<Rightarrow> (string \<Rightarrow> bool) \<Rightarrow> bytes \<Rightarrow> pubsub_state \<Rightarrow> pubsub_state go option" where
  "committeeHandler W dial data st =
     (case pb_Unmarshal W data of
        None \<Rightarrow> Some (Inr st)
      | Some req \<Rightarrow> if wr_Type req = Request_SEND_MESSAGE then committeeMessageHandler W dial (wr_SendMessage req) st
                    else Some (Inr st))"

definition blockHandler ::
    "wire_lib \<Rightarrow> (string \<Rightarrow> bool) \<Rightarrow> bytes \<Rightarrow> pubsub_state \<Rightarrow> pubsub_state go option" where
  "blockHandler W dial data st =
     (case pb_Unmarshal W data of
        None \<Rightarrow> Some (Inr st)
      | Some req \<Rightarrow> if wr_Type req = Request_SEND_MESSAGE then blockMessageHandler W dial (wr_SendMessage req) st
                    else Some (Inr st))"

text \<open>The three subscriptions of a topic.\<close>

datatype subscription = CommitteeSub | BlockSub | PubsubSub

definition handlers :: "subscription list" where
  "handlers = [CommitteeSub, BlockSub, PubsubSub]"

text \<open>\<open>joins\<close> and \<open>subscribes\<close> tell whether \<open>Join\<close> and each \<open>Subscribe\<close> succeed; the goroutines that are started.\<close>

definition JoinNetwork :: "bool \<Rightarrow> (subscription \<Rightarrow> bool) \<Rightarrow> subscription list option" where
  "JoinNetwork joins subscribes =
     (if \<not> joins then None
      else if \<not> subscribes CommitteeSub then None
      else if \<not> subscribes BlockSub then None
      else if \<not> subscribes PubsubSub then None
      else Some handlers)"

text \<open>The topic of the channel is listed when it has been joined.\<close>

definition JoinShard :: "(string \<Rightarrow> 't option) \<Rightarrow> string \<Rightarrow> 't list \<Rightarrow> 't list" where
  "JoinShard join_topic channel shards =
     (case join_topic (''watchdog/'' @ channel) of None \<Rightarrow> shards | Some topic \<Rightarrow> shards @ [topic])"

definition on_message ::
    "wire_lib \<Rightarrow> (string \<Rightarrow> bool) \<Rightarrow> subscription \<Rightarrow> string \<Rightarrow> bytes \<Rightarrow> pubsub_state \<Rightarrow> pubsub_state go option" where
  "on_message W dial sub sender data st =
     (case sub of
        CommitteeSub \<Rightarrow> committeeHandler W dial data st
      | BlockSub \<Rightarrow> blockHandler W dial data st
      | PubsubSub \<Rightarrow> Some (pubsubHandler W sender data st))"

text \<open>A message as the goroutines handle it in some order, each to its end: \<open>GMsg\<close> and \<open>CMsg\<close> are shared without a
  lock, and handlers that overlap could read them half written, which is not modelled.\<close>

fun deliver ::
    "wire_lib \<Rightarrow> (string \<Rightarrow> bool) \<Rightarrow> subscription list \<Rightarrow> string \<Rightarrow> bytes \<Rightarrow> pubsub_state \<Rightarrow> pubsub_state go option" where
  "deliver W dial [] sender data st = Some (Inr st)"
| "deliver W dial (sub # subs) sender data st =
     (case on_message W dial sub sender data st of
        None \<Rightarrow> None
      | Some (Inl e) \<Rightarrow> Some (Inl e)
      | Some (Inr st) \<Rightarrow> deliver W dial subs sender data st)"

section \<open>The ledger\<close>

record blk_doc =
  bd_PrevHash :: string
  bd_CurHash :: string
  bd_LeaderID :: string
  bd_MerkleRootHash :: string
  bd_Signature :: bytes
  bd_NumofAbortTransaction :: "string \<rightharpoonup> u32"
  bd_Committee :: "HonestAuditor option list"

text \<open>\<open>FindOne\<close> of \<open>GetPrevBlockHash\<close> sorts by \<open>_id\<close>, descending, and decodes \<open>CurHash\<close>.\<close>

record 'l ledger_lib =
  ll_InsertOne :: "blk_doc \<Rightarrow> 'l \<Rightarrow> 'l option"
  ll_FindOne :: "'l \<Rightarrow> string found"
  ll_docs :: "'l \<Rightarrow> blk_doc list"

definition blk_of :: "AuditMsg \<Rightarrow> blk_doc" where
  "blk_of m = \<lparr>bd_PrevHash = am_PrevHash m, bd_CurHash = am_CurHash m, bd_LeaderID = am_LeaderID m,
     bd_MerkleRootHash = am_MerkleRootHash m, bd_Signature = am_Signature m,
     bd_NumofAbortTransaction = am_Aborttransactionnum m, bd_Committee = am_HonestAuditors m\<rparr>"

definition BlkInsert :: "'l ledger_lib \<Rightarrow> AuditMsg option \<Rightarrow> 'l \<Rightarrow> 'l go" where
  "BlkInsert L cMsg l =
     (case cMsg of
        None \<Rightarrow> Inl NilDeref
      | Some m \<Rightarrow> Inr (case ll_InsertOne L (blk_of m) l of None \<Rightarrow> l | Some l' \<Rightarrow> l'))"

definition GetPrevBlockHash :: "'l ledger_lib \<Rightarrow> 'l \<Rightarrow> string option" where
  "GetPrevBlockHash L l =
     (case ll_FindOne L l of
        Found h \<Rightarrow> Some h
      | NoDocuments \<Rightarrow> Some (replicate 64 CHR ''0'')
      | FindError \<Rightarrow> None)"

text \<open>What one \<open>Read\<close> into a buffer of \<open>n\<close> bytes returns at most, when all has arrived; nothing at the end of
  the stream. TCP may return less, for which the handlers take any \<open>recvBuf\<close>: this is the reader's best case.\<close>

definition read_once :: "nat \<Rightarrow> bytes \<Rightarrow> bytes option" where
  "read_once n buf = (if buf = [] then None else Some (take n buf))"

text \<open>The block is inserted by a goroutine, before or after the report that \<open>Reporting\<close> sends.\<close>

definition BloConnHandler ::
    "'l ledger_lib \<Rightarrow> (bytes \<Rightarrow> GossipMsg option) \<Rightarrow> ('pk, 'sg) bls_keys \<Rightarrow> int \<Rightarrow> bytes option \<Rightarrow> 'pk CONSENSUSNODE \<Rightarrow>
     'l \<Rightarrow> ('l \<times> Node list option) go" where
  "BloConnHandler L unmarshal K now recvBuf w l =
     (case recvBuf of
        None \<Rightarrow> Inr (l, None)
      | Some buf \<Rightarrow>
          (case unmarshal buf of
             None \<Rightarrow> Inr (l, None)
           | Some MsgRecv \<Rightarrow>
               go_bind (BlkInsert L (gsp_Rndblk MsgRecv) l) (\<lambda>l.
               go_bind (Reporting K now w) (\<lambda>nodes. Inr (l, Some nodes)))))"

end
