(* ===== verification/Gossip_Props.thy ===== *)
theory Gossip_Props
  imports Gossip Consensus_Props
begin

text \<open>
  A published message arrives at every w-node once, whatever the order of its three handlers; what else is
  handed to the node; and what the leader publishes: the fields of the last vote, and those that one block
  inherits from another.
\<close>

section \<open>What the encodings keep\<close>

text \<open>Every zero field is left out of the text, and what the text does not mention keeps its value. A JSON
  object that is read into a map leaves the other entries of the map; a list is replaced.\<close>

definition or_old :: "'a \<Rightarrow> 'a \<Rightarrow> 'a \<Rightarrow> 'a" where
  "or_old zero new old = (if new = zero then old else new)"

definition merge_audit :: "AuditMsg \<Rightarrow> AuditMsg \<Rightarrow> AuditMsg" where
  "merge_audit m old =
     \<lparr>am_BlkNum = or_old 0 (am_BlkNum m) (am_BlkNum old), am_PrevHash = or_old [] (am_PrevHash m) (am_PrevHash old),
      am_MerkleRootHash = or_old [] (am_MerkleRootHash m) (am_MerkleRootHash old),
      am_CurHash = or_old [] (am_CurHash m) (am_CurHash old), am_LeaderID = or_old [] (am_LeaderID m) (am_LeaderID old),
      am_Signature = or_old [] (am_Signature m) (am_Signature old),
      am_HonestAuditors = or_old [] (am_HonestAuditors m) (am_HonestAuditors old),
      am_PhaseNum = or_old 0 (am_PhaseNum m) (am_PhaseNum old),
      am_Aborttransactionnum = am_Aborttransactionnum old ++ am_Aborttransactionnum m\<rparr>"

definition merge_block :: "AuditMsg option \<Rightarrow> AuditMsg option \<Rightarrow> AuditMsg option" where
  "merge_block m old =
     (case m of None \<Rightarrow> old | Some b \<Rightarrow> Some (merge_audit b (case old of None \<Rightarrow> empty_audit | Some o' \<Rightarrow> o')))"

definition merge_gossip :: "GossipMsg \<Rightarrow> GossipMsg \<Rightarrow> GossipMsg" where
  "merge_gossip g old =
     \<lparr>gsp_Type = or_old 0 (gsp_Type g) (gsp_Type old), gsp_Rndblk = merge_block (gsp_Rndblk g) (gsp_Rndblk old),
      gsp_StartConsensusTime = or_old 0 (gsp_StartConsensusTime g) (gsp_StartConsensusTime old)\<rparr>"

text \<open>Auditors with a name; a committee message that leaves nothing out.\<close>

definition named_auditors :: "GossipMsg \<Rightarrow> bool" where
  "named_auditors g \<longleftrightarrow> (\<forall>b. gsp_Rndblk g = Some b \<longrightarrow> (\<forall>a \<in> set (am_HonestAuditors b). \<exists>x. a = Some x \<and> hon_Id x \<noteq> []))"

definition full_wnode :: "Wnode \<Rightarrow> bool" where
  "full_wnode n \<longleftrightarrow> w_NodeID n \<noteq> [] \<and> w_Addrs n \<noteq> [] \<and> w_Port n \<noteq> [] \<and> w_Publickey n \<noteq> [] \<and> w_Seed n \<noteq> [] \<and>
     w_Proof n \<noteq> [] \<and> w_Value n \<noteq> []"

definition full_committee :: "CommitteeMsg \<Rightarrow> bool" where
  "full_committee m \<longleftrightarrow> cm_Type m \<noteq> 0 \<and> cm_RoundNum m \<noteq> 0 \<and> cm_Shards m \<noteq> [] \<and>
     list_all (\<lambda>s. sh_ID s \<noteq> [] \<and> sh_LeaderID s \<noteq> [] \<and> sh_Member s \<noteq> [] \<and> list_all full_wnode (sh_Member s)) (cm_Shards m)"

definition no_committee :: CommitteeMsg where
  "no_committee = \<lparr>cm_Type = 0, cm_RoundNum = 0, cm_Shards = []\<rparr>"

text \<open>The laws: protocol buffers give back what was encoded; a text of one kind of message is read into a
  variable of either kind, where only the type is common to both.\<close>

definition wire_ok :: "wire_lib \<Rightarrow> bool" where
  "wire_ok W \<longleftrightarrow>
     (\<forall>r data. pb_Marshal W r = Some data \<longrightarrow> pb_Unmarshal W data = Some r) \<and>
     (\<forall>m j c g. cj_Marshal W m = Some j \<longrightarrow> j \<noteq> [] \<and>
        (full_committee m \<or> c = no_committee \<longrightarrow> cj_Unmarshal W j c = m) \<and>
        gj_Unmarshal W j g = g\<lparr>gsp_Type := or_old 0 (cm_Type m) (gsp_Type g)\<rparr>) \<and>
     (\<forall>m j c g. gj_Marshal W m = Some j \<longrightarrow> j \<noteq> [] \<and>
        (named_auditors m \<longrightarrow> gj_Unmarshal W j g = merge_gossip m g) \<and>
        cj_Unmarshal W j c = c\<lparr>cm_Type := or_old 0 (gsp_Type m) (cm_Type c)\<rparr>)"

lemma wire_request: "wire_ok W \<Longrightarrow> pb_Marshal W r = Some data \<Longrightarrow> pb_Unmarshal W data = Some r"
  by (simp add: wire_ok_def)

lemma wire_committee:
  assumes "wire_ok W" "cj_Marshal W m = Some j"
  shows "j \<noteq> []" "full_committee m \<or> c = no_committee \<Longrightarrow> cj_Unmarshal W j c = m"
    "gj_Unmarshal W j g = g\<lparr>gsp_Type := or_old 0 (cm_Type m) (gsp_Type g)\<rparr>"
  using assms unfolding wire_ok_def by blast+

lemma wire_gossip:
  assumes "wire_ok W" "gj_Marshal W m = Some j"
  shows "j \<noteq> []" "named_auditors m \<Longrightarrow> gj_Unmarshal W j g = merge_gossip m g"
    "cj_Unmarshal W j c = c\<lparr>cm_Type := or_old 0 (gsp_Type m) (cm_Type c)\<rparr>"
  using assms unfolding wire_ok_def by blast+

lemma or_old_twice [simp]: "or_old z n (or_old z n old) = or_old z n old"
  by (simp add: or_old_def)

lemma merge_audit_twice [simp]: "merge_audit m (merge_audit m old) = merge_audit m old"
  by (simp add: merge_audit_def map_add_assoc) (simp add: fun_eq_iff map_add_def split: option.split)

lemma merge_gossip_twice [simp]: "merge_gossip g (merge_gossip g old) = merge_gossip g old"
  by (simp add: merge_gossip_def merge_block_def split: option.split)

section \<open>Delivery\<close>

lemma handlers_orders:
  assumes "mset subs = mset handlers"
  shows "subs \<in> {[CommitteeSub, BlockSub, PubsubSub], [CommitteeSub, PubsubSub, BlockSub],
    [BlockSub, CommitteeSub, PubsubSub], [BlockSub, PubsubSub, CommitteeSub],
    [PubsubSub, CommitteeSub, BlockSub], [PubsubSub, BlockSub, CommitteeSub]}"
proof -
  have "length subs = 3" using mset_eq_length [OF assms] by (simp add: handlers_def)
  then obtain x y z where "subs = [x, y, z]" by (auto simp: length_Suc_conv numeral_3_eq_3)
  with assms show ?thesis by (cases x; cases y; cases z) (auto simp: handlers_def add_eq_conv_ex)
qed

lemma deliver_committee:
  assumes "wire_ok W" "CommitteeMessage W m msgId now = Inr (Some data)" "cj_Marshal W m = Some j"
    and "full_committee m \<or> ps_CMsg st = no_committee" "cm_Type m = 1" "dial ''6262''" "mset subs = mset handlers"
  shows "deliver W dial subs sender data st = Some (Inr (st\<lparr>ps_CMsg := m,
     ps_GMsg := (ps_GMsg st)\<lparr>gsp_Type := 1\<rparr>, ps_written := ps_written st @ [(''6262'', j)]\<rparr>))"
proof -
  from assms(2,3) obtain i where "pb_Marshal W \<lparr>wr_Type = Request_SEND_MESSAGE,
      wr_SendMessage = Some \<lparr>snd_Data = j, snd_Created = now, snd_Id = i\<rparr>, wr_UpdatePeer = None\<rparr> = Some data"
    by (auto simp: CommitteeMessage_def send_request_def split: option.splits)
  note un = wire_request [OF assms(1) this] and cj = wire_committee(2) [OF assms(1,3,4)]
    and gj = wire_committee(3) [OF assms(1,3)]
  from handlers_orders [OF assms(7)] show ?thesis
    by (elim insertE emptyE)
      (simp_all add: on_message_def committeeHandler_def blockHandler_def pubsubHandler_def committeeMessageHandler_def
        blockMessageHandler_def pubsubMessageHandler_def write_to_def un cj gj assms(3,5,6) or_old_def)
qed

lemma deliver_block:
  assumes "wire_ok W" "WDNMessage W g msgId now = Inr (Some data)" "gj_Marshal W g = Some j"
    and "named_auditors g" "gsp_Type g = 2" "dial ''5252''" "mset subs = mset handlers"
  shows "deliver W dial subs sender data st = Some (Inr (st\<lparr>ps_CMsg := (ps_CMsg st)\<lparr>cm_Type := 2\<rparr>,
     ps_GMsg := merge_gossip g (ps_GMsg st), ps_written := ps_written st @ [(''5252'',
       case gj_Marshal W (merge_gossip g (ps_GMsg st)) of None \<Rightarrow> [] | Some b \<Rightarrow> b)]\<rparr>))"
proof -
  from assms(2,3) obtain i where "pb_Marshal W \<lparr>wr_Type = Request_SEND_MESSAGE,
      wr_SendMessage = Some \<lparr>snd_Data = j, snd_Created = now, snd_Id = i\<rparr>, wr_UpdatePeer = None\<rparr> = Some data"
    by (auto simp: WDNMessage_def send_request_def split: option.splits)
  note un = wire_request [OF assms(1) this] and gj = wire_gossip(2) [OF assms(1,3,4)]
    and cj = wire_gossip(3) [OF assms(1,3)]
  have t: "gsp_Type (merge_gossip g old) = 2" for old using assms(5) by (simp add: merge_gossip_def or_old_def)
  from handlers_orders [OF assms(7)] show ?thesis
    by (elim insertE emptyE)
      (simp_all add: on_message_def committeeHandler_def blockHandler_def pubsubHandler_def committeeMessageHandler_def
        blockMessageHandler_def pubsubMessageHandler_def write_to_def un cj gj t assms(5,6) or_old_def)
qed

text \<open>
  C11: From the s-node to the members: a committee that the s-node publishes on the common topic is written exactly
  once to the port of a w-node that receives it, in whatever order its three handlers run, when that port can be dialled; unchanged when none of
  its fields is empty, whatever the node has received before, or when it is the first. A member that is not in a
  round then adopts it, with its members and itself as the leader exactly when it comes first, provided that one
  \<open>Read\<close> of the connection gives the whole text, of at most 20000 bytes, that JSON and protobuf give back what they were given, and that
  the VRF values of the members are pairwise distinct (with equal ones the unstable sort may put another first).
\<close>

theorem committee_delivered:
  assumes "wire_ok W" and "distinct topics" and "(ms_step B ord topics)\<^sup>*\<^sup>* ms_init s" and "m \<in> set (ms_sent s)"
    and "full_committee m \<or> ps_CMsg st = no_committee" and "cj_Marshal W m = Some j" and "unmarshal j = Some m" and "length j \<le> 20000"
    and "CommitteeMessage W m msgId now = Inr (Some data)" and "mset subs = mset handlers" and "dial ''6262''"
    and "\<exists>shard \<in> set (cm_Shards m). cn_selfId w \<in> w_NodeID ` set (sh_Member shard)" and "\<not> cn_isRunning w"
    and "\<forall>shard \<in> set (cm_Shards m). distinct (map (\<lambda>mem. SetBytes (Sum256 (w_Proof mem))) (sh_Member shard))"
  shows "\<exists>st' w' shard. deliver W dial subs sender data st = Some (Inr st') \<and>
     ps_written st' = ps_written st @ [(''6262'', j)] \<and>
     CommConnHandler B ord' chan unmarshal (read_once 20000 j) w = Inr w' \<and>
     cm_Shards m = [shard] \<and> cn_roundIdx w' = cm_RoundNum m \<and> cn_members w' = sh_Member shard \<and>
     (cn_leader w' \<longleftrightarrow> cn_selfId w = w_NodeID (hd (sh_Member shard)))"
proof -
  from ms_reachable [OF assms(2,3)] assms(4) have "committee_ok B topics m" by (simp add: ms_inv_def)
  then have "cm_Type m = 1" by (simp add: committee_ok_def)
  note sent = deliver_committee [where dial = dial, OF assms(1,9,6,5) this assms(11,10), of sender]
  have "read_once 20000 j = Some j" using wire_committee(1) [OF assms(1,6)] assms(8) by (simp add: read_once_def)
  then have "CommConnHandler B ord' chan unmarshal (read_once 20000 j) w = applyCommittee B ord' chan m w"
    using assms(7,13) by (simp add: CommConnHandler_def)
  moreover from published_committee_adopted [OF assms(2-4,12,14), of ord' chan] obtain w' shard where
    "applyCommittee B ord' chan m w = Inr w'" "cm_Shards m = [shard]" "cn_roundIdx w' = cm_RoundNum m"
    "cn_members w' = sh_Member shard" "cn_leader w' \<longleftrightarrow> cn_selfId w = w_NodeID (hd (sh_Member shard))"
    by (elim exE conjE) (rule that; assumption)
  ultimately show ?thesis using sent by (intro exI [of _ w'] exI [of _ shard] exI) auto
qed

section \<open>What else is delivered\<close>

text \<open>
  What any peer can do with one message: a request without the message its type announces makes every
  handler panic that looks at it; and a text that is not JSON, or says nothing of the type, makes the
  node hand itself the last committee, or the last block, once more.
\<close>

theorem junk_messages:
  assumes "pb_Unmarshal W data = Some r" and "wr_Type r = Request_SEND_MESSAGE"
  shows "(wr_SendMessage r = None \<longrightarrow> on_message W dial sub sender data st = Some (Inl NilDeref)) \<and>
     (\<forall>msg. wr_SendMessage r = Some msg \<and> cj_Unmarshal W (snd_Data msg) (ps_CMsg st) = ps_CMsg st \<and>
        cm_Type (ps_CMsg st) = 1 \<and> dial ''6262'' \<and> cj_Marshal W (ps_CMsg st) = Some j \<longrightarrow>
        on_message W dial CommitteeSub sender data st =
          Some (Inr (st\<lparr>ps_written := ps_written st @ [(''6262'', j)]\<rparr>))) \<and>
     (\<forall>msg. wr_SendMessage r = Some msg \<and> gj_Unmarshal W (snd_Data msg) (ps_GMsg st) = ps_GMsg st \<and>
        gsp_Type (ps_GMsg st) = 2 \<and> dial ''5252'' \<and> gj_Marshal W (ps_GMsg st) = Some j' \<longrightarrow>
        on_message W dial BlockSub sender data st =
          Some (Inr (st\<lparr>ps_written := ps_written st @ [(''5252'', j')]\<rparr>)))"
  using assms
  by (cases sub) (auto simp: on_message_def committeeHandler_def blockHandler_def pubsubHandler_def
    committeeMessageHandler_def blockMessageHandler_def pubsubMessageHandler_def write_to_def)

section \<open>Blocks\<close>

text \<open>
  C17: A block is recorded with parts of the block before it: when two blocks have been published, the text that
  a w-node hands to its ledger for the second carries the abort counts of both, the second's where
  both have one, and, when the second has no auditors, those of the first. So the block that a leader publishes
  without any vote is recorded as one that the previous committee agreed on.
\<close>

theorem block_inherits:
  assumes "wire_ok W" and "WDNMessage W g1 i1 t1 = Inr (Some d1)" and "WDNMessage W g2 i2 t2 = Inr (Some d2)"
    and "named_auditors g1" and "named_auditors g2" and "gsp_Type g1 = 2" and "gsp_Type g2 = 2"
    and "gsp_Rndblk g1 = Some b1" and "gsp_Rndblk g2 = Some b2" and "dial ''5252''"
    and "mset subs1 = mset handlers" and "mset subs2 = mset handlers"
  shows "\<exists>st1 st2 g b. deliver W dial subs1 sender1 d1 st = Some (Inr st1) \<and>
     deliver W dial subs2 sender2 d2 st1 = Some (Inr st2) \<and>
     ps_written st2 = ps_written st1 @ [(''5252'', case gj_Marshal W g of None \<Rightarrow> [] | Some j \<Rightarrow> j)] \<and>
     gsp_Rndblk g = Some b \<and>
     (\<forall>user n. am_Aborttransactionnum b1 user = Some n \<longrightarrow> am_Aborttransactionnum b user =
        (case am_Aborttransactionnum b2 user of None \<Rightarrow> Some n | Some n' \<Rightarrow> Some n')) \<and>
     (am_HonestAuditors b2 = [] \<and> am_HonestAuditors b1 \<noteq> [] \<longrightarrow> am_HonestAuditors b = am_HonestAuditors b1) \<and>
     (am_HonestAuditors b2 \<noteq> [] \<longrightarrow> am_HonestAuditors b = am_HonestAuditors b2) \<and>
     (am_PrevHash b2 \<noteq> [] \<longrightarrow> am_PrevHash b = am_PrevHash b2) \<and> (am_CurHash b2 \<noteq> [] \<longrightarrow> am_CurHash b = am_CurHash b2)"
proof -
  from assms(2,3) obtain j1 j2 where j: "gj_Marshal W g1 = Some j1" "gj_Marshal W g2 = Some j2"
    by (auto simp: WDNMessage_def split: option.splits)
  let ?g = "merge_gossip g2 (merge_gossip g1 (ps_GMsg st))"
  from deliver_block [where dial = dial, OF assms(1,2) j(1) assms(4,6,10,11), of sender1 st] obtain st1 where
    st1: "deliver W dial subs1 sender1 d1 st = Some (Inr st1)" "ps_GMsg st1 = merge_gossip g1 (ps_GMsg st)" by simp
  from deliver_block [where dial = dial, OF assms(1,3) j(2) assms(5,7,10,12), of sender2 st1] st1(2) obtain st2 where
    st2: "deliver W dial subs2 sender2 d2 st1 = Some (Inr st2)"
    "ps_written st2 = ps_written st1 @ [(''5252'', case gj_Marshal W ?g of None \<Rightarrow> [] | Some j \<Rightarrow> j)]" by simp
  obtain old where b: "gsp_Rndblk ?g = Some (merge_audit b2 (merge_audit b1 old))"
    using assms(8,9) by (simp add: merge_gossip_def merge_block_def)
  show ?thesis
    by (intro exI conjI, rule st1(1), rule st2(1), rule st2(2), rule b)
      (auto simp: merge_audit_def or_old_def map_add_def split: option.splits)
qed

text \<open>
  The end of a round: a w-node that is handed a block whose text fits the 8192 bytes that are read inserts
  it and reports itself for the next round. A longer one is cut off, is no JSON, and is dropped: the ledger stays
  as it is, and the node does not report itself again, which it does nowhere else but at its start.
\<close>

theorem block_ends_round:
  assumes "unmarshal j = Some g" and "gsp_Rndblk g = Some b" and "cn_addresses w \<noteq> []" and "j \<noteq> []"
    and "\<forall>n < length j. unmarshal (take n j) = None"
  shows "(length j \<le> 8192 \<longrightarrow> (\<exists>nodes. BloConnHandler L unmarshal K now (read_once 8192 j) w l =
       Inr (case ll_InsertOne L (blk_of b) l of None \<Rightarrow> l | Some l' \<Rightarrow> l', Some nodes) \<and>
       map n_NodeID nodes = [cn_selfId w])) \<and>
     (8192 < length j \<longrightarrow> BloConnHandler L unmarshal K now (read_once 8192 j) w l = Inr (l, None))"
  using assms
  by (cases "cn_addresses w") (auto simp: BloConnHandler_def read_once_def BlkInsert_def Reporting_def createSelfMembership_def)

section \<open>What a round publishes\<close>

text \<open>Waiting for votes changes only the message, of which the leader and the counts stay; the hash of the block before
  it is its own, or that of a vote.\<close>

definition keeps :: "vote_event list \<Rightarrow> 'pk CONSENSUSNODE \<Rightarrow> 'pk CONSENSUSNODE \<Rightarrow> bool" where
  "keeps evs w w' \<longleftrightarrow> cn_gossip w' = cn_gossip w \<and> cn_startConsensusTime w' = cn_startConsensusTime w \<and>
     cn_members w' = cn_members w \<and>
     am_LeaderID (cn_auditMsg w') = am_LeaderID (cn_auditMsg w) \<and>
     am_Aborttransactionnum (cn_auditMsg w') = am_Aborttransactionnum (cn_auditMsg w) \<and>
     (am_PrevHash (cn_auditMsg w') = am_PrevHash (cn_auditMsg w) \<or>
      (\<exists>v. Vote (Some v) \<in> set evs \<and> am_PrevHash (cn_auditMsg w') = am_PrevHash v))"

lemma keeps_more: "keeps evs w w' \<Longrightarrow> keeps (ev # evs) w w'"
  by (auto simp: keeps_def)

lemma keeps_from: "keeps evs (w\<lparr>cn_auditMsg := (cn_auditMsg w)\<lparr>am_HonestAuditors := as\<rparr>\<rparr>) w' \<Longrightarrow> keeps evs w w'"
  by (simp add: keeps_def)

lemma keeps_sign: "keeps (Vote (Some msg) # evs) w
    (Multisinging K msg sigs (w\<lparr>cn_auditMsg := (cn_auditMsg w)\<lparr>am_HonestAuditors := as\<rparr>\<rparr>))"
  by (auto simp: keeps_def Multisinging_def aggregateAndSet_def)

lemma waitForVotes_keeps: "waitForVotes B K ord quorum t evs sigVec ids w = Some (ok, w') \<Longrightarrow> keeps evs w w'"
proof (induction B K ord quorum t evs sigVec ids w rule: waitForVotes.induct)
  case (4 B K ord quorum t msg evs sigVec ids w)
  show ?case
  proof (cases "(am_PhaseNum msg = AuditMsg_PHASE_UNSPECIFIED \<or> am_PhaseNum msg \<noteq> t) \<or> sg_Deserialize B (am_Signature msg) = None")
    case True
    then have "keeps evs w w'" using 4 by (auto split: if_splits)
    then show ?thesis by (rule keeps_more)
  next
    case False
    then obtain sig where sig: "sg_Deserialize B (am_Signature msg) = Some sig"
      "\<not> (am_PhaseNum msg = AuditMsg_PHASE_UNSPECIFIED \<or> am_PhaseNum msg \<noteq> t)" by auto
    show ?thesis
    proof (cases "length (sigVec @ [sig]) = quorum")
      case True
      then show ?thesis using sig 4(4) by (auto simp: Let_def intro: keeps_sign)
    next
      case neq: False
      then show ?thesis using sig 4(4) 4(3) [OF sig(2,1) refl refl refl neq]
        by (auto simp: Let_def intro!: keeps_more dest: keeps_from)
    qed
  qed
qed (auto simp: keeps_def intro: keeps_more)

lemma wait_phase_keeps: "wait_phase B K ord t evs w = Some (ok, w') \<Longrightarrow> keeps evs w w'"
  unfolding wait_phase_def by (rule waitForVotes_keeps)

lemma MP2BTPSubmit_keeps: "MP2BTPSubmit J session w = Inr w' \<Longrightarrow> \<exists>pu. w' = w\<lparr>cn_pu := pu\<rparr>"
  by (auto simp: MP2BTPSubmit_def split: option.splits if_splits) (metis CONSENSUSNODE.surjective CONSENSUSNODE.update_convs(13))

lemma first_message_fields:
  "am_PrevHash (first_message J K prev userCount w) = (case prev of None \<Rightarrow> [] | Some h \<Rightarrow> h)"
  "am_LeaderID (first_message J K prev userCount w) = cn_selfId w"
  "am_Aborttransactionnum (first_message J K prev userCount w) = userCount"
  by (simp_all add: first_message_def Let_def)

lemma bft_begin_keeps:
  assumes "bft_begin J K N C prev userCount w = Inr (session, w')"
  shows "\<exists>pu. w' = w\<lparr>cn_auditMsg := first_message J K prev userCount w, cn_pu := pu\<rparr>"
proof -
  let ?w = "w\<lparr>cn_auditMsg := first_message J K prev userCount w\<rparr>"
  from assms obtain w1 where w1: "MP2BTPRootOnce N C (other_addrs ?w) ?w = Inr (session, w1)" "MP2BTPSubmit J session w1 = Inr w'"
    by (auto simp: bft_begin_def Let_def)
  have "\<exists>pu. w1 = ?w\<lparr>cn_pu := pu\<rparr>"
  proof (cases "nl_writable N")
    case False
    then show ?thesis using w1(1) by (intro exI [of _ "cn_pu w"]) (auto simp: MP2BTPRootOnce_def)
  qed (use w1(1) in \<open>auto simp: MP2BTPRootOnce_def split: option.splits\<close>)
  with MP2BTPSubmit_keeps [OF w1(2)] show ?thesis by auto
qed

text \<open>The parts of \<open>bftConsensus\<close>, up to what is published.\<close>

lemma bftConsensus_parts:
  assumes "bftConsensus J B K N C ord prev userCount prepares commits w = Some (Inr w')"
  obtains pu1 ok1 w2 pu2 ok2 w4 where
    "wait_phase B K ord AuditMsg_AGGREGATED_PREPARE prepares
       (w\<lparr>cn_auditMsg := first_message J K prev userCount w, cn_pu := pu1\<rparr>) = Some (ok1, w2)"
    "wait_phase B K ord AuditMsg_AGGREGATED_COMMIT commits (w2\<lparr>cn_pu := pu2\<rparr>) = Some (ok2, w4)"
    "cn_gossip w' = cn_gossip w @ [\<lparr>gsp_Type = 2,
       gsp_Rndblk = Some ((cn_auditMsg w4)\<lparr>am_MerkleRootHash := ''abcdefghijklnmop''\<rparr>),
       gsp_StartConsensusTime = cn_startConsensusTime w\<rparr>]"
proof -
  from assms obtain session w1 ok1 w2 w3 ok2 w4 where p: "bft_begin J K N C prev userCount w = Inr (session, w1)"
    "wait_phase B K ord AuditMsg_AGGREGATED_PREPARE prepares w1 = Some (ok1, w2)" "MP2BTPSubmit J session w2 = Inr w3"
    "wait_phase B K ord AuditMsg_AGGREGATED_COMMIT commits w3 = Some (ok2, w4)" "bft_end session w4 = Inr w'"
    by (auto simp: bftConsensus_def split: sum.splits option.splits prod.splits)
  from bft_begin_keeps [OF p(1)] obtain pu1 where w1: "w1 = w\<lparr>cn_auditMsg := first_message J K prev userCount w, cn_pu := pu1\<rparr>" by blast
  from MP2BTPSubmit_keeps [OF p(3)] obtain pu2 where w3: "w3 = w2\<lparr>cn_pu := pu2\<rparr>" by blast
  have "cn_gossip w4 = cn_gossip w" "cn_startConsensusTime w4 = cn_startConsensusTime w"
    using wait_phase_keeps [OF p(2)] wait_phase_keeps [OF p(4)] unfolding keeps_def w1 w3 by simp_all
  then have "cn_gossip w' = cn_gossip w @ [\<lparr>gsp_Type = 2,
       gsp_Rndblk = Some ((cn_auditMsg w4)\<lparr>am_MerkleRootHash := ''abcdefghijklnmop''\<rparr>),
       gsp_StartConsensusTime = cn_startConsensusTime w\<rparr>]"
    using p(5) by (auto simp: bft_end_def Let_def split: if_splits)
  with p(2,4) that show thesis unfolding w1 w3 by blast
qed

text \<open>What a leader publishes when it has got its commit votes.\<close>

lemma committed_block:
  assumes "bftConsensus J B K N C ord prev userCount prepares commits w = Some (Inr w')"
    and "quorum_of w = Some q" and "0 < q" and "q \<le> length (votes_in_time B AuditMsg_AGGREGATED_COMMIT commits)"
  shows "\<exists>b. cn_gossip w' = cn_gossip w @ [\<lparr>gsp_Type = 2, gsp_Rndblk = Some b,
       gsp_StartConsensusTime = cn_startConsensusTime w\<rparr>] \<and>
     (let v = snd (votes_in_time B AuditMsg_AGGREGATED_COMMIT commits ! (q - 1))
      in am_BlkNum b = am_BlkNum v \<and> am_PrevHash b = am_PrevHash v \<and> am_CurHash b = am_CurHash v) \<and>
     am_LeaderID b = cn_selfId w \<and> am_Aborttransactionnum b = userCount"
proof -
  let ?vs = "take q (votes_in_time B AuditMsg_AGGREGATED_COMMIT commits)"
  from bftConsensus_parts [OF assms(1)] obtain pu1 ok1 w2 pu2 ok2 w4 where
    p: "wait_phase B K ord AuditMsg_AGGREGATED_PREPARE prepares
       (w\<lparr>cn_auditMsg := first_message J K prev userCount w, cn_pu := pu1\<rparr>) = Some (ok1, w2)"
    and c: "wait_phase B K ord AuditMsg_AGGREGATED_COMMIT commits (w2\<lparr>cn_pu := pu2\<rparr>) = Some (ok2, w4)"
    and g: "cn_gossip w' = cn_gossip w @ [\<lparr>gsp_Type = 2,
       gsp_Rndblk = Some ((cn_auditMsg w4)\<lparr>am_MerkleRootHash := ''abcdefghijklnmop''\<rparr>),
       gsp_StartConsensusTime = cn_startConsensusTime w\<rparr>]" by blast
  note keep = wait_phase_keeps [OF p, unfolded keeps_def] wait_phase_keeps [OF c, unfolded keeps_def]
  have q: "quorum_of (w2\<lparr>cn_pu := pu2\<rparr>) = Some q" using assms(2) keep(1) by (auto simp: quorum_of_def split: if_splits)
  have t: "AuditMsg_AGGREGATED_COMMIT \<noteq> AuditMsg_PHASE_UNSPECIFIED"
    by (simp add: AuditMsg_AGGREGATED_COMMIT_def AuditMsg_PHASE_UNSPECIFIED_def)
  from waitForVotes_votes [OF t distinct.simps(1) [THEN iffD2, OF TrueI], of "[]" q B commits K ord "w2\<lparr>cn_pu := pu2\<rparr>"]
    assms(3,4) c [unfolded wait_phase_def q option.case] obtain ids where
    w4: "w4 = Multisinging K (snd (last ?vs)) (map fst ?vs) (w2\<lparr>cn_pu := pu2,
      cn_auditMsg := (cn_auditMsg w2)\<lparr>am_HonestAuditors := auditor_list (in_order ord ids)\<rparr>\<rparr>)" by (auto simp: Let_def)
  have last: "last ?vs = votes_in_time B AuditMsg_AGGREGATED_COMMIT commits ! (q - 1)"
    using assms(3,4) by (subst last_conv_nth) (auto simp: min_def)
  have "am_PhaseNum (snd (last ?vs)) = AuditMsg_AGGREGATED_COMMIT"
    using assms(3,4) unfolding last by (intro votes_in_time_phase [OF nth_mem]) simp
  then have "am_BlkNum (cn_auditMsg w4) = am_BlkNum (snd (last ?vs))" "am_PrevHash (cn_auditMsg w4) = am_PrevHash (snd (last ?vs))"
    "am_CurHash (cn_auditMsg w4) = am_CurHash (snd (last ?vs))"
    by (simp_all add: w4 Multisinging_def aggregateAndSet_def AuditMsg_AGGREGATED_COMMIT_def AuditMsg_AGGREGATED_PREPARE_def)
  with g keep show ?thesis
    by (intro exI [of _ "(cn_auditMsg w4)\<lparr>am_MerkleRootHash := ''abcdefghijklnmop''\<rparr>"]) (simp add: last Let_def first_message_fields)
qed

text \<open>
  C15: The vote that completes the commit phase writes the block: a leader whose committee has other members, and
  who gets as many commit votes as it waits for, publishes a block whose number, hash and hash of the block before
  are those of the last of these votes, whatever the leader proposed and the other votes said; only
  the leader's name and the abort counts are its own.
\<close>

theorem last_vote_writes_block:
  assumes "bftConsensus J B K N C ord prev userCount prepares commits w = Some (Inr w')"
    and "quorum_of w = Some q" and "0 < q" and "q \<le> length (votes_in_time B AuditMsg_AGGREGATED_COMMIT commits)"
  shows "\<exists>b. cn_gossip w' = cn_gossip w @ [\<lparr>gsp_Type = 2, gsp_Rndblk = Some b,
       gsp_StartConsensusTime = cn_startConsensusTime w\<rparr>] \<and>
     (let v = snd (votes_in_time B AuditMsg_AGGREGATED_COMMIT commits ! (q - 1))
      in am_BlkNum b = am_BlkNum v \<and> am_PrevHash b = am_PrevHash v \<and> am_CurHash b = am_CurHash v) \<and>
     am_LeaderID b = cn_selfId w \<and> am_Aborttransactionnum b = userCount"
  using assms by (rule committed_block)

section \<open>Witnesses\<close>

text \<open>A wire that carries one committee and two blocks.\<close>

definition toy_wire :: "CommitteeMsg \<Rightarrow> GossipMsg \<Rightarrow> GossipMsg \<Rightarrow> wire_lib" where
  "toy_wire m g1 g2 = \<lparr>
     pb_Marshal = (\<lambda>r. case wr_SendMessage r of None \<Rightarrow> None | Some s \<Rightarrow>
       if r = \<lparr>wr_Type = Request_SEND_MESSAGE, wr_SendMessage = Some \<lparr>snd_Data = snd_Data s, snd_Created = 0, snd_Id = []\<rparr>,
                wr_UpdatePeer = None\<rparr> then Some (snd_Data s) else None),
     pb_Unmarshal = (\<lambda>d. Some \<lparr>wr_Type = Request_SEND_MESSAGE,
       wr_SendMessage = Some \<lparr>snd_Data = d, snd_Created = 0, snd_Id = []\<rparr>, wr_UpdatePeer = None\<rparr>),
     cj_Marshal = (\<lambda>x. if x = m then Some [1] else None),
     cj_Unmarshal = (\<lambda>j c. if j = [1] then m else if j = [2] then c\<lparr>cm_Type := or_old 0 (gsp_Type g1) (cm_Type c)\<rparr>
       else if j = [3] then c\<lparr>cm_Type := or_old 0 (gsp_Type g2) (cm_Type c)\<rparr> else c),
     gj_Marshal = (\<lambda>x. if x = g1 then Some [2] else if x = g2 then Some [3] else None),
     gj_Unmarshal = (\<lambda>j g. if j = [1] then g\<lparr>gsp_Type := or_old 0 (cm_Type m) (gsp_Type g)\<rparr>
       else if j = [2] then merge_gossip g1 g else if j = [3] then merge_gossip g2 g else g)\<rparr>"

lemma toy_wire_ok: "wire_ok (toy_wire m g1 g2)"
proof -
  have "pb_Unmarshal (toy_wire m g1 g2) d = Some r" if "pb_Marshal (toy_wire m g1 g2) r = Some d" for r d
    using that by (auto simp: toy_wire_def split: option.splits if_splits)
  then show ?thesis unfolding wire_ok_def by (auto simp: toy_wire_def split: if_splits)
qed

definition demo_committee :: CommitteeMsg where
  "demo_committee = \<lparr>cm_Type = 1, cm_RoundNum = 0, cm_Shards = [\<lparr>sh_ID = ''audit'', sh_LeaderID = ''a'',
     sh_Member = [wnode_of (demo_node ''a''), wnode_of (demo_node ''b'')]\<rparr>]\<rparr>"

lemma committee_delivered_witness:
  "\<exists>st' w'. deliver (toy_wire demo_committee (ps_GMsg pubsub_init) (ps_GMsg pubsub_init)) (\<lambda>_. True) [PubsubSub, BlockSub, CommitteeSub] ''s'' [1] pubsub_init =
       Some (Inr st') \<and> ps_written st' = [(''6262'', [1])] \<and>
     CommConnHandler demo_bls id ''mychannel'' (\<lambda>_. Some demo_committee) (read_once 20000 [1]) (toy_node ''b'' Map.empty) = Inr w' \<and>
     cn_members w' = [wnode_of (demo_node ''a''), wnode_of (demo_node ''b'')] \<and> \<not> cn_leader w'"
proof -
  let ?W = "toy_wire demo_committee (ps_GMsg pubsub_init) (ps_GMsg pubsub_init)"
  have run: "(ms_step demo_bls id [''audit''])\<^sup>*\<^sup>* ms_init demo_published"
    using demo_run_late demo_run_published by (rule rtranclp_trans)
  have sent: "ms_sent demo_published = [demo_committee]"
    unfolding demo_committee_def demo_members [symmetric] by (simp add: demo_published_def)
  have m: "distinct [''audit'']" "demo_committee \<in> set (ms_sent demo_published)"
    "full_committee demo_committee \<or> ps_CMsg pubsub_init = no_committee"
    "cj_Marshal ?W demo_committee = Some [1]" "(\<lambda>_ :: bytes. Some demo_committee) [1] = Some demo_committee" "length [1 :: byte] \<le> 20000"
    "CommitteeMessage ?W demo_committee (Some []) 0 = Inr (Some [1])"
    "mset [PubsubSub, BlockSub, CommitteeSub] = mset handlers" "(\<lambda>_ :: string. True) ''6262''"
    "\<exists>shard \<in> set (cm_Shards demo_committee). cn_selfId (toy_node ''b'' (Map.empty :: string \<rightharpoonup> unit)) \<in> w_NodeID ` set (sh_Member shard)"
    "\<not> cn_isRunning (toy_node ''b'' (Map.empty :: string \<rightharpoonup> unit))"
    "\<forall>shard \<in> set (cm_Shards demo_committee). distinct (map (\<lambda>mem. SetBytes (Sum256 (w_Proof mem))) (sh_Member shard))"
    using demo_vrf by (simp_all add: sent demo_committee_def wnode_of_def demo_node_def pubsub_init_def no_committee_def toy_wire_def
      CommitteeMessage_def send_request_def handlers_def toy_node_def)
  from committee_delivered [where dial = "\<lambda>_. True" and unmarshal = "\<lambda>_. Some demo_committee", OF toy_wire_ok m(1) run m(2-12), of "''s''" id "''mychannel''"]
  show ?thesis by (auto simp: demo_committee_def pubsub_init_def) (auto simp: wnode_of_def demo_node_def)
qed

lemma junk_messages_witness:
  fixes m :: CommitteeMsg and g :: GossipMsg
  defines "W \<equiv> (toy_wire m g g)\<lparr>pb_Unmarshal := \<lambda>_. Some \<lparr>wr_Type = Request_SEND_MESSAGE, wr_SendMessage = None, wr_UpdatePeer = None\<rparr>\<rparr>"
  shows "on_message W (\<lambda>_. True) PubsubSub ''evil'' [9] pubsub_init = Some (Inl NilDeref)"
proof -
  have "pb_Unmarshal W [9] = Some \<lparr>wr_Type = Request_SEND_MESSAGE, wr_SendMessage = None, wr_UpdatePeer = None\<rparr>"
    by (simp add: W_def)
  from junk_messages [OF this, of "\<lambda>_. True" PubsubSub "''evil''" pubsub_init "[]" "[]"] show ?thesis by simp
qed

definition demo_gossip :: "(string \<rightharpoonup> u32) \<Rightarrow> HonestAuditor option list \<Rightarrow> GossipMsg" where
  "demo_gossip aborts as = \<lparr>gsp_Type = 2, gsp_Rndblk = Some (empty_audit\<lparr>am_CurHash := ''5e'', am_Aborttransactionnum := aborts,
     am_HonestAuditors := as\<rparr>), gsp_StartConsensusTime = 0\<rparr>"

lemma block_inherits_witness:
  "\<exists>st1 st2 g b. let W = toy_wire demo_committee (demo_gossip [''User1'' \<mapsto> 3] [Some \<lparr>hon_Id = ''x''\<rparr>]) (demo_gossip [''User2'' \<mapsto> 1] [])
     in deliver W (\<lambda>_. True) handlers ''l'' [2] pubsub_init = Some (Inr st1) \<and>
        deliver W (\<lambda>_. True) handlers ''l'' [3] st1 = Some (Inr st2) \<and>
        ps_written st2 = ps_written st1 @ [(''5252'', case gj_Marshal W g of None \<Rightarrow> [] | Some j \<Rightarrow> j)] \<and>
        gsp_Rndblk g = Some b \<and> am_Aborttransactionnum b ''User1'' = Some 3 \<and> am_HonestAuditors b = [Some \<lparr>hon_Id = ''x''\<rparr>]"
proof -
  let ?g1 = "demo_gossip [''User1'' \<mapsto> 3] [Some \<lparr>hon_Id = ''x''\<rparr>]" and ?g2 = "demo_gossip [''User2'' \<mapsto> 1] []"
  have ne: "?g1 \<noteq> ?g2" by (simp add: demo_gossip_def empty_audit_def)
  have "WDNMessage (toy_wire demo_committee ?g1 ?g2) ?g1 (Some []) 0 = Inr (Some [2])"
    "WDNMessage (toy_wire demo_committee ?g1 ?g2) ?g2 (Some []) 0 = Inr (Some [3])"
    using ne by (auto simp: WDNMessage_def send_request_def toy_wire_def)
  moreover have "named_auditors ?g1" "named_auditors ?g2" by (simp_all add: named_auditors_def demo_gossip_def)
  moreover have "gsp_Rndblk ?g1 = Some (empty_audit\<lparr>am_CurHash := ''5e'', am_Aborttransactionnum := [''User1'' \<mapsto> 3],
       am_HonestAuditors := [Some \<lparr>hon_Id = ''x''\<rparr>]\<rparr>)"
    "gsp_Rndblk ?g2 = Some (empty_audit\<lparr>am_CurHash := ''5e'', am_Aborttransactionnum := [''User2'' \<mapsto> 1], am_HonestAuditors := []\<rparr>)"
    "gsp_Type ?g1 = 2" "gsp_Type ?g2 = 2" by (simp_all add: demo_gossip_def)
  ultimately obtain st1 st2 g b where "deliver (toy_wire demo_committee ?g1 ?g2) (\<lambda>_. True) handlers ''l'' [2] pubsub_init = Some (Inr st1)"
    "deliver (toy_wire demo_committee ?g1 ?g2) (\<lambda>_. True) handlers ''l'' [3] st1 = Some (Inr st2)"
    "ps_written st2 = ps_written st1 @ [(''5252'', case gj_Marshal (toy_wire demo_committee ?g1 ?g2) g of None \<Rightarrow> [] | Some j \<Rightarrow> j)]"
    "gsp_Rndblk g = Some b" "am_Aborttransactionnum b ''User1'' = Some 3" "am_HonestAuditors b = [Some \<lparr>hon_Id = ''x''\<rparr>]"
    using block_inherits [where dial = "\<lambda>_. True" and W = "toy_wire demo_committee ?g1 ?g2" and ?g1.0 = ?g1 and ?g2.0 = ?g2 and
        ?i1.0 = "Some []" and ?t1.0 = 0 and ?d1.0 = "[2]" and ?i2.0 = "Some []" and ?t2.0 = 0 and ?d2.0 = "[3]" and
        ?subs1.0 = handlers and ?subs2.0 = handlers and ?sender1.0 = "''l''" and ?sender2.0 = "''l''" and st = pubsub_init, OF toy_wire_ok]
    by fastforce
  then show ?thesis unfolding Let_def by blast
qed

lemma block_ends_round_witness:
  "\<exists>nodes. BloConnHandler \<lparr>ll_InsertOne = \<lambda>d l. Some (l @ [d]), ll_FindOne = \<lambda>_. NoDocuments, ll_docs = id\<rparr>
       (\<lambda>j. if j = [7] then Some (demo_gossip Map.empty []) else None) (toy_keys 1) 0 (read_once 8192 [7]) (toy_node ''a'' Map.empty) [] =
       Inr ([blk_of (the (gsp_Rndblk (demo_gossip Map.empty [])))], Some nodes) \<and> map n_NodeID nodes = [''a'']"
proof -
  have b: "gsp_Rndblk (demo_gossip Map.empty []) = Some (the (gsp_Rndblk (demo_gossip Map.empty [])))" by (simp add: demo_gossip_def)
  have "(if [7] = [7 :: byte] then Some (demo_gossip Map.empty []) else None) = Some (demo_gossip Map.empty [])"
    "cn_addresses (toy_node ''a'' Map.empty) \<noteq> []" "[7 :: byte] \<noteq> []" "length [7 :: byte] \<le> 8192"
    "\<forall>n < length [7 :: byte]. (if take n [7] = [7 :: byte] then Some (demo_gossip Map.empty []) else None) = None"
    by (simp_all add: toy_node_def)
  from block_ends_round [where unmarshal = "\<lambda>j. if j = [7] then Some (demo_gossip Map.empty []) else None", OF this(1) b this(2,3,5),
      THEN conjunct1, THEN mp, OF this(4), of "\<lparr>ll_InsertOne = \<lambda>d l. Some (l @ [d]), ll_FindOne = \<lambda>_. NoDocuments, ll_docs = id\<rparr>" "toy_keys 1" 0 "[]"]
  show ?thesis by simp
qed

text \<open>A round of a leader with one other member, who votes in the second phase only.\<close>

definition toy_leader :: "byte CONSENSUSNODE" where
  "toy_leader = (toy_node ''a'' Map.empty)\<lparr>cn_members := [wnode_of (demo_node ''a''), wnode_of (demo_node ''b'')]\<rparr>"

definition toy_vote :: "string \<Rightarrow> string \<Rightarrow> AuditMsg" where
  "toy_vote prev cur = empty_audit\<lparr>am_PrevHash := prev, am_CurHash := cur, am_BlkNum := 9, am_PhaseNum := AuditMsg_AGGREGATED_COMMIT\<rparr>"

lemma toy_quorum: "quorum_of toy_leader = Some 1"
  by (simp add: quorum_of_def toy_leader_def)

lemma toy_votes: "votes_in_time toy_bls AuditMsg_AGGREGATED_COMMIT [Vote (Some (toy_vote prev cur))] = [([], toy_vote prev cur)]"
  by (simp add: toy_vote_def toy_bls_def empty_audit_def)

lemma toy_round:
  "\<exists>w'. bftConsensus toy_json toy_bls (toy_keys 1) toy_net tiny_config id h Map.empty [Timeout] [Vote (Some (toy_vote prev cur))]
     toy_leader = Some (Inr w')"
proof -
  obtain w1 where b: "bft_begin toy_json (toy_keys 1) toy_net tiny_config h Map.empty toy_leader = Inr (True, w1)"
    using toy_begin [of h "[wnode_of (demo_node ''a''), wnode_of (demo_node ''b'')]"] unfolding toy_leader_def by blast
  have "ctrl_wf (cn_pu toy_leader)" using CreatePuCtrl_wf by (simp add: toy_leader_def toy_node_def)
  from bft_begin_effect [OF this b] obtain pu where w1: "w1 = toy_leader\<lparr>cn_auditMsg := first_message toy_json (toy_keys 1) h Map.empty toy_leader,
      cn_pu := pu\<rparr>" "ctrl_wf pu" by blast
  then obtain pu' where s: "MP2BTPSubmit toy_json True w1 = Inr (w1\<lparr>cn_pu := pu'\<rparr>)"
    using MP2BTPSubmit_effect [of w1 True toy_json] by auto
  have q: "quorum_of (w1\<lparr>cn_pu := pu'\<rparr>) = Some 1" by (simp add: w1 quorum_of_def toy_leader_def)
  have t: "AuditMsg_AGGREGATED_COMMIT \<noteq> AuditMsg_PHASE_UNSPECIFIED"
    by (simp add: AuditMsg_AGGREGATED_COMMIT_def AuditMsg_PHASE_UNSPECIFIED_def)
  have "length [] < (1 :: nat)" "1 \<le> length [] + length (votes_in_time toy_bls AuditMsg_AGGREGATED_COMMIT [Vote (Some (toy_vote prev cur))])"
    unfolding toy_votes by simp_all
  from waitForVotes_votes [OF t _ this, of "[]" "toy_keys 1" id "w1\<lparr>cn_pu := pu'\<rparr>"] obtain w2 where
    "wait_phase toy_bls (toy_keys 1) id AuditMsg_AGGREGATED_COMMIT [Vote (Some (toy_vote prev cur))] (w1\<lparr>cn_pu := pu'\<rparr>) = Some (True, w2)"
    unfolding wait_phase_def q by (auto simp: Let_def)
  then show ?thesis unfolding bftConsensus_def b by (simp add: wait_phase_def [of _ _ _ AuditMsg_AGGREGATED_PREPARE] s) (simp add: bft_end_def Let_def)
qed

lemma last_vote_writes_block_witness:
  "\<exists>w' b. bftConsensus toy_json toy_bls (toy_keys 1) toy_net tiny_config id (Some ''00'') Map.empty [Timeout]
       [Vote (Some (toy_vote ''bad'' ''worse''))] toy_leader = Some (Inr w') \<and>
     gsp_Rndblk (last (cn_gossip w')) = Some b \<and> am_PrevHash b = ''bad'' \<and> am_CurHash b = ''worse'' \<and> am_BlkNum b = 9"
proof -
  obtain w' where w': "bftConsensus toy_json toy_bls (toy_keys 1) toy_net tiny_config id (Some ''00'') Map.empty [Timeout]
       [Vote (Some (toy_vote ''bad'' ''worse''))] toy_leader = Some (Inr w')" using toy_round by blast
  have "1 \<le> length (votes_in_time toy_bls AuditMsg_AGGREGATED_COMMIT [Vote (Some (toy_vote ''bad'' ''worse''))])" unfolding toy_votes by simp
  from last_vote_writes_block [OF w' toy_quorum zero_less_one this, unfolded toy_votes] w' show ?thesis
    by (auto simp: Let_def) (auto simp: toy_vote_def)
qed

end
