(* ===== verification/Ledgers.thy ===== *)
theory Ledgers
  imports Gossip_Props
begin

text \<open>
  The ledgers of the w-nodes of a network: every node has a MongoDB of its own. A leader reads the hash of the block
  before from its own ledger (\<open>GetPrevBlockHash\<close>, at the start of \<open>bftConsensus\<close>) and publishes its block; at each node
  the block then waits to be inserted, on the way there or with the goroutine that runs \<open>lg.BlkInsert\<close>
  (\<open>BloConnHandler\<close> starts it with \<open>go\<close>), and the nodes insert in any order. Nothing in the code makes a leader wait for an
  insertion before its next round; what follows says what holds when none is outstanding, and what happens
  otherwise.
\<close>

section \<open>Chains\<close>

definition ledger_ok :: "'l ledger_lib \<Rightarrow> bool" where
  "ledger_ok L \<longleftrightarrow> (\<forall>d l l'. ll_InsertOne L d l = Some l' \<longrightarrow> ll_docs L l' = ll_docs L l @ [d]) \<and>
     (\<forall>l. ll_FindOne L l = (if ll_docs L l = [] then NoDocuments else Found (bd_CurHash (last (ll_docs L l)))))"

abbreviation first_hash :: string where
  "first_hash \<equiv> replicate 64 CHR ''0''"

text \<open>A ledger by the hashes of its blocks: of the block before, and its own.\<close>

definition hashes :: "'l ledger_lib \<Rightarrow> 'l \<Rightarrow> (string \<times> string) list" where
  "hashes L l = map (\<lambda>d. (bd_PrevHash d, bd_CurHash d)) (ll_docs L l)"

fun chained :: "string \<Rightarrow> (string \<times> string) list \<Rightarrow> bool" where
  "chained h [] = True"
| "chained h ((prev, cur) # bs) = (prev = h \<and> chained cur bs)"

definition last_hash :: "(string \<times> string) list \<Rightarrow> string" where
  "last_hash bs = (if bs = [] then first_hash else snd (last bs))"

lemma chained_append: "chained h (bs @ [b]) \<longleftrightarrow> chained h bs \<and> fst b = (if bs = [] then h else snd (last bs))"
proof (induction bs arbitrary: h)
  case Nil
  show ?case by (cases b) simp
next
  case (Cons x bs)
  then show ?case by (cases x) simp
qed

lemma chained_snoc: "chained first_hash (bs @ [b]) \<longleftrightarrow> chained first_hash bs \<and> fst b = last_hash bs"
  by (simp add: chained_append last_hash_def)

lemma chained_butlast: "chained first_hash bs \<Longrightarrow> chained first_hash (butlast bs)"
  by (cases bs rule: rev_cases) (simp_all add: chained_snoc)

lemma prev_hash: "ledger_ok L \<Longrightarrow> GetPrevBlockHash L l = Some (last_hash (hashes L l))"
  by (simp add: ledger_ok_def GetPrevBlockHash_def last_hash_def hashes_def last_map)

lemma BlkInsert_hashes:
  assumes "ledger_ok L" "\<And>d l. ll_InsertOne L d l \<noteq> None" "BlkInsert L (Some m) l = Inr l'"
  shows "hashes L l' = hashes L l @ [(am_PrevHash m, am_CurHash m)]"
proof -
  obtain l1 where i: "ll_InsertOne L (blk_of m) l = Some l1" using assms(2) by blast
  then have "ll_docs L l1 = ll_docs L l @ [blk_of m]" using assms(1) unfolding ledger_ok_def by blast
  with i show ?thesis using assms(3) by (auto simp: BlkInsert_def hashes_def blk_of_def)
qed

section \<open>A network of ledgers\<close>

text \<open>The nodes are numbered; \<open>nt_waiting\<close> has the blocks that a node has yet to insert.\<close>

record 'l network =
  nt_ledger :: "nat \<Rightarrow> 'l"
  nt_waiting :: "(nat \<times> AuditMsg) list"

text \<open>Some node leads a round on the hash that it finds in its own ledger, and publishes a block. The votes that it counts
  echo that hash; the text that a node receives has the hashes of the block.\<close>

inductive starts_round :: "('pk, 'sg) bls_lib \<Rightarrow> 'l ledger_lib \<Rightarrow> nat list \<Rightarrow> 'l network \<Rightarrow> 'l network \<Rightarrow> bool"
  for B L nodes where
  "i \<in> set nodes \<Longrightarrow>
   bftConsensus J B K N C ord (GetPrevBlockHash L (nt_ledger s i)) userCount prepares commits w = Some (Inr w') \<Longrightarrow>
   (\<And>v. Vote (Some v) \<in> set (prepares @ commits) \<Longrightarrow> GetPrevBlockHash L (nt_ledger s i) = Some (am_PrevHash v)) \<Longrightarrow>
   cn_gossip w' = sent @ [g] \<Longrightarrow> gsp_Rndblk g = Some b \<Longrightarrow>
   (\<And>j. am_PrevHash (m j) = am_PrevHash b \<and> am_CurHash (m j) = am_CurHash b) \<Longrightarrow>
   starts_round B L nodes s (s\<lparr>nt_waiting := nt_waiting s @ map (\<lambda>j. (j, m j)) nodes\<rparr>)"

text \<open>A block that waits is inserted, whichever gets its turn.\<close>

inductive inserts :: "'l ledger_lib \<Rightarrow> 'l network \<Rightarrow> 'l network \<Rightarrow> bool" for L where
  "nt_waiting s = ws @ (j, m) # us \<Longrightarrow> BlkInsert L (Some m) (nt_ledger s j) = Inr l \<Longrightarrow>
   inserts L s (s\<lparr>nt_ledger := (nt_ledger s)(j := l), nt_waiting := ws @ us\<rparr>)"

definition net_step :: "('pk, 'sg) bls_lib \<Rightarrow> 'l ledger_lib \<Rightarrow> nat list \<Rightarrow> 'l network \<Rightarrow> 'l network \<Rightarrow> bool" where
  "net_step B L nodes s t \<longleftrightarrow> starts_round B L nodes s t \<or> inserts L s t"

text \<open>The steps of a network in which a round only starts when no node has a block to insert.\<close>

definition paced_step :: "('pk, 'sg) bls_lib \<Rightarrow> 'l ledger_lib \<Rightarrow> nat list \<Rightarrow> 'l network \<Rightarrow> 'l network \<Rightarrow> bool" where
  "paced_step B L nodes s t \<longleftrightarrow> nt_waiting s = [] \<and> starts_round B L nodes s t \<or> inserts L s t"

lemma starts_roundE:
  assumes "starts_round B L nodes s t" "ledger_ok L"
  obtains i c m where "i \<in> set nodes"
    "\<And>j. (am_PrevHash (m j), am_CurHash (m j)) = (last_hash (hashes L (nt_ledger s i)), c)"
    "t = s\<lparr>nt_waiting := nt_waiting s @ map (\<lambda>j. (j, m j)) nodes\<rparr>"
  using assms(1)
proof cases
  case (1 i J K N C ord userCount prepares commits w w' sent g b m)
  let ?h = "last_hash (hashes L (nt_ledger s i))"
  note h = prev_hash [OF assms(2), of "nt_ledger s i"]
  from bftConsensus_parts [OF 1(3)] obtain pu1 ok1 w2 pu2 ok2 w4 where
    p: "wait_phase B K ord AuditMsg_AGGREGATED_PREPARE prepares
       (w\<lparr>cn_auditMsg := first_message J K (GetPrevBlockHash L (nt_ledger s i)) userCount w, cn_pu := pu1\<rparr>) = Some (ok1, w2)"
    and c: "wait_phase B K ord AuditMsg_AGGREGATED_COMMIT commits (w2\<lparr>cn_pu := pu2\<rparr>) = Some (ok2, w4)"
    and g: "cn_gossip w' = cn_gossip w @ [\<lparr>gsp_Type = 2,
       gsp_Rndblk = Some ((cn_auditMsg w4)\<lparr>am_MerkleRootHash := ''abcdefghijklnmop''\<rparr>),
       gsp_StartConsensusTime = cn_startConsensusTime w\<rparr>]" by blast
  have echo: "am_PrevHash v = ?h" if "Vote (Some v) \<in> set prepares \<or> Vote (Some v) \<in> set commits" for v
    using 1(4) [of v] that h by auto
  have "am_PrevHash (cn_auditMsg w2) = ?h"
    using wait_phase_keeps [OF p] echo by (auto simp: keeps_def first_message_fields h)
  then have "am_PrevHash (cn_auditMsg w4) = ?h" using wait_phase_keeps [OF c] echo by (auto simp: keeps_def)
  then have "am_PrevHash b = ?h" using g 1(5,6) by auto
  then show thesis using 1(1,2,7) by (intro that [of i m "am_CurHash b"]) simp_all
qed

section \<open>Paced rounds\<close>

text \<open>All ledgers have the same chain of hashes, but for its last block at the nodes where that one waits.\<close>

definition net_inv :: "'l ledger_lib \<Rightarrow> nat list \<Rightarrow> 'l network \<Rightarrow> bool" where
  "net_inv L nodes s \<longleftrightarrow> distinct (map fst (nt_waiting s)) \<and>
     (\<exists>hs. chained first_hash hs \<and>
       (\<forall>j \<in> set nodes. hashes L (nt_ledger s j) = (if j \<in> fst ` set (nt_waiting s) then butlast hs else hs)) \<and>
       (\<forall>(j, m) \<in> set (nt_waiting s). j \<in> set nodes \<and> hs \<noteq> [] \<and> (am_PrevHash m, am_CurHash m) = last hs))"

definition network_ok :: "'l ledger_lib \<Rightarrow> nat list \<Rightarrow> bool" where
  "network_ok L nodes \<longleftrightarrow> ledger_ok L \<and> (\<forall>d l. ll_InsertOne L d l \<noteq> None) \<and> distinct nodes"

lemma net_inv_start:
  assumes "network_ok L nodes" "net_inv L nodes s" "nt_waiting s = []" "starts_round B L nodes s t"
  shows "net_inv L nodes t"
proof -
  have L: "ledger_ok L" "distinct nodes" using assms(1) by (simp_all add: network_ok_def)
  obtain hs where hs: "chained first_hash hs" "\<And>j. j \<in> set nodes \<Longrightarrow> hashes L (nt_ledger s j) = hs"
    using assms(2,3) by (auto simp: net_inv_def)
  from starts_roundE [OF assms(4) L(1)] obtain i c m where r: "i \<in> set nodes"
    "\<And>j. (am_PrevHash (m j), am_CurHash (m j)) = (last_hash (hashes L (nt_ledger s i)), c)"
    "t = s\<lparr>nt_waiting := nt_waiting s @ map (\<lambda>j. (j, m j)) nodes\<rparr>" by blast
  have "fst ` (\<lambda>j. (j, m j)) ` set nodes = set nodes" by (simp add: image_image)
  moreover have "chained first_hash (hs @ [(last_hash hs, c)])" using hs(1) by (simp add: chained_snoc)
  ultimately show ?thesis using L(2) hs(2) r(2) unfolding net_inv_def r(3)
    by (intro conjI exI [of _ "hs @ [(last_hash hs, c)]"]) (auto simp: assms(3) comp_def hs(2) [OF r(1)])
qed

lemma net_inv_insert:
  assumes "network_ok L nodes" "net_inv L nodes s" "inserts L s t"
  shows "net_inv L nodes t"
  using assms(3)
proof cases
  case (1 ws j m us l)
  from assms(2) obtain hs where d: "distinct (map fst (nt_waiting s))" and hs: "chained first_hash hs"
    "\<And>k. k \<in> set nodes \<Longrightarrow> hashes L (nt_ledger s k) = (if k \<in> fst ` set (nt_waiting s) then butlast hs else hs)"
    "\<And>k x. (k, x) \<in> set (nt_waiting s) \<Longrightarrow> k \<in> set nodes \<and> hs \<noteq> [] \<and> (am_PrevHash x, am_CurHash x) = last hs"
    unfolding net_inv_def by blast
  have j: "j \<in> set nodes" "hs \<noteq> []" "(am_PrevHash m, am_CurHash m) = last hs" using hs(3) [of j m] 1(2) by auto
  have "hashes L l = hashes L (nt_ledger s j) @ [(am_PrevHash m, am_CurHash m)]"
    using assms(1) BlkInsert_hashes [OF _ _ 1(3)] by (simp add: network_ok_def)
  also have "\<dots> = hs" using hs(2) [OF j(1)] j(2,3) 1(2) by simp
  finally have l: "hashes L l = hs" .
  show ?thesis unfolding net_inv_def 1(1)
  proof (intro conjI exI [of _ hs])
    show "\<forall>k \<in> set nodes. hashes L (nt_ledger (s\<lparr>nt_ledger := (nt_ledger s)(j := l), nt_waiting := ws @ us\<rparr>) k) =
        (if k \<in> fst ` set (nt_waiting (s\<lparr>nt_ledger := (nt_ledger s)(j := l), nt_waiting := ws @ us\<rparr>)) then butlast hs else hs)"
      using hs(2) d l by (auto simp: 1(2) image_Un)
  qed (use d hs(1,3) 1(2) in auto)
qed

interpretation paced: machine "paced_step B L nodes" "\<lambda>s. network_ok L nodes \<and> net_inv L nodes s" for B L nodes
  by unfold_locales (auto simp: paced_step_def intro: net_inv_start net_inv_insert)

text \<open>
  C16: The ledgers are one chain, when rounds are paced: every node has a ledger of its own, any node leads a round on the hash that it finds
  in its own, and the nodes insert the published blocks in any order. Suppose that a round only starts when every node
  has inserted the block of the round before (which the code does not ensure), that every published block reaches every node
  and every insertion succeeds, and that the votes which leaders count echo the hash of the block before. Then, after any number of
  rounds, each block of each ledger carries the hash of its predecessor there, and the first one 64 zeros, whoever led
  and however the phases ended; and the ledgers in which no insertion is outstanding agree in all their hashes.
\<close>

theorem ledger_chained:
  assumes "ledger_ok L" and "\<forall>d l. ll_InsertOne L d l \<noteq> None" and "distinct nodes"
    and "\<forall>j \<in> set nodes. ll_docs L (nt_ledger s0 j) = []" and "nt_waiting s0 = []" and "(paced_step B L nodes)\<^sup>*\<^sup>* s0 s"
  shows "(\<forall>j \<in> set nodes. chained (replicate 64 CHR ''0'') (hashes L (nt_ledger s j))) \<and>
    (\<forall>i \<in> set nodes. \<forall>j \<in> set nodes. i \<notin> fst ` set (nt_waiting s) \<longrightarrow> j \<notin> fst ` set (nt_waiting s) \<longrightarrow>
       hashes L (nt_ledger s i) = hashes L (nt_ledger s j))"
proof -
  have "net_inv L nodes s0" using assms(4,5) by (auto simp: net_inv_def hashes_def intro!: exI [of _ "[]"])
  then have "net_inv L nodes s" using paced.inv_steps [OF assms(6)] assms(1-3) by (simp add: network_ok_def)
  then obtain hs where hs: "chained first_hash hs"
    "\<And>j. j \<in> set nodes \<Longrightarrow> hashes L (nt_ledger s j) = (if j \<in> fst ` set (nt_waiting s) then butlast hs else hs)"
    unfolding net_inv_def by blast
  have "chained first_hash (hashes L (nt_ledger s j))" if "j \<in> set nodes" for j
    using hs(1) chained_butlast [OF hs(1)] unfolding hs(2) [OF that] by simp
  moreover have "hashes L (nt_ledger s i) = hs" if "i \<in> set nodes" "i \<notin> fst ` set (nt_waiting s)" for i
    unfolding hs(2) [OF that(1)] using that(2) by (rule if_not_P)
  ultimately show ?thesis by blast
qed

section \<open>A round that starts too early\<close>

text \<open>A leader that starts its next round before its own ledger has the block of the last one publishes two blocks on
  the same predecessor: wherever both are inserted, in whatever order, the ledger is no chain.\<close>

lemma early_round_forks:
  assumes "ledger_ok L" "\<And>d l. ll_InsertOne L d l \<noteq> None" "am_PrevHash a = am_PrevHash b"
    and "am_CurHash a \<noteq> am_PrevHash a" "am_CurHash b \<noteq> am_PrevHash b"
    and "BlkInsert L (Some a) l = Inr l1" "BlkInsert L (Some b) l1 = Inr l2"
  shows "\<not> chained h (hashes L l2)"
  using assms(3-5) chained_append [of h "hashes L l @ [(am_PrevHash a, am_CurHash a)]" "(am_PrevHash b, am_CurHash b)"]
  by (auto simp: BlkInsert_hashes [OF assms(1,2,7)] BlkInsert_hashes [OF assms(1,2,6)])

section \<open>Witnesses\<close>

definition toy_ledger :: "blk_doc list ledger_lib" where
  "toy_ledger = \<lparr>ll_InsertOne = \<lambda>d l. Some (l @ [d]),
     ll_FindOne = \<lambda>l. if l = [] then NoDocuments else Found (bd_CurHash (last l)), ll_docs = id\<rparr>"

lemma toy_ledger_ok: "ledger_ok toy_ledger" "\<forall>d l. ll_InsertOne toy_ledger d l \<noteq> None"
  by (simp_all add: ledger_ok_def toy_ledger_def)

lemma toy_insert: "BlkInsert toy_ledger (Some b) l = Inr (l @ [blk_of b])"
  by (simp add: BlkInsert_def toy_ledger_def)

definition toy_net0 :: "blk_doc list network" where
  "toy_net0 = \<lparr>nt_ledger = \<lambda>_. [], nt_waiting = []\<rparr>"

text \<open>Node 0 leads a round on its empty ledger; whatever else waits, its block comes to wait at both nodes.\<close>

lemma toy_starts:
  "\<exists>b. am_PrevHash b = first_hash \<and> am_CurHash b = ''5e'' \<and>
     (\<forall>ws. starts_round toy_bls toy_ledger [0, 1] \<lparr>nt_ledger = \<lambda>_. [], nt_waiting = ws\<rparr>
        \<lparr>nt_ledger = \<lambda>_. [], nt_waiting = ws @ [(0, b), (1, b)]\<rparr>)"
proof -
  let ?v = "Vote (Some (toy_vote first_hash ''5e''))"
  have h: "GetPrevBlockHash toy_ledger [] = Some first_hash" by (simp add: GetPrevBlockHash_def toy_ledger_def)
  obtain w' where w': "bftConsensus toy_json toy_bls (toy_keys 1) toy_net tiny_config id (GetPrevBlockHash toy_ledger []) Map.empty [Timeout]
       [?v] toy_leader = Some (Inr w')" using toy_round by blast
  have "1 \<le> length (votes_in_time toy_bls AuditMsg_AGGREGATED_COMMIT [?v])" unfolding toy_votes by simp
  from committed_block [OF w' toy_quorum zero_less_one this, unfolded toy_votes] obtain b where
    b: "cn_gossip w' = cn_gossip toy_leader @ [\<lparr>gsp_Type = 2, gsp_Rndblk = Some b,
       gsp_StartConsensusTime = cn_startConsensusTime toy_leader\<rparr>]" "am_PrevHash b = first_hash" "am_CurHash b = ''5e''"
    by (auto simp: Let_def toy_vote_def)
  have "starts_round toy_bls toy_ledger [0, 1] \<lparr>nt_ledger = \<lambda>_. [], nt_waiting = ws\<rparr>
      \<lparr>nt_ledger = \<lambda>_. [], nt_waiting = ws @ [(0, b), (1, b)]\<rparr>" for ws
    using starts_round.intros [where i = 0 and nodes = "[0, 1]" and s = "\<lparr>nt_ledger = \<lambda>_. [], nt_waiting = ws\<rparr>" and m = "\<lambda>_. b",
        simplified, OF w' _ b(1)]
    by (simp add: h toy_vote_def)
  with b show ?thesis by blast
qed

text \<open>Both nodes insert what waits, node 1 first.\<close>

theorem ledger_chained_witness:
  "\<exists>s. (paced_step toy_bls toy_ledger [0, 1])\<^sup>*\<^sup>* toy_net0 s \<and> nt_waiting s = [] \<and> length (hashes toy_ledger (nt_ledger s 1)) = 1 \<and>
     chained (replicate 64 CHR ''0'') (hashes toy_ledger (nt_ledger s 1)) \<and>
     hashes toy_ledger (nt_ledger s 0) = hashes toy_ledger (nt_ledger s 1)"
proof -
  from toy_starts obtain b where b: "\<And>ws. starts_round toy_bls toy_ledger [0, 1] \<lparr>nt_ledger = \<lambda>_. [], nt_waiting = ws\<rparr>
        \<lparr>nt_ledger = \<lambda>_. [], nt_waiting = ws @ [(0, b), (1, b)]\<rparr>" by blast
  let ?s1 = "\<lparr>nt_ledger = \<lambda>_. [], nt_waiting = [(0, b), (1, b)]\<rparr> :: blk_doc list network"
  let ?s2 = "\<lparr>nt_ledger = (\<lambda>_. [])(1 := [blk_of b]), nt_waiting = [(0, b)]\<rparr> :: blk_doc list network"
  let ?s3 = "\<lparr>nt_ledger = (\<lambda>_. [])(1 := [blk_of b], 0 := [blk_of b]), nt_waiting = []\<rparr> :: blk_doc list network"
  have "paced_step toy_bls toy_ledger [0, 1] toy_net0 ?s1" using b [of "[]"] by (simp add: paced_step_def toy_net0_def)
  moreover have "paced_step toy_bls toy_ledger [0, 1] ?s1 ?s2"
    using inserts.intros [of ?s1 "[(0, b)]" 1 b "[]" toy_ledger "[blk_of b]"] by (simp add: paced_step_def toy_insert)
  moreover have "paced_step toy_bls toy_ledger [0, 1] ?s2 ?s3"
    using inserts.intros [of ?s2 "[]" 0 b "[]" toy_ledger "[blk_of b]"] by (simp add: paced_step_def toy_insert)
  ultimately have run: "(paced_step toy_bls toy_ledger [0, 1])\<^sup>*\<^sup>* toy_net0 ?s3"
    by (meson rtranclp.rtrancl_into_rtrancl rtranclp.rtrancl_refl)
  have "distinct [0, 1 :: nat]" "\<forall>j \<in> set [0, 1]. ll_docs toy_ledger (nt_ledger toy_net0 j) = []" "nt_waiting toy_net0 = []"
    by (simp_all add: toy_net0_def toy_ledger_def)
  from ledger_chained [OF toy_ledger_ok this run] run show ?thesis
    by (intro exI [of _ ?s3]) (simp add: hashes_def toy_ledger_def)
qed

text \<open>The next batch comes in before the block of the first is inserted: a run of the network to a ledger that is no chain.\<close>

lemma forked_run:
  "\<exists>s. (net_step toy_bls toy_ledger [0, 1])\<^sup>*\<^sup>* toy_net0 s \<and> \<not> chained (replicate 64 CHR ''0'') (hashes toy_ledger (nt_ledger s 0))"
proof -
  from toy_starts obtain b where b: "am_PrevHash b = first_hash" "am_CurHash b = ''5e''"
    "\<And>ws. starts_round toy_bls toy_ledger [0, 1] \<lparr>nt_ledger = \<lambda>_. [], nt_waiting = ws\<rparr>
        \<lparr>nt_ledger = \<lambda>_. [], nt_waiting = ws @ [(0, b), (1, b)]\<rparr>" by blast
  let ?s1 = "\<lparr>nt_ledger = \<lambda>_. [], nt_waiting = [(0, b), (1, b)]\<rparr> :: blk_doc list network"
  let ?s2 = "\<lparr>nt_ledger = \<lambda>_. [], nt_waiting = [(0, b), (1, b), (0, b), (1, b)]\<rparr> :: blk_doc list network"
  let ?s3 = "\<lparr>nt_ledger = (\<lambda>_. [])(0 := [blk_of b]), nt_waiting = [(1, b), (0, b), (1, b)]\<rparr> :: blk_doc list network"
  let ?s4 = "\<lparr>nt_ledger = (\<lambda>_. [])(0 := [blk_of b, blk_of b]), nt_waiting = [(1, b), (1, b)]\<rparr> :: blk_doc list network"
  let ?S = "net_step toy_bls toy_ledger [0, 1]"
  have "?S toy_net0 ?s1" using b(3) [of "[]"] by (simp add: net_step_def toy_net0_def)
  moreover have "?S ?s1 ?s2" using b(3) [of "[(0, b), (1, b)]"] by (simp add: net_step_def)
  moreover have "?S ?s2 ?s3"
    using inserts.intros [of ?s2 "[]" 0 b "[(1, b), (0, b), (1, b)]" toy_ledger "[blk_of b]"] by (simp add: net_step_def toy_insert)
  moreover have "?S ?s3 ?s4"
    using inserts.intros [of ?s3 "[(1, b)]" 0 b "[(1, b)]" toy_ledger "[blk_of b, blk_of b]"] by (simp add: net_step_def toy_insert)
  ultimately have run: "?S\<^sup>*\<^sup>* toy_net0 ?s4" by (meson rtranclp.rtrancl_into_rtrancl rtranclp.rtrancl_refl)
  have hash: "''5e'' \<noteq> first_hash" by (auto dest: arg_cong [where f = length])
  have "\<not> chained first_hash (hashes toy_ledger [blk_of b, blk_of b])"
    using early_round_forks [OF toy_ledger_ok(1), of b b "[]", OF _ refl, unfolded b(1,2), OF _ _ _ toy_insert toy_insert]
      toy_ledger_ok(2) hash by simp
  with run show ?thesis by (intro exI [of _ ?s4]) simp
qed

end
