(* ===== verification/Quic_Round.thy ===== *)
theory Quic_Round
  imports Consensus
begin

text \<open>
  The w-node over plain QUIC: \<open>w-node/transceiver/node/main.go\<close>. It keeps the state of the other w-node,
  without the push/pull controller and with one address, and shares its text for committees, aggregation,
  answers and the counting of aborts, which are modelled in \<open>Consensus\<close>. It differs in that the leader sends
  each member, itself included, the message over a stream of its own and reads the answer from it, and
  in that a member does check the aggregated signature. \<open>Addr\<close>, a field that the file reads and the message
  does not have, is an argument, as is the network: what the node behind an address answers on a stream,
  or nothing when no stream can be opened. The key list that the goroutines of a node share is written
  once for each message and not read elsewhere.
\<close>

section \<open>Streams\<close>

text \<open>The JSON encoder and decoder: a decoder takes the first value off a stream, and gives nothing on an
  error or at the end.\<close>

record stream_lib =
  st_Encode :: "AuditMsg \<Rightarrow> bytes option"
  st_Decode :: "bytes \<Rightarrow> (AuditMsg \<times> bytes) option"

definition gossipMsgPort :: string where "gossipMsgPort = '':4242''"

section \<open>Answering the leader\<close>

definition verifying_quic ::
    "('pk, 'sg) bls_lib \<Rightarrow> ('pk, 'sg) bls_keys \<Rightarrow> AuditMsg \<Rightarrow> 'pk CONSENSUSNODE \<Rightarrow> (bool \<times> 'pk CONSENSUSNODE) go" where
  "verifying_quic B K cMsg w =
     go_bind (collect_keys K (cn_publicKeyMap w) (am_HonestAuditors cMsg) []) (\<lambda>pubVec.
       let w = w\<lparr>cn_pubVec := pubVec\<rparr>
       in case sg_Deserialize B (am_Signature cMsg) of
            None \<Rightarrow> Inr (False, w)
          | Some decSign \<Rightarrow>
              Inr (am_PhaseNum cMsg = AuditMsg_COMMIT \<and>
                   FastAggregateVerify B decSign pubVec (string_bytes (am_CurHash cMsg)), w))"

text \<open>What is written on the stream: nothing when the answer cannot be encoded.\<close>

definition sendResponse :: "stream_lib \<Rightarrow> ('pk, 'sg) bls_keys \<Rightarrow> int \<Rightarrow> AuditMsg \<Rightarrow> 'pk CONSENSUSNODE \<Rightarrow> bytes" where
  "sendResponse L K targetPhase cMsg w =
     (case st_Encode L (response K targetPhase cMsg (cn_selfId w)) of None \<Rightarrow> [] | Some out \<Rightarrow> out)"

text \<open>The loop over the messages of a stream, with what it answers. A message of another phase is passed over.\<close>

partial_function (option) StreamHandler ::
    "stream_lib \<Rightarrow> ('pk, 'sg) bls_lib \<Rightarrow> ('pk, 'sg) bls_keys \<Rightarrow> bytes \<Rightarrow> 'pk CONSENSUSNODE \<Rightarrow>
     (bytes \<times> 'pk CONSENSUSNODE) go option" where
  "StreamHandler L B K stream w =
     (case st_Decode L stream of
        None \<Rightarrow> Some (Inr ([], w))
      | Some (msg, rest) \<Rightarrow>
          if am_PhaseNum msg = AuditMsg_PREPARE
          then Some (Inr (sendResponse L K AuditMsg_AGGREGATED_PREPARE msg w, w))
          else if am_PhaseNum msg = AuditMsg_COMMIT
          then Some (go_bind (verifying_quic B K msg w) (\<lambda>(ok, w).
                 Inr (sendResponse L K (if ok then AuditMsg_AGGREGATED_COMMIT else AuditMsg_PHASE_UNSPECIFIED) msg w, w)))
          else StreamHandler L B K rest w)"

text \<open>One turn of the loop of \<open>ConsensusListening\<close>: \<open>None\<close> is a session that could not be accepted, \<open>Some None\<close> a
  stream.\<close>

definition ConsensusListening ::
    "stream_lib \<Rightarrow> ('pk, 'sg) bls_lib \<Rightarrow> ('pk, 'sg) bls_keys \<Rightarrow> bytes option option \<Rightarrow> 'pk CONSENSUSNODE \<Rightarrow>
     (bytes \<times> 'pk CONSENSUSNODE) go option" where
  "ConsensusListening L B K sess w =
     (case sess of
        None \<Rightarrow> Some (Inr ([], w))
      | Some None \<Rightarrow> Some (Inl (Explicit ''stream''))
      | Some (Some stream) \<Rightarrow> StreamHandler L B K stream w)"

section \<open>Asking the members\<close>

type_synonym quic_net = "string \<Rightarrow> (bytes \<Rightarrow> bytes) option"

text \<open>What \<open>Submit\<close> puts into the channel, with \<open>None\<close> for nil. The message is the leader's at the time the
  goroutine copies it.\<close>

definition Submit :: "stream_lib \<Rightarrow> quic_net \<Rightarrow> string \<Rightarrow> int \<Rightarrow> int \<Rightarrow> AuditMsg \<Rightarrow> AuditMsg option" where
  "Submit L net addr currentPhase targetPhase auditMsg =
     (case net (addr @ gossipMsgPort) of
        None \<Rightarrow> None
      | Some stream \<Rightarrow>
          (case st_Encode L (auditMsg\<lparr>am_PhaseNum := currentPhase\<rparr>) of
             None \<Rightarrow> None
           | Some out \<Rightarrow>
               (case st_Decode L (stream out) of
                  None \<Rightarrow> None
                | Some (msg, _) \<Rightarrow> if am_PhaseNum msg = targetPhase then Some msg else None)))"

text \<open>The goroutines of a phase run beside the loop that waits for their votes, which changes the message
  they copy. \<open>Snap n\<close>: the n-th of those that wait copies the message, and so settles its vote. \<open>Take n\<close>: the
  loop receives the n-th of the votes that are under way. \<open>Deadline\<close>: the time is up.\<close>

datatype quic_event = Snap nat | Take nat | Deadline

definition drop_nth :: "nat \<Rightarrow> 'a list \<Rightarrow> 'a list" where
  "drop_nth n xs = take n xs @ drop (Suc n) xs"

text \<open>A phase, from the goroutines that wait, the votes under way, \<open>sigVec\<close> and the keys of
  \<open>honestAuditorsSet\<close> on. \<open>None\<close>: it still waits. To copy the message for a stream (\<open>Snap\<close>) and to count a vote
  (\<open>Take\<close>) are single steps; the code does both without a lock, and a copy made while \<open>HonestAuditors\<close> is
  being written could mix two lists of auditors.\<close>

fun quic_phase ::
    "stream_lib \<Rightarrow> ('pk, 'sg) bls_lib \<Rightarrow> ('pk, 'sg) bls_keys \<Rightarrow> (string list \<Rightarrow> string list) \<Rightarrow> quic_net \<Rightarrow> nat \<Rightarrow> int \<Rightarrow>
     int \<Rightarrow> quic_event list \<Rightarrow> string list \<Rightarrow> AuditMsg option list \<Rightarrow> 'sg list \<Rightarrow> string list \<Rightarrow> 'pk CONSENSUSNODE \<Rightarrow>
     (bool \<times> 'pk CONSENSUSNODE) option" where
  "quic_phase L B K ord net quorum currentPhase targetPhase [] pending flying sigVec ids w = None"
| "quic_phase L B K ord net quorum currentPhase targetPhase (Deadline # evs) pending flying sigVec ids w = Some (False, w)"
| "quic_phase L B K ord net quorum currentPhase targetPhase (Snap n # evs) pending flying sigVec ids w =
     (if n < length pending
      then quic_phase L B K ord net quorum currentPhase targetPhase evs (drop_nth n pending)
             (flying @ [Submit L net (pending ! n) currentPhase targetPhase (cn_auditMsg w)]) sigVec ids w
      else quic_phase L B K ord net quorum currentPhase targetPhase evs pending flying sigVec ids w)"
| "quic_phase L B K ord net quorum currentPhase targetPhase (Take n # evs) pending flying sigVec ids w =
     (if n < length flying
      then case flying ! n of
             None \<Rightarrow> quic_phase L B K ord net quorum currentPhase targetPhase evs pending (drop_nth n flying) sigVec ids w
           | Some msg \<Rightarrow>
               if am_PhaseNum msg = AuditMsg_PHASE_UNSPECIFIED \<or> am_PhaseNum msg \<noteq> targetPhase
               then quic_phase L B K ord net quorum currentPhase targetPhase evs pending (drop_nth n flying) sigVec ids w
               else case sg_Deserialize B (am_Signature msg) of
                      None \<Rightarrow> quic_phase L B K ord net quorum currentPhase targetPhase evs pending (drop_nth n flying) sigVec ids w
                    | Some sig \<Rightarrow>
                        let sigVec = sigVec @ [sig];
                            ids = fold add_auditor (am_HonestAuditors msg) ids;
                            w = w\<lparr>cn_auditMsg := (cn_auditMsg w)\<lparr>am_HonestAuditors :=
                              map (\<lambda>i. Some \<lparr>hon_Id = i\<rparr>) (in_order ord ids)\<rparr>\<rparr>
                        in if length sigVec = quorum then Some (True, Multisinging K msg sigVec w)
                           else quic_phase L B K ord net quorum currentPhase targetPhase evs pending (drop_nth n flying)
                                  sigVec ids w
      else quic_phase L B K ord net quorum currentPhase targetPhase evs pending flying sigVec ids w)"

section \<open>The two phases\<close>

definition first_message_quic ::
    "audit_lib \<Rightarrow> ('pk, 'sg) bls_keys \<Rightarrow> string option \<Rightarrow> (string \<rightharpoonup> u32) \<Rightarrow> 'pk CONSENSUSNODE \<Rightarrow> AuditMsg" where
  "first_message_quic J K prev userCount w =
     (let m = \<lparr>am_BlkNum = cn_roundIdx w, am_PrevHash = (case prev of None \<Rightarrow> [] | Some h \<Rightarrow> h),
               am_MerkleRootHash = makePadding 100000000, am_CurHash = [], am_LeaderID = cn_selfId w, am_Signature = [],
               am_HonestAuditors = [Some \<lparr>hon_Id = cn_selfId w\<rparr>], am_PhaseNum = AuditMsg_PREPARE,
               am_Aborttransactionnum = userCount\<rparr>;
          m = m\<lparr>am_CurHash := EncodeToString (take 63 (Sum512 J (gob_Encode J m)))\<rparr>
      in m\<lparr>am_Signature := sg_Serialize K (sk_SignByte K (string_bytes (am_CurHash m)))\<rparr>)"

text \<open>A goroutine for each member, and the wait for their votes; its result is not looked at.\<close>

definition ask_members ::
    "stream_lib \<Rightarrow> ('pk, 'sg) bls_lib \<Rightarrow> ('pk, 'sg) bls_keys \<Rightarrow> (string list \<Rightarrow> string list) \<Rightarrow> quic_net \<Rightarrow>
     (Wnode \<Rightarrow> string) \<Rightarrow> int \<Rightarrow> int \<Rightarrow> quic_event list \<Rightarrow> 'pk CONSENSUSNODE \<Rightarrow> (bool \<times> 'pk CONSENSUSNODE) option" where
  "ask_members L B K ord net Addr currentPhase targetPhase evs w =
     quic_phase L B K ord net (length (cn_members w)) currentPhase targetPhase evs (map Addr (cn_members w)) [] [] [] w"

definition publish_block :: "'pk CONSENSUSNODE \<Rightarrow> 'pk CONSENSUSNODE" where
  "publish_block w =
     (let w = w\<lparr>cn_auditMsg := (cn_auditMsg w)\<lparr>am_MerkleRootHash := ''abcdefghijklnmop''\<rparr>\<rparr>
      in w\<lparr>cn_gossip := cn_gossip w @ [\<lparr>gsp_Type = 2, gsp_Rndblk = Some (cn_auditMsg w),
           gsp_StartConsensusTime = cn_startConsensusTime w\<rparr>]\<rparr>)"

definition bftConsensus_quic ::
    "audit_lib \<Rightarrow> stream_lib \<Rightarrow> ('pk, 'sg) bls_lib \<Rightarrow> ('pk, 'sg) bls_keys \<Rightarrow> (string list \<Rightarrow> string list) \<Rightarrow> quic_net \<Rightarrow>
     (Wnode \<Rightarrow> string) \<Rightarrow> string option \<Rightarrow> (string \<rightharpoonup> u32) \<Rightarrow> quic_event list \<Rightarrow> quic_event list \<Rightarrow> 'pk CONSENSUSNODE \<Rightarrow>
     'pk CONSENSUSNODE option" where
  "bftConsensus_quic J L B K ord net Addr prev userCount prepares commits w =
     (let w = w\<lparr>cn_auditMsg := first_message_quic J K prev userCount w\<rparr>
      in case ask_members L B K ord net Addr AuditMsg_PREPARE AuditMsg_AGGREGATED_PREPARE prepares w of
           None \<Rightarrow> None
         | Some (_, w) \<Rightarrow>
             map_option (\<lambda>(_, w). publish_block w)
               (ask_members L B K ord net Addr AuditMsg_COMMIT AuditMsg_AGGREGATED_COMMIT commits w))"

definition KafkaListener_quic ::
    "audit_lib \<Rightarrow> stream_lib \<Rightarrow> ('pk, 'sg) bls_lib \<Rightarrow> ('pk, 'sg) bls_keys \<Rightarrow> (string list \<Rightarrow> string list) \<Rightarrow> quic_net \<Rightarrow>
     (Wnode \<Rightarrow> string) \<Rightarrow> string option \<Rightarrow> (int \<times> string list) option \<Rightarrow> quic_event list \<Rightarrow> quic_event list \<Rightarrow>
     'pk CONSENSUSNODE \<Rightarrow> 'pk CONSENSUSNODE option" where
  "KafkaListener_quic J L B K ord net Addr prev payload prepares commits w =
     (if \<not> cn_leader w then Some w
      else case payload of
             None \<Rightarrow> Some w
           | Some (timestamp, texts) \<Rightarrow>
               bftConsensus_quic J L B K ord net Addr prev (count_aborts texts) prepares commits
                 (w\<lparr>cn_startConsensusTime := timestamp, cn_auditMsg := empty_audit\<rparr>))"

end
