(* ===== verification/Quic_Props.thy ===== *)
theory Quic_Props
  imports Quic_Round Consensus_Props
begin

text \<open>
  The w-node over plain QUIC: what a member answers, a round in which every member takes part, whatever the
  order of the exchanges, and one in which a member is silent.
\<close>

section \<open>Streams\<close>

text \<open>What is encoded is decoded again, for the messages of a set. Whatever follows in the text is left over.\<close>

definition stream_ok :: "stream_lib \<Rightarrow> AuditMsg set \<Rightarrow> bool" where
  "stream_ok L S \<longleftrightarrow> (\<forall>m \<in> S. \<exists>out rest. st_Encode L m = Some out \<and> st_Decode L out = Some (m, rest))"

lemma stream_okE:
  assumes "stream_ok L S" and "m \<in> S"
  obtains out rest where "st_Encode L m = Some out" and "st_Decode L out = Some (m, rest)"
  using assms unfolding stream_ok_def by blast

lemma phases_distinct [simp]:
  "AuditMsg_PREPARE \<noteq> AuditMsg_COMMIT" "AuditMsg_COMMIT \<noteq> AuditMsg_PREPARE"
  "AuditMsg_PHASE_UNSPECIFIED \<noteq> AuditMsg_AGGREGATED_COMMIT" "AuditMsg_AGGREGATED_COMMIT \<noteq> AuditMsg_PHASE_UNSPECIFIED"
  "AuditMsg_AGGREGATED_PREPARE \<noteq> AuditMsg_PHASE_UNSPECIFIED" "AuditMsg_AGGREGATED_COMMIT \<noteq> AuditMsg_AGGREGATED_PREPARE"
  "AuditMsg_AGGREGATED_PREPARE \<noteq> AuditMsg_AGGREGATED_COMMIT" "AuditMsg_PHASE_UNSPECIFIED \<noteq> AuditMsg_AGGREGATED_PREPARE"
  by (simp_all add: AuditMsg_PREPARE_def AuditMsg_COMMIT_def AuditMsg_PHASE_UNSPECIFIED_def
      AuditMsg_AGGREGATED_COMMIT_def AuditMsg_AGGREGATED_PREPARE_def)

lemma StreamHandler_prepare:
  "st_Decode L stream = Some (m, rest) \<Longrightarrow> am_PhaseNum m = AuditMsg_PREPARE \<Longrightarrow>
   StreamHandler L B K stream w = Some (Inr (sendResponse L K AuditMsg_AGGREGATED_PREPARE m w, w))"
  by (subst StreamHandler.simps) simp

lemma StreamHandler_commit:
  "st_Decode L stream = Some (m, rest) \<Longrightarrow> am_PhaseNum m = AuditMsg_COMMIT \<Longrightarrow>
   StreamHandler L B K stream w = Some (go_bind (verifying_quic B K m w) (\<lambda>(ok, w).
     Inr (sendResponse L K (if ok then AuditMsg_AGGREGATED_COMMIT else AuditMsg_PHASE_UNSPECIFIED) m w, w)))"
  by (subst StreamHandler.simps) simp

text \<open>A decoder takes something off the stream for each value, so that the loop ends.\<close>

lemma StreamHandler_returns:
  assumes "\<forall>s m rest. st_Decode L s = Some (m, rest) \<longrightarrow> length rest < length s"
  shows "\<exists>r. StreamHandler L B K stream w = Some r"
proof (induction stream rule: length_induct)
  case (1 stream)
  show ?case
  proof (cases "st_Decode L stream")
    case None
    then show ?thesis by (subst StreamHandler.simps) simp
  next
    case (Some x)
    obtain m rest where "x = (m, rest)" by (cases x)
    with Some 1 assms show ?thesis by (subst StreamHandler.simps) auto
  qed
qed

text \<open>
  C18: Over plain QUIC a member checks what it commits to. Whatever message of the COMMIT phase comes first on a
  stream, when it names no null auditor the member answers and goes on; the answer, if it can be encoded, says
  AGGREGATED_COMMIT exactly when the signature parses and verifies for the hash under the keys that the member
  knows of the auditors listed, each once, and PHASE_UNSPECIFIED otherwise, which the leader takes for no
  vote at all. A null auditor makes the member panic.
\<close>

theorem commit_verified_quic:
  assumes "st_Decode L stream = Some (M, rest)" and "am_PhaseNum M = AuditMsg_COMMIT"
  shows "(None \<notin> set (am_HonestAuditors M) \<longrightarrow>
      (\<exists>pks t. collect_keys K (cn_publicKeyMap w) (am_HonestAuditors M) [] = Inr pks \<and>
         StreamHandler L B K stream w = Some (Inr (sendResponse L K t M w, w\<lparr>cn_pubVec := pks\<rparr>)) \<and>
         (t = AuditMsg_AGGREGATED_COMMIT \<longleftrightarrow> (\<exists>sig. sg_Deserialize B (am_Signature M) = Some sig \<and>
            FastAggregateVerify B sig pks (string_bytes (am_CurHash M)))) \<and>
         (t \<noteq> AuditMsg_AGGREGATED_COMMIT \<longrightarrow> t = AuditMsg_PHASE_UNSPECIFIED \<and>
            (\<forall>net addr cur A out rest'. net (addr @ gossipMsgPort) = Some (\<lambda>_. out) \<longrightarrow>
               st_Decode L out = Some (response K t M (cn_selfId w), rest') \<longrightarrow>
               Submit L net addr cur AuditMsg_AGGREGATED_COMMIT A = None)))) \<and>
     (None \<in> set (am_HonestAuditors M) \<longrightarrow> StreamHandler L B K stream w = Some (Inl NilDeref))"
proof (intro conjI impI)
  note run = StreamHandler_commit [OF assms, of B K w]
  {
    assume "None \<notin> set (am_HonestAuditors M)"
    then obtain pks where pks: "collect_keys K (cn_publicKeyMap w) (am_HonestAuditors M) [] = Inr pks"
      using collect_keys_total by blast
    let ?ok = "\<exists>sig. sg_Deserialize B (am_Signature M) = Some sig \<and> FastAggregateVerify B sig pks (string_bytes (am_CurHash M))"
    let ?t = "if ?ok then AuditMsg_AGGREGATED_COMMIT else AuditMsg_PHASE_UNSPECIFIED"
    have "verifying_quic B K M w = Inr (?ok, w\<lparr>cn_pubVec := pks\<rparr>)"
      using assms(2) by (simp add: verifying_quic_def pks Let_def split: option.splits)
    then have "StreamHandler L B K stream w = Some (Inr (sendResponse L K ?t M w, w\<lparr>cn_pubVec := pks\<rparr>))"
      unfolding run by (simp add: sendResponse_def)
    then show "\<exists>pks t. collect_keys K (cn_publicKeyMap w) (am_HonestAuditors M) [] = Inr pks \<and>
         StreamHandler L B K stream w = Some (Inr (sendResponse L K t M w, w\<lparr>cn_pubVec := pks\<rparr>)) \<and>
         (t = AuditMsg_AGGREGATED_COMMIT \<longleftrightarrow> (\<exists>sig. sg_Deserialize B (am_Signature M) = Some sig \<and>
            FastAggregateVerify B sig pks (string_bytes (am_CurHash M)))) \<and>
         (t \<noteq> AuditMsg_AGGREGATED_COMMIT \<longrightarrow> t = AuditMsg_PHASE_UNSPECIFIED \<and>
            (\<forall>net addr cur A out rest'. net (addr @ gossipMsgPort) = Some (\<lambda>_. out) \<longrightarrow>
               st_Decode L out = Some (response K t M (cn_selfId w), rest') \<longrightarrow>
               Submit L net addr cur AuditMsg_AGGREGATED_COMMIT A = None))"
      using pks by (intro exI [of _ pks] exI [of _ ?t]) (simp add: Submit_def split: option.splits)
  next
    assume "None \<in> set (am_HonestAuditors M)"
    then show "StreamHandler L B K stream w = Some (Inl NilDeref)"
      unfolding run by (simp add: verifying_quic_def collect_keys_nil)
  }
qed

section \<open>The messages of a round\<close>

definition core :: "AuditMsg \<Rightarrow> AuditMsg" where
  "core M = M\<lparr>am_HonestAuditors := [], am_Signature := [], am_PhaseNum := 0\<rparr>"

definition round_msgs :: "AuditMsg \<Rightarrow> string set \<Rightarrow> AuditMsg set" where
  "round_msgs M0 I = {M. core M = core M0 \<and>
     (\<exists>ids. am_HonestAuditors M = auditor_list ids \<and> distinct ids \<and> set ids \<subseteq> I)}"

lemma core_eq_iff: "core M = core M' \<longleftrightarrow> am_BlkNum M = am_BlkNum M' \<and> am_PrevHash M = am_PrevHash M' \<and>
    am_MerkleRootHash M = am_MerkleRootHash M' \<and> am_CurHash M = am_CurHash M' \<and> am_LeaderID M = am_LeaderID M' \<and>
    am_Aborttransactionnum M = am_Aborttransactionnum M'"
  by (cases M; cases M') (auto simp: core_def)

lemma core_simps [simp]:
  "core (M\<lparr>am_HonestAuditors := as\<rparr>) = core M" "core (M\<lparr>am_Signature := s\<rparr>) = core M" "core (M\<lparr>am_PhaseNum := p\<rparr>) = core M"
  "core (response k t M i) = core M"
  by (simp_all add: core_eq_iff response_def updateAuditFields_def Let_def)

lemma voters_auditor_list: "am_HonestAuditors M = auditor_list ids \<Longrightarrow> voters [M] = set ids"
  by (auto simp: voters_def auditor_list_def)

lemma auditor_list_some [simp]: "None \<notin> set (auditor_list ids)" "filter (\<lambda>a. a \<noteq> None) (auditor_list ids) = auditor_list ids"
  by (auto simp: auditor_list_def filter_empty_conv comp_def)

lemma response_auditors:
  "am_HonestAuditors M = auditor_list ids \<Longrightarrow>
   am_HonestAuditors (response k t M i) = auditor_list (if i \<in> set ids then ids else ids @ [i])"
proof -
  assume M: "am_HonestAuditors M = auditor_list ids"
  have "list_ex (\<lambda>a. map_option hon_Id a = Some i) (auditor_list ids) \<longleftrightarrow> i \<in> set ids"
    by (auto simp: auditor_list_def list_ex_iff)
  then show ?thesis using auditor_list_some(2) [of ids]
    by (simp add: response_def updateAuditFields_def Let_def M) (simp add: auditor_list_def)
qed

lemma response_round: "M \<in> round_msgs M0 I \<Longrightarrow> i \<in> I \<Longrightarrow> response k t M i \<in> round_msgs M0 I"
proof -
  assume M: "M \<in> round_msgs M0 I" and i: "i \<in> I"
  then obtain ids where ids: "am_HonestAuditors M = auditor_list ids" "distinct ids" "set ids \<subseteq> I" and c: "core M = core M0"
    by (auto simp: round_msgs_def)
  let ?ids = "if i \<in> set ids then ids else ids @ [i]"
  have "distinct ?ids" "set ?ids \<subseteq> I" using ids i by auto
  then show ?thesis using response_auditors [OF ids(1), of k t i] c unfolding round_msgs_def
    by (intro CollectI conjI exI [of _ ?ids]) simp_all
qed

lemma round_phase [simp]: "M\<lparr>am_PhaseNum := p\<rparr> \<in> round_msgs M0 I \<longleftrightarrow> M \<in> round_msgs M0 I"
  by (simp add: round_msgs_def)

section \<open>The exchanges of a phase\<close>

lemma mset_drop_nth: "n < length xs \<Longrightarrow> mset xs = add_mset (xs ! n) (mset (drop_nth n xs))"
proof -
  assume "n < length xs"
  then have "xs = take n xs @ xs ! n # drop (Suc n) xs" by (rule id_take_nth_drop)
  then have "mset xs = mset (take n xs @ xs ! n # drop (Suc n) xs)" by simp
  then show ?thesis by (simp add: drop_nth_def)
qed

lemma length_drop_nth: "n < length xs \<Longrightarrow> length (drop_nth n xs) = length xs - 1"
  by (simp add: drop_nth_def)

lemma set_drop_nth: "set (drop_nth n xs) \<subseteq> set xs"
  using set_take_subset [of n xs] set_drop_subset [of "Suc n" xs] by (auto simp: drop_nth_def)

lemma map_drop_nth: "map f (drop_nth n xs) = drop_nth n (map f xs)"
  by (simp add: drop_nth_def take_map drop_map)

text \<open>Every exchange of a phase comes to its end before the time is up: counted by the goroutines that wait
  and the votes under way.\<close>

fun in_time :: "nat \<Rightarrow> nat \<Rightarrow> quic_event list \<Rightarrow> bool" where
  "in_time p f [] \<longleftrightarrow> p = 0 \<and> f = 0"
| "in_time p f (Deadline # evs) \<longleftrightarrow> p = 0 \<and> f = 0"
| "in_time p f (Snap n # evs) \<longleftrightarrow>
     (if p = 0 \<and> f = 0 then True else if n < p then in_time (p - 1) (f + 1) evs else in_time p f evs)"
| "in_time p f (Take n # evs) \<longleftrightarrow>
     (if p = 0 \<and> f = 0 then True else if n < f then in_time p (f - 1) evs else in_time p f evs)"

text \<open>The message of the leader during a phase: the auditors listed include \<open>A\<close>.\<close>

definition leader_msg :: "AuditMsg \<Rightarrow> string set \<Rightarrow> string set \<Rightarrow> bytes \<Rightarrow> AuditMsg \<Rightarrow> bool" where
  "leader_msg M0 I A s M \<longleftrightarrow> M \<in> round_msgs M0 I \<and> A \<subseteq> voters [M] \<and> am_Signature M = s"

lemma round_msgs_voters: "M \<in> round_msgs M0 I \<Longrightarrow> voters [M] \<subseteq> I"
  by (auto simp: round_msgs_def voters_auditor_list)

lemma leader_msg_update:
  assumes "leader_msg M0 I A s M" and "distinct ids" and "A \<subseteq> set ids" and "set ids \<subseteq> I"
  shows "leader_msg M0 I A s (M\<lparr>am_HonestAuditors := auditor_list (in_order ord ids)\<rparr>)"
proof -
  have "distinct (in_order ord ids)" "set (in_order ord ids) = set ids"
    using assms(2) map_in_order_distinct [of id ord ids] by simp_all
  then have "\<exists>ids'. auditor_list (in_order ord ids) = auditor_list ids' \<and> distinct ids' \<and> set ids' \<subseteq> I"
    using assms(4) by (intro exI [of _ "in_order ord ids"]) simp
  with assms show ?thesis
    by (auto simp: leader_msg_def round_msgs_def voters_auditor_list)
qed

text \<open>A vote under way, by the member and the message it was asked with.\<close>

abbreviation vote_of :: "(string \<Rightarrow> ('pk, 'sg) bls_keys) \<Rightarrow> int \<Rightarrow> int \<Rightarrow> string \<times> AuditMsg \<Rightarrow> AuditMsg" where
  "vote_of key cur t f \<equiv> response (key (fst f)) t ((snd f)\<lparr>am_PhaseNum := cur\<rparr>) (fst f)"

lemma quic_phase_certifies:
  assumes target: "t \<noteq> AuditMsg_PHASE_UNSPECIFIED"
    and ans: "\<And>M mem. leader_msg M0 I A s M \<Longrightarrow> mem \<in> set ms \<Longrightarrow>
      Submit L net (Addr mem) cur t M = Some (vote_of key cur t (w_NodeID mem, M))"
    and sigs: "\<And>i. i \<in> I \<Longrightarrow> sg_Deserialize B (sg_Serialize (key i) (sk_SignByte (key i) h)) = Some (sk_SignByte (key i) h)"
    and h: "h = string_bytes (am_CurHash M0)" and I: "w_NodeID ` set ms \<subseteq> I"
  shows "in_time (length pms) (length fl) evs \<Longrightarrow> 0 < length pms + length fl \<Longrightarrow> leader_msg M0 I A s (cn_auditMsg w) \<Longrightarrow>
     set pms \<subseteq> set ms \<Longrightarrow> \<forall>f \<in> set fl. fst f \<in> I \<and> leader_msg M0 I A s (snd f) \<Longrightarrow> distinct ids \<Longrightarrow> set ids \<subseteq> I \<Longrightarrow>
     \<exists>js m ids'. quic_phase L B K ord net (length sv + length fl + length pms) cur t evs (map Addr pms)
         (map (Some \<circ> vote_of key cur t) fl) sv ids w =
       Some (True, Multisinging K m (sv @ map (\<lambda>i. sk_SignByte (key i) h) js)
         (w\<lparr>cn_auditMsg := (cn_auditMsg w)\<lparr>am_HonestAuditors := auditor_list (in_order ord ids')\<rparr>\<rparr>)) \<and>
       mset js = mset (map fst fl @ map w_NodeID pms) \<and> distinct ids' \<and> set ids \<union> set js \<union> A \<subseteq> set ids' \<and> set ids' \<subseteq> I \<and>
       core m = core M0 \<and> am_PhaseNum m = t"
proof (induction evs arbitrary: pms fl sv ids w)
  case (Cons ev evs)
  show ?case
  proof (cases ev)
    case Deadline
    then show ?thesis using Cons.prems(1,2) by simp
  next
    case (Snap n)
    show ?thesis
    proof (cases "n < length pms")
      case True
      let ?M = "cn_auditMsg w" and ?mem = "pms ! n"
      have mem: "?mem \<in> set ms" using True Cons.prems(4) by auto
      let ?fl = "fl @ [(w_NodeID ?mem, ?M)]"
      have step: "quic_phase L B K ord net q cur t (ev # evs) (map Addr pms) (map (Some \<circ> vote_of key cur t) fl) sv ids w =
          quic_phase L B K ord net q cur t evs (map Addr (drop_nth n pms)) (map (Some \<circ> vote_of key cur t) ?fl) sv ids w" for q
        using True ans [OF Cons.prems(3) mem] by (simp add: Snap map_drop_nth)
      have len: "length (drop_nth n pms) = length pms - 1" using True by (rule length_drop_nth)
      have q: "length sv + length fl + length pms = length sv + length ?fl + length (drop_nth n pms)"
        using True by (simp add: len)
      have ms: "mset (map fst ?fl @ map w_NodeID (drop_nth n pms)) = mset (map fst fl @ map w_NodeID pms)"
        using mset_drop_nth [OF True] by simp
      have "set (drop_nth n pms) \<subseteq> set ms" using set_drop_nth [of n pms] Cons.prems(4) by blast
      moreover have "\<forall>f \<in> set ?fl. fst f \<in> I \<and> leader_msg M0 I A s (snd f)" using Cons.prems(3,5) mem I by auto
      moreover have "in_time (length (drop_nth n pms)) (length ?fl) evs" using Cons.prems(1,2) True by (simp add: Snap len split: if_splits)
      ultimately show ?thesis unfolding step q ms [symmetric]
        using Cons.prems(3,6,7) by (intro Cons.IH) auto
    next
      case False
      then show ?thesis using Cons.IH [of pms fl w ids sv] Cons.prems by (simp add: Snap)
    qed
  next
    case (Take n)
    show ?thesis
    proof (cases "n < length fl")
      case True
      let ?f = "fl ! n" and ?fl = "drop_nth n fl"
      let ?m = "vote_of key cur t ?f" and ?i = "fst (fl ! n)"
      have f: "?i \<in> I" "leader_msg M0 I A s (snd ?f)" using True Cons.prems(5) by auto
      then have m: "?m \<in> round_msgs M0 I" by (auto simp: leader_msg_def intro: response_round)
      then have hash: "am_CurHash (snd ?f) = am_CurHash M0" by (simp add: round_msgs_def core_eq_iff)
      let ?ids = "fold add_auditor (am_HonestAuditors ?m) ids"
      let ?w = "w\<lparr>cn_auditMsg := (cn_auditMsg w)\<lparr>am_HonestAuditors := auditor_list (in_order ord ?ids)\<rparr>\<rparr>"
      have vm: "voters [?m] = insert ?i (voters [snd ?f])" by (simp add: response_voters) (simp add: voters_def)
      have ids: "distinct ?ids" "set ?ids = set ids \<union> voters [?m]"
        using add_auditors [of "am_HonestAuditors ?m" ids] Cons.prems(6) by (simp_all add: voters_def)
      have bounds: "set ids \<union> {?i} \<union> A \<subseteq> set ?ids" "set ?ids \<subseteq> I"
        using f(2) Cons.prems(7) round_msgs_voters [OF m] vm by (auto simp: ids leader_msg_def)
      have sig: "sg_Deserialize B (am_Signature ?m) = Some (sk_SignByte (key ?i) h)"
        using sigs [OF f(1)] by (simp add: h hash)
      have ms: "mset fl = add_mset ?f (mset ?fl)" by (rule mset_drop_nth [OF True])
      have msi: "mset (map fst fl) = add_mset ?i (mset (map fst ?fl))" using ms by simp
      have len: "length ?fl = length fl - 1" using True by (rule length_drop_nth)
      have step: "quic_phase L B K ord net q cur t (ev # evs) ps (map (Some \<circ> vote_of key cur t) fl) sv ids w =
          (if length sv + 1 = q then Some (True, Multisinging K ?m (sv @ [sk_SignByte (key ?i) h]) ?w)
           else quic_phase L B K ord net q cur t evs ps (map (Some \<circ> vote_of key cur t) ?fl) (sv @ [sk_SignByte (key ?i) h]) ?ids ?w)"
        for q ps
        using True target sig by (simp add: Take map_drop_nth Let_def auditor_list_def)
      show ?thesis
      proof (cases "length fl + length pms = 1")
        case last: True
        then have e: "?fl = []" "pms = []" using True len by (cases fl; cases pms; auto)+
        then have js: "mset [?i] = mset (map fst fl @ map w_NodeID pms)" using msi by simp
        show ?thesis unfolding step
          using m bounds ids(1) js last
          by (intro exI [of _ "[?i]"] exI [of _ ?m] exI [of _ ?ids]) (auto simp: round_msgs_def)
      next
        case more: False
        have q: "length sv + length fl + length pms = length (sv @ [sk_SignByte (key ?i) h]) + length ?fl + length pms"
          using True by (simp add: len)
        have i1: "in_time (length pms) (length ?fl) evs" using Cons.prems(1,2) True by (simp add: Take len split: if_splits)
        have i2: "0 < length pms + length ?fl" using more True len by auto
        have i3: "\<forall>f \<in> set ?fl. fst f \<in> I \<and> leader_msg M0 I A s (snd f)"
          using Cons.prems(5) set_drop_nth [of n fl] by blast
        have i4: "leader_msg M0 I A s (cn_auditMsg ?w)"
          using leader_msg_update [OF Cons.prems(3) ids(1) _ bounds(2)] bounds(1) by simp
        from Cons.IH [OF i1 i2 i4 Cons.prems(4) i3 ids(1) bounds(2), of "sv @ [sk_SignByte (key ?i) h]"] obtain js m' ids' where r: "quic_phase L B K ord net (length (sv @ [sk_SignByte (key ?i) h]) + length ?fl + length pms)
             cur t evs (map Addr pms) (map (Some \<circ> vote_of key cur t) ?fl) (sv @ [sk_SignByte (key ?i) h]) ?ids ?w =
             Some (True, Multisinging K m' ((sv @ [sk_SignByte (key ?i) h]) @ map (\<lambda>i. sk_SignByte (key i) h) js)
               (?w\<lparr>cn_auditMsg := (cn_auditMsg ?w)\<lparr>am_HonestAuditors := auditor_list (in_order ord ids')\<rparr>\<rparr>))"
          "mset js = mset (map fst ?fl @ map w_NodeID pms)" "distinct ids'" "set ?ids \<union> set js \<union> A \<subseteq> set ids'" "set ids' \<subseteq> I"
          "core m' = core M0" "am_PhaseNum m' = t"
          by (elim exE conjE) (rule that; assumption)
        have nl: "length sv + 1 \<noteq> length sv + length fl + length pms" using more by simp
        show ?thesis unfolding step if_not_P [OF nl] unfolding q r(1)
          using r(2-) bounds(1) msi
          by (intro exI [of _ "?i # js"] exI [of _ m'] exI [of _ ids']) auto
      qed
    next
      case False
      then show ?thesis using Cons.IH [of pms fl w ids sv] Cons.prems by (simp add: Take split: if_splits)
    qed
  qed
qed simp

section \<open>Honest members\<close>

text \<open>What a node with these keys and this state writes on a stream.\<close>

definition answered :: "stream_lib \<Rightarrow> ('pk, 'sg) bls_lib \<Rightarrow> ('pk, 'sg) bls_keys \<Rightarrow> 'pk CONSENSUSNODE \<Rightarrow> bytes \<Rightarrow> bytes" where
  "answered L B K x stream = (case StreamHandler L B K stream x of Some (Inr (out, _)) \<Rightarrow> out | _ \<Rightarrow> [])"

text \<open>A member that can be reached, runs \<open>StreamHandler\<close> under its own identity, and knows the keys of the
  committee, which have different encodings.\<close>

definition honest_member ::
    "stream_lib \<Rightarrow> ('pk, 'sg) bls_lib \<Rightarrow> quic_net \<Rightarrow> (Wnode \<Rightarrow> string) \<Rightarrow> (string \<Rightarrow> ('pk, 'sg) bls_keys) \<Rightarrow>
     (string \<Rightarrow> 'pk CONSENSUSNODE) \<Rightarrow> string set \<Rightarrow> Wnode \<Rightarrow> bool" where
  "honest_member L B net Addr key state I mem \<longleftrightarrow>
     (let i = w_NodeID mem in
        net (Addr mem @ gossipMsgPort) = Some (answered L B (key i) (state i)) \<and> cn_selfId (state i) = i \<and>
        (\<forall>j \<in> I. cn_publicKeyMap (state i) j = Some (pk_Own (key j))) \<and>
        inj_on (\<lambda>j. pk_Serialize (key i) (pk_Own (key j))) I)"

lemma Submit_answered:
  assumes net: "net (addr @ gossipMsgPort) = Some (answered L B K x)" and ok: "stream_ok L S"
    and M: "M\<lparr>am_PhaseNum := cur\<rparr> \<in> S" and r: "response K t (M\<lparr>am_PhaseNum := cur\<rparr>) (cn_selfId x) \<in> S"
    and run: "\<And>stream rest. st_Decode L stream = Some (M\<lparr>am_PhaseNum := cur\<rparr>, rest) \<Longrightarrow>
      \<exists>x'. StreamHandler L B K stream x = Some (Inr (sendResponse L K t (M\<lparr>am_PhaseNum := cur\<rparr>) x, x'))"
  shows "Submit L net addr cur t M = Some (response K t (M\<lparr>am_PhaseNum := cur\<rparr>) (cn_selfId x))"
proof -
  let ?M = "M\<lparr>am_PhaseNum := cur\<rparr>" and ?R = "response K t (M\<lparr>am_PhaseNum := cur\<rparr>) (cn_selfId x)"
  obtain out rest where out: "st_Encode L ?M = Some out" "st_Decode L out = Some (?M, rest)" by (rule stream_okE [OF ok M])
  obtain ans rest' where ans: "st_Encode L ?R = Some ans" "st_Decode L ans = Some (?R, rest')" by (rule stream_okE [OF ok r])
  from run [OF out(2)] have "answered L B K x out = ans" by (auto simp: answered_def sendResponse_def ans(1))
  then show ?thesis by (simp add: Submit_def net out(1) ans(2))
qed

lemma Submit_prepare:
  assumes "honest_member L B net Addr key state I mem" and "stream_ok L (round_msgs M0 I)" and "M \<in> round_msgs M0 I"
    and "w_NodeID mem \<in> I"
  shows "Submit L net (Addr mem) AuditMsg_PREPARE AuditMsg_AGGREGATED_PREPARE M =
    Some (vote_of key AuditMsg_PREPARE AuditMsg_AGGREGATED_PREPARE (w_NodeID mem, M))"
proof -
  let ?i = "w_NodeID mem"
  have net: "net (Addr mem @ gossipMsgPort) = Some (answered L B (key ?i) (state ?i))" and self: "cn_selfId (state ?i) = ?i"
    using assms(1) by (simp_all add: honest_member_def Let_def)
  have M: "M\<lparr>am_PhaseNum := AuditMsg_PREPARE\<rparr> \<in> round_msgs M0 I" using assms(3) by simp
  have "response (key ?i) AuditMsg_AGGREGATED_PREPARE (M\<lparr>am_PhaseNum := AuditMsg_PREPARE\<rparr>) (cn_selfId (state ?i)) \<in> round_msgs M0 I"
    using response_round [OF M assms(4)] by (simp add: self)
  from Submit_answered [where net = net, OF net assms(2) M this] show ?thesis by (simp add: self StreamHandler_prepare)
qed

lemma Submit_commit:
  assumes mem: "honest_member L B net Addr key state I mem" and ok: "stream_ok L (round_msgs M0 I)"
    and M: "M \<in> round_msgs M0 I" "voters [M] = I" and i: "w_NodeID mem \<in> I" and all: "distinct all" "set all = I"
    and sig: "sg_Deserialize B (am_Signature M) = Some sig"
    and verify: "\<And>pks. mset pks = mset (map (pk_Own \<circ> key) all) \<Longrightarrow> FastAggregateVerify B sig pks (string_bytes (am_CurHash M))"
  shows "Submit L net (Addr mem) AuditMsg_COMMIT AuditMsg_AGGREGATED_COMMIT M =
    Some (vote_of key AuditMsg_COMMIT AuditMsg_AGGREGATED_COMMIT (w_NodeID mem, M))"
proof -
  let ?i = "w_NodeID mem" and ?M = "M\<lparr>am_PhaseNum := AuditMsg_COMMIT\<rparr>"
  have net: "net (Addr mem @ gossipMsgPort) = Some (answered L B (key ?i) (state ?i))" and self: "cn_selfId (state ?i) = ?i"
    and known: "\<And>j. j \<in> I \<Longrightarrow> cn_publicKeyMap (state ?i) j = Some (pk_Own (key j))"
    and inj: "inj_on (\<lambda>j. pk_Serialize (key ?i) (pk_Own (key j))) I"
    using mem by (simp_all add: honest_member_def Let_def)
  obtain ids where ids: "am_HonestAuditors M = auditor_list ids" "distinct ids" "set ids = I"
    using M voters_auditor_list [of M] by (auto simp: round_msgs_def)
  let ?km = "cn_publicKeyMap (state ?i)"
  have perm: "mset ids = mset all" using set_eq_iff_mset_eq_distinct [OF ids(2) all(1)] ids(3) all(2) by simp
  have own: "map (the \<circ> ?km) ids = map (pk_Own \<circ> key) ids" using known ids(3) by auto
  have "distinct (map (pk_Serialize (key ?i) \<circ> the \<circ> ?km) ids)"
    using ids inj known by (simp add: distinct_map inj_on_def)
  then have keys: "collect_keys (key ?i) ?km (am_HonestAuditors M) [] = Inr (map (pk_Own \<circ> key) ids)"
    unfolding ids(1) own [symmetric] using known ids(3) by (intro collect_keys_all) auto
  have "mset (map (pk_Own \<circ> key) ids) = mset (map (pk_Own \<circ> key) all)" using perm by (metis mset_map)
  then have "FastAggregateVerify B sig (map (pk_Own \<circ> key) ids) (string_bytes (am_CurHash M))" by (rule verify)
  then have v: "verifying_quic B (key ?i) ?M (state ?i) = Inr (True, (state ?i)\<lparr>cn_pubVec := map (pk_Own \<circ> key) ids\<rparr>)"
    using keys sig by (simp add: verifying_quic_def)
  have M': "?M \<in> round_msgs M0 I" using M(1) by simp
  have "response (key ?i) AuditMsg_AGGREGATED_COMMIT ?M (cn_selfId (state ?i)) \<in> round_msgs M0 I"
    using response_round [OF M' i] by (simp add: self)
  from Submit_answered [where net = net, OF net ok M' this] show ?thesis
    by (simp add: self StreamHandler_commit v sendResponse_def)
qed

section \<open>A round in which every member takes part\<close>

lemma first_message_quic_fields:
  "am_HonestAuditors (first_message_quic J K prev userCount w) = auditor_list [cn_selfId w]"
  by (simp add: first_message_quic_def Let_def auditor_list_def)

text \<open>One phase with every member honest; \<open>s\<close> is the signature that the message of the phase carries.\<close>

lemma ask_members_certifies:
  assumes target: "t = AuditMsg_AGGREGATED_PREPARE \<or> t = AuditMsg_AGGREGATED_COMMIT"
    and ans: "\<And>M mem. leader_msg M0 I A s M \<Longrightarrow> mem \<in> set (cn_members w) \<Longrightarrow>
      Submit L net (Addr mem) cur t M = Some (vote_of key cur t (w_NodeID mem, M))"
    and laws: "aggregation_ok B K (key ` I)" and I: "I = w_NodeID ` set (cn_members w)" "cn_members w \<noteq> []"
    and time: "in_time (length (cn_members w)) 0 evs" and lead: "leader_msg M0 I A s (cn_auditMsg w)"
  shows "\<exists>w' js. ask_members L B K ord net Addr cur t evs w = Some (True, w') \<and>
     w' = w\<lparr>cn_auditMsg := cn_auditMsg w'\<rparr> \<and> mset js = mset (map w_NodeID (cn_members w)) \<and>
     leader_msg M0 I I (sg_Serialize K (sg_Aggregate K (map (\<lambda>k. sk_SignByte k (string_bytes (am_CurHash M0))) (map key js))))
       (cn_auditMsg w') \<and>
     am_PhaseNum (cn_auditMsg w') = (if t = AuditMsg_AGGREGATED_PREPARE then AuditMsg_COMMIT else AuditMsg_AGGREGATED_COMMIT)"
proof -
  let ?h = "string_bytes (am_CurHash M0)"
  have t: "t \<noteq> AuditMsg_PHASE_UNSPECIFIED" using target by auto
  have sigs: "sg_Deserialize B (sg_Serialize (key i) (sk_SignByte (key i) ?h)) = Some (sk_SignByte (key i) ?h)" if "i \<in> I" for i
    using laws that by (simp add: aggregation_ok_def)
  have le: "w_NodeID ` set (cn_members w) \<subseteq> I" using I(1) by simp
  have "\<exists>js m ids'. quic_phase L B K ord net (length ([] :: 'b list) + length ([] :: (string \<times> AuditMsg) list) + length (cn_members w))
       cur t evs (map Addr (cn_members w)) (map (Some \<circ> vote_of key cur t) []) [] [] w =
       Some (True, Multisinging K m ([] @ map (\<lambda>i. sk_SignByte (key i) ?h) js)
         (w\<lparr>cn_auditMsg := (cn_auditMsg w)\<lparr>am_HonestAuditors := auditor_list (in_order ord ids')\<rparr>\<rparr>)) \<and>
       mset js = mset (map fst ([] :: (string \<times> AuditMsg) list) @ map w_NodeID (cn_members w)) \<and> distinct ids' \<and>
       set [] \<union> set js \<union> A \<subseteq> set ids' \<and> set ids' \<subseteq> I \<and> core m = core M0 \<and> am_PhaseNum m = t"
    by (rule quic_phase_certifies [OF t ans sigs refl le]) (use I time lead in simp_all)
  then obtain js m ids where r: "quic_phase L B K ord net (length (cn_members w)) cur t evs (map Addr (cn_members w)) [] [] [] w =
       Some (True, Multisinging K m (map (\<lambda>i. sk_SignByte (key i) ?h) js)
         (w\<lparr>cn_auditMsg := (cn_auditMsg w)\<lparr>am_HonestAuditors := auditor_list (in_order ord ids)\<rparr>\<rparr>))"
    and js: "mset js = mset (map w_NodeID (cn_members w))" and ids: "distinct ids" "set js \<union> A \<subseteq> set ids" "set ids \<subseteq> I"
    and m: "core m = core M0" "am_PhaseNum m = t" by auto
  let ?w = "w\<lparr>cn_auditMsg := (cn_auditMsg w)\<lparr>am_HonestAuditors := auditor_list (in_order ord ids)\<rparr>\<rparr>"
  let ?w' = "Multisinging K m (map (\<lambda>i. sk_SignByte (key i) ?h) js) ?w"
  have "set js = I" using js I(1) by (metis set_map set_mset_mset)
  then have v: "set (in_order ord ids) = I" "distinct (in_order ord ids)"
    using ids map_in_order_distinct [of id ord ids] by auto
  have cw: "core (cn_auditMsg w) = core M0" using lead by (simp add: leader_msg_def round_msgs_def)
  have rec: "?w' = w\<lparr>cn_auditMsg := cn_auditMsg ?w'\<rparr>" by (simp add: Multisinging_def aggregateAndSet_def)
  have core: "core (cn_auditMsg ?w') = core M0"
    using cw m target by (auto simp: core_eq_iff Multisinging_def aggregateAndSet_def)
  have aud: "am_HonestAuditors (cn_auditMsg ?w') = auditor_list (in_order ord ids)"
    unfolding Multisinging_fields(2) [OF target m(2)] by simp
  have "leader_msg M0 I I (sg_Serialize K (sg_Aggregate K (map (\<lambda>k. sk_SignByte k ?h) (map key js)))) (cn_auditMsg ?w')"
    unfolding leader_msg_def round_msgs_def
    using core aud v Multisinging_fields(1) [OF target m(2), of K "map (\<lambda>i. sk_SignByte (key i) ?h) js" ?w]
    by (auto simp: voters_auditor_list [OF aud] comp_def)
  then show ?thesis using r rec js Multisinging_fields(4) [OF target m(2)] unfolding ask_members_def by metis
qed

lemma aggregate_verifies:
  assumes laws: "aggregation_ok B K (key ` I)" and js: "mset js = mset all" and all: "all \<noteq> []" "set all = I"
  shows "\<exists>sig. sg_Deserialize B (sg_Serialize K (sg_Aggregate K (map (\<lambda>k. sk_SignByte k h) (map key js)))) = Some sig \<and>
     (\<forall>pks. mset pks = mset (map (pk_Own \<circ> key) all) \<longrightarrow> FastAggregateVerify B sig pks h)"
proof -
  have "set js = I" using js all(2) by (metis set_mset_mset)
  then have ks: "map key js \<noteq> []" "set (map key js) \<subseteq> key ` I" using js all(1) by auto
  have "mset (map pk_Own (map key js)) = mset (map (pk_Own \<circ> key) all)"
    using js by (metis list.map_comp mset_map)
  then show ?thesis using aggregation_use [OF laws ks] by metis
qed

text \<open>
  C13: A round over plain QUIC in which every member, the leader included, can be reached, answers as the code does
  and knows the keys of the others, and every exchange ends in time: whatever the order in which the messages
  are copied and the votes received, every member verifies the aggregate of the first phase before it
  commits, and the leader publishes exactly one block, marked AGGREGATED_COMMIT, with the hash it started
  with, which lists exactly the members, each once, and whose signature verifies for that hash under the
  keys of all members, in any order.
\<close>

theorem quic_round_certified:
  assumes M0_def: "M0 = first_message_quic J K prev userCount w" and I_def: "I = w_NodeID ` set (cn_members w)"
    and members: "distinct (map w_NodeID (cn_members w))" "cn_selfId w \<in> I"
    and honest: "\<forall>mem \<in> set (cn_members w). honest_member L B net Addr key state I mem"
    and streams: "stream_ok L (round_msgs M0 I)" and laws: "aggregation_ok B K (key ` I)"
    and time: "in_time (length (cn_members w)) 0 prepares" "in_time (length (cn_members w)) 0 commits"
  shows "\<exists>w' b ids sig. bftConsensus_quic J L B K ord net Addr prev userCount prepares commits w = Some w' \<and>
     cn_gossip w' = cn_gossip w @ [\<lparr>gsp_Type = 2, gsp_Rndblk = Some b, gsp_StartConsensusTime = cn_startConsensusTime w\<rparr>] \<and>
     am_PhaseNum b = AuditMsg_AGGREGATED_COMMIT \<and> am_CurHash b = am_CurHash M0 \<and>
     am_HonestAuditors b = map (\<lambda>i. Some \<lparr>hon_Id = i\<rparr>) ids \<and> distinct ids \<and> set ids = I \<and>
     sg_Deserialize B (am_Signature b) = Some sig \<and>
     (\<forall>pks. mset pks = mset (map (\<lambda>mem. pk_Own (key (w_NodeID mem))) (cn_members w)) \<longrightarrow>
        FastAggregateVerify B sig pks (string_bytes (am_CurHash b)))"
proof -
  let ?all = "map w_NodeID (cn_members w)" and ?h = "string_bytes (am_CurHash M0)"
  have ne: "cn_members w \<noteq> []" and all: "?all \<noteq> []" "set ?all = I" using members(2) by (auto simp: I_def)
  let ?w0 = "w\<lparr>cn_auditMsg := M0\<rparr>"
  have mem0: "cn_members ?w0 = cn_members w" by simp
  have M0: "leader_msg M0 I {} (am_Signature M0) M0"
    unfolding leader_msg_def round_msgs_def M0_def using members(2)
    by (auto simp: first_message_quic_fields intro: exI [of _ "[cn_selfId w]"])
  have prep: "Submit L net (Addr mem) AuditMsg_PREPARE AuditMsg_AGGREGATED_PREPARE M =
      Some (vote_of key AuditMsg_PREPARE AuditMsg_AGGREGATED_PREPARE (w_NodeID mem, M))"
    if "leader_msg M0 I {} (am_Signature M0) M" "mem \<in> set (cn_members ?w0)" for M mem
    using that honest by (intro Submit_prepare [OF _ streams]) (auto simp: leader_msg_def I_def)
  have "\<exists>w' js. ask_members L B K ord net Addr AuditMsg_PREPARE AuditMsg_AGGREGATED_PREPARE prepares ?w0 = Some (True, w') \<and>
     w' = ?w0\<lparr>cn_auditMsg := cn_auditMsg w'\<rparr> \<and> mset js = mset (map w_NodeID (cn_members ?w0)) \<and>
     leader_msg M0 I I (sg_Serialize K (sg_Aggregate K (map (\<lambda>k. sk_SignByte k ?h) (map key js)))) (cn_auditMsg w') \<and>
     am_PhaseNum (cn_auditMsg w') = (if AuditMsg_AGGREGATED_PREPARE = AuditMsg_AGGREGATED_PREPARE then AuditMsg_COMMIT else AuditMsg_AGGREGATED_COMMIT)"
    by (rule ask_members_certifies [OF _ prep laws]) (use ne time(1) M0 in \<open>simp_all add: I_def\<close>)
  then obtain w1 js where
    p: "ask_members L B K ord net Addr AuditMsg_PREPARE AuditMsg_AGGREGATED_PREPARE prepares ?w0 = Some (True, w1)"
      "w1 = ?w0\<lparr>cn_auditMsg := cn_auditMsg w1\<rparr>" "mset js = mset ?all"
      "leader_msg M0 I I (sg_Serialize K (sg_Aggregate K (map (\<lambda>k. sk_SignByte k ?h) (map key js)))) (cn_auditMsg w1)"
    unfolding mem0 by (elim exE conjE) (rule that; assumption)
  let ?s1 = "sg_Serialize K (sg_Aggregate K (map (\<lambda>k. sk_SignByte k ?h) (map key js)))"
  from aggregate_verifies [OF laws p(3) all] obtain sig1 where sig1: "sg_Deserialize B ?s1 = Some sig1"
    "\<And>pks. mset pks = mset (map (pk_Own \<circ> key) ?all) \<Longrightarrow> FastAggregateVerify B sig1 pks ?h" by blast
  have w1: "cn_members w1 = cn_members w" "cn_gossip w1 = cn_gossip w" "cn_startConsensusTime w1 = cn_startConsensusTime w"
    by (subst p(2), simp)+
  have comm: "Submit L net (Addr mem) AuditMsg_COMMIT AuditMsg_AGGREGATED_COMMIT M =
      Some (vote_of key AuditMsg_COMMIT AuditMsg_AGGREGATED_COMMIT (w_NodeID mem, M))"
    if M: "leader_msg M0 I I ?s1 M" and mem: "mem \<in> set (cn_members w1)" for M mem
  proof (rule Submit_commit [OF _ streams _ _ _ members(1) all(2)])
    show "honest_member L B net Addr key state I mem" "w_NodeID mem \<in> I" using mem honest by (auto simp: w1 I_def)
    show r: "M \<in> round_msgs M0 I" using M by (simp add: leader_msg_def)
    then show "voters [M] = I" using M round_msgs_voters [OF r] by (auto simp: leader_msg_def)
    show "sg_Deserialize B (am_Signature M) = Some sig1" using M sig1(1) by (simp add: leader_msg_def)
    show "FastAggregateVerify B sig1 pks (string_bytes (am_CurHash M))"
      if "mset pks = mset (map (pk_Own \<circ> key) ?all)" for pks
      using sig1(2) [OF that] r by (simp add: round_msgs_def core_eq_iff)
  qed
  have "\<exists>w' js. ask_members L B K ord net Addr AuditMsg_COMMIT AuditMsg_AGGREGATED_COMMIT commits w1 = Some (True, w') \<and>
     w' = w1\<lparr>cn_auditMsg := cn_auditMsg w'\<rparr> \<and> mset js = mset (map w_NodeID (cn_members w1)) \<and>
     leader_msg M0 I I (sg_Serialize K (sg_Aggregate K (map (\<lambda>k. sk_SignByte k ?h) (map key js)))) (cn_auditMsg w') \<and>
     am_PhaseNum (cn_auditMsg w') = (if AuditMsg_AGGREGATED_COMMIT = AuditMsg_AGGREGATED_PREPARE then AuditMsg_COMMIT else AuditMsg_AGGREGATED_COMMIT)"
    by (rule ask_members_certifies [OF _ comm laws]) (use ne time(2) p(4) in \<open>simp_all add: I_def w1\<close>)
  then obtain w2 js2 where
    c: "ask_members L B K ord net Addr AuditMsg_COMMIT AuditMsg_AGGREGATED_COMMIT commits w1 = Some (True, w2)"
      "w2 = w1\<lparr>cn_auditMsg := cn_auditMsg w2\<rparr>" "mset js2 = mset ?all"
      "leader_msg M0 I I (sg_Serialize K (sg_Aggregate K (map (\<lambda>k. sk_SignByte k ?h) (map key js2)))) (cn_auditMsg w2)"
      "am_PhaseNum (cn_auditMsg w2) = AuditMsg_AGGREGATED_COMMIT"
    unfolding w1(1) by (elim exE conjE) (rule that; simp)
  from aggregate_verifies [OF laws c(3) all, of ?h] obtain sig where sig:
    "sg_Deserialize B (am_Signature (cn_auditMsg w2)) = Some sig"
    "\<And>pks. mset pks = mset (map (pk_Own \<circ> key) ?all) \<Longrightarrow> FastAggregateVerify B sig pks ?h"
    using c(4) by (auto simp: leader_msg_def)
  obtain ids where ids: "am_HonestAuditors (cn_auditMsg w2) = auditor_list ids" "distinct ids" "set ids \<subseteq> I" "I \<subseteq> set ids"
    and hash: "am_CurHash (cn_auditMsg w2) = am_CurHash M0"
    using c(4) by (auto simp: leader_msg_def round_msgs_def core_eq_iff voters_auditor_list)
  have w2: "cn_gossip w2 = cn_gossip w" "cn_startConsensusTime w2 = cn_startConsensusTime w"
    by (subst c(2), simp add: w1)+
  let ?b = "(cn_auditMsg w2)\<lparr>am_MerkleRootHash := ''abcdefghijklnmop''\<rparr>"
  have run: "bftConsensus_quic J L B K ord net Addr prev userCount prepares commits w = Some (publish_block w2)"
    unfolding bftConsensus_quic_def Let_def M0_def [symmetric] p(1) by (simp add: c(1))
  show ?thesis
    by (rule exI [of _ "publish_block w2"], rule exI [of _ ?b], rule exI [of _ ids], rule exI [of _ sig])
      (use run sig ids hash c(5) in \<open>auto simp: publish_block_def Let_def w2 auditor_list_def comp_def\<close>)
qed

section \<open>A silent member\<close>

abbreviation reached :: "quic_net \<Rightarrow> string list \<Rightarrow> string list" where
  "reached net addrs \<equiv> filter (\<lambda>a. net (a @ gossipMsgPort) \<noteq> None) addrs"

lemma length_filter_drop_nth:
  assumes "n < length xs"
  shows "length (filter P xs) = length (filter P (drop_nth n xs)) + (if P (xs ! n) then 1 else 0)"
proof -
  have "size (filter_mset P (mset xs)) = size (filter_mset P (add_mset (xs ! n) (mset (drop_nth n xs))))"
    using mset_drop_nth [OF assms] by simp
  then show ?thesis by (simp flip: mset_filter)
qed

lemma quic_phase_short:
  "length sv + length (filter (\<lambda>v. v \<noteq> None) flying) + length (reached net pending) < quorum \<Longrightarrow>
   case quic_phase L B K ord net quorum cur t evs pending flying sv ids w of
     None \<Rightarrow> Deadline \<notin> set evs
   | Some (b, w') \<Rightarrow> \<not> b \<and> Deadline \<in> set evs \<and> (\<exists>as. w' = w\<lparr>cn_auditMsg := (cn_auditMsg w)\<lparr>am_HonestAuditors := as\<rparr>\<rparr>)"
proof (induction evs arbitrary: pending flying sv ids w)
  case (Cons ev evs)
  show ?case
  proof (cases ev)
    case Deadline
    then show ?thesis by (auto intro: exI [of _ "am_HonestAuditors (cn_auditMsg w)"])
  next
    case (Snap n)
    show ?thesis
    proof (cases "n < length pending")
      case True
      let ?v = "Submit L net (pending ! n) cur t (cn_auditMsg w)"
      have "net (pending ! n @ gossipMsgPort) = None \<Longrightarrow> ?v = None" by (simp add: Submit_def)
      then have "length sv + length (filter (\<lambda>v. v \<noteq> None) (flying @ [?v])) + length (reached net (drop_nth n pending)) < quorum"
        using Cons.prems length_filter_drop_nth [OF True, of "\<lambda>a. net (a @ gossipMsgPort) \<noteq> None"] by (auto split: if_splits)
      from Cons.IH [where ids = ids and w = w, OF this] True show ?thesis by (auto simp: Snap split: option.splits)
    next
      case False
      then show ?thesis using Cons.IH [where ids = ids and w = w, OF Cons.prems] by (auto simp: Snap split: option.splits)
    qed
  next
    case (Take n)
    show ?thesis
    proof (cases "n < length flying")
      case True
      note len = length_filter_drop_nth [OF True, of "\<lambda>v. v \<noteq> None"]
      have skip: "length sv + length (filter (\<lambda>v. v \<noteq> None) (drop_nth n flying)) + length (reached net pending) < quorum"
        using Cons.prems len by (simp split: if_splits)
      note IH = Cons.IH [where ids = ids and w = w, OF skip]
      show ?thesis
      proof (cases "flying ! n")
        case None
        then show ?thesis using IH True by (auto simp: Take split: option.splits)
      next
        case (Some m)
        show ?thesis
        proof (cases "am_PhaseNum m = AuditMsg_PHASE_UNSPECIFIED \<or> am_PhaseNum m \<noteq> t \<or> sg_Deserialize B (am_Signature m) = None")
          case True
          then show ?thesis using IH Some \<open>n < length flying\<close> by (auto simp: Take split: option.splits)
        next
          case False
          then obtain sig where sig: "sg_Deserialize B (am_Signature m) = Some sig" and ph: "am_PhaseNum m = t"
            "t \<noteq> AuditMsg_PHASE_UNSPECIFIED" by auto
          let ?ids = "fold add_auditor (am_HonestAuditors m) ids"
          let ?w = "w\<lparr>cn_auditMsg := (cn_auditMsg w)\<lparr>am_HonestAuditors := map (\<lambda>i. Some \<lparr>hon_Id = i\<rparr>) (in_order ord ?ids)\<rparr>\<rparr>"
          have short: "length (sv @ [sig]) + length (filter (\<lambda>v. v \<noteq> None) (drop_nth n flying)) + length (reached net pending) < quorum"
            using Cons.prems len Some by simp
          then have "length sv + 1 \<noteq> quorum" by simp
          with Cons.IH [where ids = ?ids and w = ?w, OF short] sig ph Some \<open>n < length flying\<close> show ?thesis
            by (auto simp: Take Let_def split: option.splits)
        qed
      qed
    next
      case False
      then show ?thesis using Cons.IH [where ids = ids and w = w, OF Cons.prems] by (auto simp: Take split: option.splits)
    qed
  qed
qed simp

lemma ask_members_short:
  assumes "mem \<in> set (cn_members w)" and "net (Addr mem @ gossipMsgPort) = None" and "Deadline \<in> set evs"
  shows "\<exists>as. ask_members L B K ord net Addr cur t evs w =
    Some (False, w\<lparr>cn_auditMsg := (cn_auditMsg w)\<lparr>am_HonestAuditors := as\<rparr>\<rparr>)"
proof -
  have "length (reached net (map Addr (cn_members w))) < length (map Addr (cn_members w))"
    by (rule length_filter_less [of "Addr mem"]) (use assms in auto)
  then have short: "length [] + length (filter (\<lambda>v. v \<noteq> None) []) + length (reached net (map Addr (cn_members w))) < length (cn_members w)"
    by simp
  from quic_phase_short [where L = L and B = B and K = K and ord = ord and cur = cur and t = t and evs = evs and ids = "[]" and w = w, OF short] assms(3) show ?thesis
    by (auto simp: ask_members_def split: option.splits)
qed

text \<open>
  The quorum over plain QUIC is the whole committee, and the outcome is not looked at: when a single member
  cannot be reached, then, whatever the others answer and in whatever order, neither phase succeeds, and when
  the time is up the leader publishes the block all the same, with its own signature only and still marked
  as PREPARE, whichever auditors it lists.
\<close>

theorem silent_member_ignored:
  assumes "mem \<in> set (cn_members w)" and "net (Addr mem @ gossipMsgPort) = None"
    and "Deadline \<in> set prepares" and "Deadline \<in> set commits"
  shows "\<exists>w' b. bftConsensus_quic J L B K ord net Addr prev userCount prepares commits w = Some w' \<and>
     cn_gossip w' = cn_gossip w @ [\<lparr>gsp_Type = 2, gsp_Rndblk = Some b, gsp_StartConsensusTime = cn_startConsensusTime w\<rparr>] \<and>
     am_PhaseNum b = AuditMsg_PREPARE \<and> am_CurHash b = am_CurHash (first_message_quic J K prev userCount w) \<and>
     am_Signature b = sg_Serialize K (sk_SignByte K (string_bytes (am_CurHash b)))"
proof -
  let ?M = "first_message_quic J K prev userCount w"
  let ?w = "\<lambda>as. w\<lparr>cn_auditMsg := ?M\<lparr>am_HonestAuditors := as\<rparr>\<rparr>"
  obtain as where p: "ask_members L B K ord net Addr AuditMsg_PREPARE AuditMsg_AGGREGATED_PREPARE prepares (w\<lparr>cn_auditMsg := ?M\<rparr>) =
      Some (False, ?w as)"
    using ask_members_short [of mem "w\<lparr>cn_auditMsg := ?M\<rparr>" net Addr prepares L B K ord] assms by auto
  obtain as' where c: "ask_members L B K ord net Addr AuditMsg_COMMIT AuditMsg_AGGREGATED_COMMIT commits (?w as) = Some (False, ?w as')"
    using ask_members_short [of mem "?w as" net Addr commits L B K ord] assms by auto
  have "bftConsensus_quic J L B K ord net Addr prev userCount prepares commits w = Some (publish_block (?w as'))"
    unfolding bftConsensus_quic_def Let_def p by (simp add: c)
  then show ?thesis by (simp add: publish_block_def Let_def first_message_quic_def)
qed

section \<open>Two concrete nodes\<close>

text \<open>A text format for the messages of a round of the nodes \<open>a\<close> and \<open>b\<close>, which keeps what a round changes.\<close>

fun put_bytes :: "bytes \<Rightarrow> bytes" where
  "put_bytes [] = [0]"
| "put_bytes (b # bs) = 1 # b # put_bytes bs"

fun take_bytes :: "bytes \<Rightarrow> bytes \<times> bytes" where
  "take_bytes (x # b # ys) = (if x = 0 then ([], b # ys) else let (bs, r) = take_bytes ys in (b # bs, r))"
| "take_bytes xs = ([], [])"

lemma take_put_bytes: "take_bytes (put_bytes bs @ r) = (bs, r)"
  by (induction bs) (cases r; simp)+

definition toy_letter :: "HonestAuditor option \<Rightarrow> byte" where
  "toy_letter a = (if a = Some \<lparr>hon_Id = ''a''\<rparr> then 1 else 2)"

definition toy_auditor :: "byte \<Rightarrow> HonestAuditor option" where
  "toy_auditor b = Some \<lparr>hon_Id = if b = 1 then ''a'' else ''b''\<rparr>"

definition toy_stream :: "AuditMsg \<Rightarrow> stream_lib" where
  "toy_stream M0 = \<lparr>
     st_Encode = (\<lambda>m. Some (put_bytes (am_Signature m) @ put_bytes (map toy_letter (am_HonestAuditors m)) @
       (if am_PhaseNum m < 0 then 1 else 0) # put_bytes (replicate (nat \<bar>am_PhaseNum m\<bar>) 0) @ [10])),
     st_Decode = (\<lambda>bs. let (sig, r) = take_bytes bs; (ls, r) = take_bytes r in
       case r of
         [] \<Rightarrow> None
       | s # r \<Rightarrow> let (p, r) = take_bytes r in
           Some (M0\<lparr>am_Signature := sig, am_HonestAuditors := map toy_auditor ls,
             am_PhaseNum := if s = 1 then - int (length p) else int (length p)\<rparr>, r))\<rparr>"

lemma toy_stream_ok: "stream_ok (toy_stream M0) (round_msgs M0 {''a'', ''b''})"
  unfolding stream_ok_def
proof
  fix m assume "m \<in> round_msgs M0 {''a'', ''b''}"
  then obtain ids where core: "core m = core M0" and ids: "am_HonestAuditors m = auditor_list ids" "set ids \<subseteq> {''a'', ''b''}"
    by (auto simp: round_msgs_def)
  have "toy_auditor (toy_letter (Some \<lparr>hon_Id = i\<rparr>)) = Some \<lparr>hon_Id = i\<rparr>" if "i \<in> set ids" for i
    using ids(2) that by (auto simp: toy_auditor_def toy_letter_def)
  then have as: "map (toy_auditor \<circ> toy_letter) (am_HonestAuditors m) = am_HonestAuditors m"
    by (simp add: ids(1) auditor_list_def comp_def)
  have same: "M0\<lparr>am_Signature := am_Signature m, am_HonestAuditors := am_HonestAuditors m, am_PhaseNum := am_PhaseNum m\<rparr> = m"
    using core unfolding core_eq_iff by (cases m) (cases M0, simp)
  show "\<exists>out rest. st_Encode (toy_stream M0) m = Some out \<and> st_Decode (toy_stream M0) out = Some (m, rest)"
    using same as by (simp add: toy_stream_def take_put_bytes)
qed

definition toy_key :: "string \<Rightarrow> (byte, bytes) bls_keys" where
  "toy_key i = (if i = ''a'' then toy_keys 1 else toy_keys 2)"

definition toy_member :: "string \<Rightarrow> byte CONSENSUSNODE" where
  "toy_member i = (toy_node i [''a'' \<mapsto> 1, ''b'' \<mapsto> 2])\<lparr>cn_members := [wnode_of (demo_node ''a''), wnode_of (demo_node ''b'')]\<rparr>"

definition toy_first :: AuditMsg where
  "toy_first = first_message_quic toy_json (toy_keys 1) None Map.empty (toy_member ''a'')"

definition toy_quic :: quic_net where
  "toy_quic addr =
     (if addr = ''a:4242'' then Some (answered (toy_stream toy_first) toy_bls (toy_key ''a'') (toy_member ''a''))
      else if addr = ''b:4242'' then Some (answered (toy_stream toy_first) toy_bls (toy_key ''b'') (toy_member ''b''))
      else None)"

lemma toy_member_simps [simp]:
  "cn_members (toy_member i) = [wnode_of (demo_node ''a''), wnode_of (demo_node ''b'')]" "cn_selfId (toy_member i) = i"
  "cn_publicKeyMap (toy_member i) = [''a'' \<mapsto> 1, ''b'' \<mapsto> 2]" "cn_gossip (toy_member i) = []"
  "w_NodeID (wnode_of (demo_node i)) = i"
  by (simp_all add: toy_member_def toy_node_def wnode_of_def demo_node_def)

lemma quic_round_certified_witness:
  "\<exists>w' b. bftConsensus_quic toy_json (toy_stream toy_first) toy_bls (toy_keys 1) rev toy_quic w_NodeID None Map.empty
       [Snap 1, Take 0, Snap 0, Take 0] [Snap 0, Snap 0, Take 1, Take 0] (toy_member ''a'') = Some w' \<and>
     map gsp_Rndblk (cn_gossip w') = [Some b] \<and> am_PhaseNum b = AuditMsg_AGGREGATED_COMMIT \<and> mset (am_Signature b) = {#1, 2#}"
proof -
  have keys: "toy_key ` {''a'', ''b''} \<subseteq> range toy_keys" by (auto simp: toy_key_def)
  have "\<exists>w' b ids sig. bftConsensus_quic toy_json (toy_stream toy_first) toy_bls (toy_keys 1) rev toy_quic w_NodeID None Map.empty
       [Snap 1, Take 0, Snap 0, Take 0] [Snap 0, Snap 0, Take 1, Take 0] (toy_member ''a'') = Some w' \<and>
     cn_gossip w' = cn_gossip (toy_member ''a'') @ [\<lparr>gsp_Type = 2, gsp_Rndblk = Some b,
       gsp_StartConsensusTime = cn_startConsensusTime (toy_member ''a'')\<rparr>] \<and>
     am_PhaseNum b = AuditMsg_AGGREGATED_COMMIT \<and> am_CurHash b = am_CurHash toy_first \<and>
     am_HonestAuditors b = map (\<lambda>i. Some \<lparr>hon_Id = i\<rparr>) ids \<and> distinct ids \<and> set ids = {''a'', ''b''} \<and>
     sg_Deserialize toy_bls (am_Signature b) = Some sig \<and>
     (\<forall>pks. mset pks = mset (map (\<lambda>mem. pk_Own (toy_key (w_NodeID mem))) (cn_members (toy_member ''a''))) \<longrightarrow>
        FastAggregateVerify toy_bls sig pks (string_bytes (am_CurHash b)))"
  proof (rule quic_round_certified [where state = toy_member])
    show "stream_ok (toy_stream toy_first) (round_msgs toy_first {''a'', ''b''})" by (rule toy_stream_ok)
    show "aggregation_ok toy_bls (toy_keys 1) (toy_key ` {''a'', ''b''})"
      by (rule aggregation_ok_mono [OF toy_aggregation keys])
    show "\<forall>mem \<in> set (cn_members (toy_member ''a'')). honest_member (toy_stream toy_first) toy_bls toy_quic w_NodeID toy_key
        toy_member {''a'', ''b''} mem"
      by (auto simp: honest_member_def toy_quic_def gossipMsgPort_def toy_key_def toy_keys_def inj_on_def)
    show "toy_first = first_message_quic toy_json (toy_keys 1) None Map.empty (toy_member ''a'')" by (rule toy_first_def)
  qed simp_all
  then obtain w' b sig where r: "bftConsensus_quic toy_json (toy_stream toy_first) toy_bls (toy_keys 1) rev toy_quic w_NodeID None Map.empty
       [Snap 1, Take 0, Snap 0, Take 0] [Snap 0, Snap 0, Take 1, Take 0] (toy_member ''a'') = Some w'"
    "map gsp_Rndblk (cn_gossip w') = [Some b]" "am_PhaseNum b = AuditMsg_AGGREGATED_COMMIT"
    and sig: "sg_Deserialize toy_bls (am_Signature b) = Some sig"
      "\<forall>pks. mset pks = mset (map (\<lambda>mem. pk_Own (toy_key (w_NodeID mem))) (cn_members (toy_member ''a''))) \<longrightarrow>
        FastAggregateVerify toy_bls sig pks (string_bytes (am_CurHash b))"
    by (elim exE conjE) (rule that, assumption, simp, assumption+)
  have "FastAggregateVerify toy_bls sig [1, 2] (string_bytes (am_CurHash b))"
    by (rule sig(2) [rule_format]) (simp add: toy_key_def toy_keys_def)
  moreover have "sig = am_Signature b" using sig(1) by (simp add: toy_bls_def)
  ultimately have "mset (am_Signature b) = {#1, 2#}" by (simp add: toy_bls_def)
  with r show ?thesis by (intro exI conjI)
qed

lemma silent_member_ignored_witness:
  "\<exists>w' b. bftConsensus_quic toy_json (toy_stream toy_first) toy_bls (toy_keys 1) id (\<lambda>addr. if addr = ''b:4242'' then None else toy_quic addr)
       w_NodeID None Map.empty [Snap 0, Take 0, Deadline] [Snap 1, Deadline] (toy_member ''a'') = Some w' \<and>
     map gsp_Rndblk (cn_gossip w') = [Some b] \<and> am_PhaseNum b = AuditMsg_PREPARE \<and> am_Signature b = [1]"
proof -
  let ?net = "\<lambda>addr. if addr = ''b:4242'' then None else toy_quic addr"
  have m: "wnode_of (demo_node ''b'') \<in> set (cn_members (toy_member ''a''))"
    "?net (w_NodeID (wnode_of (demo_node ''b'')) @ gossipMsgPort) = None"
    "Deadline \<in> set [Snap 0, Take 0, Deadline]" "Deadline \<in> set [Snap 1, Deadline]"
    by (simp_all add: gossipMsgPort_def)
  from silent_member_ignored [where net = ?net and Addr = w_NodeID, OF m, of toy_json "toy_stream toy_first" toy_bls "toy_keys 1" id None Map.empty]
  show ?thesis by (elim exE conjE) (auto simp: toy_keys_def)
qed

lemma toy_lib_simps:
  "FastAggregateVerify toy_bls sig pks m \<longleftrightarrow> mset sig = mset pks" "sg_Deserialize toy_bls bs = Some bs"
  "pk_Serialize (toy_keys b) pk = [pk]"
  by (simp_all add: toy_bls_def toy_keys_def)

lemma toy_stream_decodes:
  assumes "m \<in> round_msgs M0 {''a'', ''b''}"
  shows "\<exists>rest. st_Decode (toy_stream M0) (the (st_Encode (toy_stream M0) m)) = Some (m, rest)"
  using toy_stream_ok [of M0] assms unfolding stream_ok_def by (metis option.sel)

definition toy_commit :: "bytes \<Rightarrow> AuditMsg" where
  "toy_commit sig = toy_first\<lparr>am_PhaseNum := AuditMsg_COMMIT, am_Signature := sig\<rparr>"

lemma toy_commit_fields [simp]:
  "am_PhaseNum (toy_commit sig) = AuditMsg_COMMIT" "am_Signature (toy_commit sig) = sig"
  "am_HonestAuditors (toy_commit sig) = [Some \<lparr>hon_Id = ''a''\<rparr>]"
  by (simp_all add: toy_commit_def toy_first_def first_message_quic_fields auditor_list_def)

lemma commit_verified_quic_witness:
  "StreamHandler (toy_stream toy_first) toy_bls (toy_keys 2) (the (st_Encode (toy_stream toy_first) (toy_commit [1]))) (toy_member ''b'') =
     Some (Inr (sendResponse (toy_stream toy_first) (toy_keys 2) AuditMsg_AGGREGATED_COMMIT (toy_commit [1]) (toy_member ''b''), (toy_member ''b'')\<lparr>cn_pubVec := [1]\<rparr>)) \<and>
   StreamHandler (toy_stream toy_first) toy_bls (toy_keys 2) (the (st_Encode (toy_stream toy_first) (toy_commit [2]))) (toy_member ''b'') =
     Some (Inr (sendResponse (toy_stream toy_first) (toy_keys 2) AuditMsg_PHASE_UNSPECIFIED (toy_commit [2]) (toy_member ''b''), (toy_member ''b'')\<lparr>cn_pubVec := [1]\<rparr>))"
proof -
  have "toy_commit sig \<in> round_msgs toy_first {''a'', ''b''}" for sig
  proof -
    have "core (toy_commit sig) = core toy_first" by (simp add: toy_commit_def)
    then show ?thesis unfolding round_msgs_def by (auto intro!: exI [of _ "[''a'']"] simp: auditor_list_def)
  qed
  from toy_stream_decodes [OF this] obtain rest where
    "st_Decode (toy_stream toy_first) (the (st_Encode (toy_stream toy_first) (toy_commit sig))) = Some (toy_commit sig, rest sig)" for sig
    by metis
  note run = commit_verified_quic [where B = toy_bls and K = "toy_keys 2" and w = "toy_member ''b''", OF this toy_commit_fields(1)]
  have answer: "StreamHandler (toy_stream toy_first) toy_bls (toy_keys 2) (the (st_Encode (toy_stream toy_first) (toy_commit sig))) (toy_member ''b'') =
       Some (Inr (sendResponse (toy_stream toy_first) (toy_keys 2)
         (if sig = [1] then AuditMsg_AGGREGATED_COMMIT else AuditMsg_PHASE_UNSPECIFIED) (toy_commit sig) (toy_member ''b''),
         (toy_member ''b'')\<lparr>cn_pubVec := [1]\<rparr>))" for sig
  proof -
    have "None \<notin> set (am_HonestAuditors (toy_commit sig))" by simp
    with run [of sig] obtain pks t where
      c: "collect_keys (toy_keys 2) (cn_publicKeyMap (toy_member ''b'')) (am_HonestAuditors (toy_commit sig)) [] = Inr pks"
        "StreamHandler (toy_stream toy_first) toy_bls (toy_keys 2) (the (st_Encode (toy_stream toy_first) (toy_commit sig))) (toy_member ''b'') =
         Some (Inr (sendResponse (toy_stream toy_first) (toy_keys 2) t (toy_commit sig) (toy_member ''b''), (toy_member ''b'')\<lparr>cn_pubVec := pks\<rparr>))"
        "t = AuditMsg_AGGREGATED_COMMIT \<longleftrightarrow> (\<exists>s. sg_Deserialize toy_bls (am_Signature (toy_commit sig)) = Some s \<and>
            FastAggregateVerify toy_bls s pks (string_bytes (am_CurHash (toy_commit sig))))"
        "t \<noteq> AuditMsg_AGGREGATED_COMMIT \<longrightarrow> t = AuditMsg_PHASE_UNSPECIFIED"
      by metis
    have "pks = [1]" using c(1) by (simp add: toy_lib_simps)
    then have "t = (if sig = [1] then AuditMsg_AGGREGATED_COMMIT else AuditMsg_PHASE_UNSPECIFIED)"
      using c(3,4) by (simp add: toy_lib_simps split: if_splits)
    then show ?thesis using c(2) \<open>pks = [1]\<close> by simp
  qed
  show ?thesis using answer [of "[1]"] answer [of "[2]"] by simp
qed

end
