(* ===== verification/Pu_Stop.thy ===== *)
theory Pu_Stop
  imports Pu_Wf
begin

text \<open>
  The handler of a request that several peers serve (\<open>SendBlockData\<close>, \<open>puctrl_handler.go\<close>) at the granularity
  of its reads and writes of \<open>chStopTransmission\<close>: it looks whether there is a channel, closes it, makes a new one and
  starts the transmission with the channel it then finds, without a lock, and every session has a goroutine of its own
  that handles its packets. \<open>SendBlockData\<close> is what the four steps do when nothing comes between them. All other operations
  are steps as in \<open>Pu_Wf\<close>, run to their end.
\<close>

section \<open>The steps of a request\<close>

datatype request_pc = Checking | Closing | Making | Starting

abbreviation closed_again :: panic where
  "closed_again \<equiv> Explicit ''close of closed channel''"

text \<open>The next step of the handler, and the controller after it; nothing is left after the last. To close a channel twice, or
  one that is nil, panics. (The last step finds a channel, since \<open>Making\<close> has set one and nothing sets it to nil.)\<close>

fun request_step :: "u32 \<Rightarrow> BlockRequestPacket \<Rightarrow> request_pc \<Rightarrow> PuCtrl \<Rightarrow> (request_pc option \<times> PuCtrl) go" where
  "request_step sessionID pkt Checking p =
     Inr (Some (if pu_chStopTransmission p \<noteq> None then Closing else Making), p)"
| "request_step sessionID pkt Closing p =
     (case pu_chStopTransmission p of
        None \<Rightarrow> Inl (Explicit ''close of nil channel'')
      | Some c \<Rightarrow>
          if c \<in> set (pu_stopped p) then Inl closed_again
          else Inr (Some Making, p\<lparr>pu_stopped := c # pu_stopped p\<rparr>))"
| "request_step sessionID pkt Making p =
     Inr (Some Starting, p\<lparr>pu_chStopTransmission := Some (pu_nextStop p), pu_nextStop := pu_nextStop p + 1\<rparr>)"
| "request_step sessionID pkt Starting p =
     (let pullMode = getPullMode (breq_MpInfo pkt);
          (numBlockOwners, peerId) = getPeerInfo (breq_MpInfo pkt)
      in Inr (None,
           if pullMode = PULL_MODE_MP then
             go_task (SendMP sessionID pkt 0 (pass_start (breq_StartDataNumber pkt) numBlockOwners peerId 0)) p
           else if pullMode = PULL_MODE_MP_FEC then
             (case pu_chStopTransmission p of None \<Rightarrow> p | Some stop \<Rightarrow> go_task (EncodeFEC sessionID pkt stop) p)
           else p))"

text \<open>The handler from a step on, when nothing comes between.\<close>

fun request_rest :: "nat \<Rightarrow> u32 \<Rightarrow> BlockRequestPacket \<Rightarrow> request_pc \<Rightarrow> PuCtrl \<Rightarrow> PuCtrl go" where
  "request_rest 0 sessionID pkt pc p = Inr p"
| "request_rest (Suc n) sessionID pkt pc p =
     go_bind (request_step sessionID pkt pc p) (\<lambda>(pc', q).
       case pc' of None \<Rightarrow> Inr q | Some pc' \<Rightarrow> request_rest n sessionID pkt pc' q)"

lemma SendBlockData_uninterrupted:
  assumes "breq_MpInfo pkt \<noteq> 0" and "\<And>c. pu_chStopTransmission p = Some c \<Longrightarrow> c \<notin> set (pu_stopped p)"
  shows "request_rest 4 sid pkt Checking p = Inr (SendBlockData sid pkt p)"
  using assms by (cases "pu_chStopTransmission p")
    (simp_all add: numeral_eq_Suc SendBlockData_def stop_existing_def Let_def split: prod.split)

section \<open>Handlers beside each other\<close>

type_synonym request = "request_pc \<times> u32 \<times> BlockRequestPacket"

text \<open>A controller, and the handlers that are under way.\<close>

inductive pu_step ::
    "(string \<Rightarrow> ip option) \<Rightarrow> (string \<Rightarrow> bool) \<Rightarrow> (string \<Rightarrow> string \<Rightarrow> u32 option) \<Rightarrow> fec_lib \<Rightarrow> Config \<Rightarrow>
     PuCtrl \<times> request list \<Rightarrow> PuCtrl \<times> request list \<Rightarrow> bool"
  for v6 run dial F C where
  other: "ctrl_step v6 run dial F C p q \<Longrightarrow> pu_step v6 run dial F C (p, hs) (q, hs)"
| requested: "stops_transmission (InBlockRequest pkt) \<Longrightarrow>
    pu_step v6 run dial F C (p, hs) (p, hs @ [(Checking, sid, pkt)])"
| proceeds: "request_step sid pkt pc p = Inr (Some pc', q) \<Longrightarrow>
    pu_step v6 run dial F C (p, hs @ (pc, sid, pkt) # hs') (q, hs @ (pc', sid, pkt) # hs')"
| returns: "request_step sid pkt pc p = Inr (None, q) \<Longrightarrow>
    pu_step v6 run dial F C (p, hs @ (pc, sid, pkt) # hs') (q, hs @ hs')"

lemma request_step_wf:
  assumes "request_step sid pkt pc p = Inr (pc', q)" and "ctrl_wf p"
  shows "ctrl_wf q"
proof -
  have upd: "ctrl_wf (p\<lparr>pu_stopped := c # pu_stopped p\<rparr>)" if "pu_chStopTransmission p = Some c" for c
    using assms(2) that by (simp add: ctrl_wf_def stop_wf_def)
  have new: "ctrl_wf (p\<lparr>pu_chStopTransmission := Some (pu_nextStop p), pu_nextStop := Suc (pu_nextStop p)\<rparr>)"
    using assms(2) by (auto simp: ctrl_wf_def stop_wf_def less_Suc_eq)
  show ?thesis
    using assms upd new by (cases pc) (auto simp: Let_def split: option.splits if_splits prod.splits)
qed

interpretation pu: machine "pu_step v6 run dial F C" "\<lambda>s. ctrl_wf (fst s)" for v6 run dial F C
proof
  fix s t assume "ctrl_wf (fst s)" "pu_step v6 run dial F C s t"
  from this(2,1) show "ctrl_wf (fst t)"
    by cases (auto intro: request_step_wf controller.inv_step)
qed

text \<open>
  C19: Whatever a controller does from its creation on: its session map has
  each session once and under its own ID, and its channels and its semaphores hold no more than their
  capacity (one FIN, one FIN ACK, ten messages per listener). The handlers of requests that several peers serve may
  interleave with each other and with everything else between their steps; every other operation and every iteration of a
  goroutine runs to its end as one step, in any order.
\<close>

theorem controller_well_formed:
  assumes "(pu_step v6 run dial F C)\<^sup>*\<^sup>* (CreatePuCtrl peerID, []) (p, hs)"
  shows "distinct (map fst (pu_sessionMap p)) \<and>
    (\<forall>k s. gm_get (pu_sessionMap p) k = Some s \<longrightarrow> ps_sessionID s = k) \<and>
    length (ch_buf (pu_chFinReceived p)) \<le> 1 \<and> length (ch_buf (pu_chFinAckReceived p)) \<le> 1 \<and>
    (\<forall>c. pu_semPush p = Some c \<longrightarrow> length (ch_buf c) \<le> ch_cap c) \<and>
    (\<forall>c. pu_semPull p = Some c \<longrightarrow> length (ch_buf c) \<le> ch_cap c) \<and>
    (\<forall>l \<in> set (pu_AuditBroadcaster p). length (ch_buf l) \<le> 10)"
proof -
  have wf: "ctrl_wf p" using pu.inv_steps [OF assms] CreatePuCtrl_wf by simp
  have "ps_sessionID s = k" if "gm_get (pu_sessionMap p) k = Some s" for k s
    using wf sessions_wf_get that unfolding ctrl_wf_def by blast
  then show ?thesis
    using wf by (simp add: ctrl_wf_def sessions_wf_def gm_ok_def chan_wf_def sem_wf_def split: option.splits)
qed

section \<open>Two requests at once\<close>

text \<open>Two handlers that both find the channel of the running transmission: the second one to close it panics.\<close>

lemma both_close:
  assumes "pu_chStopTransmission p = Some c" and "c \<notin> set (pu_stopped p)"
  shows "\<exists>q. (pu_step v6 run dial F C)\<^sup>*\<^sup>* (p, [(Checking, s1, k1), (Checking, s2, k2)]) (q, [(Making, s1, k1), (Closing, s2, k2)]) \<and>
    request_step s2 k2 Closing q = Inl closed_again"
proof -
  let ?S = "pu_step v6 run dial F C" and ?q = "p\<lparr>pu_stopped := c # pu_stopped p\<rparr>"
  have "?S (p, [(Checking, s1, k1), (Checking, s2, k2)]) (p, [(Closing, s1, k1), (Checking, s2, k2)])"
    using proceeds [of s1 k1 Checking p Closing p v6 run dial F C "[]" "[(Checking, s2, k2)]"] assms by simp
  moreover have "?S (p, [(Closing, s1, k1), (Checking, s2, k2)]) (p, [(Closing, s1, k1), (Closing, s2, k2)])"
    using proceeds [of s2 k2 Checking p Closing p v6 run dial F C "[(Closing, s1, k1)]" "[]"] assms by simp
  moreover have "?S (p, [(Closing, s1, k1), (Closing, s2, k2)]) (?q, [(Making, s1, k1), (Closing, s2, k2)])"
    using proceeds [of s1 k1 Closing p Making ?q v6 run dial F C "[]" "[(Closing, s2, k2)]"] assms by simp
  ultimately have "?S\<^sup>*\<^sup>* (p, [(Checking, s1, k1), (Checking, s2, k2)]) (?q, [(Making, s1, k1), (Closing, s2, k2)])"
    by (meson rtranclp.rtrancl_into_rtrancl rtranclp.rtrancl_refl)
  moreover have "request_step s2 k2 Closing ?q = Inl closed_again" using assms by simp
  ultimately show ?thesis by blast
qed

text \<open>A controller with two sessions serves a request, and gets two more at once.\<close>

definition demo_request :: BlockRequestPacket where
  "demo_request = CreateBlockRequestPacket 1 0 1 (setPullModePeerInfo PULL_MODE_MP 2 + 1) 0"

definition demo_pulled :: PuCtrl where
  "demo_pulled = Accept tiny_config (session_info PULL_SESSION 8) (Accept tiny_config (session_info PULL_SESSION 7) (CreatePuCtrl 1))"

abbreviation demo_pu_step :: "PuCtrl \<times> request list \<Rightarrow> PuCtrl \<times> request list \<Rightarrow> bool" where
  "demo_pu_step \<equiv> pu_step (\<lambda>_. None) (\<lambda>_. True) (\<lambda>_ _. None) no_fec tiny_config"

lemma demo_requests: "breq_MpInfo demo_request \<noteq> 0" "getPullMode (breq_MpInfo demo_request) = PULL_MODE_MP"
  by code_simp+

lemma demo_pulled_fields: "pu_chStopTransmission demo_pulled = None" "pu_stopped demo_pulled = []" "pu_nextStop demo_pulled = 0"
  "pu_sessionMap demo_pulled \<noteq> []"
  by (simp_all add: demo_pulled_def Accept_def CreatePuSession_def CreatePuCtrl_def Let_def gm_put_def split: prod.split)

lemma demo_served:
  "demo_pu_step\<^sup>*\<^sup>* (CreatePuCtrl 1, []) (SendBlockData 7 demo_request demo_pulled, [])"
  "pu_chStopTransmission (SendBlockData 7 demo_request demo_pulled) = Some 0"
  "pu_stopped (SendBlockData 7 demo_request demo_pulled) = []" "pu_sessionMap (SendBlockData 7 demo_request demo_pulled) \<noteq> []"
proof -
  let ?r = "\<lambda>pc. (pc, 7, demo_request)" and ?p = demo_pulled and ?q = "SendBlockData 7 demo_request demo_pulled"
  let ?m = "?p\<lparr>pu_chStopTransmission := Some 0, pu_nextStop := 1\<rparr>"
  have m: "?p\<lparr>pu_stopped := [], pu_chStopTransmission := Some 0, pu_nextStop := Suc 0\<rparr> = ?m"
    by (rule PuCtrl.equality) (simp_all add: demo_pulled_fields)
  have "demo_pu_step (CreatePuCtrl 1, []) (Accept tiny_config (session_info PULL_SESSION 7) (CreatePuCtrl 1), [])"
    "demo_pu_step (Accept tiny_config (session_info PULL_SESSION 7) (CreatePuCtrl 1), []) (?p, [])"
    unfolding demo_pulled_def by (intro pu_step.other ctrl_step.accepts)+
  moreover have "demo_pu_step (?p, []) (?p, [?r Checking])"
    using pu_step.requested [where hs = "[]" and sid = 7 and pkt = demo_request] demo_requests(1)
    by (simp add: stops_transmission_def)
  moreover have "demo_pu_step (?p, [?r Checking]) (?p, [?r Making])"
    using pu_step.proceeds [where hs = "[]" and hs' = "[]" and pc = Checking and p = ?p and sid = 7 and pkt = demo_request]
    by (simp add: demo_pulled_fields)
  moreover have "demo_pu_step (?p, [?r Making]) (?m, [?r Starting])"
    using pu_step.proceeds [where hs = "[]" and hs' = "[]" and pc = Making and p = ?p and sid = 7 and pkt = demo_request]
    by (simp add: demo_pulled_fields)
  moreover have "request_step 7 demo_request Starting ?m = Inr (None, ?q)"
    by (simp add: SendBlockData_def stop_existing_def Let_def demo_requests demo_pulled_fields m [simplified] split: prod.split)
  then have "demo_pu_step (?m, [?r Starting]) (?q, [])"
    using pu_step.returns [where hs = "[]" and hs' = "[]" and pc = Starting and p = ?m and q = ?q and sid = 7 and pkt = demo_request]
    by simp
  ultimately show "demo_pu_step\<^sup>*\<^sup>* (CreatePuCtrl 1, []) (?q, [])"
    by (meson rtranclp.rtrancl_into_rtrancl rtranclp.rtrancl_refl)
  show "pu_chStopTransmission ?q = Some 0" "pu_stopped ?q = []" "pu_sessionMap ?q \<noteq> []"
    by (simp_all add: SendBlockData_def stop_existing_def Let_def demo_requests demo_pulled_fields go_task_def split: prod.split)
qed

lemma demo_requested: "demo_pu_step (p, hs) (p, hs @ [(Checking, sid, demo_request)])"
  using pu_step.requested [of demo_request] demo_requests(1) by (simp add: stops_transmission_def)

text \<open>So the panic is in a run of a controller from its creation on.\<close>

lemma concurrent_requests_panic:
  "\<exists>q. demo_pu_step\<^sup>*\<^sup>* (CreatePuCtrl 1, []) (q, [(Making, 7, demo_request), (Closing, 8, demo_request)]) \<and>
    request_step 8 demo_request Closing q = Inl closed_again"
proof -
  let ?p = "SendBlockData 7 demo_request demo_pulled"
  have "demo_pu_step (?p, []) (?p, [(Checking, 7, demo_request)])"
    "demo_pu_step (?p, [(Checking, 7, demo_request)]) (?p, [(Checking, 7, demo_request), (Checking, 8, demo_request)])"
    using demo_requested [of _ "[]"] demo_requested [of _ "[(Checking, 7, demo_request)]"] by simp_all
  with demo_served(1) have "demo_pu_step\<^sup>*\<^sup>* (CreatePuCtrl 1, []) (?p, [(Checking, 7, demo_request), (Checking, 8, demo_request)])"
    by (meson rtranclp.rtrancl_into_rtrancl)
  moreover from both_close [OF demo_served(2), of "\<lambda>_. None" "\<lambda>_. True" "\<lambda>_ _. None" no_fec tiny_config 7 demo_request 8 demo_request]
  obtain q where "demo_pu_step\<^sup>*\<^sup>* (?p, [(Checking, 7, demo_request), (Checking, 8, demo_request)])
      (q, [(Making, 7, demo_request), (Closing, 8, demo_request)])" "request_step 8 demo_request Closing q = Inl closed_again"
    by (auto simp: demo_served(3))
  ultimately show ?thesis by (meson rtranclp_trans)
qed

theorem controller_well_formed_witness:
  "\<exists>p hs. demo_pu_step\<^sup>*\<^sup>* (CreatePuCtrl 1, []) (p, hs) \<and>
    p = SendBlockData 7 demo_request demo_pulled \<and> pu_sessionMap p \<noteq> [] \<and>
    distinct (map fst (pu_sessionMap p)) \<and> length (ch_buf (pu_chFinReceived p)) \<le> 1"
  using demo_served(1,4) controller_well_formed [OF demo_served(1)] by blast

end
