(* ===== verification/Processor_Run.thy ===== *)
theory Processor_Run
  imports Ordering
begin

text \<open>
  The processor between its topics: \<open>process\<close> of \<open>kafka/processor/processor.go\<close>, which loops every message back to
  the processor, and \<open>loopProcess\<close> on what comes back. The loop topic has several partitions, and the
  messages of different partitions come in no order; one batch is handled at a time. What a run has taken in,
  looped back and emitted, and the collection of abort counts, is the state.
\<close>

text \<open>The message that \<open>Loopback\<close> sends: its key is the offset of the message that came in.\<close>

definition process :: "int \<Rightarrow> bytes \<Rightarrow> string \<times> bytes" where
  "process offset msg = (Itoa offset, msg)"

record 'e processor =
  pr_in :: "(int \<times> bytes) list"
  pr_loop :: "(string \<times> bytes) list"
  pr_out :: "'e emit list"
  pr_docs :: docs

text \<open>A message comes in, or one that was looped back is handled. When a handler panics the process ends, and
  there is no step.\<close>

inductive processor_step :: "'e wire_lib \<Rightarrow> mongo \<Rightarrow> 'e processor \<Rightarrow> 'e processor \<Rightarrow> bool" for L upd where
  take_in: "pr_in st = (offset, msg) # ms \<Longrightarrow>
    processor_step L upd st (st\<lparr>pr_in := ms, pr_loop := pr_loop st @ [process offset msg]\<rparr>)"
| batch: "pr_loop st = xs @ (k, msg) # ys \<Longrightarrow> loopProcess L upd ordM ordU ordN msg (pr_docs st) = Inr (ems, ds) \<Longrightarrow>
    processor_step L upd st (st\<lparr>pr_loop := xs @ ys, pr_out := pr_out st @ ems, pr_docs := ds\<rparr>)"

definition processor_start :: "(int \<times> bytes) list \<Rightarrow> docs \<Rightarrow> 'e processor" where
  "processor_start ms ds = \<lparr>pr_in = ms, pr_loop = [], pr_out = [], pr_docs = ds\<rparr>"

end
