(* ===== verification/Run_Props.thy ===== *)
theory Run_Props
  imports Processor_Run Ordering_Props Interfaces
begin

text \<open>
  From the messages that come in to those that are emitted: what \<open>loopProcess\<close> does with a message whose
  envelopes decode, a run over any messages in any order, and an envelope that cannot be read.
\<close>

section \<open>Reading a message\<close>

text \<open>The envelopes of a message.\<close>

definition envelopes_in :: "'e wire_lib \<Rightarrow> bytes \<Rightarrow> 'e list option" where
  "envelopes_in L msg = (case wl_batch L msg of None \<Rightarrow> None | Some batch \<Rightarrow> those (map (wl_envelope L) batch))"

text \<open>An envelope with one action, whose keys are in the range of the conflict matrix, and which has a user
  when it is urgent.\<close>

definition readable :: "'e wire_lib \<Rightarrow> 'e \<Rightarrow> bool" where
  "readable L e \<longleftrightarrow> (\<exists>nss. wl_actions L e = Inr [Some nss] \<and>
     keys_ok 10000 (read_action 0 nss) \<and> (tx_Urgency (read_action 0 nss) \<longrightarrow> tx_User (read_action 0 nss) \<noteq> []))"

definition good_message :: "'e wire_lib \<Rightarrow> bytes \<Rightarrow> bool" where
  "good_message L msg \<longleftrightarrow> (\<exists>es. envelopes_in L msg = Some es \<and> (length es = 1 \<or> (\<forall>e \<in> set es. readable L e)))"

lemma those_Some_go_map:
  "those (map f xs) = Some ys \<Longrightarrow> go_map (\<lambda>x. case f x of None \<Rightarrow> Inl e | Some y \<Rightarrow> Inr y) xs = Inr ys"
  by (induction xs arbitrary: ys) (auto split: option.splits)

lemma loopProcess_decoded:
  assumes "envelopes_in L msg = Some es"
  shows "loopProcess L upd ordM ordU ordN msg ds =
    (if length es = 1 then Inr ([EmitCommit es], ds)
     else go_bind (read_batch L es) (\<lambda>(metas, originals). process_batch upd ordM ordU ordN metas originals ds))"
proof -
  obtain batch where b: "wl_batch L msg = Some batch" and t: "those (map (wl_envelope L) batch) = Some es"
    using assms by (auto simp: envelopes_in_def split: option.splits)
  show ?thesis unfolding loopProcess_def b by (simp add: those_Some_go_map [OF t])
qed

text \<open>The index does not enter what else is read.\<close>

lemma add_read_index: "add_read key (meta\<lparr>tx_Index := i\<rparr>, found) = apfst (tx_Index_update (\<lambda>_. i)) (add_read key (meta, found))"
  by (simp add: add_read_def Let_def)

lemma add_write_index: "add_write x (meta\<lparr>tx_Index := i\<rparr>, found) = apfst (tx_Index_update (\<lambda>_. i)) (add_write x (meta, found))"
  by (simp add: add_write_def Let_def)

lemma fold_apfst:
  "(\<And>x m b. x \<in> set xs \<Longrightarrow> f x (g m, b) = apfst g (f x (m, b))) \<Longrightarrow> fold f xs (g m, b) = apfst g (fold f xs (m, b))"
proof (induction xs arbitrary: m b)
  case (Cons x xs)
  obtain m' b' where f: "f x (m, b) = (m', b')" by (cases "f x (m, b)")
  then have "f x (g m, b) = (g m', b')" using Cons.prems [of x] by simp
  then show ?case using Cons.IH [of m' b'] Cons.prems f by simp
qed simp

lemma read_action_index: "read_action i nss = (read_action 0 nss)\<lparr>tx_Index := int i\<rparr>"
proof -
  let ?f = "\<lambda>ns st. fold add_write (ns_Writes ns) (fold add_read (ns_Reads ns) st)"
  let ?g = "tx_Index_update (\<lambda>_. int i)"
  have "?f ns (?g m, b) = apfst ?g (?f ns (m, b))" for ns m b
  proof -
    obtain m' b' where r: "fold add_read (ns_Reads ns) (m, b) = (m', b')" by (cases "fold add_read (ns_Reads ns) (m, b)")
    have "fold add_read (ns_Reads ns) (?g m, b) = apfst ?g (fold add_read (ns_Reads ns) (m, b))"
      by (rule fold_apfst) (rule add_read_index)
    moreover have "fold add_write (ns_Writes ns) (?g m', b') = apfst ?g (fold add_write (ns_Writes ns) (m', b'))"
      by (rule fold_apfst) (rule add_write_index)
    ultimately show ?thesis using r by simp
  qed
  then have "fold ?f nss (?g m, b) = apfst ?g (fold ?f nss (m, b))" for m b
    by (rule fold_apfst)
  from this [of "\<lparr>tx_Index = 0, tx_User = [], tx_Reads = [], tx_Writes = [], tx_Urgency = False\<rparr>" False]
  show ?thesis by (simp add: read_action_def)
qed

lemma keys_ok_index [simp]: "keys_ok n (tx\<lparr>tx_Index := i\<rparr>) = keys_ok n tx"
  by (simp add: keys_ok_def)

text \<open>The entries that envelopes with these actions give, from a position on.\<close>

definition metas_from :: "nat \<Rightarrow> NsRwSet list list \<Rightarrow> TxMeta list" where
  "metas_from n nsss = map (\<lambda>(i, nss). read_action i nss) (enumerate n nsss)"

lemma metas_from_Cons: "metas_from n (nss # nsss) = read_action n nss # metas_from (Suc n) nsss"
  by (simp add: metas_from_def)

lemma length_metas_from [simp]: "length (metas_from n nsss) = length nsss"
  by (simp add: metas_from_def)

lemma read_batch_from:
  "list_all2 (\<lambda>e nss. wl_actions L e = Inr [Some nss]) es nsss \<Longrightarrow>
   go_fold (read_envelope L) (enumerate n es) (metas, originals) = Inr (metas @ metas_from n nsss, originals @ es)"
proof (induction arbitrary: n metas originals rule: list_all2_induct)
  case Nil
  then show ?case by (simp add: metas_from_def)
next
  case (Cons e es nss nsss)
  then show ?case by (simp add: read_envelope_def metas_from_Cons)
qed

lemma metas_from_index: "map tx_Index (metas_from n nsss) = map int [n..<n + length nsss]"
proof (induction nsss arbitrary: n)
  case (Cons nss nsss)
  have "[n..<n + length (nss # nsss)] = n # [Suc n..<Suc n + length nsss]" using upt_conv_Cons [of n "n + length (nss # nsss)"] by simp
  then show ?case using Cons.IH [of "Suc n"] by (simp add: metas_from_Cons read_action_index [of n])
qed (simp add: metas_from_def)

lemma metas_from_set:
  "tx \<in> set (metas_from n nsss) \<Longrightarrow> \<exists>nss \<in> set nsss. \<exists>i. tx = (read_action 0 nss)\<lparr>tx_Index := i\<rparr>"
proof (induction nsss arbitrary: n)
  case (Cons nss nsss)
  show ?case
  proof (cases "tx = read_action n nss")
    case True
    then show ?thesis using read_action_index [of n nss] by auto
  next
    case False
    then have "tx \<in> set (metas_from (Suc n) nsss)" using Cons.prems by (simp add: metas_from_Cons)
    then show ?thesis using Cons.IH [of "Suc n"] by auto
  qed
qed (simp add: metas_from_def)

lemma readable_batch:
  assumes "\<forall>e \<in> set es. readable L e"
  shows "\<exists>metas. read_batch L es = Inr (metas, es) \<and> wf_batch metas es \<and> (\<forall>tx \<in> set (urgent_list metas). tx_User tx \<noteq> [])"
proof -
  have "\<exists>nsss. list_all2 (\<lambda>e nss. wl_actions L e = Inr [Some nss]) es nsss \<and> (\<forall>nss \<in> set nsss.
      keys_ok 10000 (read_action 0 nss) \<and> (tx_Urgency (read_action 0 nss) \<longrightarrow> tx_User (read_action 0 nss) \<noteq> []))"
    using assms
  proof (induction es)
    case (Cons e es)
    then obtain nss nsss where "list_all2 (\<lambda>e nss. wl_actions L e = Inr [Some nss]) es nsss"
      "\<forall>nss \<in> set nsss. keys_ok 10000 (read_action 0 nss) \<and> (tx_Urgency (read_action 0 nss) \<longrightarrow> tx_User (read_action 0 nss) \<noteq> [])"
      "wl_actions L e = Inr [Some nss]" "keys_ok 10000 (read_action 0 nss)"
      "tx_Urgency (read_action 0 nss) \<longrightarrow> tx_User (read_action 0 nss) \<noteq> []" by (auto simp: readable_def)
    then show ?case by (intro exI [of _ "nss # nsss"]) simp
  qed simp
  then obtain nsss where n: "list_all2 (\<lambda>e nss. wl_actions L e = Inr [Some nss]) es nsss"
    "\<forall>nss \<in> set nsss. keys_ok 10000 (read_action 0 nss) \<and> (tx_Urgency (read_action 0 nss) \<longrightarrow> tx_User (read_action 0 nss) \<noteq> [])"
    by blast
  have "read_batch L es = Inr (metas_from 0 nsss, es)" unfolding read_batch_def read_batch_from [OF n(1)] by simp
  moreover have "wf_batch (metas_from 0 nsss) es"
    using list_all2_lengthD [OF n(1)] metas_from_index [of 0 nsss] metas_from_set [of _ 0 nsss] n(2)
    by (fastforce simp: wf_batch_def)
  moreover have "tx_User tx \<noteq> []" if "tx \<in> set (urgent_list (metas_from 0 nsss))" for tx
    using that metas_from_set [of tx 0 nsss] n(2) by (auto simp: urgent_list_def)
  ultimately show ?thesis by blast
qed

section \<open>One message\<close>

text \<open>The envelopes of what is emitted, and of messages, as multisets.\<close>

fun emitted :: "'e emit \<Rightarrow> 'e multiset" where
  "emitted (EmitAbort es) = mset es"
| "emitted (EmitCommit es) = mset es"

definition all_emitted :: "'e emit list \<Rightarrow> 'e multiset" where
  "all_emitted ems = (\<Sum>em \<leftarrow> ems. emitted em)"

lemma all_emitted_simps [simp]:
  "all_emitted [] = {#}" "all_emitted (em # ems) = emitted em + all_emitted ems"
  "all_emitted (xs @ ys) = all_emitted xs + all_emitted ys"
  by (simp_all add: all_emitted_def)

definition contents :: "'e wire_lib \<Rightarrow> bytes list \<Rightarrow> 'e multiset" where
  "contents L msgs = (\<Sum>msg \<leftarrow> msgs. case envelopes_in L msg of None \<Rightarrow> {#} | Some es \<Rightarrow> mset es)"

lemma contents_simps [simp]:
  "contents L [] = {#}" "contents L (xs @ ys) = contents L xs + contents L ys"
  "contents L (msg # m # msgs) = contents L [msg] + contents L (m # msgs)"
  by (simp_all add: contents_def)

lemma loop_conserved:
  assumes good: "good_message L msg" and store: "store_ok upd ds"
  shows "case loopProcess L upd ordM ordU ordN msg ds of
      Inl e \<Rightarrow> e = Bounds | Inr (ems, ds') \<Rightarrow> docs_ok ds' \<and> all_emitted ems = contents L [msg]"
proof -
  obtain es where es: "envelopes_in L msg = Some es" "length es = 1 \<or> (\<forall>e \<in> set es. readable L e)"
    using good by (auto simp: good_message_def)
  show ?thesis
  proof (cases "length es = 1")
    case True
    then show ?thesis using store by (simp add: loopProcess_decoded [OF es(1)] store_ok_def contents_def es(1))
  next
    case False
    obtain metas where m: "read_batch L es = Inr (metas, es)" "wf_batch metas es"
      "\<forall>tx \<in> set (urgent_list metas). tx_User tx \<noteq> []" using readable_batch [of es L] es(2) False by blast
    have n: "length es \<noteq> Suc 0" using False by simp
    show ?thesis using batch_conserved [OF m(2) store m(3), of ordM ordU ordN]
      by (auto simp: loopProcess_decoded [OF es(1)] n m(1) contents_def es(1) split: sum.splits)
  qed
qed

section \<open>A run\<close>

text \<open>The messages that wait on either topic can be read, and every envelope that came in waits there or has been
  emitted.\<close>

definition waiting :: "'e processor \<Rightarrow> bytes list" where
  "waiting st = map snd (pr_in st) @ map snd (pr_loop st)"

definition run_ok :: "'e wire_lib \<Rightarrow> mongo \<Rightarrow> 'e multiset \<Rightarrow> 'e processor \<Rightarrow> bool" where
  "run_ok L upd came st \<longleftrightarrow> (\<forall>msg \<in> set (waiting st). good_message L msg) \<and> store_ok upd (pr_docs st) \<and>
     contents L (waiting st) + all_emitted (pr_out st) = came"

lemma run_ok_step:
  assumes "processor_step L upd st st'" and "run_ok L upd came st"
  shows "run_ok L upd came st'"
  using assms
proof cases
  case (take_in offset msg ms)
  then show ?thesis using assms(2) by (auto simp: run_ok_def waiting_def process_def contents_def ac_simps)
next
  case (batch xs k msg ys ordM ordU ordN ems ds)
  have g: "good_message L msg" and s: "store_ok upd (pr_docs st)"
    using assms(2) batch(2) by (auto simp: run_ok_def waiting_def)
  have "docs_ok ds \<and> all_emitted ems = contents L [msg]"
    using loop_conserved [OF g s, of ordM ordU ordN] by (simp add: batch(3))
  then show ?thesis using assms(2) batch(1,2)
    by (auto simp: run_ok_def waiting_def store_ok_def contents_def ac_simps)
qed

interpretation stream: machine "processor_step L upd" "run_ok L upd came" for L upd came
  by unfold_locales (rule run_ok_step)

text \<open>
  C3: Over any run of the processor, with the messages of the loop topic handled in any order, no envelope is lost
  or made up: those that came in are those of the messages that still wait on the two topics and those emitted,
  aborted or committed, each exactly once; and the counts in the database stay well formed. This is so
  when every message decodes and each of its envelopes can be read, and it relies on the positions, indices
  and lists of \<open>loopProcess\<close>.
\<close>

theorem stream_conserved:
  assumes "\<forall>(offset, msg) \<in> set ms. good_message L msg" and "store_ok upd ds"
    and "(processor_step L upd)\<^sup>*\<^sup>* (processor_start ms ds) st"
  shows "docs_ok (pr_docs st) \<and>
    contents L (map snd ms) = contents L (map snd (pr_in st) @ map snd (pr_loop st)) + all_emitted (pr_out st)"
proof -
  have "run_ok L upd (contents L (map snd ms)) (processor_start ms ds)"
    using assms(1,2) by (auto simp: run_ok_def waiting_def processor_start_def)
  then have "run_ok L upd (contents L (map snd ms)) st" by (rule stream.inv_steps [OF assms(3)])
  then show ?thesis
    by (simp_all add: run_ok_def waiting_def store_ok_def)
qed

section \<open>An envelope that cannot be read\<close>

text \<open>The read-write set of the one action does not unmarshal.\<close>

definition unreadable :: "'e wire_lib \<Rightarrow> 'e \<Rightarrow> bool" where
  "unreadable L e \<longleftrightarrow> wl_actions L e = Inr [None]"

lemma unreadable_skipped: "unreadable L e \<Longrightarrow> read_envelope L (n, e) (metas, originals) = Inr (metas, originals)"
  by (simp add: unreadable_def read_envelope_def)

lemma readable_entry: "readable L e \<Longrightarrow>
    \<exists>nss. wl_actions L e = Inr [Some nss] \<and>
      read_envelope L (n, e) (metas, originals) = Inr (metas @ [read_action n nss], originals @ [e])"
  by (auto simp: readable_def read_envelope_def)

lemma read_mixed:
  "\<forall>e \<in> set es. readable L e \<or> unreadable L e \<Longrightarrow>
   \<exists>ms. go_fold (read_envelope L) (enumerate n es) (metas, originals) =
     Inr (metas @ ms, originals @ filter (\<lambda>e. \<not> unreadable L e) es)"
proof (induction es arbitrary: n metas originals)
  case (Cons e es)
  show ?case
  proof (cases "unreadable L e")
    case True
    then show ?thesis using Cons.IH [of "Suc n" metas originals] Cons.prems by (simp add: unreadable_skipped)
  next
    case False
    then have "readable L e" using Cons.prems by simp
    then obtain nss where "read_envelope L (n, e) (metas, originals) = Inr (metas @ [read_action n nss], originals @ [e])"
      using readable_entry [of L e n metas originals] by blast
    then show ?thesis using False Cons.IH [of "Suc n" "metas @ [read_action n nss]" "originals @ [e]"] Cons.prems by auto
  qed
qed simp

lemma at_errors: "at xs i = Inl e \<Longrightarrow> e = Bounds"
  by (auto simp: at_def go_index_def split: if_splits)

lemma go_map_at_Bounds: "\<exists>x \<in> set xs. at ys (f x) = Inl Bounds \<Longrightarrow> go_map (\<lambda>x. at ys (f x)) xs = Inl Bounds"
proof (induction xs)
  case (Cons x xs)
  show ?case
  proof (cases "at ys (f x)")
    case (Inl e)
    then show ?thesis using at_errors [OF Inl] by simp
  next
    case (Inr y)
    then have "\<exists>x \<in> set xs. at ys (f x) = Inl Bounds" using Cons.prems by simp
    then show ?thesis using Inr Cons.IH by simp
  qed
qed simp

lemma read_last:
  assumes "\<forall>e \<in> set es. readable L e \<or> unreadable L e" and "wl_actions L z = Inr [Some nss]"
  obtains metas where "read_batch L (es @ [z]) =
    Inr (metas @ [read_action (length es) nss], filter (\<lambda>e. \<not> unreadable L e) es @ [z])"
proof -
  obtain ms where "go_fold (read_envelope L) (enumerate 0 es) ([], []) = Inr (ms, filter (\<lambda>e. \<not> unreadable L e) es)"
    using read_mixed [OF assms(1), of 0 "[]" "[]"] by auto
  then have "read_batch L (es @ [z]) =
      Inr (ms @ [read_action (length es) nss], filter (\<lambda>e. \<not> unreadable L e) es @ [z])"
    unfolding read_batch_def by (simp add: enumerate_append_eq go_fold_append read_envelope_def assms(2))
  then show thesis by (rule that)
qed

text \<open>
  An envelope whose read-write set does not unmarshal is left out of \<open>originalData\<close>: at the end of a batch that
  does not panic it is neither committed nor aborted.
\<close>

theorem unread_envelope_lost:
  assumes "\<forall>e \<in> set es. readable L e" and "unreadable L e" and "es \<noteq> []" and "envelopes_in L msg = Some (es @ [e])"
    and "store_ok upd ds" and "loopProcess L upd ordM ordU ordN msg ds = Inr (ems, ds')"
  shows "all_emitted ems = mset es"
proof -
  obtain metas where m: "read_batch L es = Inr (metas, es)" "wf_batch metas es"
    "\<forall>tx \<in> set (urgent_list metas). tx_User tx \<noteq> []" using readable_batch [OF assms(1)] by blast
  have "read_batch L (es @ [e]) = Inr (metas, es)"
    using m(1) assms(2) unfolding read_batch_def by (simp add: enumerate_append_eq go_fold_append unreadable_skipped)
  then have "process_batch upd ordM ordU ordN metas es ds = Inr (ems, ds')"
    using assms(3,6) by (simp add: loopProcess_decoded [OF assms(4)])
  then show ?thesis using batch_conserved [OF m(2) assms(5) m(3), of ordM ordU ordN] by auto
qed

text \<open>
  C38: An envelope whose read-write set does not unmarshal is left out of \<open>originalData\<close>, but the envelopes
  behind it keep the \<open>Index\<close> of their position in the batch. When a batch with such an envelope ends with a read-only
  transaction, \<open>loopProcess\<close> indexes \<open>originalData\<close> with a number that is too large, and the processor panics.
\<close>

theorem unread_envelope_panics:
  assumes "\<forall>e \<in> set es. readable L e \<or> unreadable L e" and "\<exists>e \<in> set es. unreadable L e"
    and "wl_actions L z = Inr [Some nss]" and "is_read_only (read_action 0 nss)"
    and "envelopes_in L msg = Some (es @ [z])"
  shows "loopProcess L upd ordM ordU ordN msg ds = Inl Bounds"
proof -
  obtain metas where m: "read_batch L (es @ [z]) =
      Inr (metas @ [read_action (length es) nss], filter (\<lambda>e. \<not> unreadable L e) es @ [z])"
    using read_last [OF assms(1,3)] by blast
  let ?o = "filter (\<lambda>e. \<not> unreadable L e) es @ [z]" and ?last = "read_action (length es) nss"
  have "length (filter (\<lambda>e. \<not> unreadable L e) es) < length es"
    using assms(2) by (auto intro!: length_filter_less)
  then have "at ?o (tx_Index ?last) = Inl Bounds" by (simp add: at_def go_index_def read_action_index [of "length es"])
  moreover have "is_read_only ?last" using assms(4) by (simp add: is_read_only_def read_action_index [of "length es"])
  ultimately have "read_only_data ?o (metas @ [?last]) = Inl Bounds"
    unfolding read_only_data_def by (intro go_map_at_Bounds) auto
  moreover have "length (es @ [z]) \<noteq> 1" using assms(2) by auto
  ultimately show ?thesis by (simp add: loopProcess_decoded [OF assms(5)] m process_batch_def)
qed

section \<open>Witnesses\<close>

definition tiny_wire :: "string wire_lib" where
  "tiny_wire =
     \<lparr>wl_batch = (\<lambda>msg. Some (map (\<lambda>b. [b]) msg)),
      wl_envelope = (\<lambda>b. Some (if b = [1] then ''a'' else if b = [2] then ''b'' else if b = [3] then ''r'' else ''x'')),
      wl_actions = (\<lambda>e. Inr [
        if e = ''a'' then Some [\<lparr>ns_Reads = [''User7''], ns_Writes = [\<lparr>w_Key = ''User1'', w_Value = None\<rparr>]\<rparr>]
        else if e = ''b'' then Some [\<lparr>ns_Reads = [''User2''], ns_Writes = [\<lparr>w_Key = ''User2'',
          w_Value = Some (JObj [(''UserInfo'', JObj [(''Urgency'', JBool True)])])\<rparr>]\<rparr>]
        else if e = ''r'' then Some [\<lparr>ns_Reads = [''User2''], ns_Writes = []\<rparr>]
        else None])\<rparr>"

lemma tiny_envelopes: "envelopes_in tiny_wire [1, 2] = Some [''a'', ''b'']" "envelopes_in tiny_wire [1] = Some [''a'']"
  "envelopes_in tiny_wire [1, 9, 3] = Some ([''a'', ''x''] @ [''r''])"
  by (simp_all add: envelopes_in_def tiny_wire_def)

lemma tiny_actions:
  "readable tiny_wire ''a''" "readable tiny_wire ''b''" "unreadable tiny_wire ''x''"
  "read_batch tiny_wire [''a'', ''b''] = Inr (clash_batch, [''a'', ''b''])"
  by (simp_all add: readable_def unreadable_def tiny_wire_def read_action_def add_read_def add_write_def is_urgent_def
      json_field_def keys_ok_def key_ok_def idx_values idx_seven read_batch_def read_envelope_def clash_batch_def tx_read_def)

lemma tiny_loop:
  "loopProcess tiny_wire update_one rev (\<lambda>_. rev) (\<lambda>_. rev) [1, 2] [] = Inr ([EmitAbort [], EmitCommit [''a'', ''b'']], [])"
  "loopProcess tiny_wire update_one rev (\<lambda>_. rev) (\<lambda>_. rev) [1] [] = Inr ([EmitCommit [''a'']], [])"
  by (simp_all add: loopProcess_decoded [OF tiny_envelopes(1)] loopProcess_decoded [OF tiny_envelopes(2)] tiny_actions(4) clash_run)

lemma tiny_run:
  "(processor_step tiny_wire update_one)\<^sup>*\<^sup>* (processor_start [(5, [1, 2]), (6, [1])] [])
     \<lparr>pr_in = [], pr_loop = [], pr_out = [EmitCommit [''a''], EmitAbort [], EmitCommit [''a'', ''b'']], pr_docs = []\<rparr>"
proof -
  let ?s = "\<lambda>i l out. \<lparr>pr_in = i, pr_loop = l, pr_out = out, pr_docs = []\<rparr>"
  let ?step = "processor_step tiny_wire update_one"
  have s1: "?step (?s [(5, [1, 2]), (6, [1])] [] []) (?s [(6, [1])] [process 5 [1, 2]] [])"
    using processor_step.take_in [of "?s [(5, [1, 2]), (6, [1])] [] []" 5 "[1, 2]" "[(6, [1])]" tiny_wire update_one] by simp
  have s2: "?step (?s [(6, [1])] [process 5 [1, 2]] []) (?s [] [process 5 [1, 2], process 6 [1]] [])"
    using processor_step.take_in [of "?s [(6, [1])] [process 5 [1, 2]] []" 6 "[1]" "[]" tiny_wire update_one] by simp
  have s3: "?step (?s [] [process 5 [1, 2], process 6 [1]] []) (?s [] [process 5 [1, 2]] [EmitCommit [''a'']])"
    using processor_step.batch [where st = "?s [] [process 5 [1, 2], process 6 [1]] []" and xs = "[process 5 [1, 2]]"
        and ys = "[]" and k = "Itoa 6" and msg = "[1]" and L = tiny_wire and upd = update_one] tiny_loop(2)
    by (simp add: process_def)
  have s4: "?step (?s [] [process 5 [1, 2]] [EmitCommit [''a'']])
      (?s [] [] [EmitCommit [''a''], EmitAbort [], EmitCommit [''a'', ''b'']])"
    using processor_step.batch [where st = "?s [] [process 5 [1, 2]] [EmitCommit [''a'']]" and xs = "[]"
        and ys = "[]" and k = "Itoa 5" and msg = "[1, 2]" and L = tiny_wire and upd = update_one] tiny_loop(1)
    by (simp add: process_def)
  show ?thesis unfolding processor_start_def
    by (rule converse_rtranclp_into_rtranclp [where r = ?step, OF s1], rule converse_rtranclp_into_rtranclp [where r = ?step, OF s2],
        rule converse_rtranclp_into_rtranclp [where r = ?step, OF s3], rule r_into_rtranclp, rule s4)
qed

theorem stream_conserved_witness:
  "contents tiny_wire [[1, 2], [1]] =
    contents tiny_wire [] + all_emitted [EmitCommit [''a''], EmitAbort [], EmitCommit [''a'', ''b'']]"
proof -
  have "good_message tiny_wire [1, 2]" "good_message tiny_wire [1]"
    by (simp_all add: good_message_def tiny_envelopes tiny_actions)
  then show ?thesis using stream_conserved [OF _ store_ok_Nil tiny_run] by simp
qed

theorem unread_envelope_panics_witness:
  "loopProcess tiny_wire update_one rev (\<lambda>_. rev) (\<lambda>_. rev) [1, 9, 3] [] = Inl Bounds"
proof (rule unread_envelope_panics [OF _ _ _ _ tiny_envelopes(3)])
  show "\<forall>e \<in> set [''a'', ''x'']. readable tiny_wire e \<or> unreadable tiny_wire e"
    "\<exists>e \<in> set [''a'', ''x'']. unreadable tiny_wire e" using tiny_actions by simp_all
  show "wl_actions tiny_wire ''r'' = Inr [Some [\<lparr>ns_Reads = [''User2''], ns_Writes = []\<rparr>]]"
    by (simp add: tiny_wire_def)
  show "is_read_only (read_action 0 [\<lparr>ns_Reads = [''User2''], ns_Writes = []\<rparr>])"
    by (simp add: is_read_only_def read_action_def add_read_def)
qed

end
