(* ===== verification/Node_Key.thy ===== *)
theory Node_Key
  imports Interfaces "HOL-Library.Sublist"
begin

text \<open>
  The private key of the s-nodes (\<open>LoadOrCreateKey\<close> and what it calls in \<open>s-node/wp2p/wp2p.go\<close>). The s-nodes keep no
  state and are to have one identity: the first makes a key and writes it to a Kafka topic, the others read it there.
  Kafka is what one call meets of it, \<open>key_env\<close>; the library of keys is an argument. A topic may have several
  partitions, so that only messages of one key come in their order.
\<close>

section \<open>One call\<close>

datatype key_err = NoTopic | BadKey | NoEntropy | Unmarshalled | NoProducer | NotProduced | NotDelivered

text \<open>What one \<open>ReadMessage\<close> returns; the list of them ends with the five seconds.\<close>

datatype kafka_read = NoMessage | KMessage (km_Key: string) (km_Value: bytes)

record 'k key_lib =
  UnmarshalPrivateKey :: "bytes \<Rightarrow> 'k option"
  MarshalPrivateKey :: "'k \<Rightarrow> bytes option"

text \<open>\<open>ke_written\<close>: a message whose delivery is not confirmed may have been written all the same.\<close>

record 'k key_env =
  ke_consumer :: bool
  ke_subscribed :: bool
  ke_reads :: "kafka_read list"
  ke_generated :: "'k option"
  ke_producer :: bool
  ke_produced :: bool
  ke_delivered :: bool
  ke_written :: bool

fun read_key :: "'k key_lib \<Rightarrow> string \<Rightarrow> kafka_read list \<Rightarrow> key_err + 'k option" where
  "read_key L channel [] = Inr None"
| "read_key L channel (NoMessage # rs) = read_key L channel rs"
| "read_key L channel (KMessage key v # rs) =
     (if key = channel
      then (case UnmarshalPrivateKey L v of None \<Rightarrow> Inl BadKey | Some k \<Rightarrow> Inr (Some k))
      else read_key L channel rs)"

definition getSnodePrivateKeyFromKafka ::
    "'k key_lib \<Rightarrow> 'k key_env \<Rightarrow> string \<Rightarrow> (key_err + 'k option) go" where
  "getSnodePrivateKeyFromKafka L env channel =
     (if \<not> ke_consumer env then Inl (Fatal ''NewConsumer'')
      else if \<not> ke_subscribed env then Inr (Inl NoTopic)
      else Inr (read_key L channel (ke_reads env)))"

text \<open>The error, if any, and what was written to the topic.\<close>

definition saveSnodePrivateKeyToKafka ::
    "'k key_lib \<Rightarrow> 'k key_env \<Rightarrow> string \<Rightarrow> 'k \<Rightarrow> key_err option \<times> (string \<times> bytes) list" where
  "saveSnodePrivateKeyToKafka L env channel privKey =
     (case MarshalPrivateKey L privKey of
        None \<Rightarrow> (Some Unmarshalled, [])
      | Some keyBytes \<Rightarrow>
          if \<not> ke_producer env then (Some NoProducer, [])
          else if \<not> ke_produced env then (Some NotProduced, [])
          else if ke_delivered env then (None, [(channel, keyBytes)])
          else (Some NotDelivered, if ke_written env then [(channel, keyBytes)] else []))"

definition GetOrCreateSnodePrivateKey ::
    "'k key_lib \<Rightarrow> 'k key_env \<Rightarrow> string \<Rightarrow> (key_err + 'k) go \<times> (string \<times> bytes) list" where
  "GetOrCreateSnodePrivateKey L env channel =
     (case getSnodePrivateKeyFromKafka L env channel of
        Inl p \<Rightarrow> (Inl p, [])
      | Inr (Inl e) \<Rightarrow> (Inr (Inl e), [])
      | Inr (Inr (Some privKey)) \<Rightarrow> (Inr (Inr privKey), [])
      | Inr (Inr None) \<Rightarrow>
          (case ke_generated env of
             None \<Rightarrow> (Inr (Inl NoEntropy), [])
           | Some privKey \<Rightarrow>
               (case saveSnodePrivateKeyToKafka L env channel privKey of
                  (Some e, written) \<Rightarrow> (Inr (Inl e), written)
                | (None, written) \<Rightarrow> (Inr (Inr privKey), written))))"

definition LoadOrCreateKey :: "'k key_lib \<Rightarrow> 'k key_env \<Rightarrow> 'k go \<times> (string \<times> bytes) list" where
  "LoadOrCreateKey L env =
     (case GetOrCreateSnodePrivateKey L env ''mychannel'' of
        (Inl p, written) \<Rightarrow> (Inl p, written)
      | (Inr (Inl e), written) \<Rightarrow> (Inl (Fatal ''LoadOrCreateKey''), written)
      | (Inr (Inr k), written) \<Rightarrow> (Inr k, written))"

section \<open>Several s-nodes\<close>

text \<open>The topic and the identities the nodes have. A node that starts reads a part of what is in the topic, from the
  beginning; a read that is too slow, or that ended before another node wrote, sees less.\<close>

record 'k s_nodes =
  sn_log :: "(string \<times> bytes) list"
  sn_keys :: "nat \<rightharpoonup> 'k"

definition log_values :: "string \<Rightarrow> (string \<times> bytes) list \<Rightarrow> bytes list" where
  "log_values channel log = map snd (filter (\<lambda>r. fst r = channel) log)"

fun read_values :: "string \<Rightarrow> kafka_read list \<Rightarrow> bytes list" where
  "read_values channel [] = []"
| "read_values channel (NoMessage # rs) = read_values channel rs"
| "read_values channel (KMessage key v # rs) =
     (if key = channel then v # read_values channel rs else read_values channel rs)"

inductive s_node_starts :: "'k key_lib \<Rightarrow> 'k key_env \<Rightarrow> nat \<Rightarrow> 'k s_nodes \<Rightarrow> 'k s_nodes \<Rightarrow> bool" for L where
  "sn_keys st n = None \<Longrightarrow> prefix (read_values ''mychannel'' (ke_reads env)) (log_values ''mychannel'' (sn_log st)) \<Longrightarrow>
   LoadOrCreateKey L env = (res, written) \<Longrightarrow>
   s_node_starts L env n st (st\<lparr>sn_log := sn_log st @ written,
     sn_keys := (case res of Inl _ \<Rightarrow> sn_keys st | Inr k \<Rightarrow> (sn_keys st)(n \<mapsto> k))\<rparr>)"

inductive_cases s_node_startsE: "s_node_starts L env n st st'"

text \<open>A start is timely when it sees a key if the topic has one.\<close>

definition timely :: "'k key_env \<Rightarrow> 'k s_nodes \<Rightarrow> bool" where
  "timely env st \<longleftrightarrow>
     (read_values ''mychannel'' (ke_reads env) = [] \<longrightarrow> log_values ''mychannel'' (sn_log st) = [])"

definition timely_step :: "'k key_lib \<Rightarrow> 'k s_nodes \<Rightarrow> 'k s_nodes \<Rightarrow> bool" where
  "timely_step L st st' \<longleftrightarrow> (\<exists>env n. timely env st \<and> s_node_starts L env n st st')"

definition no_s_nodes :: "'k s_nodes" where
  "no_s_nodes = \<lparr>sn_log = [], sn_keys = Map.empty\<rparr>"

section \<open>What a call returns\<close>

lemma log_values_append [simp]: "log_values c (xs @ ys) = log_values c xs @ log_values c ys"
  by (simp add: log_values_def)

lemma log_values_own [simp]: "log_values c [] = []" "log_values c [(c, v)] = [v]"
  by (simp_all add: log_values_def)

text \<open>The first value that is read under the channel's name decides.\<close>

lemma read_key_first:
  "read_key L channel rs = (case read_values channel rs of
     [] \<Rightarrow> Inr None
   | v # _ \<Rightarrow> (case UnmarshalPrivateKey L v of None \<Rightarrow> Inl BadKey | Some k \<Rightarrow> Inr (Some k)))"
  by (induction L channel rs rule: read_key.induct) simp_all

lemma load_with_key:
  assumes "read_values ''mychannel'' (ke_reads env) = v # vs"
  shows "LoadOrCreateKey L env =
    (if \<not> ke_consumer env then (Inl (Fatal ''NewConsumer''), [])
     else if \<not> ke_subscribed env then (Inl (Fatal ''LoadOrCreateKey''), [])
     else (case UnmarshalPrivateKey L v of None \<Rightarrow> (Inl (Fatal ''LoadOrCreateKey''), []) | Some k \<Rightarrow> (Inr k, [])))"
  using assms
  by (simp add: LoadOrCreateKey_def GetOrCreateSnodePrivateKey_def getSnodePrivateKeyFromKafka_def read_key_first
      split: option.split)

lemma loaded_key:
  assumes "read_values ''mychannel'' (ke_reads env) = v # vs" and "LoadOrCreateKey L env = (Inr k, written)"
  shows "UnmarshalPrivateKey L v = Some k"
  using assms(2) unfolding load_with_key [OF assms(1)] by (simp split: option.splits if_splits)

text \<open>When none is read a new one is made; the node has it only if it was written.\<close>

lemma made_key:
  assumes "read_values ''mychannel'' (ke_reads env) = []" and "LoadOrCreateKey L env = (Inr k, written)"
  shows "\<exists>v. MarshalPrivateKey L k = Some v \<and> written = [(''mychannel'', v)]"
  using assms(2)
  by (simp add: LoadOrCreateKey_def GetOrCreateSnodePrivateKey_def getSnodePrivateKeyFromKafka_def read_key_first assms(1)
      saveSnodePrivateKeyToKafka_def split: option.splits if_splits)

lemma timely_stepE:
  assumes "timely_step L st st'"
  obtains env n res written where "timely env st" and "sn_keys st n = None"
    and "prefix (read_values ''mychannel'' (ke_reads env)) (log_values ''mychannel'' (sn_log st))"
    and "LoadOrCreateKey L env = (res, written)"
    and "st' = st\<lparr>sn_log := sn_log st @ written,
      sn_keys := (case res of Inl _ \<Rightarrow> sn_keys st | Inr k \<Rightarrow> (sn_keys st)(n \<mapsto> k))\<rparr>"
  using assms unfolding timely_step_def by (elim exE conjE s_node_startsE) (rule that)

section \<open>One identity\<close>

text \<open>Documented: what is marshalled unmarshals to the same key.\<close>

definition key_lib_ok :: "'k key_lib \<Rightarrow> bool" where
  "key_lib_ok L \<longleftrightarrow> (\<forall>k v. MarshalPrivateKey L k = Some v \<longrightarrow> UnmarshalPrivateKey L v = Some k)"

text \<open>Every identity is the first key of the topic.\<close>

definition one_identity :: "'k key_lib \<Rightarrow> 'k s_nodes \<Rightarrow> bool" where
  "one_identity L st \<longleftrightarrow> (\<forall>n k. sn_keys st n = Some k \<longrightarrow>
     (\<exists>v vs. log_values ''mychannel'' (sn_log st) = v # vs \<and> UnmarshalPrivateKey L v = Some k))"

lemma one_identity_step:
  assumes lib: "key_lib_ok L" and inv: "one_identity L st" and step: "timely_step L st st'"
  shows "one_identity L st'"
proof -
  obtain env n res written where t: "timely env st" and new: "sn_keys st n = None"
    and pre: "prefix (read_values ''mychannel'' (ke_reads env)) (log_values ''mychannel'' (sn_log st))"
    and call: "LoadOrCreateKey L env = (res, written)"
    and st': "st' = st\<lparr>sn_log := sn_log st @ written,
      sn_keys := (case res of Inl _ \<Rightarrow> sn_keys st | Inr k \<Rightarrow> (sn_keys st)(n \<mapsto> k))\<rparr>"
    by (rule timely_stepE [OF step])
  have old: "\<exists>v vs. log_values ''mychannel'' (sn_log st') = v # vs \<and> UnmarshalPrivateKey L v = Some k"
    if "sn_keys st m = Some k" for m k
    using inv that unfolding one_identity_def by (fastforce simp: st')
  have "\<exists>v vs. log_values ''mychannel'' (sn_log st') = v # vs \<and> UnmarshalPrivateKey L v = Some k" if "res = Inr k" for k
  proof (cases "read_values ''mychannel'' (ke_reads env)")
    case Nil
    then have "log_values ''mychannel'' (sn_log st) = []" using t by (simp add: timely_def)
    then show ?thesis using made_key [OF Nil call [unfolded that]] lib by (auto simp: st' key_lib_ok_def)
  next
    case (Cons v vs)
    then obtain ws where "log_values ''mychannel'' (sn_log st) = v # ws" using pre by (auto simp: prefix_def)
    then show ?thesis using loaded_key [OF Cons call [unfolded that]] by (auto simp: st')
  qed
  then show ?thesis using old unfolding one_identity_def by (auto simp: st' split: sum.splits if_splits)
qed

interpretation identity: machine "timely_step L" "\<lambda>st. key_lib_ok L \<and> one_identity L st" for L
  by unfold_locales (blast intro: one_identity_step)

text \<open>
  C29: When every s-node that starts reads the key that is in the topic, if there is one, all s-nodes have the
  same identity, the first key of the topic, whatever fails at the others: the library, the topic, the delivery.
\<close>

theorem s_nodes_share_key:
  assumes "key_lib_ok L" and "(timely_step L)\<^sup>*\<^sup>* no_s_nodes st" and "sn_keys st n = Some k" and "sn_keys st m = Some k'"
  shows "k = k' \<and> (\<exists>v vs. log_values ''mychannel'' (sn_log st) = v # vs \<and> UnmarshalPrivateKey L v = Some k)"
proof -
  have "one_identity L no_s_nodes" by (simp add: one_identity_def no_s_nodes_def)
  then have "one_identity L st" using identity.inv_steps [OF assms(2)] assms(1) by blast
  then obtain v vs v' vs' where "log_values ''mychannel'' (sn_log st) = v # vs" "UnmarshalPrivateKey L v = Some k"
    "log_values ''mychannel'' (sn_log st) = v' # vs'" "UnmarshalPrivateKey L v' = Some k'"
    using assms(3,4) unfolding one_identity_def by blast
  then show ?thesis by simp
qed

text \<open>Who starts in time takes the first key.\<close>

lemma timely_first:
  assumes "timely_step L st st'" and "log_values ''mychannel'' (sn_log st) = v # vs"
    and "UnmarshalPrivateKey L v = Some k" and "sn_keys st m = None" and "sn_keys st' m = Some k'"
  shows "k' = k"
proof -
  obtain env n res written where t: "timely env st"
    and pre: "prefix (read_values ''mychannel'' (ke_reads env)) (log_values ''mychannel'' (sn_log st))"
    and call: "LoadOrCreateKey L env = (res, written)"
    and st': "st' = st\<lparr>sn_log := sn_log st @ written,
      sn_keys := (case res of Inl _ \<Rightarrow> sn_keys st | Inr k \<Rightarrow> (sn_keys st)(n \<mapsto> k))\<rparr>"
    by (rule timely_stepE [OF assms(1)])
  have res: "res = Inr k'" using assms(4,5) by (auto simp: st' split: sum.splits if_splits)
  have "read_values ''mychannel'' (ke_reads env) \<noteq> []" using t assms(2) by (simp add: timely_def)
  then obtain ws where "read_values ''mychannel'' (ke_reads env) = v # ws"
    using pre assms(2) by (auto simp: neq_Nil_conv)
  then show ?thesis using loaded_key [of env v ws L k' written] call res assms(3) by simp
qed

text \<open>
  A node that reads no key in its five seconds, because the brokers are slow or because another node writes
  the first key only then, makes one of its own and succeeds with it: two s-nodes run with different identities.
  The nodes that start later take the first key, so that the second keeps an identity of its own.
\<close>

theorem late_key_splits:
  assumes "key_lib_ok L" and "sn_keys st 0 = Some k" and "one_identity L st" and "sn_keys st n = None"
    and "read_values ''mychannel'' (ke_reads env) = []" and "ke_generated env = Some k'"
    and "MarshalPrivateKey L k' = Some v'"
    and "ke_consumer env \<and> ke_subscribed env \<and> ke_producer env \<and> ke_produced env \<and> ke_delivered env"
  shows "\<exists>st'. s_node_starts L env n st st' \<and> sn_keys st' n = Some k' \<and> sn_keys st' 0 = Some k \<and>
    (\<forall>st''. timely_step L st' st'' \<longrightarrow> (\<forall>m k''. sn_keys st' m = None \<and> sn_keys st'' m = Some k'' \<longrightarrow> k'' = k))"
proof -
  let ?st = "st\<lparr>sn_log := sn_log st @ [(''mychannel'', v')], sn_keys := (sn_keys st)(n \<mapsto> k')\<rparr>"
  have call: "LoadOrCreateKey L env = (Inr k', [(''mychannel'', v')])"
    using assms(5-8)
    by (simp add: LoadOrCreateKey_def GetOrCreateSnodePrivateKey_def getSnodePrivateKeyFromKafka_def read_key_first
        saveSnodePrivateKeyToKafka_def)
  have start: "s_node_starts L env n st ?st"
    using s_node_starts.intros [OF assms(4) _ call] assms(5) by simp
  obtain v vs where v: "log_values ''mychannel'' (sn_log st) = v # vs" "UnmarshalPrivateKey L v = Some k"
    using assms(2,3) unfolding one_identity_def by blast
  have later: "k'' = k" if "timely_step L ?st st''" "sn_keys ?st m = None" "sn_keys st'' m = Some k''" for st'' m k''
    by (rule timely_first [OF that(1) _ v(2) that(2,3)]) (simp add: v(1))
  have "n \<noteq> 0" using assms(2,4) by (cases "n = 0") simp_all
  then have "sn_keys ?st n = Some k' \<and> sn_keys ?st 0 = Some k" using assms(2) by simp
  then show ?thesis using start later by blast
qed

section \<open>Witnesses\<close>

definition tiny_keys_lib :: "nat key_lib" where
  "tiny_keys_lib = \<lparr>UnmarshalPrivateKey = (\<lambda>v. Some (length v)), MarshalPrivateKey = (\<lambda>k. Some (replicate k 0))\<rparr>"

definition tiny_key_env :: "kafka_read list \<Rightarrow> nat \<Rightarrow> nat key_env" where
  "tiny_key_env rs k = \<lparr>ke_consumer = True, ke_subscribed = True, ke_reads = rs, ke_generated = Some k,
     ke_producer = True, ke_produced = True, ke_delivered = True, ke_written = True\<rparr>"

definition tiny_s_nodes :: "nat s_nodes" where
  "tiny_s_nodes = \<lparr>sn_log = [(''mychannel'', [0, 0])], sn_keys = [0 \<mapsto> 2]\<rparr>"

lemma tiny_lib_ok: "key_lib_ok tiny_keys_lib"
  by (simp add: key_lib_ok_def tiny_keys_lib_def)

lemma tiny_first: "timely_step tiny_keys_lib no_s_nodes tiny_s_nodes"
proof -
  have "LoadOrCreateKey tiny_keys_lib (tiny_key_env [NoMessage] 2) = (Inr 2, [(''mychannel'', [0, 0])])" by code_simp
  then have "s_node_starts tiny_keys_lib (tiny_key_env [NoMessage] 2) 0 no_s_nodes tiny_s_nodes"
    using s_node_starts.intros [of no_s_nodes 0 "tiny_key_env [NoMessage] 2" tiny_keys_lib]
    by (simp add: no_s_nodes_def tiny_s_nodes_def tiny_key_env_def)
  then show ?thesis unfolding timely_step_def
    by (intro exI [of _ "tiny_key_env [NoMessage] 2"] exI [of _ 0]) (simp add: timely_def no_s_nodes_def)
qed

lemma tiny_second:
  "timely_step tiny_keys_lib tiny_s_nodes (tiny_s_nodes\<lparr>sn_keys := [0 \<mapsto> 2, 1 \<mapsto> 2]\<rparr>)"
proof -
  let ?env = "tiny_key_env [KMessage ''other'' [], KMessage ''mychannel'' [0, 0]] 3"
  have "LoadOrCreateKey tiny_keys_lib ?env = (Inr 2, [])" by code_simp
  then have "s_node_starts tiny_keys_lib ?env 1 tiny_s_nodes (tiny_s_nodes\<lparr>sn_keys := [0 \<mapsto> 2, 1 \<mapsto> 2]\<rparr>)"
    using s_node_starts.intros [of tiny_s_nodes 1 ?env tiny_keys_lib]
    by (simp add: tiny_s_nodes_def tiny_key_env_def)
  then show ?thesis unfolding timely_step_def
    by (intro exI [of _ ?env] exI [of _ 1]) (simp add: timely_def tiny_key_env_def)
qed

theorem s_nodes_share_key_witness:
  "sn_keys (tiny_s_nodes\<lparr>sn_keys := [0 \<mapsto> 2, 1 \<mapsto> 2]\<rparr>) 0 = Some 2 \<and>
   UnmarshalPrivateKey tiny_keys_lib (hd (log_values ''mychannel'' (sn_log tiny_s_nodes))) = Some 2"
proof -
  let ?st = "tiny_s_nodes\<lparr>sn_keys := [0 \<mapsto> 2, 1 \<mapsto> 2]\<rparr>"
  have run: "(timely_step tiny_keys_lib)\<^sup>*\<^sup>* no_s_nodes ?st"
    by (rule converse_rtranclp_into_rtranclp [where r = "timely_step tiny_keys_lib", OF tiny_first],
        rule r_into_rtranclp, rule tiny_second)
  have keys: "sn_keys ?st 0 = Some 2" "sn_keys ?st 1 = Some 2" by simp_all
  from s_nodes_share_key [OF tiny_lib_ok run keys] keys(1) show ?thesis by auto
qed

theorem late_key_splits_witness:
  "\<exists>st'. s_node_starts tiny_keys_lib (tiny_key_env [] 3) 1 tiny_s_nodes st' \<and> sn_keys st' 1 = Some 3 \<and> sn_keys st' 0 = Some 2"
proof -
  have one: "one_identity tiny_keys_lib tiny_s_nodes"
    by (simp add: one_identity_def tiny_s_nodes_def tiny_keys_lib_def)
  have k: "sn_keys tiny_s_nodes 0 = Some 2" "sn_keys tiny_s_nodes 1 = None" by (simp_all add: tiny_s_nodes_def)
  have m: "MarshalPrivateKey tiny_keys_lib 3 = Some (replicate 3 0)" by (simp add: tiny_keys_lib_def)
  show ?thesis using late_key_splits [OF tiny_lib_ok k(1) one k(2) _ _ m, of "tiny_key_env [] 3"]
    by (auto simp: tiny_key_env_def)
qed

end
