(* ===== verification/Pu_Listen.thy ===== *)
theory Pu_Listen
  imports Pu_Tree Framing_Props
begin

text \<open>
  How a session comes about: \<open>Listener\<close> and the dialling part of \<open>Connector\<close> in \<open>puctrl_session.go\<close>. The listener has one
  buffer of five bytes for the preambles of all its peers, and reads once from each stream; the connector dials
  a number of times. What the operating system and QUIC answer is an argument.
\<close>

section \<open>Listening\<close>

text \<open>What the listener meets next: a connection, on which no stream is ever opened, or one whose first read gives
  some bytes, of which five fit. The error of \<open>Read\<close> is ignored.\<close>

datatype accepted = AcceptError | StreamError | NoStream | Opened bytes

text \<open>\<open>stream.Read(buf)\<close>: the rest of the buffer stays as it is.\<close>

definition read_preamble :: "bytes \<Rightarrow> bytes \<Rightarrow> bytes" where
  "read_preamble buf got = take 5 got @ drop (length (take 5 got)) buf"

definition accept_one :: "Config \<Rightarrow> bytes \<Rightarrow> PuCtrl \<Rightarrow> PuCtrl" where
  "accept_one C buf p =
     (let sessionType = buf ! 0;
          sessionID = Uint32LE (buf ! 1) (buf ! 2) (buf ! 3) (buf ! 4);
          (s, p) = CreatePuSession C sessionType sessionID False p
      in p\<lparr>pu_sessionMap := gm_put (pu_sessionMap p) sessionID s\<rparr>)"

text \<open>The loop of the listener over what arrives, with its buffer. Nobody sends on \<open>chStopListen\<close>. At the end of the list, and
  behind a connection without a stream, it waits.\<close>

fun listen_loop :: "Config \<Rightarrow> accepted list \<Rightarrow> bytes \<Rightarrow> PuCtrl \<Rightarrow> (bytes \<times> PuCtrl) go" where
  "listen_loop C [] buf p = Inr (buf, p)"
| "listen_loop C (AcceptError # as) buf p = Inl (Explicit ''Accept'')"
| "listen_loop C (StreamError # as) buf p = Inl (Explicit ''AcceptStream'')"
| "listen_loop C (NoStream # as) buf p = Inr (buf, p)"
| "listen_loop C (Opened bs # as) buf p =
     (let buf = read_preamble buf bs in listen_loop C as buf (accept_one C buf p))"

definition Listener :: "bool \<Rightarrow> Config \<Rightarrow> accepted list \<Rightarrow> PuCtrl \<Rightarrow> (bytes \<times> PuCtrl) go" where
  "Listener bound C as p =
     go_bind (my_ip C 0) (\<lambda>addr.
       if \<not> bound then Inl (Explicit ''ListenAddr'')
       else listen_loop C as (replicate 5 0) p)"

section \<open>Dialling\<close>

text \<open>\<open>de_dials\<close>: whether the attempts succeed, in their order; \<open>de_id\<close>: the random session ID.\<close>

record dial_env =
  de_src :: bool
  de_dst :: bool
  de_udp :: bool
  de_dials :: "nat \<Rightarrow> bool"
  de_early :: bool
  de_stream :: bool
  de_write :: bool
  de_id :: u32

definition max_conn_retry :: "Config \<Rightarrow> nat" where
  "max_conn_retry C = (let n = unat (MAX_CONNECTION_RETRY C) in if n \<le> 0 then 5 else n)"

text \<open>The loop from attempt \<open>i\<close> on: whether there is a connection, and the number of attempts made.\<close>

function dial_loop :: "(nat \<Rightarrow> bool) \<Rightarrow> nat \<Rightarrow> nat \<Rightarrow> bool \<times> nat" where
  "dial_loop dials n i = (if i < n then if dials i then (True, i + 1) else dial_loop dials n (i + 1) else (False, i))"
  by pat_completeness auto
termination
  by (relation "measure (\<lambda>(dials, n, i). n - i)") auto

declare dial_loop.simps [simp del]

text \<open>The cache of TLS sessions that \<open>Connector\<close> makes is empty when it looks into it.\<close>

definition cached :: "string list \<Rightarrow> string \<Rightarrow> bool" where
  "cached sessionCache addr \<longleftrightarrow> addr \<in> set sessionCache"

text \<open>\<open>Connector\<close> up to the preamble: the ID of the session, \<open>None\<close> when it returns nil.\<close>

definition Connector_dial :: "Config \<Rightarrow> dial_env \<Rightarrow> string \<Rightarrow> u32 option go" where
  "Connector_dial C E dst =
     (if \<not> de_src E \<or> \<not> de_dst E \<or> \<not> de_udp E then Inl (Explicit ''Connector'')
      else
        let sessionCache = []
        in go_bind
             (if \<not> cached sessionCache dst then Inr (fst (dial_loop (de_dials E) (max_conn_retry C) 0))
              else if de_early E then Inr True else Inl (Explicit ''DialAddrEarly''))
             (\<lambda>conn. if \<not> conn then Inr None
               else if \<not> de_stream E then Inl NilDeref
               else if \<not> de_write E then Inl (Explicit ''Write'')
               else Inr (Some (de_id E))))"

section \<open>The preamble\<close>

lemma read_preamble_full [simp]: "length bs = 5 \<Longrightarrow> length buf = 5 \<Longrightarrow> read_preamble buf bs = bs"
  by (simp add: read_preamble_def)

lemma length_read_preamble [simp]: "length buf = 5 \<Longrightarrow> length (read_preamble buf bs) = 5"
  by (simp add: read_preamble_def)

lemma read_preamble_none [simp]: "read_preamble buf [] = buf"
  by (simp add: read_preamble_def)

lemma length_session_info [simp]: "length (session_info t i) = 5"
  by (simp add: session_info_def PutUint32LE_def)

text \<open>The session that a preamble gives.\<close>

definition new_session :: "Config \<Rightarrow> byte \<Rightarrow> u32 \<Rightarrow> u16 \<Rightarrow> PuSession" where
  "new_session C t i n = (fst (CreatePuSession C t i False (CreatePuCtrl 0)))\<lparr>ps_index := n\<rparr>"

lemma accept_session_info:
  "accept_one C (session_info t i) p =
    p\<lparr>pu_numSession := pu_numSession p + 1, pu_sessionMap := gm_put (pu_sessionMap p) i (new_session C t i (pu_numSession p))\<rparr>"
  by (simp add: accept_one_def session_info_def PutUint32LE_nth CreatePuSession_def new_session_def CreatePuCtrl_def Let_def)

text \<open>The steps of the loop agree with \<open>Accept\<close> where all of the preamble arrives.\<close>

lemma accept_one_Accept: "length bs = 5 \<Longrightarrow> accept_one C bs p = Accept C bs p"
  by (simp add: accept_one_def Accept_def read_session_info_def ReadInto_def Let_def)

lemma listen_info:
  "length buf = 5 \<Longrightarrow> listen_loop C (Opened (session_info t i) # as) buf p =
    listen_loop C as (session_info t i) (accept_one C (session_info t i) p)"
  by (simp add: Let_def)

section \<open>Sessions that are established\<close>

text \<open>Entering sessions with the listener.\<close>

lemma listen_sessions:
  assumes "length buf = 5" and "distinct (map snd peers)" and "gm_ok (pu_sessionMap p)"
  shows "\<exists>buf' p'. listen_loop C (map (\<lambda>(t, i). Opened (session_info t i)) peers) buf p = Inr (buf', p') \<and>
    length buf' = 5 \<and> gm_ok (pu_sessionMap p') \<and>
    (\<forall>n < length peers. gm_get (pu_sessionMap p') (snd (peers ! n)) =
       Some (new_session C (fst (peers ! n)) (snd (peers ! n)) (pu_numSession p + of_nat n))) \<and>
    (\<forall>i. i \<notin> snd ` set peers \<longrightarrow> gm_get (pu_sessionMap p') i = gm_get (pu_sessionMap p) i)"
  using assms
proof (induction peers arbitrary: buf p)
  case Nil
  then show ?case by simp
next
  case (Cons peer peers)
  obtain t i where peer: "peer = (t, i)" by (cases peer)
  let ?p = "accept_one C (session_info t i) p"
  have ok: "gm_ok (pu_sessionMap ?p)" "pu_numSession ?p = pu_numSession p + 1"
    "\<And>j. gm_get (pu_sessionMap ?p) j =
      (if j = i then Some (new_session C t i (pu_numSession p)) else gm_get (pu_sessionMap p) j)"
    using Cons.prems(3) by (simp_all add: accept_session_info go_map.inv_put go_map.get_put)
  obtain buf' p' where r: "listen_loop C (map (\<lambda>(t, i). Opened (session_info t i)) peers) (session_info t i) ?p = Inr (buf', p')"
    "length buf' = 5" "gm_ok (pu_sessionMap p')"
    "\<forall>n < length peers. gm_get (pu_sessionMap p') (snd (peers ! n)) =
       Some (new_session C (fst (peers ! n)) (snd (peers ! n)) (pu_numSession ?p + of_nat n))"
    "\<forall>j. j \<notin> snd ` set peers \<longrightarrow> gm_get (pu_sessionMap p') j = gm_get (pu_sessionMap ?p) j"
    using Cons.IH [of "session_info t i" ?p] Cons.prems(2) ok(1) by auto
  have "i \<notin> snd ` set peers" using Cons.prems(2) peer by simp
  then have "gm_get (pu_sessionMap p') i = Some (new_session C t i (pu_numSession p))" using r(5) ok(3) by simp
  then have "gm_get (pu_sessionMap p') (snd ((peer # peers) ! n)) =
      Some (new_session C (fst ((peer # peers) ! n)) (snd ((peer # peers) ! n)) (pu_numSession p + of_nat n))"
    if "n < length (peer # peers)" for n
    using that r(4) ok(2) peer by (cases n) (auto simp: ac_simps)
  then show ?case using r Cons.prems(1) ok(3) peer by (intro exI [of _ buf'] exI [of _ p']) (auto simp: listen_info)
qed

text \<open>Whether and when dialling succeeds.\<close>

lemma dial_loop_result:
  "i \<le> n \<Longrightarrow> fst (dial_loop dials n i) \<longleftrightarrow> (\<exists>j. i \<le> j \<and> j < n \<and> dials j)"
proof (induction dials n i rule: dial_loop.induct)
  case (1 dials n i)
  show ?case
  proof (cases "i < n \<and> \<not> dials i")
    case True
    then have "fst (dial_loop dials n i) \<longleftrightarrow> (\<exists>j. Suc i \<le> j \<and> j < n \<and> dials j)"
      using 1 by (subst dial_loop.simps) simp
    moreover have "j \<noteq> i" if "dials j" for j using True that by auto
    ultimately show ?thesis by (metis Suc_leD le_antisym not_less_eq_eq)
  next
    case False
    then show ?thesis using 1(2) by (subst dial_loop.simps) auto
  qed
qed

lemma dial_loop_attempts: "i \<le> n \<Longrightarrow> snd (dial_loop dials n i) \<le> n"
  by (induction dials n i rule: dial_loop.induct) (subst dial_loop.simps, auto)

lemma Connector_dial_eq:
  assumes "de_src E" and "de_dst E" and "de_udp E"
  shows "Connector_dial C E dst =
    (if \<not> (\<exists>i < max_conn_retry C. de_dials E i) then Inr None
     else if \<not> de_stream E then Inl NilDeref else if \<not> de_write E then Inl (Explicit ''Write'')
     else Inr (Some (de_id E)))"
  using assms by (simp add: Connector_dial_def cached_def dial_loop_result)

text \<open>
  C23: A connector that reaches its peer within its attempts and the listener of the peer establish one session: when
  the whole preamble arrives at once, both enter it under the same ID and with the same type, the connector as its owner and the
  listener not, among the sessions of other peers, which stay as they are. Whether it is reached is decided by the first \<open>MAX_CONNECTION_RETRY\<close>
  attempts (five when that is zero); afterwards \<open>Connector\<close> returns nil. The 0-RTT branch is never taken.
\<close>

theorem session_established:
  assumes "de_src E" and "de_dst E" and "de_udp E" and "de_stream E" and "de_write E"
    and "de_id E \<notin> snd ` set peers" and "distinct (map snd peers)"
    and "gm_ok (pu_sessionMap p)" and "gm_ok (pu_sessionMap q)"
    and "my_ip C 0 = Inr addr"
  shows "Connector_dial C E dst = Inr (if \<exists>i < max_conn_retry C. de_dials E i then Some (de_id E) else None) \<and>
    (\<exists>s p' buf q' r. Connector C (Some (de_id E)) t p = (Some s, p') \<and>
      gm_get (pu_sessionMap p') (de_id E) = Some s \<and> ps_sessionType s = t \<and> ps_sessionID s = de_id E \<and> ps_sessionOwner s \<and>
      Listener True C (map (\<lambda>(t, i). Opened (session_info t i)) peers @ [Opened (ps_stream s)]) q = Inr (buf, q') \<and>
      gm_get (pu_sessionMap q') (de_id E) = Some r \<and> ps_sessionType r = t \<and> ps_sessionID r = de_id E \<and> \<not> ps_sessionOwner r \<and>
      (\<forall>i. i \<noteq> de_id E \<and> i \<notin> snd ` set peers \<longrightarrow> gm_get (pu_sessionMap q') i = gm_get (pu_sessionMap q) i))"
proof -
  let ?id = "de_id E" and ?peers = "peers @ [(t, de_id E)]"
  let ?s = "on_stream (\<lambda>b. b @ session_info t ?id) (fst (CreatePuSession C t ?id True p))"
  have dial: "Connector_dial C E dst = Inr (if \<exists>i < max_conn_retry C. de_dials E i then Some ?id else None)"
    using Connector_dial_eq [OF assms(1-3), of C dst] assms(4,5) by simp
  obtain p' where c: "Connector C (Some ?id) t p = (Some ?s, p')" "gm_get (pu_sessionMap p') ?id = Some ?s"
    using assms(8) by (simp add: Connector_def CreatePuSession_def go_map.get_put Let_def)
  have s: "ps_stream ?s = session_info t ?id" "ps_sessionType ?s = t" "ps_sessionID ?s = ?id" "ps_sessionOwner ?s"
    by (simp_all add: CreatePuSession_def on_stream_def)
  have "distinct (map snd ?peers)" using assms(6,7) by simp
  from listen_sessions [OF _ this assms(9), of "replicate 5 0" C] obtain buf q' where
    l: "listen_loop C (map (\<lambda>(t, i). Opened (session_info t i)) ?peers) (replicate 5 0) q = Inr (buf, q')"
    "\<forall>n < length ?peers. gm_get (pu_sessionMap q') (snd (?peers ! n)) =
       Some (new_session C (fst (?peers ! n)) (snd (?peers ! n)) (pu_numSession q + of_nat n))"
    "\<forall>i. i \<notin> snd ` set ?peers \<longrightarrow> gm_get (pu_sessionMap q') i = gm_get (pu_sessionMap q) i" by auto
  let ?r = "new_session C t ?id (pu_numSession q + of_nat (length peers))"
  have r: "gm_get (pu_sessionMap q') ?id = Some ?r" using l(2) [rule_format, of "length peers"] by simp
  have "Listener True C (map (\<lambda>(t, i). Opened (session_info t i)) peers @ [Opened (ps_stream ?s)]) q = Inr (buf, q')"
    using l(1) assms(10) s(1) by (simp add: Listener_def)
  moreover have "ps_sessionType ?r = t" "ps_sessionID ?r = ?id" "\<not> ps_sessionOwner ?r"
    by (simp_all add: new_session_def CreatePuSession_def)
  moreover have "\<forall>i. i \<noteq> ?id \<and> i \<notin> snd ` set peers \<longrightarrow> gm_get (pu_sessionMap q') i = gm_get (pu_sessionMap q) i"
    using l(3) by simp
  ultimately show ?thesis using dial c s r by blast
qed

text \<open>
  C24: The buffer of the listener is not cleared and the result of \<open>Read\<close> is not looked at. A peer that opens a
  stream and sends nothing takes the place of the peer before: its session is entered under that peer's ID and
  type, and what the session of that peer had become, its block and its state, is lost.
\<close>

theorem stale_preamble_replaces_session:
  assumes "length buf = 5" and "gm_ok (pu_sessionMap q)" and "gm_get (pu_sessionMap q) i = Some s"
  shows "(\<exists>p'. listen_loop C [Opened (session_info t i)] buf p = Inr (session_info t i, p')) \<and>
    (\<exists>q' r. listen_loop C [Opened []] (session_info t i) q = Inr (session_info t i, q') \<and>
      gm_get (pu_sessionMap q') i = Some r \<and> ps_sessionType r = t \<and> ps_sessionID r = i \<and> \<not> ps_sessionOwner r \<and>
      ps_blockNumber r = 0 \<and> ps_blockStatus r = PEER_NOT_KNOWN \<and> \<not> ps_blockReceiving r \<and> ps_stream r = [])"
proof -
  have "ps_sessionType r = t \<and> ps_sessionID r = i \<and> \<not> ps_sessionOwner r \<and> ps_blockNumber r = 0 \<and>
      ps_blockStatus r = PEER_NOT_KNOWN \<and> \<not> ps_blockReceiving r \<and> ps_stream r = []"
    if "r = new_session C t i (pu_numSession q)" for r using that by (simp add: new_session_def CreatePuSession_def)
  then show ?thesis using assms by (simp add: accept_session_info go_map.get_put listen_info)
qed

section \<open>Witnesses\<close>

definition tiny_dial :: dial_env where
  "tiny_dial = \<lparr>de_src = True, de_dst = True, de_udp = True, de_dials = (\<lambda>i. i = 2), de_early = False, de_stream = True,
     de_write = True, de_id = 77\<rparr>"

lemma empty_sessions: "gm_ok (pu_sessionMap (CreatePuCtrl n))"
  by (simp add: CreatePuCtrl_def gm_ok_def)

theorem session_established_witness:
  "Connector_dial tiny_config tiny_dial ''10.0.0.2'' = Inr (Some 77) \<and>
   (\<exists>buf q' r. Listener True tiny_config [Opened (session_info PULL_SESSION 5), Opened (session_info PUSH_SESSION 77)] (CreatePuCtrl 2)
      = Inr (buf, q') \<and> gm_get (pu_sessionMap q') 77 = Some r \<and> ps_sessionType r = PUSH_SESSION)"
proof -
  have m: "max_conn_retry tiny_config = 5" by (simp add: max_conn_retry_def tiny_config_def)
  have a: "my_ip tiny_config 0 = Inr ''10.0.0.1''" by (simp add: my_ip_def tiny_config_def)
  have d: "\<exists>i < 5. de_dials tiny_dial i" by (rule exI [of _ 2]) (simp add: tiny_dial_def)
  have i: "de_id tiny_dial = 77" by (simp add: tiny_dial_def)
  note w = session_established [where E = tiny_dial and peers = "[(PULL_SESSION, 5)]" and p = "CreatePuCtrl 1" and q = "CreatePuCtrl 2"
      and t = PUSH_SESSION and C = tiny_config and dst = "''10.0.0.2''", OF _ _ _ _ _ _ _ empty_sessions empty_sessions a]
  have c: "\<exists>p'. Connector tiny_config (Some 77) PUSH_SESSION (CreatePuCtrl 1) = (Some s, p') \<Longrightarrow> ps_stream s = session_info PUSH_SESSION 77" for s
    by (auto simp: Connector_def CreatePuSession_def on_stream_def Let_def)
  show ?thesis using w d c unfolding m i by (fastforce simp: tiny_dial_def)
qed

theorem stale_preamble_replaces_session_witness:
  "\<exists>q' r. listen_loop tiny_config [Opened []] (session_info PUSH_SESSION 77)
      ((CreatePuCtrl 2)\<lparr>pu_sessionMap := [(77, (new_session tiny_config PUSH_SESSION 77 0)\<lparr>ps_blockNumber := 9\<rparr>)]\<rparr>)
      = Inr (session_info PUSH_SESSION 77, q') \<and> gm_get (pu_sessionMap q') 77 = Some r \<and> ps_blockNumber r = 0"
proof -
  let ?q = "(CreatePuCtrl 2)\<lparr>pu_sessionMap := [(77, (new_session tiny_config PUSH_SESSION 77 0)\<lparr>ps_blockNumber := 9\<rparr>)]\<rparr>"
  have "gm_ok (pu_sessionMap ?q)" "gm_get (pu_sessionMap ?q) 77 = Some ((new_session tiny_config PUSH_SESSION 77 0)\<lparr>ps_blockNumber := 9\<rparr>)"
    by (simp_all add: gm_ok_def gm_get_def)
  from stale_preamble_replaces_session [of "replicate 5 0", OF _ this, of tiny_config PUSH_SESSION] show ?thesis by fastforce
qed

end
