(* ===== verification/Node_Start.thy ===== *)
theory Node_Start
  imports Consensus
begin

text \<open>
  The start of a w-node (\<open>main\<close>, \<open>start\<close>, \<open>GetAddresses\<close> and \<open>MP2BTPChildOnce\<close> of
  \<open>w-node/transceiver/node/main_integrated.go\<close>): it looks up its addresses, writes them into its configuration, creates the
  push/pull controller with it, and reports itself. The interfaces of the host, the TOML library, the file system
  and whether commands succeed are arguments. The clients of Kafka, gRPC and libp2p are left out.
\<close>

section \<open>Addresses\<close>

text \<open>An address of an interface; \<open>net.IP\<close> is a byte slice, nil is empty.\<close>

datatype if_addr = IPNet bytes | IPAddr bytes | OtherAddr

record iface =
  if_Loopback :: bool
  if_Up :: bool
  if_Addrs :: "if_addr list option"

text \<open>\<open>To4\<close>: four bytes, or sixteen of which the first twelve say that the address is one of IPv4.\<close>

definition To4 :: "bytes \<Rightarrow> bytes option" where
  "To4 ip =
     (if length ip = 4 then Some ip
      else if length ip = 16 \<and> take 12 ip = replicate 10 0 @ [0xFF, 0xFF] then Some (drop 12 ip)
      else None)"

definition addr_of :: "if_addr \<Rightarrow> string list" where
  "addr_of a =
     (let ip = (case a of IPNet ip \<Rightarrow> ip | IPAddr ip \<Rightarrow> ip | OtherAddr \<Rightarrow> [])
      in if ip = [] then []
         else case To4 ip of
                None \<Rightarrow> []
              | Some ip4 \<Rightarrow> [ip_String (ip4 ! 0) (ip4 ! 1) (ip4 ! 2) (ip4 ! 3)])"

definition GetAddresses :: "iface list option \<Rightarrow> string list" where
  "GetAddresses ifaces =
     (case ifaces of
        None \<Rightarrow> []
      | Some fs \<Rightarrow> concat (map (\<lambda>f.
          if if_Loopback f then []
          else if \<not> if_Up f then []
          else case if_Addrs f of None \<Rightarrow> [] | Some addrs \<Rightarrow> concat (map addr_of addrs)) fs))"

section \<open>The controller\<close>

record toml_lib =
  tm_Decode :: "string \<Rightarrow> Config option"
  tm_Encode :: "Config \<Rightarrow> string option"

text \<open>\<open>once\<close>: what the call before has made. \<open>CreatePuCtrl\<close> reads the configuration back from the file.\<close>

definition MP2BTPChildOnce ::
    "toml_lib \<Rightarrow> (string \<Rightarrow> bool) \<Rightarrow> iface list option \<Rightarrow> string option \<Rightarrow> bool \<Rightarrow> u32 \<Rightarrow> (Config \<times> PuCtrl) option \<Rightarrow>
     (Config \<times> PuCtrl) go" where
  "MP2BTPChildOnce T run ifaces configFile creatable peerId once =
     (case once of
        Some r \<Rightarrow> Inr r
      | None \<Rightarrow>
          (case Option.bind configFile (tm_Decode T) of
             None \<Rightarrow> Inl (Explicit ''toml.DecodeFile'')
           | Some cfg \<Rightarrow>
               let cfg = cfg\<lparr>MY_IP_ADDRS := GetAddresses ifaces\<rparr>
               in if \<not> creatable then Inl (Explicit ''os.Create'')
                  else case tm_Encode T cfg of
                         None \<Rightarrow> Inl (Explicit ''toml.Encode'')
                       | Some text \<Rightarrow>
                           (case tm_Decode T text of
                              None \<Rightarrow> Inl (Explicit ''toml.DecodeFile'')
                            | Some C \<Rightarrow> go_bind (Listen run C (CreatePuCtrl peerId)) (\<lambda>pu. Inr (C, pu)))))"

section \<open>The node\<close>

text \<open>The literal of \<open>main\<close>, and what \<open>start\<close> sets; the configuration is the global \<open>Conf\<close> of the controller. The
  goroutines that are started need the first address and nothing else here.\<close>

definition started_node :: "string \<Rightarrow> string list \<Rightarrow> PuCtrl \<Rightarrow> 'pk CONSENSUSNODE" where
  "started_node selfId addresses pu =
     \<lparr>cn_addresses = addresses, cn_selfId = selfId, cn_roundIdx = 0, cn_members = [], cn_leader = False, cn_channelID = [],
      cn_done = [], cn_pendingCommittee = None, cn_auditMsg = empty_audit, cn_isRunning = False,
      cn_publicKeyMap = Map.empty, cn_pubVec = [], cn_pu = pu, cn_startConsensusTime = 0, cn_gossip = []\<rparr>"

definition start ::
    "('pk, 'sg) bls_keys \<Rightarrow> toml_lib \<Rightarrow> (string \<Rightarrow> bool) \<Rightarrow> iface list option \<Rightarrow> string option \<Rightarrow> bool \<Rightarrow> u32 \<Rightarrow> int \<Rightarrow> string \<Rightarrow>
     (Config \<times> 'pk CONSENSUSNODE \<times> Node list) go" where
  "start K T run ifaces configFile creatable peerId now selfId =
     (let addresses = GetAddresses ifaces
      in go_bind (MP2BTPChildOnce T run ifaces configFile creatable peerId None) (\<lambda>(C, pu).
         let w = started_node selfId addresses pu
         in go_bind (Reporting K now w) (\<lambda>req. Inr (C, w, req))))"

section \<open>What the addresses are\<close>

text \<open>An address is listed exactly when an interface that is up and not the loopback has it as an IPv4 address, and as often.\<close>

definition ipv4_of :: "if_addr \<Rightarrow> bytes \<Rightarrow> bool" where
  "ipv4_of a ip4 \<longleftrightarrow> (\<exists>ip. (a = IPNet ip \<or> a = IPAddr ip) \<and> To4 ip = Some ip4)"

lemma addr_of_ipv4: "s \<in> set (addr_of a) \<longleftrightarrow>
    (\<exists>ip4. ipv4_of a ip4 \<and> s = ip_String (ip4 ! 0) (ip4 ! 1) (ip4 ! 2) (ip4 ! 3))"
  by (cases a) (auto simp: addr_of_def ipv4_of_def To4_def split: option.splits)

lemma GetAddresses_listed:
  "s \<in> set (GetAddresses (Some fs)) \<longleftrightarrow> (\<exists>f \<in> set fs. \<not> if_Loopback f \<and> if_Up f \<and>
    (\<exists>addrs. if_Addrs f = Some addrs \<and> (\<exists>a \<in> set addrs. s \<in> set (addr_of a))))"
proof (induction fs)
  case (Cons f fs)
  have "GetAddresses (Some (f # fs)) = (if if_Loopback f \<or> \<not> if_Up f then []
      else case if_Addrs f of None \<Rightarrow> [] | Some addrs \<Rightarrow> concat (map addr_of addrs)) @ GetAddresses (Some fs)"
    by (simp add: GetAddresses_def)
  then show ?case using Cons.IH by (auto split: option.splits)
qed (simp add: GetAddresses_def)

section \<open>When a node starts\<close>

lemma my_ip_eq: "my_ip C i = (if i < length (MY_IP_ADDRS C) then Inr (MY_IP_ADDRS C ! i) else Inl Bounds)"
  by (simp add: my_ip_def go_index_def)

text \<open>Reading more addresses than there are panics.\<close>

lemma go_map_my_ip:
  "go_map (my_ip C) is =
    (if \<forall>i \<in> set is. i < length (MY_IP_ADDRS C) then Inr (map ((!) (MY_IP_ADDRS C)) is) else Inl Bounds)"
  by (induction "is") (auto simp: my_ip_eq)

lemma quic_options_result:
  "(\<exists>cmd. quic_options C dst r t n = Inr cmd) \<or> quic_options C dst r t n = Inl Bounds"
  "(\<exists>cmd. quic_options C dst r t n = Inr cmd) \<longleftrightarrow>
    MY_IP_ADDRS C \<noteq> [] \<and> unat (NUM_MULTIPATH C) \<le> length (MY_IP_ADDRS C)"
proof -
  have "(\<forall>x < n. x < m) \<longleftrightarrow> n \<le> m" for n m :: nat by (meson less_le_trans not_le order.irrefl)
  then show "(\<exists>cmd. quic_options C dst r t n = Inr cmd) \<or> quic_options C dst r t n = Inl Bounds"
    "(\<exists>cmd. quic_options C dst r t n = Inr cmd) \<longleftrightarrow>
      MY_IP_ADDRS C \<noteq> [] \<and> unat (NUM_MULTIPATH C) \<le> length (MY_IP_ADDRS C)"
    by (auto simp: quic_options_def go_map_my_ip my_ip_eq Let_def Ball_def)
qed

text \<open>The rules that forwarding appends; those of \<open>-D\<close> may fail.\<close>

definition append_rules :: "Config \<Rightarrow> string list" where
  "append_rules C = map (\<lambda>chain. forward_cmd chain ''-A'' (EQUIC_APP_DST_PORT C) (hd (MY_IP_ADDRS C)) (EQUIC_APP_SRC_PORT C))
     [''PREROUTING'', ''OUTPUT'']"

abbreviation append_failed :: panic where
  "append_failed \<equiv> Explicit ''PuCtrl.EnablePacketForwarding(): Append Rule Failed!''"

lemma forwarding_result:
  assumes "MY_IP_ADDRS C \<noteq> []"
  shows "if list_all run (append_rules C)
    then \<exists>cmds. EnablePacketForwarding run C 0 False p = Inr (p\<lparr>pu_commands := pu_commands p @ cmds\<rparr>)
    else EnablePacketForwarding run C 0 False p = Inl append_failed"
proof -
  have f: "go_fold (\<lambda>c p. if run c then Inr (run_cmd c p) else Inl e) cs p =
      (if list_all run cs then Inr (p\<lparr>pu_commands := pu_commands p @ cs\<rparr>) else Inl e)" for cs p e
    by (induction cs arbitrary: p) (simp_all add: run_cmd_def)
  have g: "fold run_cmd cs p = p\<lparr>pu_commands := pu_commands p @ cs\<rparr>" for cs p
    by (induction cs arbitrary: p) (simp_all add: run_cmd_def)
  let ?drop = "map (\<lambda>chain. forward_cmd chain ''-D'' (EQUIC_APP_DST_PORT C) (hd (MY_IP_ADDRS C)) (EQUIC_APP_SRC_PORT C))
     [''PREROUTING'', ''OUTPUT'']"
  have ip: "my_ip C 0 = Inr (hd (MY_IP_ADDRS C))" using assms by (simp add: my_ip_eq hd_conv_nth)
  have e: "EnablePacketForwarding run C 0 False p =
      (if list_all run (append_rules C) then Inr (p\<lparr>pu_commands := pu_commands p @ (?drop @ append_rules C)\<rparr>) else Inl append_failed)"
    unfolding EnablePacketForwarding_def ip go_bind.simps f g Let_def append_rules_def by simp
  show ?thesis
  proof (cases "list_all run (append_rules C)")
    case True
    then show ?thesis unfolding e by (simp only: if_True) (rule exI, rule refl)
  next
    case False
    then show ?thesis unfolding e by (simp only: if_False simp_thms)
  qed
qed

lemma Listen_result:
  "if EQUIC_ENABLE C \<and> MY_IP_ADDRS C \<noteq> [] \<and> \<not> list_all run (append_rules C)
   then Listen run C (CreatePuCtrl n) = Inl append_failed
   else if EQUIC_ENABLE C \<and> (MY_IP_ADDRS C = [] \<or> length (MY_IP_ADDRS C) < unat (NUM_MULTIPATH C))
   then Listen run C (CreatePuCtrl n) = Inl Bounds
   else \<exists>cmds. Listen run C (CreatePuCtrl n) = Inr ((CreatePuCtrl n)\<lparr>pu_listening := True, pu_commands := cmds\<rparr>)"
proof (cases "EQUIC_ENABLE C \<and> MY_IP_ADDRS C \<noteq> []")
  case True
  let ?p = "(CreatePuCtrl n)\<lparr>pu_listening := True\<rparr>"
  have "\<not> pu_listening (CreatePuCtrl n)" by (simp add: CreatePuCtrl_def)
  then have l: "Listen run C (CreatePuCtrl n) =
      go_bind (EnablePacketForwarding run C 0 False ?p) (RunEnhancedQuic C [] False PULL_SESSION 0)"
    using True by (simp add: Listen_def Let_def)
  show ?thesis
  proof (cases "list_all run (append_rules C)")
    case rules: True
    obtain cmds where f: "EnablePacketForwarding run C 0 False ?p = Inr (?p\<lparr>pu_commands := pu_commands ?p @ cmds\<rparr>)"
      using forwarding_result [of C run ?p] True rules by auto
    show ?thesis
    proof (cases "unat (NUM_MULTIPATH C) \<le> length (MY_IP_ADDRS C)")
      case paths: True
      then obtain cmd where "quic_options C [] False PULL_SESSION 0 = Inr cmd"
        using quic_options_result(2) [of C "[]" False PULL_SESSION 0] True by blast
      then show ?thesis using True rules paths unfolding l f by (auto simp: RunEnhancedQuic_def run_cmd_def)
    next
      case False
      then have "quic_options C [] False PULL_SESSION 0 = Inl Bounds"
        using quic_options_result [of C "[]" False PULL_SESSION 0] by blast
      then show ?thesis using True rules False unfolding l f by (simp add: RunEnhancedQuic_def)
    qed
  next
    case False
    then show ?thesis using forwarding_result [of C run ?p] True unfolding l by simp
  qed
next
  case False
  then consider "\<not> EQUIC_ENABLE C" | "EQUIC_ENABLE C" "MY_IP_ADDRS C = []" by blast
  then show ?thesis
    by cases (simp_all add: Listen_def CreatePuCtrl_def EnablePacketForwarding_def my_ip_eq)
qed

text \<open>What is written to a configuration file is read back.\<close>

definition toml_ok :: "toml_lib \<Rightarrow> Config \<Rightarrow> bool" where
  "toml_ok T C \<longleftrightarrow> (\<exists>text. tm_Encode T C = Some text \<and> tm_Decode T text = Some C)"

text \<open>
  C30: A w-node whose configuration file can be read, written and read back starts if it has an IPv4 address and,
  when the configuration asks for Enhanced QUIC, both iptables rules of the forwarding to its first address can be
  appended and it has at least \<open>NUM_MULTIPATH\<close> addresses: then its controller listens with these addresses and
  without sessions, and it reports itself to the s-node with them. Otherwise it panics: with an index out of range
  when it has no address, or fewer than \<open>NUM_MULTIPATH\<close> (the configuration that comes with the node asks for two),
  and in the forwarding when a rule cannot be appended. That the tunnel's program starts and that the listener's
  goroutine can bind its port is assumed.
\<close>

theorem node_starts:
  assumes "toml_ok T (cfg\<lparr>MY_IP_ADDRS := GetAddresses ifaces\<rparr>)" and "tm_Decode T text = Some cfg"
  shows "let ips = GetAddresses ifaces; C = cfg\<lparr>MY_IP_ADDRS := ips\<rparr> in
    if EQUIC_ENABLE cfg \<and> ips \<noteq> [] \<and> \<not> list_all run (append_rules C)
    then start K T run ifaces (Some text) True peerId now selfId = Inl append_failed
    else if ips \<noteq> [] \<and> (EQUIC_ENABLE cfg \<longrightarrow> unat (NUM_MULTIPATH cfg) \<le> length ips)
    then \<exists>cmds node. start K T run ifaces (Some text) True peerId now selfId =
        Inr (C, started_node selfId ips ((CreatePuCtrl peerId)\<lparr>pu_listening := True, pu_commands := cmds\<rparr>), [node]) \<and>
        n_NodeID node = selfId \<and> n_Addrs node = ips
    else start K T run ifaces (Some text) True peerId now selfId = Inl Bounds"
proof -
  define ips where "ips = GetAddresses ifaces"
  let ?C = "cfg\<lparr>MY_IP_ADDRS := ips\<rparr>"
  have once: "MP2BTPChildOnce T run ifaces (Some text) True peerId None =
      go_bind (Listen run ?C (CreatePuCtrl peerId)) (\<lambda>pu. Inr (?C, pu))"
    using assms(1) by (auto simp: MP2BTPChildOnce_def toml_ok_def assms(2) ips_def Let_def)
  have report: "Reporting K now (started_node selfId ips pu) =
      (case ips of [] \<Rightarrow> Inl Bounds | ip # _ \<Rightarrow>
        Inr (createSelfMembership selfId ips ''11730'' (GenerateVRF K ip now)))" for pu
    by (cases ips) (simp_all add: Reporting_def started_node_def go_index_def)
  note l = Listen_result [of ?C run peerId, simplified]
  show ?thesis
  proof (cases "EQUIC_ENABLE cfg \<and> (ips = [] \<or> \<not> list_all run (append_rules ?C) \<or> length ips < unat (NUM_MULTIPATH cfg))")
    case True
    then show ?thesis using l by (auto simp: start_def once Let_def simp flip: ips_def)
  next
    case False
    then obtain cmds where "Listen run ?C (CreatePuCtrl peerId) = Inr ((CreatePuCtrl peerId)\<lparr>pu_listening := True, pu_commands := cmds\<rparr>)"
      using l by (auto split: if_splits)
    then have st: "start K T run ifaces (Some text) True peerId now selfId =
        go_bind (Reporting K now (started_node selfId ips ((CreatePuCtrl peerId)\<lparr>pu_listening := True, pu_commands := cmds\<rparr>)))
          (\<lambda>req. Inr (?C, started_node selfId ips ((CreatePuCtrl peerId)\<lparr>pu_listening := True, pu_commands := cmds\<rparr>), req))"
      by (simp add: start_def once Let_def flip: ips_def)
    show ?thesis using False unfolding st report
      by (cases ips) (auto simp: createSelfMembership_def Let_def simp flip: ips_def)
  qed
qed

section \<open>Witnesses\<close>

text \<open>A host with a loopback interface, one with an IPv4 and an IPv6 address, and one that is down.\<close>

definition tiny_ifaces :: "iface list" where
  "tiny_ifaces =
     [\<lparr>if_Loopback = True, if_Up = True, if_Addrs = Some [IPNet [127, 0, 0, 1]]\<rparr>,
      \<lparr>if_Loopback = False, if_Up = True, if_Addrs = Some [IPNet (replicate 10 0 @ [0xFF, 0xFF, 10, 0, 0, 1]), IPNet (replicate 16 1)]\<rparr>,
      \<lparr>if_Loopback = False, if_Up = False, if_Addrs = Some [IPNet [10, 0, 0, 2]]\<rparr>]"

lemma tiny_addresses: "GetAddresses (Some tiny_ifaces) = [''10.0.0.1'']"
  by code_simp

definition tiny_toml :: toml_lib where
  "tiny_toml = \<lparr>tm_Decode = (\<lambda>text. Some (if text = ''two'' then tiny_config\<lparr>EQUIC_ENABLE := True, NUM_MULTIPATH := 2\<rparr>
     else if text = ''two here'' then tiny_config\<lparr>EQUIC_ENABLE := True, NUM_MULTIPATH := 2, MY_IP_ADDRS := [''10.0.0.1'']\<rparr>
     else tiny_config)),
     tm_Encode = (\<lambda>C. Some (if NUM_MULTIPATH C = 2 then ''two here'' else []))\<rparr>"

definition echo_keys :: "(bytes, bytes) bls_keys" where
  "echo_keys = \<lparr>sk_SignByte = (\<lambda>m. m), sg_Serialize = (\<lambda>s. s), sg_Aggregate = concat, pk_Serialize = (\<lambda>k. k), pk_Own = [1]\<rparr>"

theorem node_starts_witness:
  "start echo_keys tiny_toml (\<lambda>_. True) (Some tiny_ifaces) (Some ''two'') True 1 0 ''w1'' = Inl Bounds \<and>
   (\<exists>cmds node. start echo_keys tiny_toml (\<lambda>_. True) (Some tiny_ifaces) (Some []) True 1 0 ''w1'' =
     Inr (tiny_config, started_node ''w1'' [''10.0.0.1''] ((CreatePuCtrl 1)\<lparr>pu_listening := True, pu_commands := cmds\<rparr>), [node]) \<and>
     n_NodeID node = ''w1'' \<and> n_Addrs node = [''10.0.0.1''])"
proof
  let ?two = "tiny_config\<lparr>EQUIC_ENABLE := True, NUM_MULTIPATH := 2\<rparr>"
  have "toml_ok tiny_toml (?two\<lparr>MY_IP_ADDRS := GetAddresses (Some tiny_ifaces)\<rparr>)" "tm_Decode tiny_toml ''two'' = Some ?two"
    by (simp_all add: toml_ok_def tiny_toml_def tiny_addresses tiny_config_def)
  from node_starts [OF this, of "\<lambda>_. True" echo_keys 1 0 "''w1''"]
  show "start echo_keys tiny_toml (\<lambda>_. True) (Some tiny_ifaces) (Some ''two'') True 1 0 ''w1'' = Inl Bounds"
    by (simp add: tiny_addresses append_rules_def Let_def)
  have one: "toml_ok tiny_toml (tiny_config\<lparr>MY_IP_ADDRS := GetAddresses (Some tiny_ifaces)\<rparr>)" "tm_Decode tiny_toml [] = Some tiny_config"
    by (simp_all add: toml_ok_def tiny_toml_def tiny_addresses tiny_config_def)
  from node_starts [OF one, of "\<lambda>_. True" echo_keys 1 0 "''w1''"]
  show "\<exists>cmds node. start echo_keys tiny_toml (\<lambda>_. True) (Some tiny_ifaces) (Some []) True 1 0 ''w1'' =
     Inr (tiny_config, started_node ''w1'' [''10.0.0.1''] ((CreatePuCtrl 1)\<lparr>pu_listening := True, pu_commands := cmds\<rparr>), [node]) \<and>
     n_NodeID node = ''w1'' \<and> n_Addrs node = [''10.0.0.1'']"
    by (simp add: tiny_addresses tiny_config_def Let_def)
qed

end
