(* ===== verification/Sdn_Client.thy ===== *)
theory Sdn_Client
  imports Go_Strings Prelude
begin

text \<open>
  The client of the SDN server beside a w-node (\<open>w-node/transceiver/sender/sdnclient.go\<close>): it measures the round-trip
  times to the server and to a partner with \<open>ping\<close>, reports them, and keeps the overlay structure it gets back.
  The services of the server are generated from files that are not in the repository; their answers and the
  parsing of floating-point numbers are arguments.
\<close>

section \<open>State\<close>

record 'f NetworkInfo =
  ni_NetworkInterface :: string
  ni_NetworkStrength :: 'f

record 'f PeerInfo =
  pi_Endpoint :: string
  pi_NetInfo :: "'f NetworkInfo option"

record OverlayStructure =
  ov_SuperPeer :: string
  ov_Endpoint :: string
  ov_SubPeers :: "string list"

text \<open>\<open>pe_open\<close>: whether the connection to the server is open.\<close>

record 'f Peer =
  pe_Mobile :: "'f PeerInfo"
  pe_D2D :: "'f PeerInfo"
  pe_OverlayStructure :: "OverlayStructure option"
  pe_open :: bool

text \<open>The deferred \<open>Close\<close> runs when \<open>PeerInitialization\<close> returns.\<close>

definition PeerInitialization :: "string \<Rightarrow> 'f Peer" where
  "PeerInitialization partner =
     (let p = \<lparr>pe_Mobile = \<lparr>pi_Endpoint = [], pi_NetInfo = None\<rparr>, pe_D2D = \<lparr>pi_Endpoint = partner, pi_NetInfo = None\<rparr>,
               pe_OverlayStructure = Some \<lparr>ov_SuperPeer = [], ov_Endpoint = [], ov_SubPeers = []\<rparr>, pe_open = True\<rparr>
      in p\<lparr>pe_open := False\<rparr>)"

section \<open>Measuring\<close>

text \<open>\<open>strings.Index\<close>.\<close>

fun strings_Index :: "string \<Rightarrow> string \<Rightarrow> int" where
  "strings_Index [] sub = (if sub = [] then 0 else - 1)"
| "strings_Index (c # cs) sub =
     (if take (length sub) (c # cs) = sub then 0
      else let i = strings_Index cs sub in if i < 0 then - 1 else i + 1)"

text \<open>\<open>s[i:]\<close> and \<open>s[:i]\<close>.\<close>

definition slice_from :: "string \<Rightarrow> int \<Rightarrow> string go" where
  "slice_from s i = (if 0 \<le> i \<and> i \<le> int (length s) then Inr (drop (nat i) s) else Inl Bounds)"

definition slice_to :: "string \<Rightarrow> int \<Rightarrow> string go" where
  "slice_to s i = (if 0 \<le> i \<and> i \<le> int (length s) then Inr (take (nat i) s) else Inl Bounds)"

text \<open>The text behind \<open>time=\<close>, and its beginning up to \<open>ms\<close>.\<close>

definition after_time :: "string \<Rightarrow> string go" where
  "after_time cmd = slice_from cmd (strings_Index cmd ''time='' + 5)"

definition rtt_text :: "string \<Rightarrow> string go" where
  "rtt_text tempRTT = slice_to tempRTT (strings_Index tempRTT '' ms'')"

text \<open>The partner is pinged again when the first output has no \<open>ms\<close>.\<close>

definition d2d_text :: "string \<Rightarrow> string \<Rightarrow> string go" where
  "d2d_text cmd again =
     go_bind (after_time cmd) (\<lambda>tempRTT.
       if strings_Index tempRTT '' ms'' = - 1 then go_bind (after_time again) rtt_text else rtt_text tempRTT)"

text \<open>\<open>parse\<close>: \<open>ParseFloat\<close>, whose error is only logged. The outputs are those of the pings in their order.\<close>

definition NetworkUpdate :: "(string \<Rightarrow> 'f) \<Rightarrow> string \<Rightarrow> string \<Rightarrow> string \<Rightarrow> 'f Peer \<Rightarrow> 'f Peer go" where
  "NetworkUpdate parse mec d2d again p =
     go_bind (after_time mec) (\<lambda>tempRTT. go_bind (rtt_text tempRTT) (\<lambda>t.
       let p = p\<lparr>pe_Mobile := (pe_Mobile p)\<lparr>pi_NetInfo :=
                 Some \<lparr>ni_NetworkInterface = ''Cellular'', ni_NetworkStrength = parse t\<rparr>\<rparr>\<rparr>
       in if pi_Endpoint (pe_D2D p) = [] then Inr p
          else go_bind (d2d_text d2d again) (\<lambda>t.
            Inr (p\<lparr>pe_D2D := (pe_D2D p)\<lparr>pi_NetInfo :=
              Some \<lparr>ni_NetworkInterface = ''D2D'', ni_NetworkStrength = parse t\<rparr>\<rparr>\<rparr>))))"

section \<open>Reporting\<close>

text \<open>What the server answers: the status of \<open>StorePeerInformation\<close> and the structure that
  \<open>UpdateOverlayStructure\<close> returns, nil with an error.\<close>

record 'f sdn_server =
  sv_Store :: "'f PeerInfo \<Rightarrow> 'f PeerInfo \<Rightarrow> bool option"
  sv_Update :: "'f PeerInfo \<Rightarrow> OverlayStructure option"

text \<open>A call on a closed connection is an error; then a new one is made. The structure is printed, whatever it is.
  The Boolean says whether the peers were stored.\<close>

definition ConnectSDNServer :: "'f sdn_server \<Rightarrow> 'f Peer \<Rightarrow> (bool \<times> 'f Peer) go" where
  "ConnectSDNServer S p =
     (case (if pe_open p then sv_Store S (pe_Mobile p) (pe_D2D p) else None) of
        None \<Rightarrow> Inr (False, p\<lparr>pe_open := True\<rparr>)
      | Some ok \<Rightarrow>
          if \<not> ok then Inr (False, p)
          else let p = p\<lparr>pe_OverlayStructure := sv_Update S (pe_Mobile p)\<rparr>
               in case pe_OverlayStructure p of None \<Rightarrow> Inl NilDeref | Some _ \<Rightarrow> Inr (True, p))"

text \<open>The endpoint is the buffer of 1024 bytes, with what one \<open>Read\<close> put into it.\<close>

definition ReceivePeerInformation ::
    "(string \<Rightarrow> 'f) \<Rightarrow> 'f sdn_server \<Rightarrow> string \<Rightarrow> bool \<Rightarrow> string \<Rightarrow> string \<Rightarrow> string \<Rightarrow> 'f Peer \<Rightarrow> 'f Peer go" where
  "ReceivePeerInformation parse S got written mec d2d again p =
     (let endpoint = take 1024 got @ replicate (1024 - length got) (CHR 0x00);
          p = p\<lparr>pe_Mobile := (pe_Mobile p)\<lparr>pi_Endpoint := endpoint\<rparr>\<rparr>
      in go_bind (NetworkUpdate parse mec d2d again p) (\<lambda>p.
           if \<not> written then Inr p
           else go_bind (ConnectSDNServer S p) (\<lambda>(_, p). Inr p)))"

definition SeeOverlayStructure :: "'f Peer \<Rightarrow> OverlayStructure go" where
  "SeeOverlayStructure p =
     (case pe_OverlayStructure p of
        None \<Rightarrow> Inl NilDeref
      | Some ov \<Rightarrow> Inr \<lparr>ov_SuperPeer = ov_SuperPeer ov, ov_Endpoint = ov_Endpoint ov, ov_SubPeers = ov_SubPeers ov\<rparr>)"

section \<open>Finding a text\<close>

lemma strings_Index_bounds: "- 1 \<le> strings_Index s sub \<and> strings_Index s sub + int (length sub) \<le> max (int (length s)) (int (length sub) - 1)"
proof (induction s sub rule: strings_Index.induct)
  case (2 c cs sub)
  show ?case
  proof (cases "take (length sub) (c # cs) = sub")
    case True
    then have "length sub \<le> length (c # cs)" by (metis length_take min.cobounded1)
    then show ?thesis using True by simp
  next
    case False
    then show ?thesis using 2 by (auto simp: Let_def)
  qed
qed simp

text \<open>The index of a text that stands behind others without it.\<close>

lemma strings_Index_first:
  assumes "\<And>i. i < length pre \<Longrightarrow> take (length sub) (drop i (pre @ sub @ post)) \<noteq> sub"
  shows "strings_Index (pre @ sub @ post) sub = int (length pre)"
  using assms
proof (induction pre)
  case Nil
  have "strings_Index s sub = 0" if "take (length sub) s = sub" for s using that by (cases s) auto
  then show ?case by simp
next
  case (Cons c pre)
  have "take (length sub) (c # pre @ sub @ post) \<noteq> sub" using Cons.prems [of 0] by simp
  moreover have "strings_Index (pre @ sub @ post) sub = int (length pre)"
    by (rule Cons.IH) (use Cons.prems [of "Suc _"] in simp)
  ultimately show ?case by (simp add: Let_def)
qed

lemma strings_Index_found: "0 \<le> strings_Index s sub \<Longrightarrow> \<exists>pre post. s = pre @ sub @ post \<and> length pre = nat (strings_Index s sub)"
proof (induction s sub rule: strings_Index.induct)
  case (1 sub)
  then show ?case by (cases "sub = []") auto
next
  case (2 c cs sub)
  show ?case
  proof (cases "take (length sub) (c # cs) = sub")
    case True
    then have "c # cs = [] @ sub @ drop (length sub) (c # cs)" by (metis append_Nil append_take_drop_id)
    then show ?thesis using True by (metis list.size(3) nat_0 strings_Index.simps(2))
  next
    case False
    then have "0 \<le> strings_Index cs sub" using 2(2) by (auto simp: Let_def split: if_splits)
    then obtain pre post where "cs = pre @ sub @ post" "length pre = nat (strings_Index cs sub)" using 2(1) False by blast
    then show ?thesis using False \<open>0 \<le> strings_Index cs sub\<close>
      by (intro exI [of _ "c # pre"] exI [of _ post]) (simp add: Let_def)
  qed
qed

lemma strings_Index_drop: "strings_Index s sub = - 1 \<Longrightarrow> strings_Index (drop n s) sub = - 1"
proof (induction n arbitrary: s)
  case (Suc n)
  have "strings_Index cs sub = - 1" if "s = c # cs" for c cs
    using Suc.prems that strings_Index_bounds [of cs sub] by (auto simp: Let_def split: if_splits)
  then show ?case using Suc by (cases s) auto
qed simp

section \<open>What is measured and reported\<close>

text \<open>
  The time of a ping that was answered is what stands between the first \<open>time=\<close> of its output and the first \<open>ms\<close>
  behind it.
\<close>

theorem ping_parsed:
  assumes "out = pre @ ''time='' @ t @ '' ms'' @ post"
    and "\<And>i. i < length pre \<Longrightarrow> take (length ''time='') (drop i out) \<noteq> ''time=''"
    and "\<And>i. i < length t \<Longrightarrow> take (length '' ms'') (drop i (t @ '' ms'' @ post)) \<noteq> '' ms''"
  shows "go_bind (after_time out) rtt_text = Inr t"
proof -
  have "strings_Index out ''time='' = int (length pre)"
    unfolding assms(1) by (rule strings_Index_first) (rule assms(2) [unfolded assms(1)])
  then have a: "after_time out = Inr (t @ '' ms'' @ post)"
    by (simp add: after_time_def slice_from_def assms(1) nat_add_distrib)
  have "strings_Index (t @ '' ms'' @ post) '' ms'' = int (length t)"
    by (rule strings_Index_first) (rule assms(3))
  then have "rtt_text (t @ '' ms'' @ post) = Inr t" unfolding rtt_text_def by (simp add: slice_to_def)
  then show ?thesis using a by simp
qed

text \<open>
  When a ping is not answered, its output has no time; \<open>Index\<close> is then \<open>-1\<close>, but the slices are taken all
  the same, and the client panics: when the server does not answer, and, with a partner, when the partner answers neither ping.
\<close>

theorem unanswered_ping_panics:
  assumes "strings_Index mec '' ms'' = - 1 \<or>
    pi_Endpoint (pe_D2D p) \<noteq> [] \<and> strings_Index d2d '' ms'' = - 1 \<and> strings_Index again '' ms'' = - 1 \<and>
      (\<exists>t. go_bind (after_time mec) rtt_text = Inr t)"
  shows "NetworkUpdate parse mec d2d again p = Inl Bounds"
proof -
  have none: "rtt_text (drop n out) = Inl Bounds" "strings_Index (drop n out) '' ms'' = - 1"
    if "strings_Index out '' ms'' = - 1" for out n
    using strings_Index_drop [OF that, of n] by (simp_all add: rtt_text_def slice_to_def)
  have bad: "go_bind (after_time out) rtt_text = Inl Bounds" if "strings_Index out '' ms'' = - 1" for out
    using none [OF that] by (simp add: after_time_def slice_from_def)
  have bad2: "d2d_text d2d again = Inl Bounds" if "strings_Index d2d '' ms'' = - 1" "strings_Index again '' ms'' = - 1"
    using none(2) [OF that(1)] bad [OF that(2)] by (simp add: d2d_text_def after_time_def slice_from_def)
  have eq: "NetworkUpdate parse mec d2d again p = go_bind (go_bind (after_time mec) rtt_text) (\<lambda>t.
       let p = p\<lparr>pe_Mobile := (pe_Mobile p)\<lparr>pi_NetInfo :=
                 Some \<lparr>ni_NetworkInterface = ''Cellular'', ni_NetworkStrength = parse t\<rparr>\<rparr>\<rparr>
       in if pi_Endpoint (pe_D2D p) = [] then Inr p
          else go_bind (d2d_text d2d again) (\<lambda>t.
            Inr (p\<lparr>pe_D2D := (pe_D2D p)\<lparr>pi_NetInfo :=
              Some \<lparr>ni_NetworkInterface = ''D2D'', ni_NetworkStrength = parse t\<rparr>\<rparr>\<rparr>)))"
    by (cases "after_time mec") (simp_all add: NetworkUpdate_def)
  show ?thesis using assms bad bad2 unfolding eq by (auto simp: Let_def)
qed

text \<open>
  The first report of a client is lost, since its connection was closed when the initialization returned; the
  next one is stored when the server takes it. The overlay structure is then the one the server answers with, and it is what a peer
  sees; when the server answers with an error instead, the structure is nil and the client panics.
\<close>

theorem first_report_lost:
  shows "\<exists>p. ConnectSDNServer S (PeerInitialization partner) = Inr (False, p) \<and>
    pe_OverlayStructure p = pe_OverlayStructure (PeerInitialization partner) \<and>
    (let m = pe_Mobile p; d = pe_D2D p
     in case sv_Store S m d of
          None \<Rightarrow> ConnectSDNServer S p = Inr (False, p)
        | Some stored \<Rightarrow> if \<not> stored then ConnectSDNServer S p = Inr (False, p)
            else case sv_Update S m of
                   None \<Rightarrow> ConnectSDNServer S p = Inl NilDeref
                 | Some ov \<Rightarrow> \<exists>q. ConnectSDNServer S p = Inr (True, q) \<and> SeeOverlayStructure q = Inr ov)"
  by (simp add: ConnectSDNServer_def PeerInitialization_def SeeOverlayStructure_def Let_def split: option.split)

text \<open>The endpoint that a peer sends is kept with the zeros of the buffer behind it.\<close>

theorem received_endpoint_padded:
  assumes "length got < 1024" and "ReceivePeerInformation parse S got written mec d2d again p = Inr q"
  shows "pi_Endpoint (pe_Mobile q) = got @ replicate (1024 - length got) (CHR 0x00) \<and> pi_Endpoint (pe_Mobile q) \<noteq> got"
proof -
  let ?e = "got @ replicate (1024 - length got) (CHR 0x00)"
  have upd: "pi_Endpoint (pe_Mobile r') = pi_Endpoint (pe_Mobile r)" if "NetworkUpdate parse mec d2d again r = Inr r'" for r r'
    using that by (auto simp: NetworkUpdate_def go_bind_Inr_iff Let_def split: if_splits)
  have con: "pi_Endpoint (pe_Mobile r') = pi_Endpoint (pe_Mobile r)" if "ConnectSDNServer S r = Inr (b, r')" for r b r'
    using that by (auto simp: ConnectSDNServer_def Let_def split: option.splits if_splits)
  have "pi_Endpoint (pe_Mobile q) = ?e" using assms upd con
    by (fastforce simp: ReceivePeerInformation_def go_bind_Inr_iff Let_def split: if_splits)
  then show ?thesis using assms(1) by simp
qed

section \<open>Witnesses\<close>

lemma less_numeral_cases: "i < Suc n \<longleftrightarrow> i < n \<or> i = n"
  by auto

theorem ping_parsed_witness:
  "go_bind (after_time ''ttl=5 time=12.3 ms'') rtt_text = Inr ''12.3''"
  by (rule ping_parsed [where pre = "''ttl=5 ''" and post = "[]"])
    (auto simp: less_numeral_cases numeral_eq_Suc)

theorem unanswered_ping_panics_witness:
  "NetworkUpdate length ''1 packets transmitted, 0 received, time 0ms'' [] [] (PeerInitialization []) = Inl Bounds"
  by (rule unanswered_ping_panics) simp

end
