(* ===== verification/Spec2Isabelle.thy ===== *)
theory Spec2Isabelle
  imports Packets_Var LT_Code Net_Addr Block_Props Framing_Props Ordering_Props Pu_Complete Pu_Resume Pu_Tree_Props
    Membership_Props Consensus_Props Channels_Props Gossip_Props Ledgers Quic_Props Pu_Stop
    Run_Props Node_Key Pu_Listen Node_Start Sdn_Client
begin

text \<open>
  A model of Serializer, a system that orders transactions for a blockchain and has committees of auditors agree
  on the aborted ones.

  \<^bold>\<open>The program.\<close> Four programs work together. The \<^emph>\<open>processor\<close> (\<open>kafka/processor\<close>) takes batches of transactions
  from Kafka, reorders those that conflict, and emits what is committed and what is aborted; next to it,
  \<open>kafka/contribution\<close> keeps a document for every channel and \<open>kafka/http\<close> lists the channels. The \<^emph>\<open>s-node\<close>
  (\<open>watchdog/s-node\<close>) opens a topic for each channel, collects membership requests, and forms a
  committee per round from the values of verifiable random functions. A \<^emph>\<open>w-node\<close> (\<open>watchdog/w-node/transceiver\<close>)
  reports itself to the s-node, adopts the committees it is in, and, as their leader, has the members vote on
  the aborts of a batch in two phases; the block goes to all nodes by gossip (\<open>wp2p\<close>) and into their
  ledgers (\<open>ledger\<close>), and each node that inserts it reports itself again. The messages of a committee
  travel over the \<^emph>\<open>push/pull controller\<close> (\<open>w-node/mp2btp-mainnew/puctrl\<close>), which also distributes blocks in
  segments along a tree of nodes, over several paths, with push, pull and forward error correction.

  \<^bold>\<open>Where what is modelled.\<close> Names are those of the sources; a prefix is added to fields only.

  \<^item> \<open>Prelude\<close>, \<open>Interfaces\<close>: panics (\<open>'a go\<close>), loops that may panic, words, and the contracts between
    components. \<open>Go_Strings\<close>, \<open>Sha256\<close>: what the program uses of Go's \<open>strconv\<close>, \<open>strings\<close> and \<open>crypto/sha256\<close>.
  \<^item> \<open>Conflict_Graph\<close>, \<open>Scheduler\<close>, \<open>Abort_Store\<close>, \<open>Ordering\<close> (\<open>processor.go\<close>): read and write sets, the graph and
    \<open>transactionScheduler\<close>, the abort counts in MongoDB, and \<open>loopProcess\<close> as \<open>process_batch\<close>. \<open>Processor_Run\<close>: the processor
    between its topics, as a step relation over the messages that come in and those looped back.
    \<open>Scheduler_Props\<close>, \<open>Ordering_Props\<close>, \<open>Run_Props\<close>: their properties.
  \<^item> \<open>Channels\<close> (\<open>contribution.go\<close>, \<open>http/server.go\<close>, \<open>s-node/wp2p/wp2p.go\<close>): from a message about a channel to the
    topic of the channel. \<open>Channels_Props\<close>. \<open>Node_Key\<close> (\<open>wp2p.go\<close>): the private key that s-nodes share over Kafka, for one
    s-node and for several that start one after the other or at once.
  \<^item> \<open>Byte_Codec\<close>, \<open>Net_Addr\<close> (\<open>puctrl/util\<close>), \<open>Packets\<close>, \<open>Packets_Var\<close> (\<open>puctrl/packet\<close>), \<open>Framing\<close>, \<open>Framing_Props\<close> (the wire
    side of \<open>puctrl_session.go\<close>).
  \<^item> \<open>LT_Code\<close> (\<open>fec/lt/lt.go\<close>), \<open>Segment\<close> (\<open>puctrl_segment.go\<close>, \<open>puctrl_stats.go\<close>), \<open>Block\<close> (\<open>puctrl_block.go\<close>), with
    \<open>Segment_Props\<close> and \<open>Block_Props\<close>; \<open>Safe_Map\<close> (\<open>puctrl_safemap.go\<close> and Go's maps).
  \<^item> \<open>Pu_State\<close> (the records \<open>PuCtrl\<close> and \<open>PuSession\<close>), \<open>Pu_Transfer\<close> (\<open>puctrl_handler.go\<close>), \<open>Pu_Tree\<close> (\<open>puctrl.go\<close>),
    \<open>Pu_Cmd\<close> (\<open>puctrl_cmd.go\<close>), \<open>Pu_Handlers\<close> (the packet handlers of \<open>puctrl_session.go\<close>). \<open>Pu_Send_Props\<close>,
    \<open>Pu_Recv_Props\<close>, \<open>Pu_Complete\<close>, \<open>Pu_Resume\<close>: the two sides of a transfer and the whole of it; \<open>Pu_Wf\<close>: the
    invariant of the controller's state, \<open>Pu_Stop\<close>: the same with the requests that stop a transmission in their single
    steps, since they take no lock; \<open>Pu_Tree_Props\<close>: the tree and its closing. \<open>Pu_Listen\<close>: \<open>Listener\<close> and the dialling
    of \<open>Connector\<close>, and the session the two establish.
  \<^item> \<open>Membership\<close> (\<open>s-node/membership/control.go\<close>, \<open>s-node/validator/main.go\<close>): the membership service as the step
    relation \<open>ms_step\<close> over requests, timers and tasks, and the node list. \<open>Membership_Props\<close>.
  \<^item> \<open>Consensus\<close> (\<open>w-node/transceiver/node/main_integrated.go\<close>): a w-node, from its report to the gossip of a block.
    \<open>Consensus_Props\<close>. \<open>Node_Start\<close>: the addresses, the controller and the first report of a w-node that starts. \<open>Quic_Round\<close> (\<open>main.go\<close> beside it): the w-node over plain QUIC, where it differs, with the exchanges of the
    leader as interleaved events. \<open>Quic_Props\<close>.
  \<^item> \<open>Gossip\<close> (\<open>protocol.go\<close>, \<open>pubsub.go\<close>, \<open>ledger/blk.go\<close>, the readers of the local ports): publishing, the three
    handlers of a topic, and the ledger. \<open>Gossip_Props\<close>. \<open>Ledgers\<close>: the network of w-nodes, with a ledger each, over the leaders' rounds and
    the insertions that wait. \<open>Sdn_Client\<close> (\<open>transceiver/sender/sdnclient.go\<close>): the client of the SDN
    server.

  \<^bold>\<open>How state and effects are modelled.\<close> A struct is a record, and an operation a function from state to state. What
  runs under a lock, or between two waits, is one step; goroutines interleave as a step relation or as a list
  of events that the theorems quantify over. Where the code shares data without a lock, a step is still one operation or one
  iteration of a goroutine, as the text beside the definition says, except in \<open>Pu_Stop\<close> and \<open>Ledgers\<close>, which split such operations;
  torn reads and Go's detection of concurrent map writes are not modelled. A panic, \<open>log.Fatal\<close> included, is the left summand of \<open>'a go\<close>; an operation
  that blocks returns \<open>None\<close>. Integers keep their width where they can wrap: \<open>u16\<close>, \<open>u32\<close>, 64-bit words. The order in
  which Go visits a map, and in which an unstable sort puts equal elements, is an argument (\<open>in_order\<close>).

  \<^bold>\<open>The interfaces\<close> are locales. \<open>codec\<close> (a writer and its parser) is interpreted on every packet type and on
  the byte orders; \<open>kv_store\<close> on \<open>SafeMap\<close> and on Go's maps; \<open>machine\<close> (a step relation and its invariant) on the membership
  service, its closed rounds and its stuck state, the node list, the closing of the tree, the controller with and without
  the steps of requests, the list of topics, the runs of the processor, the s-nodes that start, and the ledgers; \<open>terminating_machine\<close> on the scheduler; \<open>refinement\<close> on the download of a block,
  which refines the transfer of chunks in any order.

  \<^bold>\<open>What the theorems show.\<close> For the processor: over any run the envelopes emitted are those of the messages handled, committed ones precede
  what they conflict with in the order the scheduler chose, the scheduler ends, and urgent transactions win;
  where positions and indices are mixed up, or an envelope cannot be read, the batch panics. S-nodes that start in time share one identity.
  For the controller: a connector and a listener establish one session, a stream of packets is
  parsed back, a segment and a block are reassembled whatever the order and the sessions, a download over a push session refines
  its specification, can end with the block and does not panic, every transmission loop sends what it was asked for, sessions and
  channels stay well formed in every order of the operations, and the tree is closed from the leaves. A w-node starts when it has
  the addresses its configuration asks for and can forward to them. For committees: they consist
  of verified nodes in the order of their values, once per round and topic, they reach their members, a forged one
  is not adopted, honest phases end with a signature that verifies, over plain QUIC a whole
  round in any interleaving ends with one that all members have signed and checked, and the ledgers are one chain while votes echo the block before and
  no round starts before every node has inserted the block of the last one. Findings are proved as theorems too: an unframed packet is lost, a late request is
  stranded, a silent peer replaces a session, a round number used twice stops the service, a block is published without votes or with a member
  silent, a commit is not verified, the last vote writes the block, and a block is recorded with parts of an earlier one; as lemmas,
  that two requests at once close a channel twice (\<open>concurrent_requests_panic\<close>) and that a round which starts too early forks the ledgers
  (\<open>early_round_forks\<close>, \<open>forked_run\<close>).

  \<^bold>\<open>Bounds and fuel.\<close> No definition uses fuel. The loop over the messages of a QUIC stream is a partial function, which is shown to return when the decoder
  takes something off the stream for each. Other recursions that are not structural have measures: the scheduler (nodes
  left), the frame loop and SHA-256 (bytes left), \<open>swap_loop\<close> and the ranges of numbers (distance to the end). Loops that wait take a list of
  the events that arrive; that they end is stated with the events that make them end, and \<open>None\<close> otherwise.
  Committees have at most 20 members, a TCP reader takes 20000 bytes of a committee and 8192 of a block, votes
  are waited for until a \<open>Timeout\<close> event: these are the constants of the code.

  \<^bold>\<open>Arguments and hypotheses.\<close> Code outside the repository is an argument of the definitions that use it: the fountain
  code library, the BLS library (theorems assume that honest signatures aggregate, \<open>aggregation_ok\<close>, and that a
  node's own key and signature parse, \<open>own_keys_ok\<close>), MongoDB (\<open>inc_upsert\<close>, \<open>documented\<close>, \<open>ledger_ok\<close>), JSON, gob, protocol
  buffers and TOML (\<open>toml_ok\<close>, \<open>key_lib_ok\<close> for keys; \<open>wire_ok\<close> says which fields a text keeps, \<open>stream_ok\<close> that a round's messages are read back), SHA-512, dialling and running commands. Every such hypothesis
  is met by a concrete instance in a witness.

  \<^bold>\<open>Not modelled.\<close> The set-up of QUIC, TLS, gRPC, Kafka, goka, libp2p and MongoDB clients, logging and time measurements do not
  compute anything but calls of these libraries; \<open>readWithSize\<close>, \<open>getPublicIP\<close> and \<open>getContainerIP\<close> are never called. \<open>w-node/transceiver/node/main.go\<close> is an earlier variant that no longer fits the message types; only
  its rounds are modelled, the field it misses is an argument. Two processors are commented out, the rest of \<open>sender\<close>, \<open>auditor\<close>, \<open>bft\<close>, \<open>example\<close> and \<open>fec/test\<close> hold samples; message code is
  generated, and \<open>vendor\<close>, \<open>grpc-go\<close> and \<open>bls-eth-go-binary\<close> are third-party code.
\<close>

end
